(* ===== verification/Prelude.thy ===== *)
theory Prelude
  imports
    Main
    "HOL-Library.Finite_Map"
    "HOL-Library.List_Lexorder"
    "HOL-Library.Char_ord"
    "HOL-Library.Word"
begin

text \<open>
  Shared vocabulary of the development: the type synonyms for the machine types of the
  sources, finite maps with the operations the C++ containers offer (\<open>emplace\<close>, \<open>find\<close> with
  a default), iteration over hash tables, and the generic lemmas every component uses.
  Ordered (\<open>std::map\<close>) and hashed (\<open>std::unordered_map\<close>) containers are both finite maps:
  the order of \<open>std::map\<close> is the sorted list of keys, the order of a hash table is a
  parameter wherever the program can observe it.
\<close>

section \<open>Machine types and containers\<close>

type_synonym u64 = "64 word"
type_synonym u32 = "32 word"
type_synonym u8 = "8 word"
type_synonym fieldmap = "(string, string) fmap"

named_theorems container_simps \<open>lookup facts of the container operations\<close>
named_theorems loop_defs \<open>unfolding of loops written as recursive functions\<close>

text \<open>\<open>emplace\<close> of the standard containers inserts only when the key is absent.\<close>

definition emplace :: "'k \<Rightarrow> 'v \<Rightarrow> ('k, 'v) fmap \<Rightarrow> ('k, 'v) fmap" where
  "emplace k v m = (case fmlookup m k of None \<Rightarrow> fmupd k v m | Some _ \<Rightarrow> m)"

text \<open>The idiom \<open>it == end() ? "" : it->second\<close>.\<close>

definition get_or_empty :: "('k, 'a list) fmap \<Rightarrow> 'k \<Rightarrow> 'a list" where
  "get_or_empty m k = (case fmlookup m k of None \<Rightarrow> [] | Some v \<Rightarrow> v)"

text \<open>The idiom \<open>if (v.empty()) m.erase(k); else m[k] = v;\<close>.\<close>

definition set_or_erase :: "'k \<Rightarrow> 'a list \<Rightarrow> ('k, 'a list) fmap \<Rightarrow> ('k, 'a list) fmap" where
  "set_or_erase k v m = (if v = [] then fmdrop k m else fmupd k v m)"

definition sorted_keys :: "('k::linorder, 'v) fmap \<Rightarrow> 'k list" where
  "sorted_keys m = sorted_list_of_fset (fmdom m)"

text \<open>An iteration order of a hash table enumerates the keys once each.\<close>

definition enumerates :: "'k list \<Rightarrow> ('k, 'v) fmap \<Rightarrow> bool" where
  "enumerates ks m \<longleftrightarrow> distinct ks \<and> set ks = fmdom' m"

text \<open>An oracle for the iteration order of every hash table of a type.\<close>

definition hash_order :: "(('k, 'v) fmap \<Rightarrow> 'k list) \<Rightarrow> bool" where
  "hash_order f \<longleftrightarrow> (\<forall>m. enumerates (f m) m)"

section \<open>Generic lemmas\<close>

lemma unat_bound: "unat (u :: 'a::len word) < 2 ^ LENGTH('a)"
  by (rule unsigned_less)

lemma unat_bound64: "unat (u :: u64) < 18446744073709551616"
  using unat_bound [of u] by simp

lemma emplace_lookup [simp, container_simps]:
  "fmlookup (emplace k v m) k' =
     (if k = k' \<and> fmlookup m k = None then Some v else fmlookup m k')"
  by (auto simp: emplace_def split: option.splits)

lemma get_or_empty_upd [simp, container_simps]:
  "get_or_empty (fmupd k v m) k' = (if k = k' then v else get_or_empty m k')"
  by (simp add: get_or_empty_def)

lemma get_or_empty_drop [simp, container_simps]:
  "get_or_empty (fmdrop k m) k' = (if k = k' then [] else get_or_empty m k')"
  by (simp add: get_or_empty_def)

lemma get_or_empty_empty [simp, container_simps]: "get_or_empty fmempty k = []"
  by (simp add: get_or_empty_def)

lemma get_or_empty_set_or_erase [simp, container_simps]:
  "get_or_empty (set_or_erase k v m) k' = (if k = k' then v else get_or_empty m k')"
  by (simp add: set_or_erase_def)

lemma set_or_erase_lookup [container_simps]:
  "fmlookup (set_or_erase k v m) k' =
     (if k = k' then (if v = [] then None else Some v) else fmlookup m k')"
  by (simp add: set_or_erase_def)

lemma sorted_keys_enumerates [simp]: "enumerates (sorted_keys m) m"
  by (simp add: enumerates_def sorted_keys_def fmdom'_alt_def sorted_list_of_fset.rep_eq)

lemma set_sorted_keys [simp]: "set (sorted_keys m) = fmdom' m"
  by (simp add: sorted_keys_def fmdom'_alt_def)

lemma distinct_sorted_keys [simp]: "distinct (sorted_keys m)"
  by (simp add: sorted_keys_def sorted_list_of_fset.rep_eq)

lemma sorted_sorted_keys [simp]: "sorted (sorted_keys m)"
  by (simp add: sorted_keys_def sorted_list_of_fset.rep_eq)

lemma sorted_keys_hash_order [simp]: "hash_order sorted_keys"
  by (simp add: hash_order_def)

lemma sorted_list_of_fmap_keys: "sorted_list_of_fmap m = map (\<lambda>k. (k, the (fmlookup m k))) (sorted_keys m)"
  by (simp add: sorted_list_of_fmap_def sorted_keys_def)

lemma map_fst_sorted_list_of_fmap [simp]: "map fst (sorted_list_of_fmap m) = sorted_keys m"
  by (simp add: sorted_list_of_fmap_keys comp_def)

lemma set_sorted_list_of_fmap:
  "(k, v) \<in> set (sorted_list_of_fmap m) \<longleftrightarrow> fmlookup m k = Some v"
proof -
  have "distinct (map fst (sorted_list_of_fmap m))" by simp
  then have "(k, v) \<in> set (sorted_list_of_fmap m) \<longleftrightarrow> map_of (sorted_list_of_fmap m) k = Some v"
    by (rule map_of_eq_Some_iff [symmetric])
  then show ?thesis by simp
qed

lemma sorted_list_of_fmap_empty_iff [simp]: "sorted_list_of_fmap m = [] \<longleftrightarrow> m = fmempty"
proof
  assume "sorted_list_of_fmap m = []"
  then have "map_of (sorted_list_of_fmap m) = Map.empty" by simp
  then show "m = fmempty" by (intro fmap_ext) simp
next
  assume "m = fmempty"
  then show "sorted_list_of_fmap m = []" by (simp add: sorted_list_of_fmap_keys sorted_keys_def sorted_list_of_fset.rep_eq)
qed

lemma sorted_list_of_fmap_empty [simp]: "sorted_list_of_fmap fmempty = []"
  by simp

lemma sorted_keys_empty [simp]: "sorted_keys fmempty = []"
  by (simp add: sorted_keys_def sorted_list_of_fset.rep_eq)

lemma fmap_of_sorted_list [simp]: "fmap_of_list (sorted_list_of_fmap m) = m"
  by (rule fmap_ext) (simp add: fmlookup_of_list)

text \<open>Folding an update over a list of distinct keys, the loop over a container.\<close>

lemma fold_lookup_other:
  assumes "\<And>k m x. k \<noteq> x \<Longrightarrow> fmlookup (f k m) x = fmlookup m x" and "x \<notin> set ks"
  shows "fmlookup (fold f ks m) x = fmlookup m x"
  using assms(2) by (induction ks arbitrary: m) (auto simp: assms(1))

lemma fold_lookup_distinct:
  assumes other: "\<And>k m x. k \<noteq> x \<Longrightarrow> fmlookup (f k m) x = fmlookup m x"
    and upd: "\<And>k m. fmlookup (f k m) k = g k (fmlookup m k)"
    and "distinct ks"
  shows "fmlookup (fold f ks m) x = (if x \<in> set ks then g x (fmlookup m x) else fmlookup m x)"
  using assms(3)
proof (induction ks arbitrary: m)
  case Nil
  then show ?case by simp
next
  case (Cons k ks)
  then have "fmlookup (fold f ks (f k m)) x =
      (if x \<in> set ks then g x (fmlookup (f k m) x) else fmlookup (f k m) x)" by simp
  with Cons.prems show ?case
    by (cases "x = k") (auto simp: upd other [of k x])
qed

lemma fold_related:
  assumes step: "\<And>x a b. R a b \<Longrightarrow> R (f x a) (f x b)" and "R a b"
  shows "R (fold f xs a) (fold f xs b)"
  using assms(2) by (induction xs arbitrary: a b) (auto intro: step)

lemma fold_invariant:
  assumes step: "\<And>x s. x \<in> set xs \<Longrightarrow> P s \<Longrightarrow> P (f x s)" and "P s"
  shows "P (fold f xs s)"
  using assms by (induction xs arbitrary: s) auto

lemma find_Some_distinct:
  assumes "distinct (map f xs)" and "x \<in> set xs"
  shows "find (\<lambda>y. f y = f x) xs = Some x"
  using assms by (induction xs) auto

lemma map_of_notin [simp]: "k \<notin> fst ` set xs \<Longrightarrow> map_of xs k = None"
  by (simp add: map_of_eq_None_iff)

lemma find_None_image: "find (\<lambda>y. f y = u) xs = None \<longleftrightarrow> u \<notin> f ` set xs"
  by (auto simp: find_None_iff)

end
