(* ===== verification/Text_Format.thy ===== *)
theory Text_Format
  imports Prelude
begin

text \<open>
  \<open>src/util/format\<close>: splitting text at a delimiter, parsing and printing decimal integers
  (\<open>std::from_chars\<close> and \<open>std::to_string\<close> of the C++ standard library), shortening
  strings, and the level-state fingerprint (FNV-1a and its hexadecimal form; the hash of a
  whole state is in the theory of the level model).
\<close>

section \<open>Splitting\<close>

text \<open>
  \<open>parsing::splitView\<close>: the loop over \<open>i = 0 .. s.size()\<close> inclusive, which emits the slice
  from \<open>start\<close> at each delimiter and at the end.
\<close>

function splitView_loop :: "string \<Rightarrow> char \<Rightarrow> nat \<Rightarrow> nat \<Rightarrow> string list" where
  "splitView_loop s delim start i =
     (if i \<le> length s then
        (if i = length s \<or> s ! i = delim
         then take (i - start) (drop start s) # splitView_loop s delim (i + 1) (i + 1)
         else splitView_loop s delim start (i + 1))
      else [])"
  by pat_completeness auto
termination
  by (relation "measure (\<lambda>(s, delim, start, i). Suc (length s) - i)") auto

declare splitView_loop.simps [simp del]

definition splitView :: "string \<Rightarrow> char \<Rightarrow> string list" where
  "splitView s delim = splitView_loop s delim 0 0"

text \<open>The reference: a structural split, and the inverse operation.\<close>

fun split_at :: "char \<Rightarrow> string \<Rightarrow> string list" where
  "split_at d [] = [[]]"
| "split_at d (c # cs) =
     (if c = d then [] # split_at d cs
      else (case split_at d cs of [] \<Rightarrow> [[c]] | t # ts \<Rightarrow> (c # t) # ts))"

fun join_with :: "char \<Rightarrow> string list \<Rightarrow> string" where
  "join_with d [] = []"
| "join_with d [t] = t"
| "join_with d (t # ts) = t @ d # join_with d ts"

lemma split_at_nonempty [simp]: "split_at d s \<noteq> []"
  by (cases s) (auto split: list.splits)

lemma split_at_append_delim: "d \<notin> set t \<Longrightarrow> split_at d (t @ d # s) = t # split_at d s"
  by (induction t) auto

lemma split_at_no_delim: "d \<notin> set t \<Longrightarrow> split_at d t = [t]"
  by (induction t) auto

lemma split_at_pieces: "t \<in> set (split_at d s) \<Longrightarrow> d \<notin> set t \<and> set t \<subseteq> set s"
proof (induction s arbitrary: t)
  case Nil
  then show ?case by simp
next
  case (Cons c cs)
  show ?case
  proof (cases "split_at d cs")
    case Nil
    then show ?thesis by simp
  next
    case (Cons u us)
    with Cons.prems Cons.IH show ?thesis
      by (fastforce split: if_splits)
  qed
qed

lemma join_with_Cons: "ts \<noteq> [] \<Longrightarrow> join_with d (t # ts) = t @ d # join_with d ts"
  by (cases ts) auto

lemma join_split: "join_with d (split_at d s) = s"
proof (induction s)
  case Nil
  then show ?case by simp
next
  case (Cons c cs)
  obtain t ts where ts: "split_at d cs = t # ts" by (cases "split_at d cs") auto
  show ?case
    by (cases ts) (use Cons.IH ts in \<open>auto simp: join_with_Cons\<close>)
qed

lemma split_join:
  assumes "ts \<noteq> []" and "\<forall>t \<in> set ts. d \<notin> set t"
  shows "split_at d (join_with d ts) = ts"
  using assms
proof (induction d ts rule: join_with.induct)
  case (3 d t t' ts)
  then show ?case by (simp add: split_at_append_delim)
qed (auto simp: split_at_no_delim)

lemma splitView_loop_split_at:
  assumes "start \<le> i" and "i \<le> length s" and "d \<notin> set (take (i - start) (drop start s))"
  shows "splitView_loop s d start i = split_at d (drop start s)"
  using assms
proof (induction s d start i rule: splitView_loop.induct)
  case (1 s d start i)
  define p where "p = take (i - start) (drop start s)"
  have split: "drop start s = p @ drop i s"
    using "1.prems"(1) by (simp add: p_def) (metis add.commute append_take_drop_id drop_drop le_add_diff_inverse2)
  have p: "d \<notin> set p" using "1.prems"(3) by (simp add: p_def)
  consider (fin) "i = length s" | (hit) "i < length s" "s ! i = d" | (miss) "i < length s" "s ! i \<noteq> d"
    using "1.prems"(2) by fastforce
  then show ?case
  proof cases
    case fin
    have "splitView_loop s d (i + 1) (i + 1) = []"
      using fin by (simp add: splitView_loop.simps)
    moreover have "take (i - start) (drop start s) = drop start s" using fin by simp
    ultimately show ?thesis using fin p split
      by (subst splitView_loop.simps) (simp add: split_at_no_delim)
  next
    case hit
    then have "drop i s = d # drop (Suc i) s" by (metis Cons_nth_drop_Suc)
    moreover have "splitView_loop s d (i + 1) (i + 1) = split_at d (drop (i + 1) s)"
      using hit "1.prems" by (intro "1.IH"(1)) auto
    ultimately have "splitView_loop s d start i = p # split_at d (drop (i + 1) s)"
      using hit by (subst splitView_loop.simps) (simp add: p_def)
    then show ?thesis using \<open>drop i s = d # drop (Suc i) s\<close> p split
      by (simp add: split_at_append_delim)
  next
    case miss
    have "take (i + 1 - start) (drop start s) = p @ [s ! i]"
      using miss "1.prems"(1) by (simp add: p_def Suc_diff_le take_Suc_conv_app_nth)
    then have "splitView_loop s d start (i + 1) = split_at d (drop start s)"
      using miss "1.prems" p by (intro "1.IH"(2)) (auto simp: Suc_le_eq)
    then show ?thesis using miss
      by (subst splitView_loop.simps) simp
  qed
qed

lemma splitView_eq: "splitView s d = split_at d s"
  using splitView_loop_split_at [of 0 0 s d] by (simp add: splitView_def)

section \<open>Decimal numbers\<close>

text \<open>
  \<open>std::to_string\<close> and \<open>std::from_chars\<close> in base 10.  \<open>from_chars\<close> takes the longest run
  of digits (after an optional minus sign for a signed type), fails on an empty run and on
  a value outside the type's range; the callers of the sources also require that the whole
  text was consumed, so the parsers below return \<open>None\<close> unless it was.
\<close>

definition digit_char :: "nat \<Rightarrow> char" where
  "digit_char d = char_of (48 + d)"

definition is_digit :: "char \<Rightarrow> bool" where
  "is_digit c \<longleftrightarrow> 48 \<le> (of_char c :: nat) \<and> (of_char c :: nat) \<le> 57"

definition digit_val :: "char \<Rightarrow> nat" where
  "digit_val c = of_char c - 48"

fun nat_to_string :: "nat \<Rightarrow> string" where
  "nat_to_string n =
     (if n < 10 then [digit_char n] else nat_to_string (n div 10) @ [digit_char (n mod 10)])"

declare nat_to_string.simps [simp del]

definition int_to_string :: "int \<Rightarrow> string" where
  "int_to_string i = (if i < 0 then CHR 0x2D # nat_to_string (nat (- i)) else nat_to_string (nat i))"

definition digits_val :: "string \<Rightarrow> nat" where
  "digits_val s = foldl (\<lambda>acc c. 10 * acc + digit_val c) 0 s"

definition parse_nat :: "string \<Rightarrow> nat option" where
  "parse_nat s = (if s \<noteq> [] \<and> list_all is_digit s then Some (digits_val s) else None)"

text \<open>\<open>parseUInt64Full\<close> of \<open>Delta.cpp\<close>: an unsigned 64-bit value.\<close>

definition parseUInt64Full :: "string \<Rightarrow> u64 option" where
  "parseUInt64Full s =
     (case parse_nat s of
        None \<Rightarrow> None
      | Some n \<Rightarrow> if int n < 2 ^ 64 then Some (word_of_int (int n)) else None)"

text \<open>A signed value of the given range: \<open>parsing::parseInt\<close> and \<open>parseInt64\<close>.\<close>

definition parse_signed :: "int \<Rightarrow> string \<Rightarrow> int option" where
  "parse_signed bound s =
     (case s of
        [] \<Rightarrow> None
      | c # cs \<Rightarrow>
          (if c = CHR 0x2D then
             (case parse_nat cs of
                None \<Rightarrow> None
              | Some n \<Rightarrow> if int n \<le> bound then Some (- int n) else None)
           else
             (case parse_nat s of
                None \<Rightarrow> None
              | Some n \<Rightarrow> if int n < bound then Some (int n) else None)))"

definition parseInt :: "string \<Rightarrow> int option" where
  "parseInt s = parse_signed (2 ^ 31) s"

definition parseInt64 :: "string \<Rightarrow> int option" where
  "parseInt64 s = parse_signed (2 ^ 63) s"

lemma digit_char_simps [simp]:
  assumes "d < 10"
  shows "is_digit (digit_char d)" and "digit_val (digit_char d) = d"
  using assms by (simp_all add: digit_char_def is_digit_def digit_val_def)

lemma nat_to_string_nonempty [simp]: "nat_to_string n \<noteq> []"
  by (subst nat_to_string.simps) simp

lemma nat_to_string_digits: "list_all is_digit (nat_to_string n)"
proof (induction n rule: nat_to_string.induct)
  case (1 n)
  then show ?case
    by (cases "n < 10") (auto simp: nat_to_string.simps [of n])
qed

lemma digits_val_snoc: "digits_val (s @ [c]) = 10 * digits_val s + digit_val c"
  by (simp add: digits_val_def)

lemma digits_val_nat_to_string: "digits_val (nat_to_string n) = n"
proof (induction n rule: nat_to_string.induct)
  case (1 n)
  show ?case
  proof (cases "n < 10")
    case True
    then show ?thesis by (simp add: nat_to_string.simps [of n] digits_val_def)
  next
    case False
    then show ?thesis
      using "1.IH" by (simp add: nat_to_string.simps [of n] digits_val_snoc)
  qed
qed

lemma parse_nat_to_string [simp]: "parse_nat (nat_to_string n) = Some n"
  by (simp add: parse_nat_def nat_to_string_digits digits_val_nat_to_string)

lemma nat_to_string_inj: "nat_to_string m = nat_to_string n \<Longrightarrow> m = n"
  by (metis digits_val_nat_to_string)

lemma not_digit_minus: "\<not> is_digit (CHR 0x2D)"
  by (simp add: is_digit_def)

lemma hd_nat_to_string: "nat_to_string n = c # cs \<Longrightarrow> c \<noteq> CHR 0x2D"
  using nat_to_string_digits [of n] not_digit_minus by auto

lemma parse_signed_to_string:
  assumes "- bound \<le> i" and "i < bound"
  shows "parse_signed bound (int_to_string i) = Some i"
proof (cases "i < 0")
  case True
  with assms show ?thesis by (simp add: parse_signed_def int_to_string_def)
next
  case False
  obtain c cs where cs: "nat_to_string (nat i) = c # cs"
    by (cases "nat_to_string (nat i)") auto
  then have "parse_nat (c # cs) = Some (nat i)"
    by (metis parse_nat_to_string)
  with False assms cs hd_nat_to_string [OF cs] show ?thesis
    by (simp add: parse_signed_def int_to_string_def)
qed

lemma parse_uint64_to_string [simp]:
  "parseUInt64Full (nat_to_string (unat (u :: u64))) = Some u"
proof -
  have "uint u < 18446744073709551616" using unsigned_less [of u, where 'a = int] by simp
  then show ?thesis by (simp add: parseUInt64Full_def)
qed

lemma parse_signed_bounds:
  "0 \<le> bound \<Longrightarrow> parse_signed bound s = Some i \<Longrightarrow> - bound \<le> i \<and> i \<le> bound"
  by (auto simp: parse_signed_def split: list.splits option.splits if_splits)

section \<open>Shortening\<close>

text \<open>\<open>shorten\<close> of \<open>Shorten.hpp\<close>.\<close>

definition shorten :: "string \<Rightarrow> nat \<Rightarrow> string" where
  "shorten s maxChars =
     (if length s \<le> maxChars then s
      else if maxChars \<le> 3 then take maxChars s
      else take (maxChars - 3) s @ ''...'')"

lemma length_shorten: "length (shorten s n) = min (length s) n"
  by (auto simp: shorten_def)

section \<open>Fingerprints of text\<close>

text \<open>\<open>fnv1a64\<close> and \<open>hex64\<close> of \<open>StateHash.cpp\<close>, on 64-bit words.\<close>

definition fnv1a64 :: "string \<Rightarrow> u64" where
  "fnv1a64 text =
     foldl (\<lambda>h c. xor h (of_nat (of_char c)) * 1099511628211) 14695981039346656037 text"

definition nibble_char :: "nat \<Rightarrow> char" where
  "nibble_char nib = (if nib < 10 then char_of (48 + nib) else char_of (97 + (nib - 10)))"

text \<open>
  The loop runs \<open>i\<close> from 15 down to 0, writes the low nibble at position \<open>i\<close> and shifts the
  value right by four bits: the text is built from its end.
\<close>

fun hex64_loop :: "nat \<Rightarrow> u64 \<Rightarrow> string \<Rightarrow> string" where
  "hex64_loop 0 value out = out"
| "hex64_loop (Suc i) value out =
     hex64_loop i (drop_bit 4 value) (nibble_char (unat (and value 0xF)) # out)"

definition hex64 :: "u64 \<Rightarrow> string" where
  "hex64 value = hex64_loop 16 value []"

definition hex_digit_val :: "char \<Rightarrow> nat" where
  "hex_digit_val c = (let n = of_char c in if n \<le> 57 then n - 48 else n - 87)"

definition hex_val :: "string \<Rightarrow> nat" where
  "hex_val s = foldl (\<lambda>a c. 16 * a + hex_digit_val c) 0 s"

lemma hex_digit_val_nibble [simp]: "n < 16 \<Longrightarrow> hex_digit_val (nibble_char n) = n"
  by (auto simp: hex_digit_val_def nibble_char_def Let_def)

lemma hex_foldl:
  "foldl (\<lambda>a c. 16 * a + hex_digit_val c) b s = b * 16 ^ length s + hex_val s"
proof (induction s arbitrary: b)
  case Nil
  then show ?case by (simp add: hex_val_def)
next
  case (Cons c s)
  have "foldl (\<lambda>a c. 16 * a + hex_digit_val c) b (c # s) =
      (16 * b + hex_digit_val c) * 16 ^ length s + hex_val s"
    using Cons.IH [of "16 * b + hex_digit_val c"] by simp
  moreover have "hex_val (c # s) = hex_digit_val c * 16 ^ length s + hex_val s"
    using Cons.IH [of "hex_digit_val c"] by (simp add: hex_val_def)
  ultimately show ?case by (simp add: distrib_right)
qed

lemma hex_val_Cons: "hex_val (c # s) = hex_digit_val c * 16 ^ length s + hex_val s"
  using hex_foldl [of "hex_digit_val c" s] by (simp add: hex_val_def)

lemma unat_low_nibble: "unat (and v 0xF :: u64) = unat v mod 16"
proof -
  have "and v 0xF = take_bit 4 v" by (simp add: take_bit_eq_mask mask_eq_exp_minus_1)
  then have "unat (and v 0xF) = take_bit 4 (unat v)" by (simp only: unsigned_take_bit_eq)
  then show ?thesis by (simp only: take_bit_eq_mod) simp
qed

lemma unat_shift_nibble: "unat (drop_bit 4 v :: u64) = unat v div 16"
  using unat_bound64 [of v] by (subst unsigned_drop_bit_eq) (simp add: drop_bit_eq_div take_bit_eq_mod)

lemma length_hex64_loop [simp]: "length (hex64_loop n v out) = n + length out"
  by (induction n v out rule: hex64_loop.induct) simp_all

lemma hex_val_hex64_loop:
  "hex_val (hex64_loop n v out) = (unat v mod 16 ^ n) * 16 ^ length out + hex_val out"
proof (induction n v out rule: hex64_loop.induct)
  case (1 v out)
  then show ?case by simp
next
  case (2 n v out)
  have "(unat v div 16 mod 16 ^ n) * 16 + unat v mod 16 = unat v mod 16 ^ Suc n"
    by (simp add: mod_mult2_eq)
  moreover have "hex_val (hex64_loop (Suc n) v out) =
      ((unat v div 16 mod 16 ^ n) * 16 + unat v mod 16) * 16 ^ length out + hex_val out"
    using 2 by (simp add: unat_shift_nibble unat_low_nibble hex_val_Cons algebra_simps)
  ultimately show ?case by simp
qed

lemma hex_val_hex64 [simp]: "hex_val (hex64 v) = unat v"
proof -
  have "hex_val (hex64_loop 16 v []) = unat v mod 16 ^ 16" 
    unfolding hex_val_hex64_loop by (simp add: hex_val_def)
  also have "\<dots> = unat v" using unat_bound64 [of v] by simp
  finally show ?thesis by (simp add: hex64_def)
qed

end
