(* ===== verification/Blob_Codec.thy ===== *)
theory Blob_Codec
  imports Text_Format
begin

text \<open>
  \<open>src/util/io/BlobCodec.cpp\<close>: the stored form of a delta, a four-byte little-endian length
  followed by the zlib stream.  zlib is not part of the repository: \<open>compress2\<close> and
  \<open>uncompress\<close> are the fields of a record that every function takes, and \<open>zlib_ok\<close> is what
  their documentation promises.
\<close>

section \<open>zlib\<close>

record zlib =
  z_compress2 :: "string \<Rightarrow> int \<Rightarrow> string option"
  z_uncompress :: "nat \<Rightarrow> string \<Rightarrow> string option"

text \<open>Inflating a deflated text into a buffer that is large enough gives the text back.\<close>

definition zlib_ok :: "zlib \<Rightarrow> bool" where
  "zlib_ok z \<longleftrightarrow>
     (\<forall>raw level out n. z_compress2 z raw level = Some out \<longrightarrow> length raw \<le> n \<longrightarrow>
        z_uncompress z n out = Some raw)"

section \<open>The code\<close>

definition kMaxBlobFootprintBytes :: int where
  "kMaxBlobFootprintBytes = 1000000000"

definition isBlobFootprintTooLarge :: "nat \<Rightarrow> bool" where
  "isBlobFootprintTooLarge rawSize \<longleftrightarrow> int rawSize > kMaxBlobFootprintBytes"

definition le32_bytes :: "u32 \<Rightarrow> string" where
  "le32_bytes n = map (\<lambda>i. char_of (unat (drop_bit (8 * i) n))) [0, 1, 2, 3]"

definition le32_value :: "string \<Rightarrow> int" where
  "le32_value s = (case s of a # b # c # d # _ \<Rightarrow>
       of_char a + 256 * of_char b + 65536 * of_char c + 16777216 * of_char d | _ \<Rightarrow> 0)"

definition compressBlob :: "zlib \<Rightarrow> string \<Rightarrow> int \<Rightarrow> string option" where
  "compressBlob z raw level =
     (if isBlobFootprintTooLarge (length raw) then None
      else (case z_compress2 z raw level of
              None \<Rightarrow> None
            | Some out \<Rightarrow> Some (le32_bytes (of_nat (length raw)) @ out)))"

definition decompressBlob :: "zlib \<Rightarrow> string \<Rightarrow> string option" where
  "decompressBlob z bytes =
     (if length bytes < 4 then None
      else
        (let n = le32_value bytes in
         if n > kMaxBlobFootprintBytes then None
         else
           (case z_uncompress z (nat n) (drop 4 bytes) of
              None \<Rightarrow> None
            | Some out \<Rightarrow> if int (length out) \<noteq> n then None else Some out)))"

section \<open>Round trip\<close>

lemma length_le32 [simp]: "length (le32_bytes n) = 4"
  by (simp add: le32_bytes_def)

lemma of_char_char_of_mod: "(of_char (char_of (n :: nat)) :: int) = int (n mod 256)"
proof -
  have "(of_char (char_of n) :: nat) = n mod 256" by simp
  then show ?thesis by (metis of_nat_of_char)
qed

lemma unat_drop_bit32: "unat (drop_bit k (n :: u32)) = unat n div 2 ^ k"
proof -
  have "unat (drop_bit k n) = drop_bit k (take_bit LENGTH(32) (unat n))"
    by (simp add: unsigned_drop_bit_eq)
  also have "take_bit LENGTH(32) (unat n) = unat n"
    using unat_bound [of n] by (simp add: take_bit_nat_eq_self)
  finally show ?thesis by (simp add: drop_bit_eq_div)
qed

lemma le32_value_bytes [simp]: "le32_value (le32_bytes n @ s) = int (unat n)"
proof -
  have b: "unat n < 4294967296" using unat_bound [of n] by simp
  let ?m = "unat n"
  define a1 where "a1 = ?m div 256"
  define a2 where "a2 = a1 div 256"
  define a3 where "a3 = a2 div 256"
  have d: "?m div 65536 = a2" "?m div 16777216 = a3"
    by (simp_all add: a1_def a2_def a3_def div_mult2_eq [symmetric])
  have "a3 < 256" using b by (simp add: d(2) [symmetric] div_less_iff_less_mult)
  then have "a3 mod 256 = a3" by simp
  moreover have "?m = 256 * a1 + ?m mod 256" "a1 = 256 * a2 + a1 mod 256" "a2 = 256 * a3 + a2 mod 256"
    by (simp_all add: a1_def a2_def a3_def)
  ultimately have "?m mod 256 + 256 * (a1 mod 256) + 65536 * (a2 mod 256) + 16777216 * (a3 mod 256) = ?m"
    by linarith
  then have "int (?m mod 256) + 256 * int (?m div 256 mod 256) + 65536 * int (?m div 65536 mod 256)
      + 16777216 * int (?m div 16777216 mod 256) = int ?m"
    unfolding d a1_def [symmetric] by linarith
  then show ?thesis
    by (simp add: le32_value_def le32_bytes_def of_char_char_of_mod unat_drop_bit32)
qed

lemma decompress_compress:
  assumes "zlib_ok z" and "compressBlob z raw level = Some stored"
  shows "decompressBlob z stored = Some raw"
proof -
  from assms(2) obtain out where
    small: "int (length raw) \<le> kMaxBlobFootprintBytes" and out: "z_compress2 z raw level = Some out"
    and stored: "stored = le32_bytes (of_nat (length raw)) @ out"
    by (auto simp: compressBlob_def isBlobFootprintTooLarge_def split: if_splits option.splits)
  from small have "length raw < 2 ^ 32" by (simp add: kMaxBlobFootprintBytes_def)
  then have n: "unat (of_nat (length raw) :: u32) = length raw"
    by (simp add: unsigned_of_nat take_bit_nat_eq_self)
  have "z_uncompress z (length raw) out = Some raw"
    using assms(1) out by (simp add: zlib_ok_def)
  with small show ?thesis by (simp add: decompressBlob_def stored Let_def n)
qed

lemma decompress_bound:
  "decompressBlob z stored = Some raw \<Longrightarrow> int (length raw) \<le> kMaxBlobFootprintBytes"
  by (auto simp: decompressBlob_def Let_def split: if_splits option.splits)

lemma compressBlob_nonempty: "compressBlob z b l = Some stored \<Longrightarrow> stored \<noteq> []"
  by (auto simp: compressBlob_def le32_bytes_def split: if_splits option.splits)

text \<open>A concrete instance, the deflate format's stored blocks without their framing.\<close>

definition stored_zlib :: zlib where
  "stored_zlib = \<lparr>z_compress2 = \<lambda>raw level. Some raw,
     z_uncompress = \<lambda>n s. if length s \<le> n then Some s else None\<rparr>"

lemma stored_zlib_ok: "zlib_ok stored_zlib"
  by (simp add: zlib_ok_def stored_zlib_def)

text \<open>
  A delta survives storage: whatever the store compressed is decompressed to the same
  bytes, nothing larger than the cap is ever produced by decompression, and a payload above
  the cap is refused when it is written.
\<close>

theorem blob_roundtrip:
  assumes "zlib_ok z" and "compressBlob z raw level = Some stored"
  shows "decompressBlob z stored = Some raw
    \<and> (\<forall>bytes out. decompressBlob z bytes = Some out \<longrightarrow> int (length out) \<le> kMaxBlobFootprintBytes)
    \<and> (\<forall>big. int (length big) > kMaxBlobFootprintBytes \<longrightarrow> compressBlob z big level = None)"
  using decompress_compress [OF assms] decompress_bound
  by (auto simp: compressBlob_def isBlobFootprintTooLarge_def)

theorem blob_roundtrip_witness:
  "compressBlob stored_zlib ''abc'' 9 = Some (map char_of [3 :: nat, 0, 0, 0] @ ''abc'')
   \<and> decompressBlob stored_zlib (map char_of [3 :: nat, 0, 0, 0] @ ''abc'') = Some ''abc''"
proof
  show c: "compressBlob stored_zlib ''abc'' 9 = Some (map char_of [3 :: nat, 0, 0, 0] @ ''abc'')"
    by code_simp
  show "decompressBlob stored_zlib (map char_of [3 :: nat, 0, 0, 0] @ ''abc'') = Some ''abc''"
    using blob_roundtrip [OF stored_zlib_ok c] by blast
qed

end
