(* ===== verification/Commit_Db.thy ===== *)
theory Commit_Db
  imports Blob_Codec "HOL-Library.Product_Lexorder"
begin

text \<open>
  The database under \<open>src/store\<close>: the tables of \<open>CommitSchema.cpp\<close>, the SQL statements of
  \<open>CommitStore.cpp\<close> as functions on them, and a connection with its transaction.  The SQL
  text is executed by SQLite; a statement here does what its text says on the tables, and
  may fail at any execution: the connection carries a schedule of failures (busy, disk full,
  I/O error) that every call of the SQLite interface consumes.  A statement that fails
  leaves the tables as they were; outside a transaction a statement that would break a
  foreign key fails, inside the deferred transactions of this program \<open>COMMIT\<close> does.
\<close>

section \<open>Tables\<close>

type_synonym commit_id = int
type_synonym level_key = string

record crow =
  r_level :: level_key
  r_parent :: "commit_id option"
  r_reverts :: "commit_id option"
  r_message :: string
  r_created :: int
  r_blob :: string

record db =
  commits :: "(commit_id, crow) fmap"
  refs :: "(level_key, commit_id) fmap"
  autoinc :: int
  meta_version :: "string option"

definition empty_db :: db where
  "empty_db = \<lparr>commits = fmempty, refs = fmempty, autoinc = 0, meta_version = None\<rparr>"

text \<open>\<open>parent_id\<close>, \<open>reverts_id\<close> and \<open>head_id\<close> reference \<open>commits(id)\<close>.\<close>

definition ref_ok :: "db \<Rightarrow> commit_id option \<Rightarrow> bool" where
  "ref_ok d r = (case r of None \<Rightarrow> True | Some i \<Rightarrow> fmlookup (commits d) i \<noteq> None)"

definition fk_ok :: "db \<Rightarrow> bool" where
  "fk_ok d \<longleftrightarrow>
     fmpred (\<lambda>_ r. ref_ok d (r_parent r) \<and> ref_ok d (r_reverts r)) (commits d) \<and>
     fmpred (\<lambda>_ h. ref_ok d (Some h)) (refs d)"

section \<open>Statements\<close>

type_synonym 'r stmt = "db \<Rightarrow> (db \<times> 'r) option"

text \<open>\<open>AUTOINCREMENT\<close>: one more than the largest identifier ever used; full at the end of the range.\<close>

definition max_rowid :: int where
  "max_rowid = 2 ^ 63 - 1"

definition stmt_insert :: "crow \<Rightarrow> commit_id stmt" where
  "stmt_insert r d =
     (let used = max (autoinc d) (fold max (sorted_keys (commits d)) 0) in
      if used = max_rowid then None
      else Some (d\<lparr>commits := fmupd (used + 1) r (commits d), autoinc := used + 1\<rparr>, used + 1))"

definition stmt_update_message :: "commit_id \<Rightarrow> string \<Rightarrow> nat stmt" where
  "stmt_update_message i msg d =
     (case fmlookup (commits d) i of
        None \<Rightarrow> Some (d, 0)
      | Some r \<Rightarrow> Some (d\<lparr>commits := fmupd i (r\<lparr>r_message := msg\<rparr>) (commits d)\<rparr>, 1))"

definition stmt_set_head :: "level_key \<Rightarrow> commit_id \<Rightarrow> unit stmt" where
  "stmt_set_head lk i d = Some (d\<lparr>refs := fmupd lk i (refs d)\<rparr>, ())"

definition stmt_delete_refs :: "level_key \<Rightarrow> unit stmt" where
  "stmt_delete_refs lk d = Some (d\<lparr>refs := fmdrop lk (refs d)\<rparr>, ())"

definition stmt_delete_commits :: "level_key \<Rightarrow> unit stmt" where
  "stmt_delete_commits lk d =
     Some (d\<lparr>commits := fmfilter (\<lambda>i. r_level (the (fmlookup (commits d) i)) \<noteq> lk) (commits d)\<rparr>, ())"

text \<open>The four statements of \<open>squash\<close>.\<close>

definition reparent_row :: "commit_id \<Rightarrow> commit_id \<Rightarrow> level_key \<Rightarrow> commit_id \<Rightarrow> crow \<Rightarrow> crow" where
  "reparent_row newId newest lk i r =
     (if r_parent r = Some newest \<and> r_level r = lk \<and> i \<noteq> newId then r\<lparr>r_parent := Some newId\<rparr> else r)"

definition stmt_reparent :: "commit_id \<Rightarrow> commit_id \<Rightarrow> level_key \<Rightarrow> unit stmt" where
  "stmt_reparent newId newest lk d =
     Some (d\<lparr>commits := fmmap_keys (reparent_row newId newest lk) (commits d)\<rparr>, ())"

definition clear_row :: "commit_id list \<Rightarrow> crow \<Rightarrow> crow" where
  "clear_row ids r =
     (case r_reverts r of
        Some v \<Rightarrow> if v \<in> set ids then r\<lparr>r_reverts := None\<rparr> else r
      | None \<Rightarrow> r)"

definition stmt_clear_reverts :: "commit_id list \<Rightarrow> unit stmt" where
  "stmt_clear_reverts ids d = Some (d\<lparr>commits := fmmap (clear_row ids) (commits d)\<rparr>, ())"

definition stmt_move_head :: "commit_id \<Rightarrow> commit_id list \<Rightarrow> level_key \<Rightarrow> unit stmt" where
  "stmt_move_head newId ids lk d =
     Some (d\<lparr>refs := (case fmlookup (refs d) lk of
         Some h \<Rightarrow> if h \<in> set ids then fmupd lk newId (refs d) else refs d
       | None \<Rightarrow> refs d)\<rparr>, ())"

definition stmt_delete_ids :: "commit_id list \<Rightarrow> unit stmt" where
  "stmt_delete_ids ids d = Some (d\<lparr>commits := fmfilter (\<lambda>i. i \<notin> set ids) (commits d)\<rparr>, ())"

text \<open>Queries: \<open>ORDER BY created_at DESC, id DESC\<close>.\<close>

definition level_ids :: "db \<Rightarrow> level_key \<Rightarrow> commit_id list" where
  "level_ids d lk =
     rev (sort_key (\<lambda>i. (r_created (the (fmlookup (commits d) i)), i))
       (filter (\<lambda>i. r_level (the (fmlookup (commits d) i)) = lk) (sorted_keys (commits d))))"

definition level_rows :: "db \<Rightarrow> level_key \<Rightarrow> (commit_id \<times> crow) list" where
  "level_rows d lk = map (\<lambda>i. (i, the (fmlookup (commits d) i))) (level_ids d lk)"

section \<open>Connections and transactions\<close>

record conn =
  is_open :: bool
  cdb :: db
  saved :: "db option"
  fk_on :: bool
  faults :: "bool list"

text \<open>One call of the SQLite interface: whether it fails.\<close>

definition tick :: "conn \<Rightarrow> bool \<times> conn" where
  "tick c = (case faults c of [] \<Rightarrow> (False, c) | f # fs \<Rightarrow> (f, c\<lparr>faults := fs\<rparr>))"

definition exec :: "'r stmt \<Rightarrow> conn \<Rightarrow> 'r option \<times> conn" where
  "exec s c =
     (case tick c of (failed, c1) \<Rightarrow>
        if failed then (None, c1)
        else
          (case s (cdb c1) of
             None \<Rightarrow> (None, c1)
           | Some (d', r) \<Rightarrow>
               if saved c1 = None \<and> fk_on c1 \<and> \<not> fk_ok d' then (None, c1)
               else (Some r, c1\<lparr>cdb := d'\<rparr>)))"

text \<open>Stepping through the rows of a query; an error ends the loop like the end of the rows.\<close>

fun fetch :: "'a list \<Rightarrow> conn \<Rightarrow> 'a list \<times> conn" where
  "fetch [] c = ([], snd (tick c))"
| "fetch (r # rs) c =
     (case tick c of (failed, c1) \<Rightarrow>
        if failed then ([], c1)
        else (case fetch rs c1 of (out, c2) \<Rightarrow> (r # out, c2)))"

text \<open>\<open>DeferredFkTransaction\<close>.\<close>

definition restore :: "conn \<Rightarrow> conn" where
  "restore c = (case saved c of None \<Rightarrow> c | Some d \<Rightarrow> c\<lparr>cdb := d, saved := None\<rparr>)"

definition tx_begin :: "conn \<Rightarrow> bool \<times> conn" where
  "tx_begin c =
     (case tick c of (failed, c1) \<Rightarrow>
        if failed then (False, c1)
        else
          (case tick (c1\<lparr>saved := Some (cdb c1)\<rparr>) of (failed2, c2) \<Rightarrow>
             if failed2 then (False, restore (snd (tick c2))) else (True, c2)))"

definition tx_rollback :: "conn \<Rightarrow> conn" where
  "tx_rollback c = snd (tick (restore (snd (tick c))))"

definition tx_commit :: "conn \<Rightarrow> bool \<times> conn" where
  "tx_commit c =
     (case tick c of (failed, c1) \<Rightarrow>
        if failed \<or> (fk_on c1 \<and> \<not> fk_ok (cdb c1)) then (False, tx_rollback c1)
        else (True, snd (tick (c1\<lparr>saved := None\<rparr>))))"

section \<open>Facts about the connection\<close>

lemma tick_frame [simp]:
  "is_open (snd (tick c)) = is_open c" "cdb (snd (tick c)) = cdb c" "saved (snd (tick c)) = saved c"
  "fk_on (snd (tick c)) = fk_on c"
  by (simp_all add: tick_def split: list.split)

lemma tick_pair:
  assumes "tick c = (failed, c1)"
  shows "cdb c1 = cdb c" "saved c1 = saved c" "is_open c1 = is_open c" "fk_on c1 = fk_on c"
  using tick_frame [of c] unfolding assms by simp_all

lemma tick_no_fault [simp]: "faults c = [] \<Longrightarrow> tick c = (False, c)"
  by (simp add: tick_def)

lemma restore_frame [simp]:
  "is_open (restore c) = is_open c" "saved (restore c) = None" "fk_on (restore c) = fk_on c"
  "cdb (restore c) = (case saved c of None \<Rightarrow> cdb c | Some d \<Rightarrow> d)" "faults (restore c) = faults c"
  by (simp_all add: restore_def split: option.split)

lemma tx_rollback_frame [simp]:
  "is_open (tx_rollback c) = is_open c" "saved (tx_rollback c) = None" "fk_on (tx_rollback c) = fk_on c"
  "cdb (tx_rollback c) = (case saved c of None \<Rightarrow> cdb c | Some d \<Rightarrow> d)"
  by (simp_all add: tx_rollback_def split: option.split)

lemma fetch_frame [simp]:
  "is_open (snd (fetch rs c)) = is_open c" "cdb (snd (fetch rs c)) = cdb c" "saved (snd (fetch rs c)) = saved c"
  "fk_on (snd (fetch rs c)) = fk_on c"
proof -
  have "is_open (snd (fetch rs c)) = is_open c \<and> cdb (snd (fetch rs c)) = cdb c
    \<and> saved (snd (fetch rs c)) = saved c \<and> fk_on (snd (fetch rs c)) = fk_on c"
  proof (induction rs c rule: fetch.induct)
    case (2 r rs c)
    obtain failed c1 where t: "tick c = (failed, c1)" by fastforce
    with tick_frame [of c] have "is_open c1 = is_open c" "cdb c1 = cdb c" "saved c1 = saved c" "fk_on c1 = fk_on c"
      by simp_all
    with 2 t show ?case by (cases failed) (simp_all add: split_beta)
  qed simp
  then show "is_open (snd (fetch rs c)) = is_open c" "cdb (snd (fetch rs c)) = cdb c"
    "saved (snd (fetch rs c)) = saved c" "fk_on (snd (fetch rs c)) = fk_on c" by simp_all
qed

lemma fetch_no_fault [simp]: "faults c = [] \<Longrightarrow> fetch rs c = (rs, c)"
  by (induction rs) simp_all

lemma fetch_prefix: "\<exists>n. fst (fetch rs c) = take n rs"
proof (induction rs c rule: fetch.induct)
  case (2 r rs c)
  obtain failed c1 where t: "tick c = (failed, c1)" by fastforce
  show ?case
  proof (cases failed)
    case True
    with t show ?thesis by (intro exI [of _ 0]) simp
  next
    case False
    with 2 t obtain n where "fst (fetch rs c1) = take n rs" by auto
    with t False show ?thesis by (intro exI [of _ "Suc n"]) (simp add: split_beta)
  qed
qed simp

end
