(* ===== verification/Commit_Store.thy ===== *)
theory Commit_Store
  imports Commit_Db
begin

text \<open>
  \<open>src/store/CommitStore.cpp\<close> and \<open>CommitSchema.cpp\<close>: opening the database and its schema
  version, and the operations of the commit store.  Every operation runs on a connection
  whose schedule decides which calls of the SQLite interface fail.  The text of an SQLite
  error message is not modelled; the place where the code gave up is the error value.
\<close>

section \<open>Actions that can fail\<close>

datatype store_error =
    DbNotOpen | BeginFailed | BindFailed | PayloadTooLarge | CompressFailed | InsertFailed
  | SetHeadFailed | CommitFailed | SqlFailed

type_synonym 'a act = "conn \<Rightarrow> (store_error + 'a) \<times> conn"

definition act_return :: "'a \<Rightarrow> 'a act" where
  "act_return x c = (Inr x, c)"

definition act_bind :: "'a act \<Rightarrow> ('a \<Rightarrow> 'b act) \<Rightarrow> 'b act" where
  "act_bind m f c = (case m c of (Inl e, c1) \<Rightarrow> (Inl e, c1) | (Inr x, c1) \<Rightarrow> f x c1)"

definition act_require :: "store_error \<Rightarrow> bool \<Rightarrow> unit act" where
  "act_require e b c = (if b then Inr () else Inl e, c)"

definition act_sql :: "store_error \<Rightarrow> 'r stmt \<Rightarrow> 'r act" where
  "act_sql e s c = (case exec s c of (None, c1) \<Rightarrow> (Inl e, c1) | (Some r, c1) \<Rightarrow> (Inr r, c1))"

text \<open>A checked call without an effect on the tables: preparing a statement, binding a value.\<close>

definition act_call :: "store_error \<Rightarrow> unit act" where
  "act_call e c = (case tick c of (failed, c1) \<Rightarrow> (if failed then Inl e else Inr (), c1))"

text \<open>
  The shape every writing operation of the store has: begin, the body with a rollback at
  each of its exits by error, commit.
\<close>

definition transact :: "'a act \<Rightarrow> 'a act" where
  "transact body c =
     (case tx_begin c of
        (False, c1) \<Rightarrow> (Inl BeginFailed, c1)
      | (True, c1) \<Rightarrow>
          (case body c1 of
             (Inl e, c2) \<Rightarrow> (Inl e, tx_rollback c2)
           | (Inr x, c2) \<Rightarrow>
               (case tx_commit c2 of
                  (True, c3) \<Rightarrow> (Inr x, c3)
                | (False, c3) \<Rightarrow> (Inl CommitFailed, c3))))"

definition when_open :: "'a act \<Rightarrow> 'a act" where
  "when_open m c = (if is_open c then m c else (Inl DbNotOpen, c))"

section \<open>Rows\<close>

text \<open>A C string ends at its first null character.\<close>

definition c_str :: "string \<Rightarrow> string" where
  "c_str s = takeWhile (\<lambda>ch. (of_char ch :: nat) \<noteq> 0) s"

record commit_row =
  row_id :: commit_id
  row_level :: level_key
  row_parent :: "commit_id option"
  row_reverts :: "commit_id option"
  row_message :: string
  row_created :: int
  row_delta :: string

definition rowFromStatement :: "zlib \<Rightarrow> commit_id \<times> crow \<Rightarrow> commit_row" where
  "rowFromStatement z ir =
     (case ir of (i, r) \<Rightarrow>
        \<lparr>row_id = i, row_level = c_str (r_level r), row_parent = r_parent r, row_reverts = r_reverts r,
         row_message = c_str (r_message r), row_created = r_created r,
         row_delta =
           (if r_blob r = [] then []
            else (case decompressBlob z (r_blob r) of None \<Rightarrow> [] | Some json \<Rightarrow> json))\<rparr>)"

record summary_row =
  sum_id :: commit_id
  sum_message :: string
  sum_created :: int
  sum_blob :: string

section \<open>Reading operations\<close>

definition get_row :: "zlib \<Rightarrow> commit_id \<Rightarrow> conn \<Rightarrow> commit_row option \<times> conn" where
  "get_row z i c =
     (if \<not> is_open c then (None, c)
      else
        (case tick c of (failed, c1) \<Rightarrow>
           (if failed then None
            else map_option (\<lambda>r. rowFromStatement z (i, r)) (fmlookup (commits (cdb c1)) i), c1)))"

definition list_rows :: "zlib \<Rightarrow> level_key \<Rightarrow> conn \<Rightarrow> commit_row list \<times> conn" where
  "list_rows z lk c =
     (if \<not> is_open c then ([], c)
      else (case fetch (level_rows (cdb c) lk) c of (rows, c1) \<Rightarrow> (map (rowFromStatement z) rows, c1)))"

definition listSummaryRows :: "level_key \<Rightarrow> conn \<Rightarrow> summary_row list \<times> conn" where
  "listSummaryRows lk c =
     (if \<not> is_open c then ([], c)
      else
        (case fetch (level_rows (cdb c) lk) c of (rows, c1) \<Rightarrow>
           (map (\<lambda>(i, r). \<lparr>sum_id = i, sum_message = c_str (r_message r), sum_created = r_created r,
              sum_blob = r_blob r\<rparr>) rows, c1)))"

definition getHead :: "level_key \<Rightarrow> conn \<Rightarrow> commit_id option \<times> conn" where
  "getHead lk c =
     (if \<not> is_open c then (None, c)
      else
        (case tick c of (failed, c1) \<Rightarrow> (if failed then None else fmlookup (refs (cdb c1)) lk, c1)))"

record level_summary =
  ls_key :: level_key
  ls_count :: nat
  ls_last :: int
  ls_bytes :: nat

definition level_groups :: "db \<Rightarrow> level_key list" where
  "level_groups d = sort (remdups (map (\<lambda>i. r_level (the (fmlookup (commits d) i))) (sorted_keys (commits d))))"

definition level_summary_of :: "db \<Rightarrow> level_key \<Rightarrow> level_summary" where
  "level_summary_of d lk =
     (let rows = map snd (level_rows d lk) in
      \<lparr>ls_key = lk, ls_count = length rows, ls_last = foldr max (map r_created rows) (r_created (hd rows)),
       ls_bytes = sum_list (map (length \<circ> r_blob) rows)\<rparr>)"

text \<open>
  \<open>GROUP BY level_key ORDER BY MAX(created_at) DESC\<close>; groups with the same maximum are left
  in the order of their keys (SQL does not fix it).
\<close>

definition listLevels :: "conn \<Rightarrow> level_summary list \<times> conn" where
  "listLevels c =
     (if \<not> is_open c then ([], c)
      else
        (case fetch (sort_key (\<lambda>s. - ls_last s) (map (level_summary_of (cdb c)) (level_groups (cdb c)))) c of
           (rows, c1) \<Rightarrow> (map (\<lambda>s. s\<lparr>ls_key := c_str (ls_key s)\<rparr>) rows, c1)))"

section \<open>Writing operations\<close>

definition bind_text :: "string \<Rightarrow> unit act" where
  "bind_text s = act_bind (act_call BindFailed) (\<lambda>_. act_require BindFailed (\<not> isBlobFootprintTooLarge (length s)))"

definition insertAt :: "zlib \<Rightarrow> level_key \<Rightarrow> commit_id option \<Rightarrow> commit_id option \<Rightarrow> string \<Rightarrow> int \<Rightarrow>
    string \<Rightarrow> commit_id act" where
  "insertAt z lk parent reverts msg createdAt deltaBlob =
     when_open
       (act_bind (bind_text lk) (\<lambda>_.
        act_bind (act_call BindFailed) (\<lambda>_.
        act_bind (act_call BindFailed) (\<lambda>_.
        act_bind (bind_text msg) (\<lambda>_.
        act_bind (act_call BindFailed) (\<lambda>_.
        act_bind (act_require PayloadTooLarge (\<not> isBlobFootprintTooLarge (length deltaBlob))) (\<lambda>_.
          (case compressBlob z deltaBlob (- 1) of
             None \<Rightarrow> act_bind (act_require CompressFailed False) (\<lambda>_. act_return 0)
           | Some stored \<Rightarrow>
               act_bind (bind_text stored) (\<lambda>_.
                 act_sql InsertFailed (stmt_insert
                   \<lparr>r_level = lk, r_parent = parent, r_reverts = reverts, r_message = msg,
                    r_created = createdAt, r_blob = stored\<rparr>))))))))))"

definition setHead :: "level_key \<Rightarrow> commit_id \<Rightarrow> unit act" where
  "setHead lk head = when_open (act_sql SetHeadFailed (stmt_set_head lk head))"

definition insertAndSetHead :: "zlib \<Rightarrow> int \<Rightarrow> level_key \<Rightarrow> commit_id option \<Rightarrow> commit_id option \<Rightarrow>
    string \<Rightarrow> string \<Rightarrow> commit_id act" where
  "insertAndSetHead z now lk parent reverts msg deltaBlob =
     when_open (transact
       (act_bind (insertAt z lk parent reverts msg now deltaBlob) (\<lambda>i.
        act_bind (setHead lk i) (\<lambda>_. act_return i))))"

definition updateMessage :: "commit_id \<Rightarrow> string \<Rightarrow> conn \<Rightarrow> bool \<times> conn" where
  "updateMessage i msg c =
     (if \<not> is_open c then (False, c)
      else
        (case exec (stmt_update_message i msg) c of
           (None, c1) \<Rightarrow> (False, c1)
         | (Some changes, c1) \<Rightarrow> (changes > 0, c1)))"

definition run_stmt :: "unit stmt \<Rightarrow> unit act" where
  "run_stmt s = act_bind (act_call SqlFailed) (\<lambda>_. act_sql SqlFailed s)"

definition squash_body :: "zlib \<Rightarrow> level_key \<Rightarrow> commit_id list \<Rightarrow> commit_id option \<Rightarrow> string \<Rightarrow> int \<Rightarrow>
    string \<Rightarrow> commit_id act" where
  "squash_body z lk ids parentOfOldest msg createdAt deltaBlob =
     act_bind (insertAt z lk parentOfOldest None msg createdAt deltaBlob) (\<lambda>newId.
     act_bind (run_stmt (stmt_reparent newId (last ids) lk)) (\<lambda>_.
     act_bind (act_sql SqlFailed (stmt_clear_reverts ids)) (\<lambda>_.
     act_bind (run_stmt (stmt_move_head newId ids lk)) (\<lambda>_.
     act_bind (act_sql SqlFailed (stmt_delete_ids ids)) (\<lambda>_.
     act_return newId)))))"

definition to_optional :: "(store_error + 'a) \<times> conn \<Rightarrow> 'a option \<times> conn" where
  "to_optional r = (case r of (Inl e, c) \<Rightarrow> (None, c) | (Inr x, c) \<Rightarrow> (Some x, c))"

definition squash :: "zlib \<Rightarrow> int \<Rightarrow> level_key \<Rightarrow> commit_id list \<Rightarrow> commit_id option \<Rightarrow> string \<Rightarrow> string \<Rightarrow>
    conn \<Rightarrow> commit_id option \<times> conn" where
  "squash z now lk ids parentOfOldest msg deltaBlob c =
     (if \<not> is_open c then (None, c)
      else if length ids < 2 then (None, c)
      else
        (case get_row z (last ids) c of (newestRow, c1) \<Rightarrow>
           let createdAt = (case newestRow of None \<Rightarrow> now | Some r \<Rightarrow> row_created r)
           in to_optional (transact (squash_body z lk ids parentOfOldest msg createdAt deltaBlob) c1)))"

definition deleteCommitsAndRefsForKey :: "level_key \<Rightarrow> unit act" where
  "deleteCommitsAndRefsForKey lk =
     when_open (act_bind (act_sql SqlFailed (stmt_delete_refs lk)) (\<lambda>_. act_sql SqlFailed (stmt_delete_commits lk)))"

definition is_success :: "(store_error + 'a) \<times> conn \<Rightarrow> bool \<times> conn" where
  "is_success r = (case r of (Inl e, c) \<Rightarrow> (False, c) | (Inr x, c) \<Rightarrow> (True, c))"

definition deleteLevel :: "level_key \<Rightarrow> conn \<Rightarrow> bool \<times> conn" where
  "deleteLevel lk c =
     (if \<not> is_open c then (False, c) else is_success (transact (deleteCommitsAndRefsForKey lk) c))"

section \<open>Copying the history of another level\<close>

text \<open>Kahn's algorithm on parent and revert references; \<open>ord\<close> is the iteration order of \<open>byId\<close>.\<close>

definition row_deps :: "(commit_id, commit_row) fmap \<Rightarrow> commit_row \<Rightarrow> commit_id list" where
  "row_deps byId row =
     remdups ((case row_parent row of Some p \<Rightarrow> if fmlookup byId p \<noteq> None then [p] else [] | None \<Rightarrow> []) @
              (case row_reverts row of Some v \<Rightarrow> if fmlookup byId v \<noteq> None then [v] else [] | None \<Rightarrow> []))"

definition by_id :: "commit_row list \<Rightarrow> (commit_id, commit_row) fmap" where
  "by_id rows = fold (\<lambda>r. emplace (row_id r) r) rows fmempty"

definition refs_inside :: "(commit_id, commit_row) fmap \<Rightarrow> commit_row \<Rightarrow> bool" where
  "refs_inside byId r \<longleftrightarrow>
     (case row_parent r of Some p \<Rightarrow> fmlookup byId p \<noteq> None | None \<Rightarrow> True) \<and>
     (case row_reverts r of Some v \<Rightarrow> fmlookup byId v \<noteq> None | None \<Rightarrow> True)"

definition in_degree :: "(commit_id, int) fmap \<Rightarrow> commit_id \<Rightarrow> int" where
  "in_degree m v = (case fmlookup m v of None \<Rightarrow> 0 | Some n \<Rightarrow> n)"

definition kahn_init_step :: "(commit_id, commit_row) fmap \<Rightarrow> commit_id \<Rightarrow>
    (commit_id, int) fmap \<times> (commit_id, commit_id list) fmap \<Rightarrow>
    (commit_id, int) fmap \<times> (commit_id, commit_id list) fmap" where
  "kahn_init_step byId v s =
     (case s of (inDeg, afterDone) \<Rightarrow>
        let deps = row_deps byId (the (fmlookup byId v)) in
        (fmupd v (int (length deps)) inDeg,
         fold (\<lambda>d m. fmupd d (get_or_empty m d @ [v]) m) deps afterDone))"

definition kahn_visit :: "commit_id \<Rightarrow> (commit_id, int) fmap \<times> commit_id list \<Rightarrow>
    (commit_id, int) fmap \<times> commit_id list" where
  "kahn_visit v s =
     (case s of (inDeg, q) \<Rightarrow>
        let n = in_degree inDeg v - 1 in (fmupd v n inDeg, if n = 0 then q @ [v] else q))"

definition positive :: "(commit_id, int) fmap \<Rightarrow> commit_id set" where
  "positive m = {v. in_degree m v > 0}"

lemma finite_positive [simp]: "finite (positive m)"
proof (rule finite_subset)
  show "positive m \<subseteq> fmdom' m"
    by (auto simp: positive_def in_degree_def fmlookup_dom'_iff split: option.splits)
qed simp

lemma kahn_visit_size:
  "length (snd (kahn_visit v s)) + card (positive (fst (kahn_visit v s))) \<le>
     length (snd s) + card (positive (fst s))"
proof -
  obtain m q where s: "s = (m, q)" by (cases s)
  let ?n = "in_degree m v - 1"
  have sub: "positive (fmupd v ?n m) \<subseteq> positive m"
    by (auto simp: positive_def in_degree_def split: if_splits option.splits)
  show ?thesis
  proof (cases "?n = 0")
    case True
    then have "v \<in> positive m" "v \<notin> positive (fmupd v ?n m)"
      by (auto simp: positive_def in_degree_def)
    with sub have "card (positive (fmupd v ?n m)) < card (positive m)"
      by (intro psubset_card_mono) auto
    with True show ?thesis by (simp add: kahn_visit_def s Let_def)
  next
    case False
    then show ?thesis using card_mono [OF finite_positive sub] by (simp add: kahn_visit_def s Let_def)
  qed
qed

lemma kahn_visits_size:
  "length (snd (fold kahn_visit vs s)) + card (positive (fst (fold kahn_visit vs s))) \<le>
     length (snd s) + card (positive (fst s))"
proof (induction vs arbitrary: s)
  case (Cons v vs)
  from Cons.IH [of "kahn_visit v s"] kahn_visit_size [of v s] show ?case
    unfolding fold_simps by (rule le_trans)
qed simp

function kahn_loop :: "(commit_id, commit_id list) fmap \<Rightarrow> (commit_id, int) fmap \<Rightarrow> commit_id list \<Rightarrow>
    commit_id list \<Rightarrow> commit_id list" where
  "kahn_loop afterDone inDeg q order =
     (case q of
        [] \<Rightarrow> order
      | u # q1 \<Rightarrow>
          (let s = fold kahn_visit (get_or_empty afterDone u) (inDeg, q1) in
           kahn_loop afterDone (fst s) (snd s) (order @ [u])))"
  by pat_completeness auto

termination
proof (relation "measure (\<lambda>(a, m, q, ord). length q + card (positive m))")
  fix afterDone :: "(commit_id, commit_id list) fmap" and inDeg q order u q1 s
  assume q: "q = u # q1" and s: "s = fold kahn_visit (get_or_empty afterDone u) (inDeg, q1)"
  have "length (snd s) + card (positive (fst s)) \<le> length q1 + card (positive inDeg)"
    using kahn_visits_size [of "get_or_empty afterDone u" "(inDeg, q1)"] unfolding s by simp
  then show "((afterDone, fst s, snd s, order @ [u]), (afterDone, inDeg, q, order))
      \<in> measure (\<lambda>(a, m, q, ord). length q + card (positive m))"
    unfolding in_measure prod.case q by simp
qed (rule wf_measure)

declare kahn_loop.simps [simp del]

definition topo_order :: "commit_id list \<Rightarrow> (commit_id, commit_row) fmap \<Rightarrow> commit_id list" where
  "topo_order ord byId =
     (case fold (kahn_init_step byId) ord (fmempty, fmempty) of (inDeg, afterDone) \<Rightarrow>
        kahn_loop afterDone inDeg (filter (\<lambda>i. in_degree inDeg i = 0) ord) [])"

text \<open>The insertion loop; \<open>Threw\<close> is \<open>idMap.at\<close> on a missing key.\<close>

datatype copy_error = Threw | StoreFailed store_error

definition map_ref :: "(commit_id, commit_id) fmap \<Rightarrow> commit_id option \<Rightarrow> commit_id option option" where
  "map_ref idMap r =
     (case r of None \<Rightarrow> Some None
      | Some i \<Rightarrow> (case fmlookup idMap i of None \<Rightarrow> None | Some j \<Rightarrow> Some (Some j)))"

fun copy_loop :: "zlib \<Rightarrow> level_key \<Rightarrow> (commit_id, commit_row) fmap \<Rightarrow> commit_id list \<Rightarrow>
    (commit_id, commit_id) fmap \<Rightarrow> conn \<Rightarrow> (copy_error + (commit_id, commit_id) fmap) \<times> conn" where
  "copy_loop z dest byId [] idMap c = (Inr idMap, c)"
| "copy_loop z dest byId (oldId # order) idMap c =
     (let row = the (fmlookup byId oldId) in
      case (map_ref idMap (row_parent row), map_ref idMap (row_reverts row)) of
        (Some newParent, Some newReverts) \<Rightarrow>
          (case insertAt z dest newParent newReverts (row_message row) (row_created row) (row_delta row) c of
             (Inl e, c1) \<Rightarrow> (Inl (StoreFailed e), c1)
           | (Inr newId, c1) \<Rightarrow> copy_loop z dest byId order (fmupd oldId newId idMap) c1)
      | _ \<Rightarrow> (Inl Threw, c))"

definition copy_body :: "zlib \<Rightarrow> level_key \<Rightarrow> commit_id \<Rightarrow> (commit_id, commit_row) fmap \<Rightarrow> commit_id list \<Rightarrow>
    conn \<Rightarrow> (copy_error + unit) \<times> conn" where
  "copy_body z dest headOld byId order c =
     (case deleteCommitsAndRefsForKey dest c of
        (Inl e, c1) \<Rightarrow> (Inl (StoreFailed e), c1)
      | (Inr _, c1) \<Rightarrow>
          (case copy_loop z dest byId order fmempty c1 of
             (Inl e, c2) \<Rightarrow> (Inl e, c2)
           | (Inr idMap, c2) \<Rightarrow>
               (case fmlookup idMap headOld of
                  None \<Rightarrow> (Inl (StoreFailed SqlFailed), c2)
                | Some h \<Rightarrow>
                    (case setHead dest h c2 of
                       (Inl e, c3) \<Rightarrow> (Inl (StoreFailed e), c3)
                     | (Inr _, c3) \<Rightarrow> (Inr (), c3)))))"

datatype copy_result = Replaced | Refused | Raised

definition replaceLevelHistoryFrom :: "zlib \<Rightarrow> ((commit_id, commit_row) fmap \<Rightarrow> commit_id list) \<Rightarrow> level_key \<Rightarrow> level_key \<Rightarrow> conn \<Rightarrow>
    copy_result \<times> conn" where
  "replaceLevelHistoryFrom z ord dest src c =
     (if \<not> is_open c then (Refused, c)
      else if dest = src then (Refused, c)
      else
        (case getHead src c of
           (None, c1) \<Rightarrow> (Refused, c1)
         | (Some headOld, c1) \<Rightarrow>
             (case list_rows z src c1 of (rows, c2) \<Rightarrow>
                if rows = [] then (Refused, c2)
                else
                  (let byId = by_id rows; order = topo_order (ord byId) byId in
                   if \<not> list_all (refs_inside byId) rows then (Refused, c2)
                   else if length order \<noteq> length (sorted_keys byId) then (Refused, c2)
                   else
                     (case tx_begin c2 of
                        (False, c3) \<Rightarrow> (Refused, c3)
                      | (True, c3) \<Rightarrow>
                          (case copy_body z dest headOld byId order c3 of
                             (Inl Threw, c4) \<Rightarrow> (Raised, tx_rollback c4)
                           | (Inl (StoreFailed _), c4) \<Rightarrow> (Refused, tx_rollback c4)
                           | (Inr _, c4) \<Rightarrow>
                               (case tx_commit c4 of
                                  (True, c5) \<Rightarrow> (Replaced, c5)
                                | (False, c5) \<Rightarrow> (Refused, c5))))))))"

section \<open>Actions inside a transaction\<close>

lemma act_bind_Inr:
  "act_bind m f c = (Inr y, c') \<longleftrightarrow> (\<exists>x c1. m c = (Inr x, c1) \<and> f x c1 = (Inr y, c'))"
  by (auto simp: act_bind_def split: prod.splits sum.splits)

lemma act_require_Inr: "act_require e b c = (Inr y, c') \<longleftrightarrow> b \<and> c' = c"
  by (auto simp: act_require_def)

lemma act_return_Inr: "act_return x c = (Inr y, c') \<longleftrightarrow> y = x \<and> c' = c"
  by (auto simp: act_return_def)

lemma when_open_Inr: "when_open m c = (Inr y, c') \<longleftrightarrow> is_open c \<and> m c = (Inr y, c')"
  by (auto simp: when_open_def)

lemma act_call_Inr: "act_call e c = (Inr y, c') \<longleftrightarrow> tick c = (False, c')"
  by (auto simp: act_call_def split: prod.splits if_splits)

text \<open>The parts of a connection that no action of a transaction touches.\<close>

definition same_frame :: "conn \<Rightarrow> conn \<Rightarrow> bool" where
  "same_frame c c' \<longleftrightarrow> is_open c' = is_open c \<and> saved c' = saved c \<and> fk_on c' = fk_on c"

definition framed :: "('e \<times> conn \<Rightarrow> bool) \<Rightarrow> (conn \<Rightarrow> 'e \<times> conn) \<Rightarrow> bool" where
  "framed P m \<longleftrightarrow> (\<forall>c. same_frame c (snd (m c)))"

lemma same_frame_refl [simp]: "same_frame c c"
  by (simp add: same_frame_def)

lemma same_frame_trans: "same_frame a b \<Longrightarrow> same_frame b c \<Longrightarrow> same_frame a c"
  by (simp add: same_frame_def)

lemma same_frame_tick [simp]: "same_frame c (snd (tick c))"
  by (simp add: same_frame_def)

lemma exec_frame: "same_frame c (snd (exec s c))"
  by (simp add: exec_def same_frame_def split_beta split: option.split prod.split)

abbreviation keeps :: "(conn \<Rightarrow> 'a \<times> conn) \<Rightarrow> bool" where
  "keeps m \<equiv> (\<forall>c. same_frame c (snd (m c)))"

named_theorems keeps_intros \<open>actions that keep the frame of a connection\<close>

lemma keeps_bind [keeps_intros]:
  assumes "keeps m" and "\<And>x. keeps (f x)"
  shows "keeps (act_bind m f)"
proof
  fix c
  obtain r c1 where m: "m c = (r, c1)" by fastforce
  with assms(1) have 1: "same_frame c c1" by (metis snd_conv)
  show "same_frame c (snd (act_bind m f c))"
  proof (cases r)
    case (Inl e)
    with 1 m show ?thesis by (simp add: act_bind_def)
  next
    case (Inr x)
    with 1 m assms(2) [of x] show ?thesis by (auto simp: act_bind_def intro: same_frame_trans)
  qed
qed

lemma keeps_basic [keeps_intros]:
  "keeps (act_return x)" "keeps (act_require e b)" "keeps (act_sql e s)" "keeps (act_call e)"
proof -
  show "keeps (act_sql e s)"
  proof
    fix c
    show "same_frame c (snd (act_sql e s c))"
      using exec_frame [of c s] by (auto simp: act_sql_def split: prod.split option.split)
  qed
  show "keeps (act_call e)"
    by (auto simp: act_call_def same_frame_def dest: tick_pair split: prod.split)
qed (simp_all add: act_return_def act_require_def)

lemma keeps_when_open [keeps_intros]: "keeps m \<Longrightarrow> keeps (when_open m)"
  by (simp add: when_open_def)

lemma keeps_insertAt [keeps_intros]: "keeps (insertAt z lk p rv msg t b)"
  unfolding insertAt_def bind_text_def
  by (intro keeps_intros; (cases "compressBlob z b (- 1)"; simp only: option.case; intro keeps_intros)?)

lemma keeps_store [keeps_intros]:
  "keeps (setHead lk i)" "keeps (run_stmt s)" "keeps (deleteCommitsAndRefsForKey lk)"
  "keeps (squash_body z lk ids p msg t b)"
  unfolding setHead_def run_stmt_def deleteCommitsAndRefsForKey_def squash_body_def
  by (intro keeps_intros)+

text \<open>A successful statement inside a transaction has the effect of its SQL.\<close>

lemma act_sql_tx:
  assumes "act_sql e s c = (Inr r, c')" and "saved c \<noteq> None"
  shows "s (cdb c) = Some (cdb c', r)"
proof -
  obtain failed c1 where t: "tick c = (failed, c1)" by fastforce
  with tick_frame [of c] have "cdb c1 = cdb c" "saved c1 = saved c" by simp_all
  with assms t show ?thesis
    by (auto simp: act_sql_def exec_def split: option.splits if_splits)
qed

lemma tx_begin_frame:
  assumes "saved c = None"
  shows "cdb (snd (tx_begin c)) = cdb c" "is_open (snd (tx_begin c)) = is_open c"
    "fk_on (snd (tx_begin c)) = fk_on c" "saved (snd (tx_begin c)) = (if fst (tx_begin c) then Some (cdb c) else None)"
proof -
  obtain f1 d1 where t1: "tick c = (f1, d1)" by fastforce
  obtain f2 d2 where t2: "tick (d1\<lparr>saved := Some (cdb d1)\<rparr>) = (f2, d2)" by fastforce
  note d1 = tick_pair [OF t1] and d2 = tick_pair [OF t2]
  have "tx_begin c = (if f1 then (False, d1) else if f2 then (False, restore (snd (tick d2))) else (True, d2))"
    by (simp add: tx_begin_def t1 t2)
  then show "cdb (snd (tx_begin c)) = cdb c" "is_open (snd (tx_begin c)) = is_open c"
    "fk_on (snd (tx_begin c)) = fk_on c" "saved (snd (tx_begin c)) = (if fst (tx_begin c) then Some (cdb c) else None)"
    using assms d1 d2 by simp_all
qed

lemma tx_commit_frame:
  "is_open (snd (tx_commit c)) = is_open c" "fk_on (snd (tx_commit c)) = fk_on c" "saved (snd (tx_commit c)) = None"
  "cdb (snd (tx_commit c)) = (if fst (tx_commit c) then cdb c else cdb (restore c))"
  "fst (tx_commit c) \<Longrightarrow> fk_on c \<Longrightarrow> fk_ok (cdb c)"
proof -
  obtain f1 d1 where t1: "tick c = (f1, d1)" by fastforce
  note d1 = tick_pair [OF t1]
  show "is_open (snd (tx_commit c)) = is_open c" "fk_on (snd (tx_commit c)) = fk_on c" "saved (snd (tx_commit c)) = None"
    "cdb (snd (tx_commit c)) = (if fst (tx_commit c) then cdb c else cdb (restore c))"
    "fst (tx_commit c) \<Longrightarrow> fk_on c \<Longrightarrow> fk_ok (cdb c)"
    using d1 by (auto simp: tx_commit_def t1 split: if_splits option.split)
qed

text \<open>
  Atomicity: an operation either fails and leaves the tables as they were, or its body
  succeeded, the tables are those the body produced, and no foreign key dangles.  In both
  cases no transaction stays open.
\<close>

lemma transact_cases:
  "transact body c =
     (let c1 = snd (tx_begin c); c2 = snd (body c1) in
      if \<not> fst (tx_begin c) then (Inl BeginFailed, c1)
      else (case fst (body c1) of
              Inl e \<Rightarrow> (Inl e, tx_rollback c2)
            | Inr x \<Rightarrow> (if fst (tx_commit c2) then Inr x else Inl CommitFailed, snd (tx_commit c2))))"
  by (simp add: transact_def Let_def split_beta split: bool.split sum.split)

lemma transact_Inl:
  assumes "keeps body" and "saved c = None" and "transact body c = (Inl e, c')"
  shows "cdb c' = cdb c \<and> saved c' = None \<and> is_open c' = is_open c \<and> fk_on c' = fk_on c"
proof (cases "fst (tx_begin c)")
  case False
  with assms(3) tx_begin_frame [OF assms(2)] show ?thesis by (simp add: transact_cases Let_def)
next
  case True
  define c1 where "c1 = snd (tx_begin c)"
  define c2 where "c2 = snd (body c1)"
  have "same_frame c1 c2" using assms(1) by (simp add: c2_def)
  with True tx_begin_frame [OF assms(2), folded c1_def]
  have c2: "saved c2 = Some (cdb c)" "is_open c2 = is_open c" "fk_on c2 = fk_on c" by (simp_all add: same_frame_def)
  show ?thesis
  proof (cases "fst (body c1)")
    case (Inl e')
    with assms(3) True have "c' = tx_rollback c2" by (simp add: transact_cases c1_def c2_def Let_def)
    then show ?thesis using c2 by simp
  next
    case (Inr x)
    with assms(3) True have "c' = snd (tx_commit c2)" "\<not> fst (tx_commit c2)"
      by (simp_all add: transact_cases c1_def c2_def Let_def split: if_splits)
    then show ?thesis using tx_commit_frame [of c2] c2 by simp
  qed
qed

lemma transact_Inr:
  assumes "keeps body" and "saved c = None" and "transact body c = (Inr x, c')"
  shows "\<exists>c1 c2. cdb c1 = cdb c \<and> saved c1 = Some (cdb c) \<and> is_open c1 = is_open c \<and> body c1 = (Inr x, c2)
    \<and> cdb c' = cdb c2 \<and> saved c' = None \<and> is_open c' = is_open c \<and> fk_on c' = fk_on c \<and> (fk_on c \<longrightarrow> fk_ok (cdb c'))"
proof (intro exI)
  define c1 where "c1 = snd (tx_begin c)"
  define c2 where "c2 = snd (body c1)"
  from assms(3) have b: "fst (tx_begin c)" by (auto simp: transact_cases Let_def split: if_splits)
  with assms(3) have x: "fst (body c1) = Inr x" and c': "c' = snd (tx_commit c2)" "fst (tx_commit c2)"
    by (auto simp: transact_cases c1_def c2_def Let_def split: sum.splits if_splits)
  have f: "same_frame c1 c2" using assms(1) by (simp add: c2_def)
  note started = tx_begin_frame [OF assms(2), folded c1_def]
  have "body c1 = (Inr x, c2)" using x by (simp add: c2_def prod_eq_iff)
  then show "cdb c1 = cdb c \<and> saved c1 = Some (cdb c) \<and> is_open c1 = is_open c \<and> body c1 = (Inr x, c2)
    \<and> cdb c' = cdb c2 \<and> saved c' = None \<and> is_open c' = is_open c \<and> fk_on c' = fk_on c \<and> (fk_on c \<longrightarrow> fk_ok (cdb c'))"
    using started b tx_commit_frame [of c2] c' f by (simp add: same_frame_def)
qed

section \<open>Effects of the operations\<close>

definition next_id :: "db \<Rightarrow> commit_id" where
  "next_id d = max (autoinc d) (fold max (sorted_keys (commits d)) 0) + 1"

lemma fold_max_ge: "x \<in> set xs \<Longrightarrow> x \<le> fold max xs (a :: int)"
  by (metis Max.set_eq_fold Max_ge List.finite_set insert_iff list.simps(15))

lemma next_id_fresh: "fmlookup (commits d) i = Some r \<Longrightarrow> i < next_id d"
  using fold_max_ge [of i "sorted_keys (commits d)" 0] by (auto simp: next_id_def fmlookup_dom'_iff)

lemma next_id_new [simp]: "fmlookup (commits d) (next_id d) = None"
  using next_id_fresh [of d "next_id d"] by (cases "fmlookup (commits d) (next_id d)") auto

lemma autoinc_next_id: "autoinc d < next_id d"
  by (simp add: next_id_def)

definition inserted :: "crow \<Rightarrow> db \<Rightarrow> db" where
  "inserted r d = d\<lparr>commits := fmupd (next_id d) r (commits d), autoinc := next_id d\<rparr>"

lemma stmt_insert_Some:
  "stmt_insert r d = Some (d', i) \<longleftrightarrow> next_id d \<noteq> max_rowid + 1 \<and> i = next_id d \<and> d' = inserted r d"
  by (auto simp: stmt_insert_def next_id_def inserted_def Let_def)

definition new_row :: "level_key \<Rightarrow> commit_id option \<Rightarrow> commit_id option \<Rightarrow> string \<Rightarrow> int \<Rightarrow> string \<Rightarrow> crow" where
  "new_row lk parent reverts msg createdAt stored =
     \<lparr>r_level = lk, r_parent = parent, r_reverts = reverts, r_message = msg, r_created = createdAt, r_blob = stored\<rparr>"

lemma bind_text_Inr: "bind_text s c = (Inr y, c') \<Longrightarrow> tick c = (False, c')"
  by (auto simp: bind_text_def act_bind_Inr act_call_Inr act_require_Inr)

lemma insertAt_Inr:
  assumes "insertAt z lk p rv msg t b c = (Inr i, c')" and "saved c \<noteq> None"
  shows "\<exists>stored. compressBlob z b (- 1) = Some stored \<and> i = next_id (cdb c)
    \<and> cdb c' = inserted (new_row lk p rv msg t stored) (cdb c) \<and> saved c' = saved c \<and> is_open c' = is_open c"
proof -
  let ?tail = "case compressBlob z b (- 1) of
             None \<Rightarrow> act_bind (act_require CompressFailed False) (\<lambda>_. act_return 0)
           | Some stored \<Rightarrow>
               act_bind (bind_text stored) (\<lambda>_. act_sql InsertFailed (stmt_insert (new_row lk p rv msg t stored)))"
  from assms(1) obtain a1 a2 a3 a4 c1 where chain: "tick c = (False, a1)" "tick a1 = (False, a2)"
      "tick a2 = (False, a3)" "tick a3 = (False, a4)" "tick a4 = (False, c1)"
    and i: "?tail c1 = (Inr i, c')"
    unfolding insertAt_def new_row_def when_open_Inr
    by (auto simp: act_bind_Inr act_call_Inr act_require_Inr dest!: bind_text_Inr)
  have c1: "saved c1 = saved c" "cdb c1 = cdb c"
    using chain [THEN tick_pair(2)] chain [THEN tick_pair(1)] by simp_all
  from i obtain stored c2 where stored: "compressBlob z b (- 1) = Some stored" and t2: "tick c1 = (False, c2)"
    and ins: "act_sql InsertFailed (stmt_insert (new_row lk p rv msg t stored)) c2 = (Inr i, c')"
    by (auto simp: act_bind_Inr act_require_Inr split: option.splits dest!: bind_text_Inr)
  have c2: "saved c2 = saved c" "cdb c2 = cdb c" using tick_pair [OF t2] c1 by simp_all
  have "stmt_insert (new_row lk p rv msg t stored) (cdb c2) = Some (cdb c', i)"
    using act_sql_tx [OF ins] c2 assms(2) by simp
  moreover have "same_frame c c'" using keeps_insertAt [of z lk p rv msg t b] assms(1) by (metis snd_conv)
  ultimately show ?thesis using stored c2 by (auto simp: stmt_insert_Some same_frame_def)
qed

lemma setHead_Inr:
  assumes "setHead lk i c = (Inr u, c')" and "saved c \<noteq> None"
  shows "cdb c' = (cdb c)\<lparr>refs := fmupd lk i (refs (cdb c))\<rparr> \<and> saved c' = saved c \<and> is_open c' = is_open c"
proof -
  have "same_frame c c'" using keeps_store(1) [of lk i] assms(1) by (metis snd_conv)
  then show ?thesis using act_sql_tx [of SetHeadFailed "stmt_set_head lk i" c u c'] assms
    by (auto simp: setHead_def when_open_Inr stmt_set_head_def same_frame_def)
qed

definition committed :: "crow \<Rightarrow> db \<Rightarrow> db" where
  "committed r d = (inserted r d)\<lparr>refs := fmupd (r_level r) (next_id d) (refs d)\<rparr>"

lemma keeps_insert_body: "keeps (act_bind (insertAt z lk p rv msg now b) (\<lambda>i. act_bind (setHead lk i) (\<lambda>_. act_return i)))"
  by (intro keeps_intros)

lemma insertAndSetHead_Inr:
  assumes "insertAndSetHead z now lk p rv msg b c = (Inr i, c')" and "saved c = None"
  shows "\<exists>stored. compressBlob z b (- 1) = Some stored \<and> i = next_id (cdb c)
    \<and> cdb c' = committed (new_row lk p rv msg now stored) (cdb c)
    \<and> saved c' = None \<and> is_open c' \<and> fk_on c' = fk_on c \<and> (fk_on c \<longrightarrow> fk_ok (cdb c'))"
proof -
  have op: "is_open c" and t: "transact (act_bind (insertAt z lk p rv msg now b)
      (\<lambda>i. act_bind (setHead lk i) (\<lambda>_. act_return i))) c = (Inr i, c')"
    using assms(1) by (simp_all add: insertAndSetHead_def when_open_Inr)
  obtain c1 c2 where 1: "cdb c1 = cdb c" "saved c1 = Some (cdb c)"
    and b: "act_bind (insertAt z lk p rv msg now b) (\<lambda>i. act_bind (setHead lk i) (\<lambda>_. act_return i)) c1 = (Inr i, c2)"
    and 2: "cdb c' = cdb c2" "saved c' = None" "is_open c' = is_open c" "fk_on c' = fk_on c" "fk_on c \<longrightarrow> fk_ok (cdb c')"
    using transact_Inr [OF keeps_insert_body assms(2) t] by blast
  from b obtain c3 where ins: "insertAt z lk p rv msg now b c1 = (Inr i, c3)" and sh: "setHead lk i c3 = (Inr (), c2)"
    by (auto simp: act_bind_Inr act_return_Inr)
  from insertAt_Inr [OF ins] 1 obtain stored where st: "compressBlob z b (- 1) = Some stored" "i = next_id (cdb c)"
    "cdb c3 = inserted (new_row lk p rv msg now stored) (cdb c)" "saved c3 = Some (cdb c)" by auto
  have "cdb c2 = committed (new_row lk p rv msg now stored) (cdb c)"
    using setHead_Inr [OF sh] st by (simp add: committed_def inserted_def new_row_def)
  with st 2 op show ?thesis by auto
qed

lemma insertAndSetHead_Inl:
  assumes "insertAndSetHead z now lk p rv msg b c = (Inl e, c')" and "saved c = None"
  shows "cdb c' = cdb c \<and> saved c' = None \<and> is_open c' = is_open c \<and> fk_on c' = fk_on c"
  using transact_Inl [OF keeps_insert_body assms(2)] assms
  by (auto simp: insertAndSetHead_def when_open_def split: if_splits)

text \<open>The tables after a squash.\<close>

definition squashed_row :: "commit_id \<Rightarrow> commit_id list \<Rightarrow> level_key \<Rightarrow> commit_id \<Rightarrow> crow \<Rightarrow> crow" where
  "squashed_row newId ids lk i r = clear_row ids (reparent_row newId (last ids) lk i r)"

definition squashed :: "crow \<Rightarrow> commit_id list \<Rightarrow> level_key \<Rightarrow> db \<Rightarrow> db" where
  "squashed row ids lk d =
     \<lparr>commits = fmfilter (\<lambda>i. i \<notin> set ids)
        (fmmap_keys (squashed_row (next_id d) ids lk) (fmupd (next_id d) row (commits d))),
      refs = (case fmlookup (refs d) lk of
          Some h \<Rightarrow> if h \<in> set ids then fmupd lk (next_id d) (refs d) else refs d | None \<Rightarrow> refs d),
      autoinc = next_id d, meta_version = meta_version d\<rparr>"

lemma squashed_row_simps [simp]:
  "r_parent (squashed_row n ids lk i r) =
     (if r_parent r = Some (last ids) \<and> r_level r = lk \<and> i \<noteq> n then Some n else r_parent r)"
  "r_reverts (squashed_row n ids lk i r) =
     (case r_reverts r of Some v \<Rightarrow> if v \<in> set ids then None else Some v | None \<Rightarrow> None)"
  "r_level (squashed_row n ids lk i r) = r_level r" "r_message (squashed_row n ids lk i r) = r_message r"
  "r_created (squashed_row n ids lk i r) = r_created r" "r_blob (squashed_row n ids lk i r) = r_blob r"
  by (auto simp: squashed_row_def clear_row_def reparent_row_def split: option.split)

lemma squashed_lookup:
  "fmlookup (commits (squashed row ids lk d)) x =
     (if x \<in> set ids then None
      else if x = next_id d then Some (squashed_row (next_id d) ids lk x row)
      else map_option (squashed_row (next_id d) ids lk x) (fmlookup (commits d) x))"
  by (simp add: squashed_def)

lemma run_stmt_Inr:
  assumes "run_stmt s c = (Inr u, c')" and "saved c \<noteq> None"
  shows "s (cdb c) = Some (cdb c', ()) \<and> saved c' = saved c"
proof -
  from assms(1) obtain c1 where "tick c = (False, c1)" and s: "act_sql SqlFailed s c1 = (Inr u, c')"
    by (auto simp: run_stmt_def act_bind_Inr act_call_Inr)
  moreover from this have "cdb c1 = cdb c" "saved c1 = saved c" by (auto dest: tick_pair)
  moreover have "same_frame c1 c'" using keeps_basic(3) [of SqlFailed s] s by (metis snd_conv)
  ultimately show ?thesis using act_sql_tx [OF s] assms(2) by (simp add: same_frame_def)
qed

lemma squash_body_Inr:
  assumes "squash_body z lk ids p msg t b c = (Inr i, c')" and "saved c \<noteq> None"
  shows "\<exists>stored. compressBlob z b (- 1) = Some stored \<and> i = next_id (cdb c)
    \<and> cdb c' = squashed (new_row lk p None msg t stored) ids lk (cdb c)"
proof -
  from assms(1) obtain c1 c2 c3 c4 where ins: "insertAt z lk p None msg t b c = (Inr i, c1)"
    and s1: "run_stmt (stmt_reparent i (last ids) lk) c1 = (Inr (), c2)"
    and s2: "act_sql SqlFailed (stmt_clear_reverts ids) c2 = (Inr (), c3)"
    and s3: "run_stmt (stmt_move_head i ids lk) c3 = (Inr (), c4)"
    and s4: "act_sql SqlFailed (stmt_delete_ids ids) c4 = (Inr (), c')"
    by (auto simp: squash_body_def act_bind_Inr act_return_Inr)
  from insertAt_Inr [OF ins assms(2)] obtain stored where st: "compressBlob z b (- 1) = Some stored" "i = next_id (cdb c)"
    "cdb c1 = inserted (new_row lk p None msg t stored) (cdb c)" and t1: "saved c1 \<noteq> None" using assms(2) by auto
  have 1: "stmt_reparent i (last ids) lk (cdb c1) = Some (cdb c2, ())" and t2: "saved c2 \<noteq> None"
    using run_stmt_Inr [OF s1 t1] t1 by simp_all
  have 2: "stmt_clear_reverts ids (cdb c2) = Some (cdb c3, ())" using act_sql_tx [OF s2 t2] .
  have "same_frame c2 c3" using keeps_basic(3) [of SqlFailed "stmt_clear_reverts ids"] s2 by (metis snd_conv)
  then have t3: "saved c3 \<noteq> None" using t2 by (simp add: same_frame_def)
  have 3: "stmt_move_head i ids lk (cdb c3) = Some (cdb c4, ())" and t4: "saved c4 \<noteq> None"
    using run_stmt_Inr [OF s3 t3] t3 by simp_all
  have 4: "stmt_delete_ids ids (cdb c4) = Some (cdb c', ())" using act_sql_tx [OF s4 t4] .
  let ?row = "new_row lk p None msg t stored"
  have d2: "cdb c2 = (cdb c1)\<lparr>commits := fmmap_keys (reparent_row i (last ids) lk) (commits (cdb c1))\<rparr>"
    using 1 by (simp add: stmt_reparent_def)
  have d3: "cdb c3 = (cdb c2)\<lparr>commits := fmmap (clear_row ids) (commits (cdb c2))\<rparr>"
    using 2 by (simp add: stmt_clear_reverts_def)
  have d4: "cdb c4 = (cdb c3)\<lparr>refs := (case fmlookup (refs (cdb c3)) lk of
         Some h \<Rightarrow> if h \<in> set ids then fmupd lk i (refs (cdb c3)) else refs (cdb c3) | None \<Rightarrow> refs (cdb c3))\<rparr>"
    using 3 by (simp add: stmt_move_head_def)
  have d5: "cdb c' = (cdb c4)\<lparr>commits := fmfilter (\<lambda>j. j \<notin> set ids) (commits (cdb c4))\<rparr>"
    using 4 by (simp add: stmt_delete_ids_def)
  have "commits (cdb c') = commits (squashed ?row ids lk (cdb c))"
  proof (rule fmap_ext)
    fix x
    show "fmlookup (commits (cdb c')) x = fmlookup (commits (squashed ?row ids lk (cdb c))) x"
      using st by (simp add: squashed_def d2 d3 d4 d5 inserted_def squashed_row_def [abs_def] option.map_comp comp_def)
  qed
  moreover have "refs (cdb c') = refs (squashed ?row ids lk (cdb c))"
    "autoinc (cdb c') = autoinc (squashed ?row ids lk (cdb c))"
    "meta_version (cdb c') = meta_version (squashed ?row ids lk (cdb c))"
    using st by (simp_all add: d2 d3 d4 d5 squashed_def inserted_def split: option.split)
  ultimately have "cdb c' = squashed ?row ids lk (cdb c)" by simp
  with st show ?thesis by blast
qed

end
