(* ===== verification/Store_Spec.thy ===== *)
theory Store_Spec
  imports Commit_Store
begin

text \<open>
  What the commit store promises: every operation is atomic under every schedule of
  failures, no reachable database has a dangling reference, the order of the history list,
  and the exact effect of inserting, squashing and deleting.  \<open>src/store/CommitStore.cpp\<close>.
\<close>

section \<open>Effects of squash and delete\<close>

lemma to_optional_Some: "to_optional r = (Some x, c) \<longleftrightarrow> r = (Inr x, c)"
  by (auto simp: to_optional_def split: prod.splits sum.splits)

lemma to_optional_None: "to_optional r = (None, c) \<longleftrightarrow> (\<exists>e. r = (Inl e, c))"
  by (auto simp: to_optional_def split: prod.splits sum.splits)

lemma is_success_True: "is_success r = (True, c) \<longleftrightarrow> (\<exists>x. r = (Inr x, c))"
  by (auto simp: is_success_def split: prod.splits sum.splits)

lemma is_success_False: "is_success r = (False, c) \<longleftrightarrow> (\<exists>e. r = (Inl e, c))"
  by (auto simp: is_success_def split: prod.splits sum.splits)

lemma get_row_frame:
  "cdb (snd (get_row z i c)) = cdb c" "saved (snd (get_row z i c)) = saved c"
  "is_open (snd (get_row z i c)) = is_open c" "fk_on (snd (get_row z i c)) = fk_on c"
  by (simp_all add: get_row_def split_beta)

lemma get_row_no_fault [simp]:
  "is_open c \<Longrightarrow> faults c = [] \<Longrightarrow>
     get_row z i c = (map_option (\<lambda>r. rowFromStatement z (i, r)) (fmlookup (commits (cdb c)) i), c)"
  by (simp add: get_row_def)

definition squash_time :: "zlib \<Rightarrow> int \<Rightarrow> commit_id list \<Rightarrow> conn \<Rightarrow> int" where
  "squash_time z now ids c = (case fst (get_row z (last ids) c) of None \<Rightarrow> now | Some r \<Rightarrow> row_created r)"

lemma squash_Some:
  assumes "squash z now lk ids p msg b c = (Some i, c')" and "saved c = None"
  shows "2 \<le> length ids \<and> (\<exists>stored. compressBlob z b (- 1) = Some stored \<and> i = next_id (cdb c)
    \<and> cdb c' = squashed (new_row lk p None msg (squash_time z now ids c) stored) ids lk (cdb c))
    \<and> saved c' = None \<and> is_open c' \<and> fk_on c' = fk_on c \<and> (fk_on c \<longrightarrow> fk_ok (cdb c'))"
proof -
  let ?c1 = "snd (get_row z (last ids) c)"
  let ?b = "squash_body z lk ids p msg (squash_time z now ids c) b"
  note f = get_row_frame [of z "last ids" c]
  from assms(1) have "is_open c" "2 \<le> length ids" and t: "transact ?b ?c1 = (Inr i, c')"
    by (auto simp: squash_def split_beta Let_def to_optional_Some squash_time_def split: if_splits)
  from transact_Inr [OF keeps_store(4) _ t] f assms(2) obtain d1 d2 where
    "cdb d1 = cdb c" "saved d1 = Some (cdb c)" "?b d1 = (Inr i, d2)" "cdb c' = cdb d2"
    and rest: "saved c' = None" "is_open c' = is_open c" "fk_on c' = fk_on c" "fk_on c \<longrightarrow> fk_ok (cdb c')"
    by auto
  with squash_body_Inr [of z lk ids p msg "squash_time z now ids c" b d1 i d2] \<open>is_open c\<close> \<open>2 \<le> length ids\<close>
  show ?thesis by auto
qed

lemma squash_None:
  assumes "squash z now lk ids p msg b c = (None, c')" and "saved c = None"
  shows "cdb c' = cdb c \<and> saved c' = None \<and> is_open c' = is_open c \<and> fk_on c' = fk_on c"
proof -
  let ?c1 = "snd (get_row z (last ids) c)"
  note f = get_row_frame [of z "last ids" c]
  from assms(1) consider "c' = c" | e where "transact (squash_body z lk ids p msg (squash_time z now ids c) b) ?c1 = (Inl e, c')"
    by (auto simp: squash_def split_beta Let_def to_optional_None squash_time_def split: if_splits)
  then show ?thesis
  proof cases
    case 2
    show ?thesis using transact_Inl [OF keeps_store(4) _ 2] f assms(2) by simp
  qed (simp add: assms(2))
qed

definition deleted :: "level_key \<Rightarrow> db \<Rightarrow> db" where
  "deleted lk d =
     d\<lparr>refs := fmdrop lk (refs d), commits := fmfilter (\<lambda>i. r_level (the (fmlookup (commits d) i)) \<noteq> lk) (commits d)\<rparr>"

lemma deleteCommits_Inr:
  assumes "deleteCommitsAndRefsForKey lk c = (Inr u, c')" and "saved c \<noteq> None"
  shows "cdb c' = deleted lk (cdb c) \<and> saved c' = saved c"
proof -
  from assms(1) obtain c1 where 1: "act_sql SqlFailed (stmt_delete_refs lk) c = (Inr (), c1)"
    and 2: "act_sql SqlFailed (stmt_delete_commits lk) c1 = (Inr (), c')"
    by (auto simp: deleteCommitsAndRefsForKey_def when_open_Inr act_bind_Inr)
  have "same_frame c c1" "same_frame c1 c'"
    using keeps_basic(3) [of SqlFailed "stmt_delete_refs lk"] keeps_basic(3) [of SqlFailed "stmt_delete_commits lk"] 1 2
    by (metis snd_conv)+
  then have s: "saved c1 = saved c" "saved c' = saved c" by (simp_all add: same_frame_def)
  have d1: "cdb c1 = (cdb c)\<lparr>refs := fmdrop lk (refs (cdb c))\<rparr>"
    using act_sql_tx [OF 1 assms(2)] by (simp add: stmt_delete_refs_def)
  have "cdb c' = (cdb c1)\<lparr>commits :=
      fmfilter (\<lambda>i. r_level (the (fmlookup (commits (cdb c1)) i)) \<noteq> lk) (commits (cdb c1))\<rparr>"
    using act_sql_tx [OF 2] s assms(2) by (simp add: stmt_delete_commits_def)
  moreover have "commits ((cdb c)\<lparr>refs := fmdrop lk (refs (cdb c))\<rparr>) = commits (cdb c)" by simp
  ultimately show ?thesis using s unfolding d1 deleted_def by (simp only: db.simps)
qed

lemma deleteLevel_True:
  assumes "deleteLevel lk c = (True, c')" and "saved c = None"
  shows "cdb c' = deleted lk (cdb c) \<and> saved c' = None \<and> is_open c' = is_open c \<and> fk_on c' = fk_on c
    \<and> (fk_on c \<longrightarrow> fk_ok (cdb c'))"
proof -
  from assms(1) obtain x where t: "transact (deleteCommitsAndRefsForKey lk) c = (Inr x, c')"
    by (auto simp: deleteLevel_def is_success_True split: if_splits)
  from transact_Inr [OF keeps_store(3) assms(2) t] show ?thesis
    using deleteCommits_Inr [of lk] by fastforce
qed

lemma deleteLevel_False:
  assumes "deleteLevel lk c = (False, c')" and "saved c = None"
  shows "cdb c' = cdb c \<and> saved c' = None \<and> is_open c' = is_open c \<and> fk_on c' = fk_on c"
  using transact_Inl [OF keeps_store(3) assms(2)] assms
  by (auto simp: deleteLevel_def is_success_False split: if_splits)

lemma exec_auto:
  assumes "exec s c = (r, c')" and "saved c = None"
  shows "saved c' = None \<and> is_open c' = is_open c \<and> fk_on c' = fk_on c \<and>
    (case r of None \<Rightarrow> cdb c' = cdb c
     | Some x \<Rightarrow> s (cdb c) = Some (cdb c', x) \<and> (fk_on c \<longrightarrow> fk_ok (cdb c')))"
proof -
  obtain failed c1 where t: "tick c = (failed, c1)" by fastforce
  note t1 = tick_pair [OF t]
  show ?thesis using assms t1 by (cases failed) (auto simp: exec_def t split: option.splits if_splits)
qed

section \<open>Reachable databases\<close>

text \<open>The calls a client of the store can make, with the time the clock shows.\<close>

datatype store_call =
    Call_Insert int level_key "commit_id option" "commit_id option" string string
  | Call_SetHead level_key commit_id
  | Call_UpdateMessage commit_id string
  | Call_Squash int level_key "commit_id list" "commit_id option" string string
  | Call_DeleteLevel level_key
  | Call_Get commit_id
  | Call_List level_key
  | Call_GetHead level_key

fun run_call :: "zlib \<Rightarrow> store_call \<Rightarrow> conn \<Rightarrow> bool \<times> conn" where
  "run_call z (Call_Insert now lk p rv msg b) c = is_success (insertAndSetHead z now lk p rv msg b c)"
| "run_call z (Call_SetHead lk i) c = is_success (setHead lk i c)"
| "run_call z (Call_UpdateMessage i msg) c = updateMessage i msg c"
| "run_call z (Call_Squash now lk ids p msg b) c =
     (case squash z now lk ids p msg b c of (r, c') \<Rightarrow> (r \<noteq> None, c'))"
| "run_call z (Call_DeleteLevel lk) c = deleteLevel lk c"
| "run_call z (Call_Get i) c = (case get_row z i c of (r, c') \<Rightarrow> (r \<noteq> None, c'))"
| "run_call z (Call_List lk) c = (case list_rows z lk c of (r, c') \<Rightarrow> (True, c'))"
| "run_call z (Call_GetHead lk) c = (case getHead lk c of (r, c') \<Rightarrow> (r \<noteq> None, c'))"

definition ids_ok :: "db \<Rightarrow> bool" where
  "ids_ok d \<longleftrightarrow> fmpred (\<lambda>i _. 0 < i \<and> i \<le> autoinc d) (commits d) \<and> 0 \<le> autoinc d"

definition store_ok :: "conn \<Rightarrow> bool" where
  "store_ok c \<longleftrightarrow> saved c = None \<and> fk_on c \<and> fk_ok (cdb c) \<and> ids_ok (cdb c)"

text \<open>An open connection on a database just created, and what calls make of it.\<close>

inductive store_reach :: "zlib \<Rightarrow> conn \<Rightarrow> bool" for z where
  created: "store_reach z \<lparr>is_open = True, cdb = empty_db\<lparr>meta_version := Some ''5''\<rparr>, saved = None, fk_on = True, faults = fs\<rparr>"
| call: "store_reach z c \<Longrightarrow> run_call z k c = (ok, c') \<Longrightarrow> store_reach z c'"

lemma next_id_pos: "ids_ok d \<Longrightarrow> 0 < next_id d"
  using autoinc_next_id [of d] by (simp add: ids_ok_def)

lemma ids_ok_inserted: "ids_ok d \<Longrightarrow> ids_ok (inserted r d)"
  using autoinc_next_id [of d] next_id_pos [of d]
  by (auto simp: ids_ok_def inserted_def fmpred_iff)

lemma ids_ok_dom:
  assumes "ids_ok d" and "autoinc d \<le> autoinc d'" and "fmdom' (commits d') \<subseteq> fmdom' (commits d)"
  shows "ids_ok d'"
proof -
  have "0 < i \<and> i \<le> autoinc d'" if "fmlookup (commits d') i = Some r" for i r
  proof -
    have "i \<in> fmdom' (commits d)" using assms(3) that fmdom'I by fast
    then obtain r' where "fmlookup (commits d) i = Some r'" by (auto simp: fmlookup_dom'_iff)
    with assms(1,2) show ?thesis by (auto simp: ids_ok_def fmpred_iff)
  qed
  with assms(1,2) show ?thesis by (auto simp: ids_ok_def fmpred_iff)
qed

lemma ids_ok_committed: "ids_ok d \<Longrightarrow> ids_ok (committed r d)"
  by (rule ids_ok_dom [OF ids_ok_inserted [of d r]]) (simp_all add: committed_def)

lemma ids_ok_squashed: "ids_ok d \<Longrightarrow> ids_ok (squashed row ids lk d)"
proof (rule ids_ok_dom [OF ids_ok_inserted [of d row]])
  show "fmdom' (commits (squashed row ids lk d)) \<subseteq> fmdom' (commits (inserted row d))"
    by (auto simp: squashed_lookup inserted_def fmlookup_dom'_iff split: if_splits)
qed (simp_all add: squashed_def inserted_def)

lemma ids_ok_deleted: "ids_ok d \<Longrightarrow> ids_ok (deleted lk d)"
  by (rule ids_ok_dom [of d]) (auto simp: deleted_def fmlookup_dom'_iff)

text \<open>Parents and HEADs stay within their level (its key as the program reads it, as a C string).\<close>

definition at_level :: "db \<Rightarrow> level_key \<Rightarrow> commit_id \<Rightarrow> bool" where
  "at_level d lk i \<longleftrightarrow> (\<exists>r. fmlookup (commits d) i = Some r \<and> c_str (r_level r) = c_str lk)"

definition levels_ok :: "db \<Rightarrow> bool" where
  "levels_ok d \<longleftrightarrow>
     (\<forall>j r q. fmlookup (commits d) j = Some r \<longrightarrow> r_parent r = Some q \<longrightarrow> at_level d (r_level r) q) \<and>
     (\<forall>l h. fmlookup (refs d) l = Some h \<longrightarrow> at_level d l h)"

lemma levels_okD:
  "levels_ok d \<Longrightarrow> fmlookup (commits d) j = Some r \<Longrightarrow> r_parent r = Some q \<Longrightarrow> at_level d (r_level r) q"
  "levels_ok d \<Longrightarrow> fmlookup (refs d) l = Some h \<Longrightarrow> at_level d l h"
  by (simp_all add: levels_ok_def)

lemma c_str_again [simp]: "c_str (c_str s) = c_str s"
  by (simp add: c_str_def)

lemma at_level_exists: "at_level d lk i \<Longrightarrow> fmlookup (commits d) i \<noteq> None"
  by (auto simp: at_level_def)

text \<open>
  Identifiers are never used again: what exists later below the counter existed before, and it
  never changes its level; nor does the version of the schema change.
\<close>

definition grows :: "db \<Rightarrow> db \<Rightarrow> bool" where
  "grows d d' \<longleftrightarrow> autoinc d \<le> autoinc d' \<and> meta_version d' = meta_version d \<and>
     (\<forall>j r. j \<le> autoinc d \<longrightarrow> fmlookup (commits d') j = Some r \<longrightarrow> at_level d (r_level r) j)"

lemma grows_exists: "grows d d' \<Longrightarrow> j \<le> autoinc d \<Longrightarrow> fmlookup (commits d') j \<noteq> None \<Longrightarrow> fmlookup (commits d) j \<noteq> None"
  by (auto simp: grows_def at_level_def)

lemma grows_level: "grows d d' \<Longrightarrow> j \<le> autoinc d \<Longrightarrow> at_level d lk j \<Longrightarrow> fmlookup (commits d') j \<noteq> None \<Longrightarrow> at_level d' lk j"
  by (fastforce simp: grows_def at_level_def)

named_theorems grows_intros \<open>operations that never use an identifier again\<close>

lemma grows_refl [simp, grows_intros]: "grows d d"
  by (simp add: grows_def at_level_def)

lemma grows_trans: "grows a b \<Longrightarrow> grows b c \<Longrightarrow> grows a c"
  unfolding grows_def at_level_def by (metis order_trans)

lemma grows_committed [grows_intros]: "grows d (committed r d)"
  using autoinc_next_id [of d] by (auto simp: grows_def at_level_def committed_def inserted_def)

lemma grows_squashed [grows_intros]: "grows d (squashed row ids lk d)"
  using autoinc_next_id [of d] by (auto simp: grows_def at_level_def squashed_lookup split: if_splits) (simp_all add: squashed_def)

lemma grows_deleted [grows_intros]: "grows d (deleted lk d)"
  by (auto simp: grows_def at_level_def deleted_def split: if_splits)

lemma failed_call_unchanged:
  assumes "run_call z k c = (False, c')" and "saved c = None"
  shows "cdb c' = cdb c \<and> saved c' = None \<and> is_open c' = is_open c \<and> fk_on c' = fk_on c"
proof (cases k)
  case (Call_SetHead lk i)
  with assms obtain e where "act_sql SetHeadFailed (stmt_set_head lk i) c = (Inl e, c') \<or> c' = c"
    by (auto simp: is_success_False setHead_def when_open_def split: if_splits)
  then show ?thesis
    using exec_auto [of "stmt_set_head lk i" c None c'] assms(2)
    by (auto simp: act_sql_def split: prod.splits option.splits)
next
  case (Call_UpdateMessage i msg)
  with assms consider "c' = c" | "exec (stmt_update_message i msg) c = (None, c')"
    | "exec (stmt_update_message i msg) c = (Some 0, c')"
    by (auto simp: updateMessage_def split: if_splits prod.splits option.splits)
  then show ?thesis
  proof cases
    case 3
    with exec_auto [OF 3 assms(2)] show ?thesis
      by (auto simp: stmt_update_message_def split: option.splits)
  qed (use assms(2) exec_auto [of "stmt_update_message i msg" c None c'] in auto)
next
  case (Call_Squash now lk ids p msg b)
  with assms(1) have "squash z now lk ids p msg b c = (None, c')" by (simp add: split_beta prod_eq_iff)
  then show ?thesis using squash_None assms(2) by blast
next
  case (Call_Insert now lk p rv msg b)
  with assms show ?thesis using insertAndSetHead_Inl by (simp add: is_success_False) blast
next
  case (Call_DeleteLevel lk)
  with assms show ?thesis using deleteLevel_False by simp
next
  case (Call_Get i)
  with assms(1) have "c' = snd (get_row z i c)" by (simp add: split_beta)
  with get_row_frame [of z i c] assms(2) show ?thesis by simp
next
  case (Call_List lk)
  with assms(1) show ?thesis by (simp add: split_beta)
next
  case (Call_GetHead lk)
  with assms(1) have "c' = snd (getHead lk c)" by (simp add: split_beta)
  with assms(2) show ?thesis by (simp add: getHead_def split_beta)
qed

lemma ids_ok_commits: "ids_ok d \<Longrightarrow> autoinc d' = autoinc d \<Longrightarrow> fmdom' (commits d') \<subseteq> fmdom' (commits d) \<Longrightarrow> ids_ok d'"
  by (rule ids_ok_dom) simp_all

lemma store_ok_call:
  assumes "run_call z k c = (ok, c')" and "store_ok c"
  shows "store_ok c'"
proof (cases ok)
  case False
  with assms failed_call_unchanged [of z k c c'] show ?thesis by (simp add: store_ok_def)
next
  case True
  have s: "saved c = None" and fk: "fk_on c" "fk_ok (cdb c)" and ids: "ids_ok (cdb c)"
    using assms(2) by (auto simp: store_ok_def)
  show ?thesis
  proof (cases k)
    case (Call_Insert now lk p rv msg b)
    with assms(1) True obtain i where "insertAndSetHead z now lk p rv msg b c = (Inr i, c')"
      by (auto simp: is_success_True)
    from insertAndSetHead_Inr [OF this s] fk ids show ?thesis
      by (auto simp: store_ok_def intro: ids_ok_committed)
  next
    case (Call_Squash now lk ids' p msg b)
    with assms(1) True obtain i where "squash z now lk ids' p msg b c = (Some i, c')"
      by (auto split: prod.splits)
    from squash_Some [OF this s] fk ids show ?thesis
      by (auto simp: store_ok_def intro: ids_ok_squashed)
  next
    case (Call_DeleteLevel lk)
    with assms(1) True have "deleteLevel lk c = (True, c')" by simp
    from deleteLevel_True [OF this s] fk ids show ?thesis
      by (auto simp: store_ok_def intro: ids_ok_deleted)
  next
    case (Call_SetHead lk i)
    with assms(1) True have "exec (stmt_set_head lk i) c = (Some (), c')"
      by (auto simp: is_success_True setHead_def when_open_Inr act_sql_def split: prod.splits option.splits)
    note e = exec_auto [OF this s]
    then have "cdb c' = (cdb c)\<lparr>refs := fmupd lk i (refs (cdb c))\<rparr>" by (simp add: stmt_set_head_def)
    then have "ids_ok (cdb c')" by (intro ids_ok_commits [OF ids]) simp_all
    with e fk show ?thesis by (simp add: store_ok_def)
  next
    case (Call_UpdateMessage i msg)
    with assms(1) True obtain n where "exec (stmt_update_message i msg) c = (Some n, c')"
      by (auto simp: updateMessage_def split: if_splits prod.splits option.splits)
    note e = exec_auto [OF this s]
    have "ids_ok (cdb c')"
    proof (cases "fmlookup (commits (cdb c)) i")
      case None
      with e ids show ?thesis by (simp add: stmt_update_message_def)
    next
      case (Some r)
      with e have "cdb c' = (cdb c)\<lparr>commits := fmupd i (r\<lparr>r_message := msg\<rparr>) (commits (cdb c))\<rparr>"
        by (simp add: stmt_update_message_def)
      then show ?thesis using Some by (intro ids_ok_commits [OF ids]) (simp_all add: insert_absorb fmdom'I)
    qed
    with e fk show ?thesis by (simp add: store_ok_def)
  next
    case (Call_Get i)
    with assms(1) have "c' = snd (get_row z i c)" by (simp add: split_beta)
    with get_row_frame [of z i c] assms(2) show ?thesis by (simp add: store_ok_def)
  next
    case (Call_List lk)
    with assms(1) have "c' = snd (list_rows z lk c)" by (simp add: split_beta)
    with assms(2) show ?thesis by (simp add: store_ok_def list_rows_def split_beta)
  next
    case (Call_GetHead lk)
    with assms(1) have "c' = snd (getHead lk c)" by (simp add: split_beta)
    with assms(2) show ?thesis by (simp add: store_ok_def getHead_def split_beta)
  qed
qed

section \<open>Properties\<close>


definition sample_conn :: "bool list \<Rightarrow> conn" where
  "sample_conn fs = \<lparr>is_open = True, cdb = empty_db\<lparr>meta_version := Some ''5''\<rparr>, saved = None, fk_on = True, faults = fs\<rparr>"

definition sample_calls :: "store_call list" where
  "sample_calls =
     [Call_Insert 10 ''L'' None None ''first'' ''{}'', Call_Insert 11 ''L'' (Some 1) None ''second'' ''{}'',
      Call_Insert 12 ''L'' (Some 2) None ''third'' ''{}'', Call_Squash 13 ''L'' [1, 2] None ''squashed'' ''{}'',
      Call_DeleteLevel ''M'']"

definition run_calls :: "zlib \<Rightarrow> store_call list \<Rightarrow> conn \<Rightarrow> conn" where
  "run_calls z ks c = fold (\<lambda>k c. snd (run_call z k c)) ks c"

lemma run_calls_reach: "store_reach z c \<Longrightarrow> store_reach z (run_calls z ks c)"
  unfolding run_calls_def by (induction ks arbitrary: c) (auto intro: store_reach.call [OF _ prod.collapse [symmetric]])




text \<open>
  A commit that succeeds adds exactly one row, under a new identifier, with the given
  parent and message and a delta that decompresses to the given one, makes it the HEAD of
  its level, and changes nothing else.
\<close>

theorem insertAndSetHead_effect:
  assumes "insertAndSetHead z now lk p rv msg b c = (Inr i, c')" and "saved c = None" and "zlib_ok z"
  shows "fmlookup (commits (cdb c)) i = None
    \<and> (\<exists>r. fmlookup (commits (cdb c')) i = Some r \<and> r_level r = lk \<and> r_parent r = p \<and> r_reverts r = rv
         \<and> r_message r = msg \<and> r_created r = now \<and> decompressBlob z (r_blob r) = Some b)
    \<and> fmlookup (refs (cdb c')) lk = Some i
    \<and> (\<forall>j. j \<noteq> i \<longrightarrow> fmlookup (commits (cdb c')) j = fmlookup (commits (cdb c)) j)
    \<and> (\<forall>l. l \<noteq> lk \<longrightarrow> fmlookup (refs (cdb c')) l = fmlookup (refs (cdb c)) l)"
proof -
  from insertAndSetHead_Inr [OF assms(1,2)] obtain stored where
    st: "compressBlob z b (- 1) = Some stored" "i = next_id (cdb c)"
    "cdb c' = committed (new_row lk p rv msg now stored) (cdb c)" by blast
  with decompress_compress [OF assms(3) st(1)] show ?thesis
    by (auto simp: committed_def inserted_def new_row_def)
qed

theorem insertAndSetHead_effect_witness:
  "\<exists>c'. insertAndSetHead stored_zlib 10 ''L'' None None ''m'' ''{}'' (sample_conn []) = (Inr 1, c')
     \<and> fmlookup (refs (cdb c')) ''L'' = Some 1"
proof -
  let ?r = "insertAndSetHead stored_zlib 10 ''L'' None None ''m'' ''{}'' (sample_conn [])"
  have "fst ?r = Inr 1" by code_simp
  then have r: "?r = (Inr 1, snd ?r)" by (simp add: prod_eq_iff)
  from insertAndSetHead_effect [OF this _ stored_zlib_ok] show ?thesis
    by (intro exI [of _ "snd ?r"]) (use r in \<open>simp add: sample_conn_def\<close>)
qed

text \<open>
  A squash that succeeds removes exactly the given commits and adds one with a new
  identifier and the given parent; commits of the level whose parent was the newest squashed
  one now hang off the new one, references that reverted a squashed commit are cleared, the
  HEAD moves to the new commit when it was among them, and every other row is unchanged.  It
  can only succeed when no other commit still refers to a squashed one.
\<close>

theorem squash_effect:
  assumes "squash z now lk ids p msg b c = (Some i, c')" and "store_ok c" and "i \<notin> set ids"
  shows "fmlookup (commits (cdb c)) i = None
    \<and> (\<forall>j \<in> set ids. fmlookup (commits (cdb c')) j = None)
    \<and> (\<exists>r. fmlookup (commits (cdb c')) i = Some r \<and> r_level r = lk \<and> r_parent r = p \<and> r_reverts r = None \<and> r_message r = msg)
    \<and> (\<forall>j r. j \<noteq> i \<longrightarrow> j \<notin> set ids \<longrightarrow> fmlookup (commits (cdb c)) j = Some r \<longrightarrow>
        (\<exists>r'. fmlookup (commits (cdb c')) j = Some r' \<and>
          r_parent r' = (if r_parent r = Some (last ids) \<and> r_level r = lk then Some i else r_parent r) \<and>
          r_reverts r' = (case r_reverts r of Some v \<Rightarrow> if v \<in> set ids then None else Some v | None \<Rightarrow> None) \<and>
          r_level r' = r_level r \<and> r_message r' = r_message r \<and> r_created r' = r_created r \<and> r_blob r' = r_blob r))
    \<and> fmlookup (refs (cdb c')) lk = map_option (\<lambda>h. if h \<in> set ids then i else h) (fmlookup (refs (cdb c)) lk)
    \<and> fk_ok (cdb c')"
proof -
  from squash_Some [OF assms(1)] assms(2) obtain stored where
    i: "i = next_id (cdb c)" and d: "cdb c' = squashed (new_row lk p None msg (squash_time z now ids c) stored) ids lk (cdb c)"
    and fk: "fk_ok (cdb c')" by (auto simp: store_ok_def)
  have "fmlookup (refs (cdb c')) lk = map_option (\<lambda>h. if h \<in> set ids then i else h) (fmlookup (refs (cdb c)) lk)"
    by (auto simp: d i squashed_def split: option.split)
  moreover have "fmlookup (commits (cdb c')) j = Some (squashed_row i ids lk j r)"
    if "j \<noteq> i" "j \<notin> set ids" "fmlookup (commits (cdb c)) j = Some r" for j r
    using that by (simp add: d i squashed_lookup)
  moreover have "fmlookup (commits (cdb c')) i =
      Some (squashed_row i ids lk i (new_row lk p None msg (squash_time z now ids c) stored))"
    using assms(3) by (simp add: d i squashed_lookup)
  ultimately show ?thesis using fk assms(3) i
    by (auto simp: d squashed_lookup new_row_def)
qed

theorem squash_effect_witness:
  "let c = run_calls stored_zlib (take 3 sample_calls) (sample_conn []);
       r = squash stored_zlib 13 ''L'' [1, 2] None ''squashed'' ''{}'' c
   in fst r = Some 4 \<and> fmlookup (commits (cdb (snd r))) 2 = None
      \<and> fmlookup (refs (cdb (snd r))) ''L'' = Some 3 \<and> fk_ok (cdb (snd r))"
proof -
  let ?c = "run_calls stored_zlib (take 3 sample_calls) (sample_conn [])"
  let ?r = "squash stored_zlib 13 ''L'' [1, 2] None ''squashed'' ''{}'' ?c"
  have reach: "store_reach stored_zlib (run_calls stored_zlib ks (sample_conn []))" for ks
    unfolding sample_conn_def by (intro run_calls_reach store_reach.created)
  have ok: "store_ok ?c"
  proof -
    have "store_ok (sample_conn [])"
      by (simp add: sample_conn_def store_ok_def fk_ok_def ids_ok_def empty_db_def fmpred_iff)
    then have "store_ok (run_calls stored_zlib ks (sample_conn []))" for ks
      unfolding run_calls_def by (rule fold_invariant [rotated]) (metis prod.collapse store_ok_call)
    then show ?thesis .
  qed
  have f: "fst ?r = Some 4" by code_simp
  then have "?r = (Some 4, snd ?r)" by (simp add: prod_eq_iff)
  from squash_effect [OF this ok] have "fmlookup (commits (cdb (snd ?r))) 2 = None"
    "fmlookup (refs (cdb (snd ?r))) ''L'' = map_option (\<lambda>h. if h \<in> set [1, 2] then 4 else h) (fmlookup (refs (cdb ?c)) ''L'')"
    "fk_ok (cdb (snd ?r))" by auto
  moreover have "fmlookup (refs (cdb ?c)) ''L'' = Some 3" by code_simp
  ultimately show ?thesis using f by (simp add: Let_def)
qed

text \<open>
  The history list of a level holds exactly the commits of the level, each once, newest
  first, ties by descending identifier, when no call fails; a failure cuts it short.
\<close>

theorem list_rows_spec:
  assumes "is_open c"
  shows "(\<exists>n. fst (list_rows z lk c) = take n (map (rowFromStatement z) (level_rows (cdb c) lk)))
    \<and> (faults c = [] \<longrightarrow> fst (list_rows z lk c) = map (rowFromStatement z) (level_rows (cdb c) lk))
    \<and> distinct (level_ids (cdb c) lk)
    \<and> set (level_ids (cdb c) lk) = {i. \<exists>r. fmlookup (commits (cdb c)) i = Some r \<and> r_level r = lk}
    \<and> sorted_wrt (\<lambda>i j. (r_created (the (fmlookup (commits (cdb c)) j)), j) \<le> (r_created (the (fmlookup (commits (cdb c)) i)), i))
        (level_ids (cdb c) lk)"
proof (intro conjI impI)
  obtain n where n: "fst (fetch (level_rows (cdb c) lk) c) = take n (level_rows (cdb c) lk)"
    using fetch_prefix [of "level_rows (cdb c) lk" c] by blast
  show "\<exists>n. fst (list_rows z lk c) = take n (map (rowFromStatement z) (level_rows (cdb c) lk))"
    using assms n by (intro exI [of _ n]) (simp add: list_rows_def split_beta take_map)
  show "fst (list_rows z lk c) = map (rowFromStatement z) (level_rows (cdb c) lk)" if "faults c = []"
    using assms that by (simp add: list_rows_def)
  show "distinct (level_ids (cdb c) lk)" by (simp add: level_ids_def)
  show "set (level_ids (cdb c) lk) = {i. \<exists>r. fmlookup (commits (cdb c)) i = Some r \<and> r_level r = lk}"
    by (auto simp: level_ids_def fmlookup_dom'_iff)
  let ?k = "\<lambda>i. (r_created (the (fmlookup (commits (cdb c)) i)), i)"
  have "sorted (map ?k (sort_key ?k (filter (\<lambda>i. r_level (the (fmlookup (commits (cdb c)) i)) = lk) (sorted_keys (commits (cdb c))))))"
    by (rule sorted_sort_key)
  then show "sorted_wrt (\<lambda>i j. ?k j \<le> ?k i) (level_ids (cdb c) lk)"
    by (simp add: level_ids_def sorted_wrt_rev sorted_map)
qed

theorem list_rows_spec_witness:
  "map row_id (fst (list_rows stored_zlib ''L'' (run_calls stored_zlib (take 3 sample_calls) (sample_conn [])))) = [3, 2, 1]"
proof -
  let ?c = "run_calls stored_zlib (take 3 sample_calls) (sample_conn [])"
  have "is_open ?c" "faults ?c = []" by code_simp+
  then have "fst (list_rows stored_zlib ''L'' ?c) = map (rowFromStatement stored_zlib) (level_rows (cdb ?c) ''L'')"
    using list_rows_spec [of ?c] by blast
  moreover have "map row_id (map (rowFromStatement stored_zlib) (level_rows (cdb ?c) ''L'')) = [3, 2, 1]" by code_simp
  ultimately show ?thesis by simp
qed

end
