(* ===== verification/Commit_Schema.thy ===== *)
theory Commit_Schema
  imports Store_Spec
begin

text \<open>
  \<open>src/store/CommitSchema.cpp\<close> and \<open>CommitStore::init\<close>: reading the stored schema version,
  wiping a database with an older one, creating the tables, and opening the store.  The
  table \<open>schema_meta\<close> is the field \<open>meta_version\<close> of the database; a table that does not
  exist and an empty one are not distinguished.
\<close>

section \<open>The code\<close>

definition kSchemaVersion :: int where
  "kSchemaVersion = 5"

text \<open>\<open>std::atoi\<close>: optional white space and sign, then the leading digits.\<close>

definition atoi :: "string \<Rightarrow> int" where
  "atoi s =
     (let t = dropWhile (\<lambda>c. c = CHR '' '' \<or> (9 \<le> (of_char c :: nat) \<and> (of_char c :: nat) \<le> 13)) s in
      case t of
        [] \<Rightarrow> 0
      | c # cs \<Rightarrow>
          (if c = CHR ''-'' then - int (digits_val (takeWhile is_digit cs))
           else if c = CHR ''+'' then int (digits_val (takeWhile is_digit cs))
           else int (digits_val (takeWhile is_digit t))))"

definition execOrLog :: "(db \<Rightarrow> db) \<Rightarrow> conn \<Rightarrow> bool \<times> conn" where
  "execOrLog f c = (case exec (\<lambda>d. Some (f d, ())) c of (r, c1) \<Rightarrow> (r \<noteq> None, c1))"

text \<open>Four calls: prepare and step for the existence of the table, prepare and step for the row.\<close>

definition readSchemaVersion :: "conn \<Rightarrow> int \<times> conn" where
  "readSchemaVersion c =
     (case tick c of (f1, c1) \<Rightarrow>
        if f1 then (- 2, c1)
        else
          (case tick c1 of (f2, c2) \<Rightarrow>
             if f2 \<or> meta_version (cdb c2) = None then (- 2, c2)
             else
               (case tick c2 of (f3, c3) \<Rightarrow>
                  if f3 then (- 1, c3)
                  else
                    (case tick c3 of (f4, c4) \<Rightarrow>
                       (if f4 then - 1 else (case meta_version (cdb c4) of None \<Rightarrow> - 1 | Some v \<Rightarrow> atoi v), c4)))))"

definition dropSchemaObjects :: "conn \<Rightarrow> bool \<times> conn" where
  "dropSchemaObjects c =
     (case execOrLog (\<lambda>d. d\<lparr>refs := fmempty\<rparr>) c of (ok1, c1) \<Rightarrow>
        if \<not> ok1 then (False, c1)
        else
          (case execOrLog (\<lambda>d. d\<lparr>commits := fmempty, autoinc := 0\<rparr>) c1 of (ok2, c2) \<Rightarrow>
             if \<not> ok2 then (False, c2)
             else
               (case execOrLog (\<lambda>d. d\<lparr>meta_version := None\<rparr>) c2 of (ok3, c3) \<Rightarrow>
                  if \<not> ok3 then (False, c3)
                  else (True, snd (execOrLog (\<lambda>d. d) c3)))))"

definition createSchemaObjects :: "conn \<Rightarrow> bool \<times> conn" where
  "createSchemaObjects c = execOrLog (\<lambda>d. d) c"

definition upsertSchemaVersion :: "int \<Rightarrow> conn \<Rightarrow> bool \<times> conn" where
  "upsertSchemaVersion version c =
     (case tick c of (failed, c1) \<Rightarrow>
        if failed then (False, c1)
        else execOrLog (\<lambda>d. d\<lparr>meta_version := Some (int_to_string version)\<rparr>) c1)"

definition ensureSchema :: "int \<Rightarrow> conn \<Rightarrow> bool \<times> conn" where
  "ensureSchema version c =
     (case readSchemaVersion c of (current, c1) \<Rightarrow>
      case (if current < version then dropSchemaObjects c1 else (True, c1)) of (ok1, c2) \<Rightarrow>
        if \<not> ok1 then (False, c2)
        else
          (case createSchemaObjects c2 of (ok2, c3) \<Rightarrow>
             if \<not> ok2 then (False, c3) else upsertSchemaVersion version c3))"

text \<open>\<open>prepareStatements\<close>: ten statements, the first failure stops.\<close>

fun prepare_all :: "nat \<Rightarrow> conn \<Rightarrow> bool \<times> conn" where
  "prepare_all 0 c = (True, c)"
| "prepare_all (Suc n) c = (case tick c of (failed, c1) \<Rightarrow> if failed then (False, c1) else prepare_all n c1)"

definition close_db :: "conn \<Rightarrow> conn" where
  "close_db c = c\<lparr>is_open := False\<rparr>"

text \<open>The results of the three pragmas are ignored; without the last one SQLite does not
  enforce foreign keys.\<close>

definition init_store :: "conn \<Rightarrow> bool \<times> conn" where
  "init_store c =
     (if is_open c then (True, c)
      else
        (case tick c of (failed, c1) \<Rightarrow>
           if failed then (False, close_db c1)
           else
             (let c2 = snd (tick (c1\<lparr>is_open := True, fk_on := False\<rparr>));
                  c3 = snd (tick c2)
              in case tick c3 of (failedFk, c4) \<Rightarrow>
                 case ensureSchema kSchemaVersion (c4\<lparr>fk_on := \<not> failedFk\<rparr>) of (ok, c5) \<Rightarrow>
                   if \<not> ok then (False, close_db c5)
                   else
                     (case prepare_all 10 c5 of (ok2, c6) \<Rightarrow>
                        if \<not> ok2 then (False, close_db c6) else (True, c6)))))"

section \<open>Properties\<close>

lemma execOrLog_no_fault:
  "faults c = [] \<Longrightarrow> saved c = None \<Longrightarrow> fk_on c \<Longrightarrow> fk_ok (f (cdb c)) \<Longrightarrow>
     execOrLog f c = (True, c\<lparr>cdb := f (cdb c)\<rparr>)"
  by (simp add: execOrLog_def exec_def)

lemma execOrLog_no_fault_off:
  "faults c = [] \<Longrightarrow> saved c = None \<Longrightarrow> \<not> fk_on c \<Longrightarrow> execOrLog f c = (True, c\<lparr>cdb := f (cdb c)\<rparr>)"
  by (simp add: execOrLog_def exec_def)

lemma prepare_all_no_fault: "faults c = [] \<Longrightarrow> prepare_all n c = (True, c)"
  by (induction n) simp_all

lemma ref_ok_cong: "commits d = commits d' \<Longrightarrow> ref_ok d = ref_ok d'"
  by (rule ext) (simp add: ref_ok_def split: option.split)

lemma fk_ok_meta [simp]: "fk_ok (d\<lparr>meta_version := v\<rparr>) = fk_ok d"
  using ref_ok_cong [of "d\<lparr>meta_version := v\<rparr>" d] by (simp add: fk_ok_def)

lemma fk_ok_no_commits: "fk_ok (d\<lparr>refs := fmempty, commits := fmempty, autoinc := n\<rparr>)"
  by (simp add: fk_ok_def fmpred_iff)

lemma fk_ok_no_refs: "fk_ok d \<Longrightarrow> fk_ok (d\<lparr>refs := fmempty\<rparr>)"
  using ref_ok_cong [of "d\<lparr>refs := fmempty\<rparr>" d] by (simp add: fk_ok_def fmpred_iff)

lemma int_to_string_5: "int_to_string 5 = ''5''" "atoi ''5'' = 5"
  by code_simp+

definition schema_version :: "db \<Rightarrow> int" where
  "schema_version d = (case meta_version d of None \<Rightarrow> - 2 | Some v \<Rightarrow> atoi v)"

lemma readSchemaVersion_no_fault:
  "faults c = [] \<Longrightarrow> readSchemaVersion c = (schema_version (cdb c), c)"
  by (auto simp: readSchemaVersion_def schema_version_def)

text \<open>What opening makes of a database: its version becomes the current one, an older one is wiped.\<close>

definition opened_db :: "db \<Rightarrow> db" where
  "opened_db d =
     (if kSchemaVersion \<le> schema_version d then d\<lparr>meta_version := Some ''5''\<rparr>
      else d\<lparr>commits := fmempty, refs := fmempty, autoinc := 0, meta_version := Some ''5''\<rparr>)"

lemma opened_db_current [simp]: "meta_version d = Some ''5'' \<Longrightarrow> opened_db d = d"
  by (simp add: opened_db_def schema_version_def int_to_string_5 kSchemaVersion_def)

lemma init_store_value:
  assumes "faults c = []" and "\<not> is_open c" and "saved c = None" and "fk_ok (cdb c)"
  shows "init_store c = (True, c\<lparr>is_open := True, fk_on := True, cdb := opened_db (cdb c)\<rparr>)"
proof -
  let ?c = "c\<lparr>is_open := True, fk_on := True\<rparr>"
  have e: "init_store c = (case ensureSchema kSchemaVersion ?c of (ok, c5) \<Rightarrow>
      if \<not> ok then (False, close_db c5)
      else (case prepare_all 10 c5 of (ok2, c6) \<Rightarrow> if \<not> ok2 then (False, close_db c6) else (True, c6)))"
    using assms(1,2) by (simp add: init_store_def)
  have r: "readSchemaVersion ?c = (schema_version (cdb c), ?c)"
    by (subst readSchemaVersion_no_fault) (simp_all add: assms(1))
  let ?v = "\<lambda>d. d\<lparr>meta_version := Some ''5''\<rparr>"
  have "ensureSchema kSchemaVersion ?c = (True, ?c\<lparr>cdb := opened_db (cdb c)\<rparr>)"
  proof (cases "kSchemaVersion \<le> schema_version (cdb c)")
    case True
    then show ?thesis using assms
      by (simp add: ensureSchema_def r createSchemaObjects_def upsertSchemaVersion_def execOrLog_no_fault
          kSchemaVersion_def int_to_string_5 opened_db_def)
  next
    case False
    let ?w = "(cdb c)\<lparr>refs := fmempty, commits := fmempty, autoinc := 0, meta_version := None\<rparr>"
    have "dropSchemaObjects ?c = (True, ?c\<lparr>cdb := ?w\<rparr>)"
      using assms fk_ok_no_refs [OF assms(4)] fk_ok_no_commits [of 0 "cdb c"]
      by (simp add: dropSchemaObjects_def execOrLog_no_fault)
    then show ?thesis using False assms fk_ok_no_commits [of 0 "cdb c"]
      by (simp add: ensureSchema_def r createSchemaObjects_def upsertSchemaVersion_def execOrLog_no_fault
          kSchemaVersion_def int_to_string_5 opened_db_def)
  qed
  then show ?thesis by (simp add: e prepare_all_no_fault assms(1))
qed

text \<open>
  C35. Opening the store on a consistent database when no SQLite call fails keeps every
  commit and HEAD of a database whose version is current or newer, wipes one whose version
  is older, unreadable or absent, and in both cases leaves the current version number,
  foreign keys enforced and nothing dangling; opening it again changes nothing.
\<close>

theorem init_store_spec:
  assumes "faults c = []" and "\<not> is_open c" and "saved c = None" and "fk_ok (cdb c)"
  shows "\<exists>c'. init_store c = (True, c') \<and> is_open c' \<and> fk_on c' \<and> saved c' = None \<and> fk_ok (cdb c')
    \<and> schema_version (cdb c') = kSchemaVersion
    \<and> (if kSchemaVersion \<le> schema_version (cdb c)
       then commits (cdb c') = commits (cdb c) \<and> refs (cdb c') = refs (cdb c) \<and> autoinc (cdb c') = autoinc (cdb c)
       else commits (cdb c') = fmempty \<and> refs (cdb c') = fmempty)
    \<and> init_store c' = (True, c')"
proof (intro exI [of _ "c\<lparr>is_open := True, fk_on := True, cdb := opened_db (cdb c)\<rparr>"] conjI)
  show "init_store c = (True, c\<lparr>is_open := True, fk_on := True, cdb := opened_db (cdb c)\<rparr>)"
    by (rule init_store_value [OF assms])
  have "fk_ok ((cdb c)\<lparr>commits := fmempty, refs := fmempty, autoinc := 0, meta_version := Some ''5''\<rparr>)"
    by (simp add: fk_ok_def fmpred_iff)
  then show "fk_ok (cdb (c\<lparr>is_open := True, fk_on := True, cdb := opened_db (cdb c)\<rparr>))"
    using assms(4) by (simp add: opened_db_def)
  show "schema_version (cdb (c\<lparr>is_open := True, fk_on := True, cdb := opened_db (cdb c)\<rparr>)) = kSchemaVersion"
    by (simp add: opened_db_def schema_version_def kSchemaVersion_def int_to_string_5)
qed (simp_all add: assms(3) opened_db_def init_store_def)

definition one_commit :: "string option \<Rightarrow> bool list \<Rightarrow> conn" where
  "one_commit v fs =
     \<lparr>is_open = False, cdb = \<lparr>commits = fmap_of_list [(1, \<lparr>r_level = ''L'', r_parent = None, r_reverts = None,
        r_message = ''m'', r_created = 7, r_blob = ''''\<rparr>)], refs = fmap_of_list [(''L'', 1)], autoinc = 1, meta_version = v\<rparr>,
      saved = None, fk_on = False, faults = fs\<rparr>"

lemma one_commit_fk: "fk_ok (cdb (one_commit v fs))"
  by (auto simp: one_commit_def fk_ok_def ref_ok_def fmpred_iff split: if_splits)

theorem init_store_spec_witness:
  "(\<exists>c'. init_store (one_commit (Some ''5'') []) = (True, c') \<and> fmlookup (refs (cdb c')) ''L'' = Some 1)
   \<and> (\<exists>c'. init_store (one_commit (Some ''4'') []) = (True, c') \<and> commits (cdb c') = fmempty)"
proof
  have v: "schema_version (cdb (one_commit (Some ''5'') [])) = 5" "schema_version (cdb (one_commit (Some ''4'') [])) = 4"
    by code_simp+
  have h: "faults (one_commit v []) = []" "\<not> is_open (one_commit v [])" "saved (one_commit v []) = None" for v
    by (simp_all add: one_commit_def)
  show "\<exists>c'. init_store (one_commit (Some ''5'') []) = (True, c') \<and> fmlookup (refs (cdb c')) ''L'' = Some 1"
  proof -
    obtain c' where "init_store (one_commit (Some ''5'') []) = (True, c')"
      "refs (cdb c') = refs (cdb (one_commit (Some ''5'') []))"
      using init_store_spec [OF h one_commit_fk, of "Some ''5''"] v(1) by (auto simp: kSchemaVersion_def)
    then show ?thesis by (intro exI [of _ c']) (simp add: one_commit_def)
  qed
  show "\<exists>c'. init_store (one_commit (Some ''4'') []) = (True, c') \<and> commits (cdb c') = fmempty"
    using init_store_spec [OF h one_commit_fk, of "Some ''4''"] v(2) by (auto simp: kSchemaVersion_def)
qed

text \<open>
  C36. A defect: a call that fails while the version of a current database is read (the file
  is locked for a moment, say) is taken for an old version, and the history is wiped.  Here
  the only failing call is the first one of \<open>readSchemaVersion\<close>.
\<close>

theorem transient_failure_wipes_history:
  "\<exists>c c'. schema_version (cdb c) = kSchemaVersion \<and> fmlookup (refs (cdb c)) ''L'' = Some 1
     \<and> faults c = [False, False, False, False, True]
     \<and> init_store c = (True, c') \<and> commits (cdb c') = fmempty \<and> refs (cdb c') = fmempty"
proof (intro exI conjI)
  let ?c = "one_commit (Some ''5'') [False, False, False, False, True]"
  show "schema_version (cdb ?c) = kSchemaVersion" "fmlookup (refs (cdb ?c)) ''L'' = Some 1"
    "faults ?c = [False, False, False, False, True]" by code_simp+
  have "fst (init_store ?c) = True" by code_simp
  then show "init_store ?c = (True, snd (init_store ?c))" by (simp add: prod_eq_iff)
  show "commits (cdb (snd (init_store ?c))) = fmempty" "refs (cdb (snd (init_store ?c))) = fmempty" by code_simp+
qed

end
