(* ===== verification/History_Copy.thy ===== *)
theory History_Copy
  imports Store_Spec
begin

text \<open>
  \<open>CommitStore::replaceLevelHistoryFrom\<close>: the topological sort it computes is correct and
  complete, the copying loop never looks up a missing identifier, and a successful copy is
  an isomorphic image of the source history.
\<close>

section \<open>Kahn's algorithm\<close>

lemma in_degree_upd [simp]: "in_degree (fmupd v n m) x = (if x = v then n else in_degree m x)"
  by (simp add: in_degree_def)

lemma kahn_visits:
  assumes "distinct vs"
  shows "in_degree (fst (fold kahn_visit vs (m, q))) x = in_degree m x - (if x \<in> set vs then 1 else 0)"
    and "snd (fold kahn_visit vs (m, q)) = q @ filter (\<lambda>v. in_degree m v = 1) vs"
  using assms
proof (induction vs arbitrary: m q)
  case (Cons v vs)
  {
    case 1
    then show ?case using Cons.IH(1) by (auto simp: kahn_visit_def Let_def)
  next
    case 2
    then have "filter (\<lambda>w. in_degree (fmupd v (in_degree m v - 1) m) w = 1) vs = filter (\<lambda>w. in_degree m w = 1) vs"
      by (intro filter_cong) auto
    with 2 show ?case using Cons.IH(2) by (auto simp: kahn_visit_def Let_def)
  }
qed simp_all

locale dependency_graph =
  fixes nodes :: "commit_id list" and deps :: "commit_id \<Rightarrow> commit_id list"
    and afterDone :: "(commit_id, commit_id list) fmap"
  assumes distinct_nodes: "distinct nodes"
    and distinct_deps: "distinct (deps v)"
    and after: "get_or_empty afterDone u = filter (\<lambda>v. u \<in> set (deps v)) nodes"
begin

definition waiting :: "commit_id list \<Rightarrow> commit_id \<Rightarrow> int" where
  "waiting order v = int (length (filter (\<lambda>d. d \<notin> set order) (deps v)))"

definition ordered :: "commit_id list \<Rightarrow> bool" where
  "ordered order \<longleftrightarrow> (\<forall>xs u ys. order = xs @ u # ys \<longrightarrow> set (deps u) \<subseteq> set xs)"

definition kahn_inv :: "(commit_id, int) fmap \<Rightarrow> commit_id list \<Rightarrow> commit_id list \<Rightarrow> bool" where
  "kahn_inv m q order \<longleftrightarrow>
     distinct (order @ q) \<and> set (order @ q) \<subseteq> set nodes \<and>
     (\<forall>v \<in> set nodes. in_degree m v = waiting order v) \<and>
     (\<forall>v \<in> set nodes. waiting order v = 0 \<longleftrightarrow> v \<in> set (order @ q)) \<and>
     ordered order"

lemma waiting_zero: "waiting order v = 0 \<longleftrightarrow> set (deps v) \<subseteq> set order"
  by (auto simp: waiting_def filter_empty_conv)

lemma waiting_snoc:
  assumes "u \<notin> set order"
  shows "waiting (order @ [u]) v = waiting order v - (if u \<in> set (deps v) then 1 else 0)"
proof -
  let ?W = "filter (\<lambda>d. d \<notin> set order) (deps v)"
  have "filter (\<lambda>d. d \<notin> set (order @ [u])) (deps v) = filter (\<lambda>d. d \<noteq> u) ?W"
    by (simp add: conj_commute)
  also have "\<dots> = remove1 u ?W"
    using distinct_deps by (simp add: distinct_remove1_removeAll removeAll_filter_not_eq) metis
  finally have eq: "waiting (order @ [u]) v = int (length (remove1 u ?W))" by (simp add: waiting_def)
  show ?thesis
  proof (cases "u \<in> set (deps v)")
    case True
    with assms have "u \<in> set ?W" by simp
    moreover from this have "1 \<le> length ?W" by (cases ?W) auto
    ultimately show ?thesis using True eq by (simp add: waiting_def length_remove1 of_nat_diff)
  next
    case False
    then show ?thesis using eq by (simp add: waiting_def length_remove1)
  qed
qed

lemma ordered_snoc: "ordered order \<Longrightarrow> set (deps u) \<subseteq> set order \<Longrightarrow> ordered (order @ [u])"
  unfolding ordered_def
proof (intro allI impI)
  fix xs v ys
  assume o: "\<forall>xs u ys. order = xs @ u # ys \<longrightarrow> set (deps u) \<subseteq> set xs" and u: "set (deps u) \<subseteq> set order"
    and eq: "order @ [u] = xs @ v # ys"
  show "set (deps v) \<subseteq> set xs"
  proof (cases ys rule: rev_cases)
    case Nil
    with eq u show ?thesis by simp
  next
    case (snoc zs z)
    with eq have "order = xs @ v # zs" by simp
    with o show ?thesis by blast
  qed
qed

lemma kahn_step:
  assumes "kahn_inv m (u # q) order"
  shows "kahn_inv (fst (fold kahn_visit (get_or_empty afterDone u) (m, q)))
    (snd (fold kahn_visit (get_or_empty afterDone u) (m, q))) (order @ [u])"
proof -
  let ?A = "filter (\<lambda>v. u \<in> set (deps v)) nodes"
  have dA: "distinct ?A" using distinct_nodes by simp
  let ?m = "fst (fold kahn_visit ?A (m, q))" and ?q = "snd (fold kahn_visit ?A (m, q))"
  from assms have d: "distinct (order @ u # q)" and sub: "set (order @ u # q) \<subseteq> set nodes"
    and deg: "\<forall>v \<in> set nodes. in_degree m v = waiting order v"
    and zero: "\<forall>v \<in> set nodes. waiting order v = 0 \<longleftrightarrow> v \<in> set (order @ u # q)" and ord: "ordered order"
    unfolding kahn_inv_def by blast+
  have u: "u \<notin> set order" "u \<in> set nodes" using d sub by auto
  with zero have "set (deps u) \<subseteq> set order" by (simp flip: waiting_zero)
  with ord have "ordered (order @ [u])" by (rule ordered_snoc)
  have q: "?q = q @ filter (\<lambda>v. in_degree m v = 1) ?A" by (rule kahn_visits(2) [OF dA])
  have deg': "\<forall>v \<in> set nodes. in_degree ?m v = waiting (order @ [u]) v"
    using deg u(1) kahn_visits(1) [OF dA, of m q] by (simp add: waiting_snoc)
  have busy: "waiting order v \<noteq> 0" if "v \<in> set ?A" for v
    using that u(1) by (auto simp: waiting_zero)
  have zero': "waiting (order @ [u]) v = 0 \<longleftrightarrow> v \<in> set ((order @ [u]) @ ?q)" if "v \<in> set nodes" for v
  proof (cases "u \<in> set (deps v)")
    case True
    then have "v \<notin> set (order @ u # q)" using busy zero that by auto
    then show ?thesis using True that deg u(1) by (auto simp: q waiting_snoc)
  next
    case False
    then show ?thesis using that zero u(1) by (auto simp: q waiting_snoc)
  qed
  have "distinct ((order @ [u]) @ ?q)"
    using d distinct_filter [OF dA, of "\<lambda>v. in_degree m v = 1"] busy zero unfolding q by auto
  moreover have "set ((order @ [u]) @ ?q) \<subseteq> set nodes" using sub by (auto simp: q)
  ultimately show ?thesis
    using deg' zero' \<open>ordered (order @ [u])\<close> unfolding kahn_inv_def after by blast
qed

lemma kahn_loop_inv:
  "a = afterDone \<Longrightarrow> kahn_inv m q order \<Longrightarrow> \<exists>m'. kahn_inv m' [] (kahn_loop a m q order)"
proof (induction a m q order rule: kahn_loop.induct)
  case (1 a m q order)
  show ?case
  proof (cases q)
    case Nil
    with 1 show ?thesis by (subst kahn_loop.simps) auto
  next
    case (Cons u q1)
    define s where "s = fold kahn_visit (get_or_empty a u) (m, q1)"
    have "kahn_inv (fst s) (snd s) (order @ [u])"
      using kahn_step "1.prems" Cons by (simp add: s_def)
    from "1.IH" [OF Cons s_def "1.prems"(1) this] show ?thesis
      using Cons by (subst kahn_loop.simps) (simp add: s_def Let_def)
  qed
qed

text \<open>The order found lists nodes once each, after all they depend on; without a cycle it lists all.\<close>

lemma kahn_result:
  assumes "\<forall>v \<in> set nodes. in_degree m v = int (length (deps v))"
  defines "r \<equiv> kahn_loop afterDone m (filter (\<lambda>v. in_degree m v = 0) nodes) []"
  shows "distinct r" and "set r \<subseteq> set nodes" and "ordered r"
    and "wf {(d, v). v \<in> set nodes \<and> d \<in> set (deps v)} \<Longrightarrow> (\<forall>v \<in> set nodes. set (deps v) \<subseteq> set nodes) \<Longrightarrow>
      set r = set nodes"
proof -
  have "kahn_inv m (filter (\<lambda>v. in_degree m v = 0) nodes) []"
    using assms(1) distinct_nodes by (auto simp: kahn_inv_def waiting_def ordered_def)
  then obtain m' where inv: "kahn_inv m' [] r" using kahn_loop_inv unfolding r_def by blast
  then show "distinct r" "set r \<subseteq> set nodes" "ordered r" by (auto simp: kahn_inv_def)
  have zero: "\<forall>v \<in> set nodes. set (deps v) \<subseteq> set r \<longleftrightarrow> v \<in> set r"
    using inv by (simp add: kahn_inv_def waiting_zero)
  assume wf: "wf {(d, v). v \<in> set nodes \<and> d \<in> set (deps v)}" and closed: "\<forall>v \<in> set nodes. set (deps v) \<subseteq> set nodes"
  have "v \<in> set nodes \<longrightarrow> v \<in> set r" for v
    using wf by (induction v rule: wf_induct_rule) (use zero closed in blast)
  with \<open>set r \<subseteq> set nodes\<close> show "set r = set nodes" by blast
qed

end

text \<open>The graph that the code builds.\<close>

lemma push_after_get:
  "distinct ds \<Longrightarrow> get_or_empty (fold (\<lambda>d m. fmupd d (get_or_empty m d @ [v]) m) ds m) u =
     get_or_empty m u @ (if u \<in> set ds then [v] else [])"
  by (induction ds arbitrary: m) auto

lemma kahn_init:
  assumes "distinct ord"
  shows "get_or_empty (snd (fold (kahn_init_step byId) ord (m, a))) u =
      get_or_empty a u @ filter (\<lambda>v. u \<in> set (row_deps byId (the (fmlookup byId v)))) ord"
    and "in_degree (fst (fold (kahn_init_step byId) ord (m, a))) v =
      (if v \<in> set ord then int (length (row_deps byId (the (fmlookup byId v)))) else in_degree m v)"
  using assms
proof (induction ord arbitrary: m a)
  case (Cons x xs)
  have d: "distinct (row_deps byId r)" for r by (simp add: row_deps_def)
  {
    case 1
    then show ?case using Cons.IH(1) by (simp add: kahn_init_step_def Let_def push_after_get [OF d])
  next
    case 2
    then show ?case using Cons.IH(2) by (simp add: kahn_init_step_def Let_def)
  }
qed simp_all

interpretation history: dependency_graph "if distinct ord then ord else []"
  "\<lambda>v. row_deps byId (the (fmlookup byId v))"
  "if distinct ord then snd (fold (kahn_init_step byId) ord (fmempty, fmempty)) else fmempty" for ord byId
  by unfold_locales (auto simp: row_deps_def kahn_init(1) [unfolded row_deps_def])

definition deps_of :: "(commit_id, commit_row) fmap \<Rightarrow> commit_id \<Rightarrow> commit_id list" where
  "deps_of byId v = row_deps byId (the (fmlookup byId v))"

lemma topo_order_spec:
  assumes "enumerates ord byId"
  shows "distinct (topo_order ord byId)" and "set (topo_order ord byId) \<subseteq> fmdom' byId"
    and "topo_order ord byId = xs @ u # ys \<Longrightarrow> set (deps_of byId u) \<subseteq> set xs"
    and "wf {(d, v). v \<in> fmdom' byId \<and> d \<in> set (deps_of byId v)} \<Longrightarrow> set (topo_order ord byId) = fmdom' byId"
proof -
  have o: "distinct ord" "set ord = fmdom' byId" using assms by (simp_all add: enumerates_def)
  let ?i = "fold (kahn_init_step byId) ord (fmempty, fmempty)"
  have t: "topo_order ord byId = kahn_loop (snd ?i) (fst ?i) (filter (\<lambda>v. in_degree (fst ?i) v = 0) ord) []"
    by (simp add: topo_order_def split_beta)
  have deg: "\<forall>v \<in> set ord. in_degree (fst ?i) v = int (length (row_deps byId (the (fmlookup byId v))))"
    using kahn_init(2) [OF o(1)] by simp
  note k = history.kahn_result [where ord = ord and byId = byId and m = "fst ?i", simplified o(1) if_True, OF deg, folded t]
  show "distinct (topo_order ord byId)" by (rule k(1))
  show "set (topo_order ord byId) \<subseteq> fmdom' byId" using k(2) o(2) by simp
  show "topo_order ord byId = xs @ u # ys \<Longrightarrow> set (deps_of byId u) \<subseteq> set xs"
    using k(3) unfolding history.ordered_def deps_of_def by blast
  have "set (row_deps byId r) \<subseteq> fmdom' byId" for r
    by (auto simp: row_deps_def fmlookup_dom'_iff split: option.splits if_splits)
  then show "wf {(d, v). v \<in> fmdom' byId \<and> d \<in> set (deps_of byId v)} \<Longrightarrow> set (topo_order ord byId) = fmdom' byId"
    using k(4) o(2) by (simp add: deps_of_def)
qed

section \<open>The copying loop\<close>

lemma by_id_lookup: "fmlookup (by_id rows) i = find (\<lambda>r. row_id r = i) rows"
proof -
  have "fmlookup (fold (\<lambda>r. emplace (row_id r) r) rows m) i =
      (case fmlookup m i of Some y \<Rightarrow> Some y | None \<Rightarrow> find (\<lambda>r. row_id r = i) rows)" for m
    by (induction rows arbitrary: m) (auto split: option.split)
  then show ?thesis by (simp add: by_id_def)
qed

definition id_image :: "(commit_id, commit_id) fmap \<Rightarrow> commit_id \<Rightarrow> commit_id" where
  "id_image idMap i = the (fmlookup idMap i)"

lemma map_ref_Some:
  assumes "\<And>i. r = Some i \<Longrightarrow> i \<in> fmdom' idMap"
  shows "map_ref idMap r = Some (map_option (id_image idMap) r)"
  using assms by (cases r) (auto simp: map_ref_def id_image_def fmlookup_dom'_iff)

lemma refs_inside_deps:
  "refs_inside byId r \<Longrightarrow> row_parent r = Some i \<or> row_reverts r = Some i \<Longrightarrow> i \<in> set (row_deps byId r)"
  by (auto simp: refs_inside_def row_deps_def)

text \<open>\<open>copied\<close>: what the loop has stored for the identifiers of \<open>idMap\<close>.\<close>

definition row_image :: "level_key \<Rightarrow> (commit_id, commit_id) fmap \<Rightarrow> commit_row \<Rightarrow> string \<Rightarrow> crow" where
  "row_image dest idMap r stored =
     new_row dest (map_option (id_image idMap) (row_parent r)) (map_option (id_image idMap) (row_reverts r))
       (row_message r) (row_created r) stored"

definition has_image :: "zlib \<Rightarrow> level_key \<Rightarrow> (commit_id, commit_row) fmap \<Rightarrow> (commit_id, commit_id) fmap \<Rightarrow> db \<Rightarrow>
    commit_id \<Rightarrow> commit_id \<Rightarrow> bool" where
  "has_image z dest byId idMap d i k \<longleftrightarrow>
     (\<exists>r stored. fmlookup byId i = Some r \<and> compressBlob z (row_delta r) (- 1) = Some stored \<and>
       (\<forall>p. row_parent r = Some p \<or> row_reverts r = Some p \<longrightarrow> p \<in> fmdom' idMap) \<and>
       fmlookup (commits d) k = Some (row_image dest idMap r stored))"

definition copied :: "zlib \<Rightarrow> level_key \<Rightarrow> (commit_id, commit_row) fmap \<Rightarrow> (commit_id, commit_id) fmap \<Rightarrow> db \<Rightarrow> db \<Rightarrow> bool" where
  "copied z dest byId idMap d0 d \<longleftrightarrow>
     inj_on (id_image idMap) (fmdom' idMap) \<and>
     refs d = refs d0 \<and> meta_version d = meta_version d0 \<and> autoinc d0 \<le> autoinc d \<and>
     (\<forall>k \<in> fmran' idMap. autoinc d0 < k \<and> k \<le> autoinc d) \<and>
     (\<forall>i k. fmlookup idMap i = Some k \<longrightarrow> fmlookup (commits d0) k = None \<and> has_image z dest byId idMap d i k) \<and>
     (\<forall>k. k \<notin> fmran' idMap \<longrightarrow> fmlookup (commits d) k = fmlookup (commits d0) k)"

lemma row_image_upd:
  assumes "\<And>p. row_parent r = Some p \<or> row_reverts r = Some p \<Longrightarrow> p \<in> fmdom' idMap" and "fmlookup idMap i = None"
  shows "row_image dest (fmupd i n idMap) r stored = row_image dest idMap r stored"
proof -
  have "map_option (id_image (fmupd i n idMap)) w = map_option (id_image idMap) w"
    if "\<And>p. w = Some p \<Longrightarrow> p \<in> fmdom' idMap" for w
    using that assms(2) by (cases w) (auto simp: fmlookup_dom'_iff id_image_def)
  then show ?thesis using assms(1) unfolding row_image_def by auto
qed

lemma fmran'_upd_new: "fmlookup m k = None \<Longrightarrow> fmran' (fmupd k v m) = insert v (fmran' m)"
proof -
  assume k: "fmlookup m k = None"
  have "x \<in> fmran' m \<Longrightarrow> x \<in> fmran' (fmupd k v m)" for x
    using k by (auto simp: fmlookup_ran'_iff) (metis option.distinct(1))
  moreover have "v \<in> fmran' (fmupd k v m)" by (auto simp: fmlookup_ran'_iff)
  ultimately show ?thesis by (auto simp: fmlookup_ran'_iff split: if_splits)
qed

lemma copied_step:
  assumes c: "copied z dest byId idMap d0 d" and i: "fmlookup idMap i = None" and row: "fmlookup byId i = Some r"
    and refs: "\<And>p. row_parent r = Some p \<or> row_reverts r = Some p \<Longrightarrow> p \<in> fmdom' idMap"
    and stored: "compressBlob z (row_delta r) (- 1) = Some stored"
  shows "copied z dest byId (fmupd i (next_id d) idMap) d0 (inserted (row_image dest idMap r stored) d)"
proof -
  let ?n = "next_id d" and ?d = "inserted (row_image dest idMap r stored) d"
  let ?m = "fmupd i ?n idMap"
  have old: "fmlookup (commits d) k \<noteq> None" if "fmlookup idMap j = Some k" for j k
    using c that unfolding copied_def has_image_def by blast
  have new: "?n \<notin> fmran' idMap"
  proof
    assume "?n \<in> fmran' idMap"
    then obtain j where "fmlookup idMap j = Some ?n" by (auto simp: fmlookup_ran'_iff)
    from old [OF this] show False by simp
  qed
  then have n0: "fmlookup (commits d0) ?n = None"
    using c next_id_new [of d] unfolding copied_def by metis
  have look: "fmlookup (commits ?d) k = (if k = ?n then Some (row_image dest idMap r stored) else fmlookup (commits d) k)" for k
    by (simp add: inserted_def)
  have "inj_on (id_image ?m) (fmdom' ?m)"
  proof -
    have "inj_on (id_image ?m) (fmdom' idMap)"
      using c i unfolding copied_def by (auto simp: inj_on_def fmlookup_dom'_iff id_image_def)
    moreover have "?n \<noteq> id_image ?m j" if "j \<in> fmdom' idMap" for j
      using that new i by (auto simp: fmlookup_dom'_iff fmlookup_ran'_iff id_image_def)
    moreover have "id_image ?m i = ?n" by (simp add: id_image_def)
    ultimately show ?thesis unfolding fmdom'_fmupd inj_on_insert by auto
  qed
  moreover have "fmlookup (commits d0) k = None \<and> has_image z dest byId ?m ?d j k" if jk: "fmlookup ?m j = Some k" for j k
  proof (cases "j = i")
    case True
    with jk have k: "k = ?n" by simp
    have "has_image z dest byId ?m ?d i ?n"
      unfolding has_image_def look row_image_upd [OF refs i]
      using row stored refs row_image_upd [OF refs i] by auto
    with n0 k True show ?thesis by simp
  next
    case False
    with jk have jk: "fmlookup idMap j = Some k" by simp
    with c have "fmlookup (commits d0) k = None" and "has_image z dest byId idMap d j k"
      unfolding copied_def by blast+
    then obtain r1 s1 where r1: "fmlookup byId j = Some r1" "compressBlob z (row_delta r1) (- 1) = Some s1"
      "\<And>p. row_parent r1 = Some p \<or> row_reverts r1 = Some p \<Longrightarrow> p \<in> fmdom' idMap"
      "fmlookup (commits d) k = Some (row_image dest idMap r1 s1)"
      unfolding has_image_def by blast
    have "k \<noteq> ?n" using new jk by (auto simp: fmlookup_ran'_iff)
    then have "has_image z dest byId ?m ?d j k"
      unfolding has_image_def look using r1 row_image_upd [OF r1(3) i] by auto
    with \<open>fmlookup (commits d0) k = None\<close> show ?thesis by simp
  qed
  moreover have "fmlookup (commits ?d) k = fmlookup (commits d0) k" if "k \<notin> fmran' ?m" for k
    using that c unfolding fmran'_upd_new [OF i] copied_def look by simp
  moreover have "refs ?d = refs d0 \<and> meta_version ?d = meta_version d0 \<and> autoinc d0 \<le> autoinc ?d"
    using c autoinc_next_id [of d] by (simp add: copied_def inserted_def)
  moreover have "autoinc d0 < k \<and> k \<le> autoinc ?d" if "k \<in> fmran' ?m" for k
    using that c autoinc_next_id [of d] unfolding fmran'_upd_new [OF i] copied_def inserted_def by auto
  ultimately show ?thesis unfolding copied_def by blast
qed

lemma copy_loop_Inr:
  assumes "copy_loop z dest byId order idMap c = (Inr idMap', c')" and "saved c \<noteq> None"
    and "copied z dest byId idMap d0 (cdb c)" and "distinct order" and "set order \<inter> fmdom' idMap = {}"
    and "set order \<subseteq> fmdom' byId"
  shows "copied z dest byId idMap' d0 (cdb c') \<and> fmdom' idMap' = fmdom' idMap \<union> set order \<and> saved c' = saved c"
  using assms
proof (induction order arbitrary: idMap c)
  case (Cons i order)
  obtain r where r: "fmlookup byId i = Some r" using Cons.prems(6) by (auto simp: fmlookup_dom'_iff)
  obtain p v where pv: "map_ref idMap (row_parent r) = Some p" "map_ref idMap (row_reverts r) = Some v"
    using Cons.prems(1) r by (auto simp: Let_def split: option.splits)
  have refs: "w \<in> fmdom' idMap" if "row_parent r = Some w \<or> row_reverts r = Some w" for w
    using that pv by (cases "fmlookup idMap w") (auto simp: map_ref_def fmdom'I)
  then have pv': "p = map_option (id_image idMap) (row_parent r)" "v = map_option (id_image idMap) (row_reverts r)"
    using pv map_ref_Some [of "row_parent r" idMap] map_ref_Some [of "row_reverts r" idMap] by auto
  obtain n c1 where ins: "insertAt z dest p v (row_message r) (row_created r) (row_delta r) c = (Inr n, c1)"
    and loop: "copy_loop z dest byId order (fmupd i n idMap) c1 = (Inr idMap', c')"
    using Cons.prems(1) r pv by (auto simp: Let_def split: prod.splits sum.splits)
  from insertAt_Inr [OF ins Cons.prems(2)] obtain stored where
    st: "compressBlob z (row_delta r) (- 1) = Some stored" "n = next_id (cdb c)"
    "cdb c1 = inserted (new_row dest p v (row_message r) (row_created r) stored) (cdb c)" "saved c1 = saved c" by blast
  have i: "fmlookup idMap i = None" using Cons.prems(5) by (auto simp: fmlookup_dom'_iff)
  have "copied z dest byId (fmupd i n idMap) d0 (cdb c1)"
    using copied_step [OF Cons.prems(3) i r refs st(1)] by (simp add: st(2,3) pv' row_image_def)
  moreover have "set order \<inter> fmdom' (fmupd i n idMap) = {}" using Cons.prems(4,5) by auto
  ultimately have "copied z dest byId idMap' d0 (cdb c') \<and> fmdom' idMap' = fmdom' (fmupd i n idMap) \<union> set order \<and> saved c' = saved c1"
    using Cons.IH [OF loop] Cons.prems st(4) by simp
  then show ?case using st(4) by simp
qed simp

lemma copy_loop_not_Threw:
  assumes "\<forall>xs u ys. order = xs @ u # ys \<longrightarrow> set (deps_of byId u) \<subseteq> set xs \<union> fmdom' idMap"
    and "\<forall>u \<in> set order. \<exists>r. fmlookup byId u = Some r \<and> refs_inside byId r"
  shows "fst (copy_loop z dest byId order idMap c) \<noteq> Inl Threw"
  using assms
proof (induction order arbitrary: idMap c)
  case (Cons u order)
  then obtain r where r: "fmlookup byId u = Some r" "refs_inside byId r" by auto
  have "set (deps_of byId u) \<subseteq> fmdom' idMap" using Cons.prems(1) by (metis append_Nil empty_set sup_bot_left)
  then have "w \<in> fmdom' idMap" if "row_parent r = Some w \<or> row_reverts r = Some w" for w
    using refs_inside_deps [OF r(2) that] by (auto simp: deps_of_def r)
  then obtain p v where pv: "map_ref idMap (row_parent r) = Some p" "map_ref idMap (row_reverts r) = Some v"
    using map_ref_Some [of "row_parent r" idMap] map_ref_Some [of "row_reverts r" idMap] by auto
  have next_ok: "\<forall>xs w ys. order = xs @ w # ys \<longrightarrow> set (deps_of byId w) \<subseteq> set xs \<union> fmdom' (fmupd u n idMap)" for n
  proof (intro allI impI)
    fix xs w ys assume "order = xs @ w # ys"
    then have "u # order = (u # xs) @ w # ys" by simp
    with Cons.prems(1) have "set (deps_of byId w) \<subseteq> set (u # xs) \<union> fmdom' idMap" by blast
    then show "set (deps_of byId w) \<subseteq> set xs \<union> fmdom' (fmupd u n idMap)" by auto
  qed
  show ?case
  proof (cases "insertAt z dest p v (row_message r) (row_created r) (row_delta r) c")
    case (Pair res c1)
    show ?thesis
      using Cons.IH [OF next_ok] Cons.prems(2) Pair r pv
      by (cases res) (auto simp: Let_def)
  qed
qed simp

lemma copy_body_not_Threw:
  assumes "\<And>c1. fst (copy_loop z dest byId order fmempty c1) \<noteq> Inl Threw"
  shows "fst (copy_body z dest h byId order c) \<noteq> Inl Threw"
proof (cases "deleteCommitsAndRefsForKey dest c")
  case (Pair r c1)
  show ?thesis
  proof (cases "copy_loop z dest byId order fmempty c1")
    case loop: (Pair r2 c2)
    then have "r2 \<noteq> Inl Threw" using assms [of c1] by simp
    with Pair loop show ?thesis
      by (cases r; cases r2) (auto simp: copy_body_def split: option.split prod.split sum.split)
  qed
qed

lemma replace_result:
  "fst (replaceLevelHistoryFrom z ord dest src c) = Raised \<Longrightarrow>
     \<exists>h rows c1. list_all (refs_inside (by_id rows)) rows \<and>
       fst (copy_body z dest h (by_id rows) (topo_order (ord (by_id rows)) (by_id rows)) c1) = Inl Threw"
  unfolding replaceLevelHistoryFrom_def Let_def
  apply (cases "getHead src c")
  subgoal for h c1
    apply (cases "list_rows z src c1")
    subgoal for rows c2
      apply (cases "tx_begin c2")
      subgoal for b c3
        apply (cases "copy_body z dest (the h) (by_id rows) (topo_order (ord (by_id rows)) (by_id rows)) c3")
        subgoal for r c4
          by (cases h; cases b; cases r; cases "tx_commit c4")
            (auto split: if_splits copy_error.splits bool.splits, (metis fst_conv)+)
        done
      done
    done
  done


text \<open>Which commits the source history has, and what the loop sees of them.\<close>

definition level_commit :: "db \<Rightarrow> level_key \<Rightarrow> commit_id \<Rightarrow> crow \<Rightarrow> bool" where
  "level_commit d lk i r \<longleftrightarrow> fmlookup (commits d) i = Some r \<and> r_level r = lk"

lemma set_level_ids: "i \<in> set (level_ids d lk) \<longleftrightarrow> (\<exists>r. level_commit d lk i r)"
  by (auto simp: level_ids_def level_commit_def fmlookup_dom'_iff)

lemma by_id_level_rows:
  "fmlookup (by_id (map (rowFromStatement z) (take n (level_rows d lk)))) i =
     (if i \<in> set (take n (level_ids d lk)) then Some (rowFromStatement z (i, the (fmlookup (commits d) i))) else None)"
proof -
  have id: "row_id (rowFromStatement z (j, r)) = j" for j r by (simp add: rowFromStatement_def)
  have "find (\<lambda>r. row_id r = i) (map (\<lambda>j. rowFromStatement z (j, f j)) js) =
      (if i \<in> set js then Some (rowFromStatement z (i, f i)) else None)" for f js
    by (induction js) (auto simp: id)
  then show ?thesis by (simp add: by_id_lookup level_rows_def comp_def take_map)
qed

lemma list_rows_prefix:
  assumes "list_rows z lk c = (rows, c')" and "is_open c"
  shows "(\<exists>n. rows = map (rowFromStatement z) (take n (level_rows (cdb c) lk)) \<and> (faults c = [] \<longrightarrow> n = length (level_rows (cdb c) lk)))
    \<and> same_frame c c' \<and> cdb c' = cdb c"
proof -
  obtain n where n: "fst (fetch (level_rows (cdb c) lk) c) = take n (level_rows (cdb c) lk)" using fetch_prefix by blast
  have r: "rows = map (rowFromStatement z) (fst (fetch (level_rows (cdb c) lk) c))" "c' = snd (fetch (level_rows (cdb c) lk) c)"
    using assms by (auto simp: list_rows_def split_beta)
  have "\<exists>m. rows = map (rowFromStatement z) (take m (level_rows (cdb c) lk)) \<and> (faults c = [] \<longrightarrow> m = length (level_rows (cdb c) lk))"
  proof (cases "faults c = []")
    case True
    with r(1) show ?thesis by (intro exI [of _ "length (level_rows (cdb c) lk)"]) simp
  next
    case False
    with r(1) n show ?thesis by (intro exI [of _ n]) simp
  qed
  then show ?thesis using r(2) by (simp add: same_frame_def)
qed

lemma keeps_copy_loop: "same_frame c (snd (copy_loop z dest byId order idMap c))"
proof (induction order arbitrary: idMap c)
  case (Cons i order)
  let ?r = "the (fmlookup byId i)"
  show ?case
  proof (cases "map_ref idMap (row_parent ?r) = None \<or> map_ref idMap (row_reverts ?r) = None")
    case True
    then show ?thesis by (auto simp: Let_def split: option.split)
  next
    case False
    then obtain p v where pv: "map_ref idMap (row_parent ?r) = Some p" "map_ref idMap (row_reverts ?r) = Some v" by auto
    obtain x c1 where ins: "insertAt z dest p v (row_message ?r) (row_created ?r) (row_delta ?r) c = (x, c1)" by fastforce
    have "same_frame c c1" using keeps_insertAt [of z dest p v "row_message ?r" "row_created ?r" "row_delta ?r"] ins by (metis snd_conv)
    then show ?thesis using pv ins same_frame_trans Cons.IH by (cases x) (auto simp: Let_def)
  qed
qed simp

lemma replace_Replaced:
  assumes "replaceLevelHistoryFrom z ord dest src c = (Replaced, c')" and "saved c = None"
  shows "\<exists>h c3 c4 n. let rows = map (rowFromStatement z) (take n (level_rows (cdb c) src)) in
      (faults c = [] \<longrightarrow> n = length (level_rows (cdb c) src)) \<and> list_all (refs_inside (by_id rows)) rows \<and>
      fmlookup (refs (cdb c)) src = Some h \<and> dest \<noteq> src \<and>
      length (topo_order (ord (by_id rows)) (by_id rows)) = length (sorted_keys (by_id rows)) \<and>
      cdb c3 = cdb c \<and> saved c3 \<noteq> None \<and> fk_on c3 = fk_on c \<and> is_open c3 = is_open c \<and>
      copy_body z dest h (by_id rows) (topo_order (ord (by_id rows)) (by_id rows)) c3 = (Inr (), c4) \<and>
      tx_commit c4 = (True, c')"
proof -
  from assms(1) have op: "is_open c" by (auto simp: replaceLevelHistoryFrom_def split: if_splits)
  obtain hh c1 where g: "getHead src c = (hh, c1)" by fastforce
  obtain rows c2 where l: "list_rows z src c1 = (rows, c2)" by fastforce
  obtain b c3 where t: "tx_begin c2 = (b, c3)" by fastforce
  obtain f x where tk: "tick c = (f, x)" by fastforce
  have c1: "cdb c1 = cdb c" "saved c1 = None" "is_open c1" "fk_on c1 = fk_on c" "faults c = [] \<longrightarrow> c1 = c"
    and h: "\<And>h. hh = Some h \<Longrightarrow> fmlookup (refs (cdb c)) src = Some h"
    using g op assms(2) tk tick_pair [OF tk] by (auto simp: getHead_def split: if_splits)
  from list_rows_prefix [OF l c1(3)] c1 obtain n where n: "rows = map (rowFromStatement z) (take n (level_rows (cdb c) src))"
    "faults c = [] \<longrightarrow> n = length (level_rows (cdb c) src)" and c2: "saved c2 = None" "cdb c2 = cdb c" "fk_on c2 = fk_on c" "is_open c2"
    by (auto simp: same_frame_def)
  from assms(1) g l t op obtain hid c4 where r: "hh = Some hid" "b" "dest \<noteq> src" "list_all (refs_inside (by_id rows)) rows"
    "length (topo_order (ord (by_id rows)) (by_id rows)) = length (sorted_keys (by_id rows))"
    "copy_body z dest hid (by_id rows) (topo_order (ord (by_id rows)) (by_id rows)) c3 = (Inr (), c4)" "tx_commit c4 = (True, c')"
    unfolding replaceLevelHistoryFrom_def Let_def
    by (auto split: option.splits if_splits sum.splits copy_error.splits prod.splits bool.splits)
  with tx_begin_frame [OF c2(1)] t c2 h n op show ?thesis
    by (intro exI [of _ hid] exI [of _ c3] exI [of _ c4] exI [of _ n]) (auto simp: Let_def)
qed

lemma copied_empty: "copied z dest byId fmempty d d"
proof -
  have "fmran' (fmempty :: (commit_id, commit_id) fmap) = {}" by (auto simp: fmlookup_ran'_iff)
  then show ?thesis by (simp add: copied_def)
qed

lemma copy_body_Inr:
  assumes "copy_body z dest h byId order c = (Inr (), c')" and "saved c \<noteq> None" and "distinct order"
    and "set order = fmdom' byId"
  shows "\<exists>idMap d. copied z dest byId idMap (deleted dest (cdb c)) d \<and> fmdom' idMap = fmdom' byId
    \<and> h \<in> fmdom' byId \<and> cdb c' = d\<lparr>refs := fmupd dest (id_image idMap h) (refs d)\<rparr> \<and> same_frame c c'"
proof -
  from assms(1) obtain c1 c2 idMap k where del: "deleteCommitsAndRefsForKey dest c = (Inr (), c1)"
    and loop: "copy_loop z dest byId order fmempty c1 = (Inr idMap, c2)" and k: "fmlookup idMap h = Some k"
    and head: "setHead dest k c2 = (Inr (), c')"
    by (auto simp: copy_body_def split: prod.splits sum.splits option.splits)
  note d = deleteCommits_Inr [OF del assms(2)]
  from copy_loop_Inr [OF loop _ copied_empty assms(3)] d assms(2,4)
  have l: "copied z dest byId idMap (cdb c1) (cdb c2)" "fmdom' idMap = fmdom' byId" "saved c2 = saved c1" by auto
  have "cdb c' = (cdb c2)\<lparr>refs := fmupd dest (id_image idMap h) (refs (cdb c2))\<rparr>"
    using setHead_Inr [OF head] l(3) d assms(2) k by (simp add: id_image_def)
  moreover have "h \<in> fmdom' byId" using k l(2) by (metis fmdom'I)
  moreover have "copied z dest byId idMap (deleted dest (cdb c)) (cdb c2)" using l(1) d by simp
  moreover have "same_frame c c1" "same_frame c1 c2" "same_frame c2 c'"
    using keeps_store(3) [of dest] del keeps_copy_loop [of c1 z dest byId order fmempty] loop keeps_store(1) [of dest k] head
    by (metis snd_conv)+
  then have "same_frame c c'" by (metis same_frame_trans)
  ultimately show ?thesis using l(2) by (intro exI [of _ idMap] exI [of _ "cdb c2"]) simp
qed

lemma topo_order_all:
  assumes "enumerates ord byId" and "length (topo_order ord byId) = length (sorted_keys byId)"
  shows "set (topo_order ord byId) = fmdom' byId"
proof -
  note t = topo_order_spec [OF assms(1)]
  have "card (set (topo_order ord byId)) = card (set (sorted_keys byId))"
    using t(1) assms(2) by (simp only: distinct_card distinct_sorted_keys)
  with t(2) show ?thesis by (intro card_subset_eq) simp_all
qed

section \<open>Properties\<close>

text \<open>
  Copying a history never runs into a missing identifier: whatever SQLite calls fail and
  in whatever order the hash tables are iterated, \<open>idMap.at\<close> does not throw.
\<close>

theorem replace_never_throws:
  assumes "hash_order ord"
  shows "fst (replaceLevelHistoryFrom z ord dest src c) \<noteq> Raised"
proof -
  have "fst (copy_body z dest h (by_id rows) (topo_order (ord (by_id rows)) (by_id rows)) c1) \<noteq> Inl Threw"
    if ok: "list_all (refs_inside (by_id rows)) rows" for h rows c1
  proof (intro copy_body_not_Threw copy_loop_not_Threw allI impI ballI)
    have e: "enumerates (ord (by_id rows)) (by_id rows)" using assms by (simp add: hash_order_def)
    note t = topo_order_spec [OF e]
    fix c2 xs u ys
    show "topo_order (ord (by_id rows)) (by_id rows) = xs @ u # ys \<Longrightarrow>
        set (deps_of (by_id rows) u) \<subseteq> set xs \<union> fmdom' fmempty"
      using t(3) by auto
    assume "u \<in> set (topo_order (ord (by_id rows)) (by_id rows))"
    with t(2) have "u \<in> fmdom' (by_id rows)" by blast
    then obtain r where r: "fmlookup (by_id rows) u = Some r" by (auto simp: fmlookup_dom'_iff)
    then have "r \<in> set rows" by (auto simp: by_id_lookup find_Some_iff)
    with ok r show "\<exists>r. fmlookup (by_id rows) u = Some r \<and> refs_inside (by_id rows) r" by (auto simp: list_all_iff)
  qed
  then show ?thesis using replace_result by metis
qed

text \<open>The image of a level: \<open>S\<close> is what was read of it, \<open>f\<close> the renaming.\<close>

definition level_image :: "zlib \<Rightarrow> level_key \<Rightarrow> level_key \<Rightarrow> db \<Rightarrow> db \<Rightarrow> (commit_id \<Rightarrow> commit_id) \<Rightarrow> commit_id set \<Rightarrow> bool" where
  "level_image z dest src d d' f S \<longleftrightarrow>
     inj_on f S \<and> S \<subseteq> {i. \<exists>r. level_commit d src i r} \<and>
     (ids_ok d \<longrightarrow> (\<forall>i \<in> S. fmlookup (commits d) (f i) = None)) \<and>
     (\<forall>i r. i \<in> S \<longrightarrow> level_commit d src i r \<longrightarrow>
        (\<forall>p. r_parent r = Some p \<or> r_reverts r = Some p \<longrightarrow> p \<in> S) \<and>
        (\<exists>r'. level_commit d' dest (f i) r' \<and>
           r_parent r' = map_option f (r_parent r) \<and> r_reverts r' = map_option f (r_reverts r) \<and>
           r_message r' = c_str (r_message r) \<and> r_created r' = r_created r \<and>
           decompressBlob z (r_blob r') = Some (row_delta (rowFromStatement z (i, r))))) \<and>
     (\<forall>k r'. level_commit d' dest k r' \<longrightarrow> k \<in> f ` S) \<and>
     (\<exists>h \<in> S. fmlookup (refs d) src = Some h \<and> fmlookup (refs d') dest = Some (f h)) \<and>
     (\<forall>lk k r. lk \<noteq> dest \<longrightarrow> level_commit d' lk k r \<longleftrightarrow> level_commit d lk k r) \<and>
     (\<forall>lk. lk \<noteq> dest \<longrightarrow> fmlookup (refs d') lk = fmlookup (refs d) lk)"

lemma level_image_refs:
  assumes "level_image z dest src d d' f S"
  shows "\<exists>k. fmlookup (refs d') dest = Some k" and "lk \<noteq> dest \<Longrightarrow> fmlookup (refs d') lk = fmlookup (refs d) lk"
  using assms by (auto simp: level_image_def)

lemma level_imageD:
  assumes "level_image z dest src d d' f S"
  shows "i \<in> S \<Longrightarrow> \<exists>r. level_commit d src i r"
    and "i \<in> S \<Longrightarrow> level_commit d src i r \<Longrightarrow> (\<forall>p. r_parent r = Some p \<or> r_reverts r = Some p \<longrightarrow> p \<in> S) \<and>
        (\<exists>r'. level_commit d' dest (f i) r' \<and> r_parent r' = map_option f (r_parent r) \<and> r_reverts r' = map_option f (r_reverts r) \<and>
           r_message r' = c_str (r_message r) \<and> r_created r' = r_created r \<and>
           decompressBlob z (r_blob r') = Some (row_delta (rowFromStatement z (i, r))))"
    and "level_commit d' dest k r' \<Longrightarrow> k \<in> f ` S"
    and "lk \<noteq> dest \<Longrightarrow> level_commit d' lk k r = level_commit d lk k r"
    and "ids_ok d \<Longrightarrow> i \<in> S \<Longrightarrow> fmlookup (commits d) (f i) = None"
    and "\<exists>h \<in> S. fmlookup (refs d) src = Some h \<and> fmlookup (refs d') dest = Some (f h)"
  using assms unfolding level_image_def by (simp_all only: mem_Collect_eq subset_eq, blast+)

lemma level_image_copied:
  assumes z: "zlib_ok z" and cp: "copied z dest byId idMap (deleted dest d0) d" and dom: "fmdom' idMap = fmdom' byId"
    and hd: "h \<in> fmdom' byId" "fmlookup (refs d0) src = Some h" and d': "d' = d\<lparr>refs := fmupd dest (id_image idMap h) (refs d)\<rparr>"
    and byId: "\<And>i row. fmlookup byId i = Some row \<longleftrightarrow> i \<in> S \<and> (\<exists>r. level_commit d0 src i r \<and> row = rowFromStatement z (i, r))"
    and S: "S \<subseteq> {i. \<exists>r. level_commit d0 src i r}"
  shows "level_image z dest src d0 d' (id_image idMap) S"
proof -
  have domb: "fmdom' idMap = S" using dom byId S by (auto simp: fmlookup_dom'_iff)
  have im: "has_image z dest byId idMap d i (id_image idMap i)" if "i \<in> S" for i
  proof -
    from that domb have "fmlookup idMap i = Some (id_image idMap i)" by (auto simp: id_image_def fmlookup_dom'_iff)
    with cp show ?thesis unfolding copied_def by blast
  qed
  have img: "(\<forall>p. r_parent r = Some p \<or> r_reverts r = Some p \<longrightarrow> p \<in> S) \<and>
      (\<exists>r'. level_commit d' dest (id_image idMap i) r'
         \<and> r_parent r' = map_option (id_image idMap) (r_parent r) \<and> r_reverts r' = map_option (id_image idMap) (r_reverts r)
         \<and> r_message r' = c_str (r_message r) \<and> r_created r' = r_created r
         \<and> decompressBlob z (r_blob r') = Some (row_delta (rowFromStatement z (i, r))))"
    if "i \<in> S" "level_commit d0 src i r" for i r
  proof -
    have "fmlookup byId i = Some (rowFromStatement z (i, r))" using that byId by blast
    with im [OF that(1)] obtain stored where "compressBlob z (row_delta (rowFromStatement z (i, r))) (- 1) = Some stored"
      "\<forall>p. row_parent (rowFromStatement z (i, r)) = Some p \<or> row_reverts (rowFromStatement z (i, r)) = Some p \<longrightarrow> p \<in> fmdom' idMap"
      "fmlookup (commits d) (id_image idMap i) = Some (row_image dest idMap (rowFromStatement z (i, r)) stored)"
      unfolding has_image_def by auto
    then show ?thesis using decompress_compress [OF z] domb
      by (auto simp: level_commit_def d' row_image_def new_row_def rowFromStatement_def)
  qed
  have del: "fmlookup (commits (deleted dest d0)) k = Some r \<longleftrightarrow> fmlookup (commits d0) k = Some r \<and> r_level r \<noteq> dest" for k r
    by (auto simp: deleted_def)
  have source: "k \<in> fmran' idMap \<Longrightarrow> k \<in> id_image idMap ` S" for k
    using domb by (auto simp: fmlookup_ran'_iff id_image_def fmdom'I image_iff) (metis fmdom'I option.sel)
  have other: "fmlookup (commits d) k = fmlookup (commits (deleted dest d0)) k" if "k \<notin> fmran' idMap" for k
    using cp that unfolding copied_def by blast
  have fresh: "k \<in> fmran' idMap \<Longrightarrow> fmlookup (commits (deleted dest d0)) k = None" for k
    using cp unfolding copied_def by (auto simp: fmlookup_ran'_iff)
  have new_level: "k \<in> fmran' idMap \<Longrightarrow> \<exists>r. level_commit d' dest k r" for k
    using source img S by blast
  have "refs d = fmdrop dest (refs d0)" using cp by (simp add: copied_def deleted_def)
  then have refs: "fmlookup (refs d') lk = (if lk = dest then Some (id_image idMap h) else fmlookup (refs d0) lk)" for lk
    by (simp add: d')
  have only: "k \<in> id_image idMap ` S" if "level_commit d' dest k r'" for k r'
  proof (rule source, rule ccontr)
    assume "k \<notin> fmran' idMap"
    from other [OF this] that show False by (auto simp: level_commit_def d' del)
  qed
  have keep: "level_commit d' lk k r \<longleftrightarrow> level_commit d0 lk k r" if lk: "lk \<noteq> dest" for lk k r
  proof (cases "k \<in> fmran' idMap")
    case True
    then show ?thesis using fresh [OF True] new_level [OF True] lk by (auto simp: level_commit_def deleted_def split: if_splits)
  next
    case False
    then show ?thesis using other [OF False] lk by (auto simp: level_commit_def d' del)
  qed
  have inj: "inj_on (id_image idMap) S" using cp domb unfolding copied_def by simp
  have new: "fmlookup (commits d0) (id_image idMap i) = None" if "ids_ok d0" "i \<in> S" for i
  proof -
    from that(2) domb have "id_image idMap i \<in> fmran' idMap" by (auto simp: id_image_def fmlookup_dom'_iff fmlookup_ran'_iff)
    with cp have "autoinc d0 < id_image idMap i" unfolding copied_def deleted_def by simp
    with that(1) show ?thesis by (cases "fmlookup (commits d0) (id_image idMap i)") (auto simp: ids_ok_def fmpred_iff)
  qed
  have "h \<in> S" using hd dom domb by simp
  with hd(2) refs have head: "\<exists>h \<in> S. fmlookup (refs d0) src = Some h \<and> fmlookup (refs d') dest = Some (id_image idMap h)"
    by (intro bexI [of _ h]) simp_all
  show ?thesis unfolding level_image_def
    by (intro conjI allI impI ballI inj S head; (rule img only keep new, assumption+)?) (simp_all add: refs img keep only new)
qed

text \<open>A copy that does not succeed leaves the tables as they were.\<close>

lemma keeps_copy_body: "same_frame c (snd (copy_body z dest h byId order c))"
proof -
  obtain x c1 where d: "deleteCommitsAndRefsForKey dest c = (x, c1)" by fastforce
  obtain y c2 where l: "copy_loop z dest byId order fmempty c1 = (y, c2)" by fastforce
  have 1: "same_frame c c1" "same_frame c1 c2"
    using keeps_store(3) [of dest] d keeps_copy_loop [of c1 z dest byId order fmempty] l by (metis snd_conv)+
  have 2: "same_frame c2 (snd (setHead dest k c2))" for k using keeps_store(1) [of dest k] by blast
  have 3: "same_frame c c2" by (rule same_frame_trans [OF 1])
  have 4: "same_frame c (snd (setHead dest k c2))" for k by (rule same_frame_trans [OF 3 2])
  then have "same_frame c c3" if "setHead dest k c2 = (v, c3)" for k v c3 using that by (metis snd_conv)
  then show ?thesis using d l 1 3
    by (cases x; cases y) (auto simp: copy_body_def split: option.split prod.split sum.split)
qed

lemma replace_failed:
  assumes "replaceLevelHistoryFrom z ord dest src c = (res, c')" and "res \<noteq> Replaced" and "saved c = None"
  shows "cdb c' = cdb c \<and> saved c' = None \<and> fk_on c' = fk_on c \<and> is_open c' = is_open c"
proof -
  let ?P = "\<lambda>c'. cdb c' = cdb c \<and> saved c' = None \<and> fk_on c' = fk_on c \<and> is_open c' = is_open c"
  obtain hh c1 where g: "getHead src c = (hh, c1)" by fastforce
  obtain f x where tk: "tick c = (f, x)" by fastforce
  have c1: "?P c1" using g assms(3) tk tick_pair [OF tk] by (auto simp: getHead_def split: if_splits)
  obtain rows c2 where l: "list_rows z src c1 = (rows, c2)" by fastforce
  have c2: "?P c2" using l c1 by (auto simp: list_rows_def split_beta split: if_splits)
  obtain b c3 where t: "tx_begin c2 = (b, c3)" by fastforce
  have c3: "cdb c3 = cdb c" "fk_on c3 = fk_on c" "is_open c3 = is_open c" "saved c3 = (if b then Some (cdb c) else None)"
    using tx_begin_frame [of c2] t c2 by auto
  let ?o = "topo_order (ord (by_id rows)) (by_id rows)"
  obtain y c4 where body: "copy_body z dest (the hh) (by_id rows) ?o c3 = (y, c4)" by fastforce
  have c4: "same_frame c3 c4" using keeps_copy_body [of c3 z dest "the hh" "by_id rows" ?o] body by simp
  obtain v c5 where tc: "tx_commit c4 = (v, c5)" by fastforce
  have rb: "b \<Longrightarrow> ?P (tx_rollback c4)" "b \<Longrightarrow> \<not> v \<Longrightarrow> ?P c5"
    using c4 c3 tx_commit_frame [of c4] tc by (simp_all add: same_frame_def)
  have "c' \<in> {c, c1, c2} \<or> \<not> b \<and> c' = c3 \<or> b \<and> c' = tx_rollback c4 \<or> b \<and> \<not> v \<and> c' = c5"
    using assms(1,2) g l t body tc unfolding replaceLevelHistoryFrom_def Let_def
    by (cases hh) (auto split: if_splits sum.splits copy_error.splits prod.splits bool.splits)
  then show ?thesis using assms(3) c1 c2 c3 rb by auto
qed

text \<open>Everything a successful copy guarantees, whatever calls failed while it read the source.\<close>

lemma replace_image:
  assumes "replaceLevelHistoryFrom z ord dest src c = (Replaced, c')" and "saved c = None"
    and "hash_order ord" and "zlib_ok z"
  shows "(\<exists>f S. level_image z dest src (cdb c) (cdb c') f S \<and> (faults c = [] \<longrightarrow> S = {i. \<exists>r. level_commit (cdb c) src i r}))
    \<and> dest \<noteq> src \<and> saved c' = None \<and> fk_on c' = fk_on c \<and> (fk_on c \<longrightarrow> fk_ok (cdb c')) \<and> (ids_ok (cdb c) \<longrightarrow> ids_ok (cdb c'))
    \<and> grows (cdb c) (cdb c')"
proof -
  from replace_Replaced [OF assms(1,2)] obtain h c3 c4 n where h: "fmlookup (refs (cdb c)) src = Some h" "dest \<noteq> src"
    and n: "faults c = [] \<longrightarrow> n = length (level_rows (cdb c) src)"
    and len: "let byId = by_id (map (rowFromStatement z) (take n (level_rows (cdb c) src))) in
      length (topo_order (ord byId) byId) = length (sorted_keys byId) \<and> copy_body z dest h byId (topo_order (ord byId) byId) c3 = (Inr (), c4)"
    and c3: "cdb c3 = cdb c" "saved c3 \<noteq> None" "fk_on c3 = fk_on c" and tc: "tx_commit c4 = (True, c')"
    unfolding Let_def by blast
  define byId where "byId = by_id (map (rowFromStatement z) (take n (level_rows (cdb c) src)))"
  define S where "S = set (take n (level_ids (cdb c) src))"
  have e: "enumerates (ord byId) byId" using assms(3) by (simp add: hash_order_def)
  from len have len: "length (topo_order (ord byId) byId) = length (sorted_keys byId)"
    and body: "copy_body z dest h byId (topo_order (ord byId) byId) c3 = (Inr (), c4)" by (simp_all add: Let_def byId_def)
  from copy_body_Inr [OF body c3(2) topo_order_spec(1) [OF e] topo_order_all [OF e len]] c3(1)
  obtain idMap d where cp: "copied z dest byId idMap (deleted dest (cdb c)) d" and dom: "fmdom' idMap = fmdom' byId"
    and hd: "h \<in> fmdom' byId" and d4: "cdb c4 = d\<lparr>refs := fmupd dest (id_image idMap h) (refs d)\<rparr>" and fr: "same_frame c3 c4" by auto
  have d: "cdb c' = d\<lparr>refs := fmupd dest (id_image idMap h) (refs d)\<rparr>" using tx_commit_frame(4) [of c4] tc d4 by simp
  have sub: "S \<subseteq> set (level_ids (cdb c) src)" unfolding S_def by (rule set_take_subset)
  then have S: "S \<subseteq> {i. \<exists>r. level_commit (cdb c) src i r}" by (auto simp: set_level_ids)
  have byId: "fmlookup byId i = Some row \<longleftrightarrow> i \<in> S \<and> (\<exists>r. level_commit (cdb c) src i r \<and> row = rowFromStatement z (i, r))" for i row
  proof (cases "i \<in> S")
    case True
    with S obtain r where "level_commit (cdb c) src i r" by blast
    then show ?thesis using True by (auto simp: byId_def by_id_level_rows S_def level_commit_def)
  next
    case False
    then show ?thesis by (simp add: byId_def by_id_level_rows S_def)
  qed
  have "level_image z dest src (cdb c) (cdb c') (id_image idMap) S"
    by (rule level_image_copied [OF assms(4) cp dom hd h(1) d byId S])
  moreover have "faults c = [] \<longrightarrow> S = {i. \<exists>r. level_commit (cdb c) src i r}"
    using n by (auto simp: S_def level_rows_def set_level_ids)
  moreover have "saved c' = None" "fk_on c' = fk_on c" "fk_on c \<longrightarrow> fk_ok (cdb c')"
    using tx_commit_frame [of c4] tc fr c3 by (simp_all add: same_frame_def)
  moreover have "ids_ok (cdb c')" if ids: "ids_ok (cdb c)"
  proof -
    have "0 < i \<and> i \<le> autoinc d" if "fmlookup (commits d) i = Some r" for i r
    proof (cases "i \<in> fmran' idMap")
      case True
      with cp ids show ?thesis unfolding copied_def by (fastforce simp: deleted_def ids_ok_def)
    next
      case False
      with cp that have "fmlookup (commits (deleted dest (cdb c))) i = Some r" "autoinc (cdb c) \<le> autoinc d"
        unfolding copied_def by (auto simp: deleted_def)
      with ids_ok_deleted [OF ids, of dest] show ?thesis by (auto simp: ids_ok_def fmpred_iff deleted_def)
    qed
    moreover have "0 \<le> autoinc d" using cp ids unfolding copied_def by (simp add: deleted_def ids_ok_def)
    ultimately show ?thesis by (auto simp: d ids_ok_def fmpred_iff)
  qed
  moreover have "grows (cdb c) (cdb c')"
  proof -
    have "at_level (cdb c) (r_level r) j" if "j \<le> autoinc (cdb c)" "fmlookup (commits d) j = Some r" for j r
    proof -
      have "j \<notin> fmran' idMap" using cp that(1) unfolding copied_def by (fastforce simp: deleted_def)
      with cp that(2) have "fmlookup (commits (deleted dest (cdb c))) j = Some r" unfolding copied_def by simp
      then show ?thesis by (auto simp: deleted_def at_level_def split: if_splits)
    qed
    moreover have "autoinc (cdb c) \<le> autoinc d" "meta_version d = meta_version (cdb c)"
      using cp unfolding copied_def by (simp_all add: deleted_def)
    ultimately show ?thesis by (simp add: grows_def d)
  qed
  ultimately show ?thesis using h(2) by blast
qed

text \<open>
  A copy that succeeds makes the destination level an isomorphic image of what was read
  of the source (all of it when no call fails): the identifiers are renamed injectively to
  new ones, parents, reverts and the HEAD follow the renaming, messages, times and deltas are
  kept, the destination has no other commit, and every other level is untouched.
\<close>

theorem replace_effect:
  assumes "replaceLevelHistoryFrom z ord dest src c = (Replaced, c')" and "saved c = None"
    and "hash_order ord" and "zlib_ok z"
  shows "\<exists>f S. level_image z dest src (cdb c) (cdb c') f S \<and>
    (faults c = [] \<longrightarrow> S = {i. \<exists>r. level_commit (cdb c) src i r})"
  using replace_image [OF assms] by blast

theorem replace_effect_witness:
  "let c = run_calls stored_zlib (take 3 sample_calls) (sample_conn []);
       r = replaceLevelHistoryFrom stored_zlib sorted_keys ''N'' ''L'' c
   in fst r = Replaced \<and> (\<exists>k. fmlookup (refs (cdb (snd r))) ''N'' = Some k)
      \<and> fmlookup (refs (cdb (snd r))) ''L'' = fmlookup (refs (cdb c)) ''L''"
proof -
  let ?c = "run_calls stored_zlib (take 3 sample_calls) (sample_conn [])"
  let ?r = "replaceLevelHistoryFrom stored_zlib sorted_keys ''N'' ''L'' ?c"
  have f: "fst ?r = Replaced" by code_simp
  then have r: "?r = (Replaced, snd ?r)" by (simp add: prod_eq_iff)
  have c: "saved ?c = None" by code_simp
  from replace_effect [OF r c sorted_keys_hash_order stored_zlib_ok]
  obtain f S where li: "level_image stored_zlib ''N'' ''L'' (cdb ?c) (cdb (snd ?r)) f S" by blast
  have "\<exists>k. fmlookup (refs (cdb (snd ?r))) ''N'' = Some k"
    "fmlookup (refs (cdb (snd ?r))) ''L'' = fmlookup (refs (cdb ?c)) ''L''"
    using level_image_refs [OF li] by (blast, simp only: list.inject char.inject simp_thms)
  with f show ?thesis by (simp add: Let_def)
qed

theorem replace_never_throws_witness:
  "fst (replaceLevelHistoryFrom stored_zlib sorted_keys ''N'' ''L'' (sample_conn [False, True])) \<noteq> Raised"
  by (rule replace_never_throws [OF sorted_keys_hash_order])

end
