(* ===== verification/Level_Model.thy ===== *)
theory Level_Model
  imports Text_Format
begin

text \<open>
  \<open>src/model/LevelState.hpp\<close> and \<open>LevelParser.cpp\<close>: a level is a header and a table of
  objects keyed by 64-bit identifiers, and the parser and printer of the Geometry Dash
  level string; \<open>hashLevelState\<close> of \<open>StateHash.cpp\<close> is the fingerprint of the printed form.
\<close>

section \<open>State\<close>

type_synonym object_uuid = u64

record lobject =
  uuid :: object_uuid
  obj_fields :: fieldmap

record level_state =
  rawHeader :: string
  header :: fieldmap
  objects :: "(object_uuid, lobject) fmap"

definition empty_state :: level_state where
  "empty_state = \<lparr>rawHeader = [], header = fmempty, objects = fmempty\<rparr>"

definition kType :: string where "kType = ''1''"
definition kX :: string where "kX = ''2''"
definition kY :: string where "kY = ''3''"
definition kRotation :: string where "kRotation = ''6''"
definition kGroups :: string where "kGroups = ''57''"

section \<open>Parsing\<close>

definition pop_trailing_empty :: "string list \<Rightarrow> string list" where
  "pop_trailing_empty tokens =
     (if tokens \<noteq> [] \<and> last tokens = [] then butlast tokens else tokens)"

text \<open>The loop of \<open>readKvChunk\<close>: pairs of tokens, an odd last token is ignored, an empty key
  is skipped, and \<open>emplace\<close> keeps the first value of a repeated key.\<close>

fun readKv_loop :: "string list \<Rightarrow> fieldmap \<Rightarrow> fieldmap" where
  "readKv_loop (k # v # tokens) out = readKv_loop tokens (if k = [] then out else emplace k v out)"
| "readKv_loop _ out = out"

definition readKvChunk :: "string \<Rightarrow> fieldmap" where
  "readKvChunk chunk =
     (if chunk = [] then fmempty
      else readKv_loop (pop_trailing_empty (splitView chunk (CHR '',''))) fmempty)"

fun serializeFields_loop :: "(string \<times> string) list \<Rightarrow> bool \<Rightarrow> string \<Rightarrow> string" where
  "serializeFields_loop [] first out = out"
| "serializeFields_loop ((k, v) # items) first out =
     serializeFields_loop items False ((if first then out else out @ '','') @ k @ '','' @ v)"

definition serializeFields :: "fieldmap \<Rightarrow> string" where
  "serializeFields m = serializeFields_loop (sorted_list_of_fmap m) True []"

fun parseObjects_loop :: "nat \<Rightarrow> string list \<Rightarrow> (object_uuid, lobject) fmap \<Rightarrow> (object_uuid, lobject) fmap" where
  "parseObjects_loop i [] objs = objs"
| "parseObjects_loop i (c # chunks) objs =
     (if c = [] then parseObjects_loop (Suc i) chunks objs
      else
        (let f = readKvChunk c in
         if f = fmempty then parseObjects_loop (Suc i) chunks objs
         else parseObjects_loop (Suc i) chunks
                (emplace (of_nat i) \<lparr>uuid = of_nat i, obj_fields = f\<rparr> objs)))"

definition parseLevelString :: "string \<Rightarrow> level_state" where
  "parseLevelString raw =
     (case splitView raw (CHR '';'') of
        [] \<Rightarrow> empty_state
      | front # chunks \<Rightarrow>
          (let hdr = readKvChunk front in
           \<lparr>rawHeader = (if serializeFields hdr = front then [] else front),
            header = hdr,
            objects = parseObjects_loop 1 chunks fmempty\<rparr>))"

definition serializeLevelString :: "level_state \<Rightarrow> string" where
  "serializeLevelString st =
     (if rawHeader st \<noteq> [] then rawHeader st else serializeFields (header st)) @ '';'' @
     concat (map (\<lambda>id. serializeFields (obj_fields (the (fmlookup (objects st) id))) @ '';'')
       (sorted_keys (objects st)))"

definition hashLevelState :: "level_state \<Rightarrow> string" where
  "hashLevelState st = hex64 (fnv1a64 (serializeLevelString st))"

section \<open>Well-formed field maps\<close>

text \<open>
  What the level format can carry: keys and values without the two delimiters and non-empty
  (an empty last value is lost by the parser, which drops a trailing empty token).
\<close>

definition clean_text :: "string \<Rightarrow> bool" where
  "clean_text s \<longleftrightarrow> s \<noteq> [] \<and> CHR '','' \<notin> set s \<and> CHR '';'' \<notin> set s"

definition clean_fields :: "fieldmap \<Rightarrow> bool" where
  "clean_fields m \<longleftrightarrow> fmpred (\<lambda>k v. clean_text k \<and> clean_text v) m"

definition clean_objects :: "level_state \<Rightarrow> bool" where
  "clean_objects st \<longleftrightarrow>
     fmpred (\<lambda>_ ob. clean_fields (obj_fields ob) \<and> obj_fields ob \<noteq> fmempty) (objects st) \<and>
     int (length (sorted_keys (objects st))) < 2 ^ 64 - 1"

definition clean_header :: "level_state \<Rightarrow> bool" where
  "clean_header st \<longleftrightarrow>
     (if rawHeader st = [] then clean_fields (header st) else CHR '';'' \<notin> set (rawHeader st))"

text \<open>Every object is filed under its own identifier.\<close>

definition keyed :: "level_state \<Rightarrow> bool" where
  "keyed st \<longleftrightarrow> fmpred (\<lambda>k ob. uuid ob = k) (objects st)"

section \<open>Printing field maps\<close>

fun flat_pairs :: "(string \<times> string) list \<Rightarrow> string list" where
  "flat_pairs [] = []"
| "flat_pairs ((k, v) # items) = k # v # flat_pairs items"

lemma flat_pairs_Nil [simp]: "flat_pairs items = [] \<longleftrightarrow> items = []"
  by (cases items) auto

lemma serializeFields_loop_join:
  "serializeFields_loop items first out =
     out @ (if items = [] then [] else (if first then [] else '','') @ join_with (CHR '','') (flat_pairs items))"
proof (induction items first out rule: serializeFields_loop.induct)
  case (2 k v items first out)
  then show ?case by (simp add: join_with_Cons)
qed simp

lemma serializeFields_join:
  "serializeFields m = join_with (CHR '','') (flat_pairs (sorted_list_of_fmap m))"
  by (simp add: serializeFields_def serializeFields_loop_join)

lemma serializeFields_empty [simp]: "serializeFields fmempty = []"
proof -
  have "sorted_list_of_fmap (fmempty :: fieldmap) = []" by simp
  then show ?thesis by (simp only: serializeFields_join) simp
qed

lemma set_flat_pairs: "set (flat_pairs items) = fst ` set items \<union> snd ` set items"
  by (induction items rule: flat_pairs.induct) auto

lemma clean_fields_tokens:
  assumes "clean_fields m" and "t \<in> set (flat_pairs (sorted_list_of_fmap m))"
  shows "clean_text t"
  using assms by (force simp: set_flat_pairs clean_fields_def set_sorted_list_of_fmap)

lemma last_flat_pairs: "items \<noteq> [] \<Longrightarrow> last (flat_pairs items) \<in> set (flat_pairs items)"
  by (rule last_in_set) simp

text \<open>Reading back the pairs: with distinct non-empty keys the loop rebuilds the map.\<close>

lemma readKv_loop_lookup:
  assumes "distinct (map fst items)" and "\<forall>(k, v) \<in> set items. k \<noteq> []"
    and "\<forall>k \<in> fst ` set items. fmlookup out k = None"
  shows "fmlookup (readKv_loop (flat_pairs items) out) x =
     (case map_of items x of None \<Rightarrow> fmlookup out x | Some v \<Rightarrow> Some v)"
  using assms
proof (induction items arbitrary: out rule: flat_pairs.induct)
  case (2 k v items)
  then show ?case by (auto split: option.splits simp: image_iff)
qed simp

lemma readKv_flat_pairs:
  assumes "clean_fields m"
  shows "readKv_loop (flat_pairs (sorted_list_of_fmap m)) fmempty = m"
proof (rule fmap_ext)
  fix x
  have "\<forall>(k, v) \<in> set (sorted_list_of_fmap m). k \<noteq> []"
    using assms by (auto simp: set_sorted_list_of_fmap clean_fields_def clean_text_def)
  then show "fmlookup (readKv_loop (flat_pairs (sorted_list_of_fmap m)) fmempty) x = fmlookup m x"
    by (subst readKv_loop_lookup) (auto split: option.splits)
qed

lemma readKvChunk_Nil [simp]: "readKvChunk [] = fmempty"
  by (simp add: readKvChunk_def)

lemma readKvChunk_serializeFields:
  assumes "clean_fields m"
  shows "readKvChunk (serializeFields m) = m"
proof (cases "m = fmempty")
  case True
  then show ?thesis by (simp add: readKvChunk_def)
next
  case False
  let ?ts = "flat_pairs (sorted_list_of_fmap m)"
  have ne: "?ts \<noteq> []" using False by simp
  have clean: "\<forall>t \<in> set ?ts. clean_text t" using assms clean_fields_tokens by blast
  then have split: "splitView (serializeFields m) (CHR '','') = ?ts"
    unfolding splitView_eq serializeFields_join
    by (intro split_join) (use ne in \<open>auto simp: clean_text_def\<close>)
  have "last ?ts \<noteq> []" using clean ne last_in_set clean_text_def by blast
  moreover have "serializeFields m \<noteq> []"
  proof
    assume "serializeFields m = []"
    with split have "?ts = [[]]" by (simp add: splitView_eq)
    with clean show False by (simp add: clean_text_def)
  qed
  ultimately show ?thesis
    by (simp add: readKvChunk_def split pop_trailing_empty_def readKv_flat_pairs [OF assms])
qed

lemma set_join_with: "set (join_with d ts) \<subseteq> insert d (\<Union> (set ` set ts))"
  by (induction d ts rule: join_with.induct) auto

lemma serializeFields_no_semicolon:
  assumes "clean_fields m"
  shows "CHR '';'' \<notin> set (serializeFields m)"
  using set_join_with [of "CHR '',''" "flat_pairs (sorted_list_of_fmap m)"] clean_fields_tokens [OF assms]
  by (auto simp: serializeFields_join clean_text_def)

section \<open>Parsing back a printed level\<close>

lemma splitView_serializeLevelString:
  assumes "\<And>id. id \<in> fmdom' (objects st) \<Longrightarrow>
      CHR '';'' \<notin> set (serializeFields (obj_fields (the (fmlookup (objects st) id))))"
    and "CHR '';'' \<notin> set (if rawHeader st \<noteq> [] then rawHeader st else serializeFields (header st))"
  shows "splitView (serializeLevelString st) (CHR '';'') =
    (if rawHeader st \<noteq> [] then rawHeader st else serializeFields (header st)) #
    map (\<lambda>id. serializeFields (obj_fields (the (fmlookup (objects st) id)))) (sorted_keys (objects st)) @ [[]]"
proof -
  let ?f = "\<lambda>id. serializeFields (obj_fields (the (fmlookup (objects st) id)))"
  have "\<forall>id \<in> set ids. CHR '';'' \<notin> set (?f id) \<Longrightarrow>
      split_at (CHR '';'') (concat (map (\<lambda>id. ?f id @ '';'') ids)) = map ?f ids @ [[]]" for ids
    by (induction ids) (simp_all add: split_at_append_delim)
  then have "split_at (CHR '';'') (concat (map (\<lambda>id. ?f id @ '';'') (sorted_keys (objects st)))) =
      map ?f (sorted_keys (objects st)) @ [[]]"
    using assms(1) by simp
  with assms(2) show ?thesis
    by (simp add: splitView_eq serializeLevelString_def split_at_append_delim)
qed

lemma parseObjects_loop_lookup:
  assumes "\<forall>m \<in> set fs. clean_fields m \<and> m \<noteq> fmempty"
    and "i + length fs < 2 ^ 64" and "\<forall>x. i \<le> unat x \<longrightarrow> fmlookup objs x = None"
  shows "fmlookup (parseObjects_loop i (map serializeFields fs @ [[]]) objs) x =
    (if i \<le> unat x \<and> unat x < i + length fs
     then Some \<lparr>uuid = x, obj_fields = fs ! (unat x - i)\<rparr> else fmlookup objs x)"
  using assms
proof (induction fs arbitrary: i objs)
  case Nil
  then show ?case by simp
next
  case (Cons m fs)
  have i: "unat (of_nat i :: u64) = i" using Cons.prems(2) by (simp add: unat_of_nat)
  have m: "readKvChunk (serializeFields m) = m" and ne: "m \<noteq> fmempty"
    using Cons.prems(1) readKvChunk_serializeFields by auto
  have "serializeFields m \<noteq> []"
  proof
    assume "serializeFields m = []"
    with m have "m = fmempty" by (simp add: readKvChunk_def)
    with ne show False by simp
  qed
  let ?objs = "emplace (of_nat i) \<lparr>uuid = of_nat i, obj_fields = m\<rparr> objs"
  have IH: "fmlookup (parseObjects_loop (Suc i) (map serializeFields fs @ [[]]) ?objs) x =
    (if Suc i \<le> unat x \<and> unat x < Suc i + length fs
     then Some \<lparr>uuid = x, obj_fields = fs ! (unat x - Suc i)\<rparr> else fmlookup ?objs x)"
    by (rule Cons.IH) (use Cons.prems i in \<open>auto simp: Suc_le_eq\<close>)
  have x: "of_nat i = x \<longleftrightarrow> unat x = i" using i by auto
  have "fmlookup objs (of_nat i) = None" using Cons.prems(3) i by simp
  then show ?case
    using IH \<open>serializeFields m \<noteq> []\<close>
    by (auto simp: m ne x nth_Cons' Suc_le_eq)
qed

lemma sorted_keys_interval:
  assumes "\<And>x. x \<in> fmdom' m \<longleftrightarrow> i \<le> unat x \<and> unat x < i + n" and "i + n < 2 ^ 64"
  shows "sorted_keys (m :: (u64, 'a) fmap) = map of_nat [i..<i + n]"
proof (rule sorted_distinct_set_unique)
  have of: "unat (of_nat k :: u64) = k" if "k \<in> {i..<i + n}" for k
    using that assms(2) by (simp add: unat_of_nat)
  show "sorted (map of_nat [i..<i + n] :: u64 list)"
    unfolding sorted_wrt_map
    by (rule sorted_wrt_mono_rel [OF _ sorted_upt]) (use of in \<open>simp add: word_le_nat_alt\<close>)
  show "distinct (map of_nat [i..<i + n] :: u64 list)"
    unfolding distinct_map by (intro conjI inj_onI) (use of in \<open>simp, metis set_upt\<close>)
  show "set (sorted_keys m) = set (map of_nat [i..<i + n])"
  proof (intro set_eqI)
    fix x :: u64
    have "x \<in> of_nat ` {i..<i + n} \<longleftrightarrow> i \<le> unat x \<and> unat x < i + n"
      using of by (auto intro!: image_eqI [of x _ "unat x"])
    then show "x \<in> set (sorted_keys m) \<longleftrightarrow> x \<in> set (map of_nat [i..<i + n])"
      by (simp add: assms(1))
  qed
qed simp_all

abbreviation object_texts :: "level_state \<Rightarrow> fieldmap list" where
  "object_texts st \<equiv> map (\<lambda>id. obj_fields (the (fmlookup (objects st) id))) (sorted_keys (objects st))"

lemma clean_objects_texts:
  assumes "clean_objects st" and "m \<in> set (object_texts st)"
  shows "clean_fields m \<and> m \<noteq> fmempty"
  using assms by (auto simp: clean_objects_def fmpred_iff fmlookup_dom'_iff)

lemma header_chunk_clean:
  assumes "clean_header st"
  shows "CHR '';'' \<notin> set (if rawHeader st \<noteq> [] then rawHeader st else serializeFields (header st))"
  using assms serializeFields_no_semicolon by (auto simp: clean_header_def split: if_splits)

lemma splitView_serialize_clean:
  assumes "clean_objects st" and "clean_header st"
  shows "splitView (serializeLevelString st) (CHR '';'') =
    (if rawHeader st \<noteq> [] then rawHeader st else serializeFields (header st)) #
    map serializeFields (object_texts st) @ [[]]"
proof -
  have "CHR '';'' \<notin> set (serializeFields (obj_fields (the (fmlookup (objects st) id))))"
    if "id \<in> fmdom' (objects st)" for id
    using that clean_objects_texts [OF assms(1)] by (intro serializeFields_no_semicolon) simp
  from splitView_serializeLevelString [OF this header_chunk_clean [OF assms(2)]]
  show ?thesis by (simp add: comp_def)
qed

text \<open>The objects of a reparsed level are the old ones in order, renumbered from 1.\<close>

lemma reparse_objects:
  assumes "clean_objects st" and "clean_header st"
  defines "st' \<equiv> parseLevelString (serializeLevelString st)"
  shows "sorted_keys (objects st') = map of_nat [1..<1 + length (sorted_keys (objects st))]"
    and "object_texts st' = object_texts st"
    and "keyed st'"
proof -
  let ?fs = "object_texts st"
  have len: "1 + length ?fs < 2 ^ 64" using assms(1) by (simp add: clean_objects_def)
  have objs: "objects st' = parseObjects_loop 1 (map serializeFields ?fs @ [[]]) fmempty"
    unfolding st'_def parseLevelString_def splitView_serialize_clean [OF assms(1,2)]
    by (simp add: Let_def)
  have lookup: "fmlookup (objects st') x =
    (if 1 \<le> unat x \<and> unat x < 1 + length ?fs
     then Some \<lparr>uuid = x, obj_fields = ?fs ! (unat x - 1)\<rparr> else None)" for x
    unfolding objs
    by (subst parseObjects_loop_lookup) (use clean_objects_texts [OF assms(1)] len in simp_all)
  have keys: "sorted_keys (objects st') = map of_nat [1..<1 + length ?fs]"
    by (rule sorted_keys_interval) (use len lookup in \<open>auto simp: fmlookup_dom'_iff split: if_splits\<close>)
  then show "sorted_keys (objects st') = map of_nat [1..<1 + length (sorted_keys (objects st))]"
    by simp
  have "unat (of_nat (Suc k) :: u64) = Suc k" if "k < length ?fs" for k
    using that len by (simp add: unat_of_nat del: of_nat_Suc)
  then show "object_texts st' = ?fs"
    unfolding keys by (intro nth_equalityI) (simp_all add: lookup del: of_nat_Suc upt_Suc)
  show "keyed st'"
    by (auto simp: keyed_def fmpred_iff lookup split: if_splits)
qed

lemma serialize_header_parse:
  "(let st = parseLevelString raw in
     if rawHeader st \<noteq> [] then rawHeader st else serializeFields (header st)) =
   hd (splitView raw (CHR '';''))"
  by (cases "splitView raw (CHR '';'')")
    (auto simp: parseLevelString_def Let_def splitView_eq)

lemma serialize_cong:
  assumes "object_texts a = object_texts b"
    and "(if rawHeader a \<noteq> [] then rawHeader a else serializeFields (header a)) =
      (if rawHeader b \<noteq> [] then rawHeader b else serializeFields (header b))"
  shows "serializeLevelString a = serializeLevelString b"
proof -
  have "serializeLevelString st =
      (if rawHeader st \<noteq> [] then rawHeader st else serializeFields (header st)) @ '';'' @
      concat (map (\<lambda>m. serializeFields m @ '';'') (object_texts st))" for st
    by (simp add: serializeLevelString_def comp_def)
  then show ?thesis by (simp only: assms)
qed

section \<open>Properties of the level format\<close>

text \<open>
  C32. Printing a well-formed level, parsing the text and printing again gives the same
  text, and the parsed level has the same object data in the same order, renumbered from 1:
  the level string is a faithful carrier of a state (up to the identifiers, which the
  matcher assigns afterwards).
\<close>

theorem level_string_roundtrip:
  assumes "clean_objects st" and "clean_header st"
  shows "serializeLevelString (parseLevelString (serializeLevelString st)) = serializeLevelString st
    \<and> object_texts (parseLevelString (serializeLevelString st)) = object_texts st
    \<and> keyed (parseLevelString (serializeLevelString st))"
proof (intro conjI)
  show texts: "object_texts (parseLevelString (serializeLevelString st)) = object_texts st"
    and "keyed (parseLevelString (serializeLevelString st))"
    using reparse_objects [OF assms] by simp_all
  show "serializeLevelString (parseLevelString (serializeLevelString st)) = serializeLevelString st"
    by (rule serialize_cong [OF texts])
      (use serialize_header_parse [of "serializeLevelString st"] splitView_serialize_clean [OF assms]
        in \<open>simp add: Let_def\<close>)
qed

definition sample_level :: level_state where
  "sample_level =
     \<lparr>rawHeader = [], header = fmap_of_list [(''kA2'', ''0''), (''kA1'', ''x'')],
      objects = fmap_of_list
        [(7, \<lparr>uuid = 7, obj_fields = fmap_of_list [(''2'', ''30''), (''1'', ''8'')]\<rparr>),
         (3, \<lparr>uuid = 3, obj_fields = fmap_of_list [(''1'', ''1'')]\<rparr>)]\<rparr>"

lemma sample_level_clean: "clean_objects sample_level" "clean_header sample_level"
  by code_simp+

theorem level_string_roundtrip_witness:
  "serializeLevelString sample_level = ''kA1,x,kA2,0;1,1;1,8,2,30;''
   \<and> serializeLevelString (parseLevelString (serializeLevelString sample_level)) =
       serializeLevelString sample_level"
proof
  show "serializeLevelString sample_level = ''kA1,x,kA2,0;1,1;1,8,2,30;''" by code_simp
  show "serializeLevelString (parseLevelString (serializeLevelString sample_level)) =
       serializeLevelString sample_level"
    using level_string_roundtrip [OF sample_level_clean] by simp
qed

text \<open>
  The header chunk of any level string, well formed or not, survives parsing and
  printing byte for byte: when the structured fields cannot reproduce it, the raw text is
  kept.
\<close>

theorem header_never_lost:
  "hd (splitView (serializeLevelString (parseLevelString raw)) (CHR '';'')) =
     hd (splitView raw (CHR '';''))"
proof -
  let ?h = "hd (splitView raw (CHR '';''))"
  have "?h \<in> set (splitView raw (CHR '';''))"
    by (simp add: splitView_eq)
  then have "CHR '';'' \<notin> set ?h"
    unfolding splitView_eq using split_at_pieces by blast
  moreover have "\<exists>rest. serializeLevelString (parseLevelString raw) = ?h @ '';'' @ rest"
    using serialize_header_parse [of raw] by (auto simp: serializeLevelString_def Let_def)
  ultimately show ?thesis
    by (auto simp: splitView_eq split_at_append_delim)
qed

text \<open>
  The fingerprint of a level has sixteen hexadecimal digits and two levels have the
  same fingerprint exactly when the 64-bit hashes of their printed forms agree; a level and
  its reparsed form agree.
\<close>

theorem hashLevelState_spec:
  assumes "clean_objects st" and "clean_header st"
  shows "length (hashLevelState st) = 16
    \<and> (hashLevelState st = hashLevelState st' \<longleftrightarrow>
         fnv1a64 (serializeLevelString st) = fnv1a64 (serializeLevelString st'))
    \<and> hashLevelState (parseLevelString (serializeLevelString st)) = hashLevelState st"
proof (intro conjI)
  show "length (hashLevelState st) = 16" by (simp add: hashLevelState_def hex64_def)
  show "hashLevelState st = hashLevelState st' \<longleftrightarrow>
      fnv1a64 (serializeLevelString st) = fnv1a64 (serializeLevelString st')"
    unfolding hashLevelState_def by (metis hex_val_hex64 unsigned_word_eqI)
  have "serializeLevelString (parseLevelString (serializeLevelString st)) = serializeLevelString st"
    by (rule serialize_cong [OF reparse_objects(2) [OF assms]])
      (use serialize_header_parse [of "serializeLevelString st"] splitView_serialize_clean [OF assms]
        in \<open>simp add: Let_def\<close>)
  then show "hashLevelState (parseLevelString (serializeLevelString st)) = hashLevelState st"
    by (simp add: hashLevelState_def)
qed

theorem hashLevelState_spec_witness:
  "length (hashLevelState sample_level) = 16
   \<and> hashLevelState (parseLevelString (serializeLevelString sample_level)) = hashLevelState sample_level"
  using hashLevelState_spec [OF sample_level_clean, of sample_level] by simp

end
