(* ===== verification/Coordinates.thy ===== *)
theory Coordinates
  imports Complex_Main Level_Model
begin

text \<open>
  The floating-point part of \<open>src/identity/Matcher.cpp\<close>: reading a coordinate with
  \<open>std::strtod\<close>, rounding it to the fingerprint grid, the spatial cell, and the squared
  distance.  A finite \<open>double\<close> is the rational number it denotes; every arithmetic result is
  rounded to nearest, ties to even, with 53 bits of precision and the exponent range of
  binary64, and a result beyond that range is infinite (\<open>None\<close>).  The conversion of a value
  outside the range of \<open>int\<close> is not defined by the standard: it is the parameter \<open>oob\<close>.
\<close>

section \<open>Binary64\<close>

function ilog2 :: "int \<Rightarrow> int" where
  "ilog2 n = (if n < 2 then 0 else 1 + ilog2 (n div 2))"
  by pat_completeness auto
termination by (relation "measure nat") auto

declare ilog2.simps [simp del]

definition pow2 :: "int \<Rightarrow> rat" where
  "pow2 e = (if 0 \<le> e then 2 ^ nat e else 1 / 2 ^ nat (- e))"

definition exponent_of :: "rat \<Rightarrow> int" where
  "exponent_of q =
     (let (n, d) = quotient_of (abs q);
          e = ilog2 n - ilog2 d
      in if pow2 e \<le> abs q then e else e - 1)"

definition round_half_even :: "rat \<Rightarrow> int" where
  "round_half_even q =
     (let f = floor q; r = q - of_int f in
      if r < 1 / 2 then f else if 1 / 2 < r then f + 1 else if even f then f else f + 1)"

definition round64 :: "rat \<Rightarrow> rat option" where
  "round64 q =
     (if q = 0 then Some 0
      else
        (let ulp = pow2 (max (exponent_of q - 52) (- 1074));
             r = of_int (round_half_even (q / ulp)) * ulp
         in if r = 0 \<or> exponent_of r < 1024 then Some r else None))"

section \<open>Reading a number\<close>

definition is_space :: "char \<Rightarrow> bool" where
  "is_space c \<longleftrightarrow> (let n = (of_char c :: nat) in n = 32 \<or> (9 \<le> n \<and> n \<le> 13))"

definition drop_sign :: "string \<Rightarrow> bool \<times> string" where
  "drop_sign s =
     (case s of
        [] \<Rightarrow> (False, [])
      | c # cs \<Rightarrow> if c = CHR ''-'' then (True, cs) else if c = CHR ''+'' then (False, cs) else (False, s))"

definition hex_digit :: "char \<Rightarrow> nat option" where
  "hex_digit c =
     (let n = of_char c in
      if 48 \<le> n \<and> n \<le> 57 then Some (n - 48)
      else if 97 \<le> n \<and> n \<le> 102 then Some (n - 87)
      else if 65 \<le> n \<and> n \<le> 70 then Some (n - 55)
      else None)"

definition dec_digit :: "char \<Rightarrow> nat option" where
  "dec_digit c = (if is_digit c then Some (digit_val c) else None)"

text \<open>A run of digits: how many, their value, and the rest of the text.\<close>

fun digit_run :: "(char \<Rightarrow> nat option) \<Rightarrow> int \<Rightarrow> string \<Rightarrow> nat \<Rightarrow> int \<Rightarrow> nat \<times> int \<times> string" where
  "digit_run dig base [] n v = (n, v, [])"
| "digit_run dig base (c # cs) n v =
     (case dig c of
        None \<Rightarrow> (n, v, c # cs)
      | Some d \<Rightarrow> digit_run dig base cs (Suc n) (base * v + int d))"

text \<open>The mantissa: integer part, optional point and fraction; value and scale.\<close>

definition mantissa :: "(char \<Rightarrow> nat option) \<Rightarrow> int \<Rightarrow> string \<Rightarrow> (int \<times> nat \<times> string) option" where
  "mantissa dig base s =
     (case digit_run dig base s 0 0 of (n1, v1, rest) \<Rightarrow>
        (case rest of
           CHR ''.'' # rest' \<Rightarrow>
             (case digit_run dig base rest' 0 v1 of (n2, v2, rest2) \<Rightarrow>
                if n1 + n2 = 0 then None else Some (v2, n2, rest2))
         | _ \<Rightarrow> if n1 = 0 then None else Some (v1, 0, rest)))"

text \<open>The optional exponent, which must end the text.\<close>

definition exponent_part :: "char list \<Rightarrow> string \<Rightarrow> int option" where
  "exponent_part marks s =
     (case s of
        [] \<Rightarrow> Some 0
      | c # cs \<Rightarrow>
          (if c \<in> set marks then
             (case drop_sign cs of (neg, ds) \<Rightarrow>
              case digit_run dec_digit 10 ds 0 0 of (n, v, rest) \<Rightarrow>
                if n = 0 \<or> rest \<noteq> [] then None else Some (if neg then - v else v))
           else None))"

definition exact_value :: "string \<Rightarrow> rat option" where
  "exact_value s =
     (case drop_sign (dropWhile is_space s) of (neg, t) \<Rightarrow>
        map_option (\<lambda>q. if neg then - q else q)
         (if take 2 t = ''0x'' \<or> take 2 t = ''0X'' then
            (case mantissa hex_digit 16 (drop 2 t) of
               None \<Rightarrow> None
             | Some (v, sc, rest) \<Rightarrow>
                 map_option (\<lambda>e. of_int v / 16 ^ sc * pow2 e) (exponent_part ''pP'' rest))
          else
            (case mantissa dec_digit 10 t of
               None \<Rightarrow> None
             | Some (v, sc, rest) \<Rightarrow>
                 map_option (\<lambda>e. of_int v / 10 ^ sc * (if 0 \<le> e then 10 ^ nat e else 1 / 10 ^ nat (- e)))
                   (exponent_part ''eE'' rest))))"

text \<open>
  The value \<open>strtod\<close> gives when it consumes the whole text, without a range error; the words
  for infinities and not-a-number are not finite and so have no value here.
\<close>

definition strtod_full :: "string \<Rightarrow> rat option" where
  "strtod_full s =
     (case exact_value s of
        None \<Rightarrow> None
      | Some q \<Rightarrow>
          (case round64 q of
             None \<Rightarrow> None
           | Some r \<Rightarrow> if q \<noteq> r \<and> (r = 0 \<or> exponent_of r < - 1022) then None else Some r))"

definition parseDoubleOr :: "fieldmap \<Rightarrow> string \<Rightarrow> rat \<Rightarrow> rat" where
  "parseDoubleOr m key fallback =
     (case fmlookup m key of
        None \<Rightarrow> fallback
      | Some s \<Rightarrow>
          (if s = [] then fallback
           else (case strtod_full s of None \<Rightarrow> fallback | Some r \<Rightarrow> r)))"

section \<open>Grids and distance\<close>

definition kSpatialThreshold :: rat where
  "kSpatialThreshold = 32"

definition to_int :: "(rat \<Rightarrow> int) \<Rightarrow> int \<Rightarrow> rat \<Rightarrow> int" where
  "to_int oob i q = (if - (2 ^ 31) \<le> i \<and> i < 2 ^ 31 then i else oob q)"

text \<open>\<open>std::lround\<close> rounds halves away from zero.\<close>

definition lround :: "rat \<Rightarrow> int" where
  "lround q = (if q < 0 then - floor (- q + 1 / 2) else floor (q + 1 / 2))"

definition grid_round :: "(rat \<Rightarrow> int) \<Rightarrow> rat \<Rightarrow> int" where
  "grid_round oob q = to_int oob (lround q) q"

definition cell_index :: "(rat \<Rightarrow> int) \<Rightarrow> rat \<Rightarrow> int" where
  "cell_index oob q = (case round64 (q / kSpatialThreshold) of None \<Rightarrow> oob q | Some r \<Rightarrow> to_int oob (floor r) r)"

definition lift2 :: "(rat \<Rightarrow> rat \<Rightarrow> rat) \<Rightarrow> rat option \<Rightarrow> rat option \<Rightarrow> rat option" where
  "lift2 f x y = (case (x, y) of (Some a, Some b) \<Rightarrow> round64 (f a b) | _ \<Rightarrow> None)"

text \<open>\<open>None\<close> is positive infinity: the squares are never not-a-number.\<close>

definition distanceSquared :: "fieldmap \<Rightarrow> fieldmap \<Rightarrow> rat option" where
  "distanceSquared a b =
     (let dx = round64 (parseDoubleOr a kX 0 - parseDoubleOr b kX 0);
          dy = round64 (parseDoubleOr a kY 0 - parseDoubleOr b kY 0)
      in lift2 (+) (lift2 (*) dx dx) (lift2 (*) dy dy))"

lemma lround_of_int [simp]: "lround (of_int i) = i"
proof -
  have "floor (of_int j + 1 / 2 :: rat) = j" for j by (simp add: floor_unique)
  from this [of i] this [of "- i"] show ?thesis by (simp add: lround_def)
qed

lemma distanceSquared_same [simp]: "distanceSquared a a = Some 0"
  by (simp add: distanceSquared_def lift2_def round64_def)

end
