(* ===== verification/Differ.thy ===== *)
theory Differ
  imports Level_Model
begin

text \<open>
  \<open>src/diff/Delta.hpp\<close>, \<open>Differ.hpp\<close> and \<open>Differ.cpp\<close>: the delta between two level states,
  its application to a state and the conflicts it reports.  The order in which a hash table
  of objects is iterated is a parameter of \<open>diff\<close> (two key enumerations).
\<close>

section \<open>Data\<close>

record field_change =
  before :: string
  after :: string

record modify =
  m_uuid :: object_uuid
  m_fields :: "(string, field_change) fmap"

record delta =
  headerChanges :: "(string, field_change) fmap"
  rawHeaderChange :: "field_change option"
  adds :: "lobject list"
  removes :: "lobject list"
  modifies :: "modify list"

datatype conflict = AddAlreadyExists | Missing | ModifyStale

definition empty_delta :: delta where
  "empty_delta = \<lparr>headerChanges = fmempty, rawHeaderChange = None, adds = [], removes = [], modifies = []\<rparr>"

abbreviation fc :: "string \<Rightarrow> string \<Rightarrow> field_change" where
  "fc b a \<equiv> \<lparr>before = b, after = a\<rparr>"

section \<open>Computing a delta\<close>

definition diffFields_left :: "fieldmap \<Rightarrow> fieldmap \<Rightarrow> string \<Rightarrow>
    (string, field_change) fmap \<Rightarrow> (string, field_change) fmap" where
  "diffFields_left a b key out =
     (let valA = the (fmlookup a key) in
      case fmlookup b key of
        None \<Rightarrow> emplace key (fc valA []) out
      | Some valB \<Rightarrow> if valA \<noteq> valB then emplace key (fc valA valB) out else out)"

definition diffFields_right :: "fieldmap \<Rightarrow> fieldmap \<Rightarrow> string \<Rightarrow>
    (string, field_change) fmap \<Rightarrow> (string, field_change) fmap" where
  "diffFields_right a b key out =
     (if fmlookup a key = None then emplace key (fc [] (the (fmlookup b key))) out else out)"

definition diffFields :: "fieldmap \<Rightarrow> fieldmap \<Rightarrow> (string, field_change) fmap" where
  "diffFields a b =
     fold (diffFields_right a b) (sorted_keys b) (fold (diffFields_left a b) (sorted_keys a) fmempty)"

fun diff_prev_loop :: "object_uuid list \<Rightarrow> level_state \<Rightarrow> level_state \<Rightarrow> delta \<Rightarrow> delta" where
  "diff_prev_loop [] prev nxt d = d"
| "diff_prev_loop (u # us) prev nxt d =
     (let prevObj = the (fmlookup (objects prev) u) in
      case fmlookup (objects nxt) u of
        None \<Rightarrow> diff_prev_loop us prev nxt (d\<lparr>removes := removes d @ [prevObj]\<rparr>)
      | Some nextObj \<Rightarrow>
          (let fieldChanges = diffFields (obj_fields prevObj) (obj_fields nextObj) in
           diff_prev_loop us prev nxt
             (if fieldChanges \<noteq> fmempty
              then d\<lparr>modifies := modifies d @ [\<lparr>m_uuid = u, m_fields = fieldChanges\<rparr>]\<rparr>
              else d)))"

fun diff_next_loop :: "object_uuid list \<Rightarrow> level_state \<Rightarrow> level_state \<Rightarrow> delta \<Rightarrow> delta" where
  "diff_next_loop [] prev nxt d = d"
| "diff_next_loop (u # us) prev nxt d =
     diff_next_loop us prev nxt
       (if fmlookup (objects prev) u = None
        then d\<lparr>adds := adds d @ [the (fmlookup (objects nxt) u)]\<rparr> else d)"

definition diff :: "object_uuid list \<Rightarrow> object_uuid list \<Rightarrow> level_state \<Rightarrow> level_state \<Rightarrow> delta" where
  "diff ord_prev ord_next prev nxt =
     (let d = empty_delta\<lparr>headerChanges := diffFields (header prev) (header nxt)\<rparr>;
          d = (if rawHeader prev \<noteq> rawHeader nxt
               then d\<lparr>rawHeaderChange := Some (fc (rawHeader prev) (rawHeader nxt))\<rparr> else d)
      in diff_next_loop ord_next prev nxt (diff_prev_loop ord_prev prev nxt d))"

section \<open>Applying a delta\<close>

definition apply_header_step :: "string \<times> field_change \<Rightarrow> fieldmap \<times> conflict list \<Rightarrow> fieldmap \<times> conflict list" where
  "apply_header_step kc s =
     (case (kc, s) of ((k, c), (hdr, out)) \<Rightarrow>
        (set_or_erase k (after c) hdr,
         if get_or_empty hdr k \<noteq> before c then out @ [ModifyStale] else out))"

definition apply_raw :: "field_change option \<Rightarrow> string \<times> conflict list \<Rightarrow> string \<times> conflict list" where
  "apply_raw chg s =
     (case (chg, s) of
        (None, (raw, out)) \<Rightarrow> (raw, out)
      | (Some c, (raw, out)) \<Rightarrow> (after c, if raw \<noteq> before c then out @ [ModifyStale] else out))"

type_synonym object_table = "(object_uuid, lobject) fmap"

definition apply_add :: "lobject \<Rightarrow> object_table \<times> conflict list \<Rightarrow> object_table \<times> conflict list" where
  "apply_add ob s =
     (case s of (objs, out) \<Rightarrow>
        if fmlookup objs (uuid ob) \<noteq> None then (objs, out @ [AddAlreadyExists])
        else (emplace (uuid ob) ob objs, out))"

definition apply_remove :: "lobject \<Rightarrow> object_table \<times> conflict list \<Rightarrow> object_table \<times> conflict list" where
  "apply_remove ob s =
     (case s of (objs, out) \<Rightarrow>
        if fmlookup objs (uuid ob) = None then (objs, out @ [Missing])
        else (fmdrop (uuid ob) objs, out))"

definition apply_field_step :: "string \<times> field_change \<Rightarrow> fieldmap \<times> conflict list \<Rightarrow> fieldmap \<times> conflict list" where
  "apply_field_step kc s =
     (case (kc, s) of ((k, c), (flds, out)) \<Rightarrow>
        if get_or_empty flds k \<noteq> before c then (flds, out @ [ModifyStale])
        else (set_or_erase k (after c) flds, out))"

definition apply_modify :: "modify \<Rightarrow> object_table \<times> conflict list \<Rightarrow> object_table \<times> conflict list" where
  "apply_modify m s =
     (case s of (objs, out) \<Rightarrow>
        (case fmlookup objs (m_uuid m) of
           None \<Rightarrow> (objs, out @ [Missing])
         | Some ob \<Rightarrow>
             (case fold apply_field_step (sorted_list_of_fmap (m_fields m)) (obj_fields ob, out) of
                (flds, out') \<Rightarrow> (fmupd (m_uuid m) (ob\<lparr>obj_fields := flds\<rparr>) objs, out'))))"

definition apply_delta :: "level_state \<Rightarrow> delta \<Rightarrow> level_state \<times> conflict list" where
  "apply_delta base d =
     (case fold apply_header_step (sorted_list_of_fmap (headerChanges d)) (header base, []) of (hdr, out1) \<Rightarrow>
      case apply_raw (rawHeaderChange d) (rawHeader base, out1) of (raw, out2) \<Rightarrow>
      case fold apply_add (adds d) (objects base, out2) of s3 \<Rightarrow>
      case fold apply_remove (removes d) s3 of s4 \<Rightarrow>
      case fold apply_modify (modifies d) s4 of (objs, out) \<Rightarrow>
        (\<lparr>rawHeader = raw, header = hdr, objects = objs\<rparr>, out))"

section \<open>States up to empty values\<close>

text \<open>
  The source treats a missing key and an empty value alike (\<open>diffFields\<close> writes \<open>""\<close> for a
  missing key, \<open>apply\<close> erases a key that gets \<open>""\<close>).  Deltas therefore determine a state
  up to empty values: \<open>norm_state\<close> removes them.
\<close>

definition norm_fields :: "fieldmap \<Rightarrow> fieldmap" where
  "norm_fields m = fmfilter (\<lambda>k. get_or_empty m k \<noteq> []) m"

definition norm_object :: "lobject \<Rightarrow> lobject" where
  "norm_object ob = ob\<lparr>obj_fields := norm_fields (obj_fields ob)\<rparr>"

definition norm_state :: "level_state \<Rightarrow> level_state" where
  "norm_state st = st\<lparr>header := norm_fields (header st), objects := fmmap norm_object (objects st)\<rparr>"

lemma norm_fields_lookup:
  "fmlookup (norm_fields m) k = (if get_or_empty m k = [] then None else Some (get_or_empty m k))"
  by (auto simp: norm_fields_def get_or_empty_def split: option.splits)

lemma get_or_empty_norm [simp]: "get_or_empty (norm_fields m) k = get_or_empty m k"
  by (simp add: get_or_empty_def [of "norm_fields m"] norm_fields_lookup)

lemma norm_fields_eq_iff:
  "norm_fields a = norm_fields b \<longleftrightarrow> (\<forall>k. get_or_empty a k = get_or_empty b k)"
proof
  assume "norm_fields a = norm_fields b"
  then show "\<forall>k. get_or_empty a k = get_or_empty b k" by (metis get_or_empty_norm)
next
  assume "\<forall>k. get_or_empty a k = get_or_empty b k"
  then show "norm_fields a = norm_fields b" by (intro fmap_ext) (simp add: norm_fields_lookup)
qed

lemma norm_fields_idem [simp]: "norm_fields (norm_fields m) = norm_fields m"
  by (simp add: norm_fields_eq_iff)

lemma norm_fields_empty [simp]: "norm_fields fmempty = fmempty"
  by (simp add: norm_fields_def)

lemma norm_object_simps [simp]:
  "uuid (norm_object ob) = uuid ob" "obj_fields (norm_object ob) = norm_fields (obj_fields ob)"
  "norm_object (norm_object ob) = norm_object ob"
  by (simp_all add: norm_object_def)

lemma norm_state_simps [simp]:
  "rawHeader (norm_state st) = rawHeader st" "header (norm_state st) = norm_fields (header st)"
  "objects (norm_state st) = fmmap norm_object (objects st)"
  by (simp_all add: norm_state_def)

lemma norm_state_eqI:
  assumes "rawHeader a = rawHeader b" and "norm_fields (header a) = norm_fields (header b)"
    and "\<And>u. map_option norm_object (fmlookup (objects a) u) = map_option norm_object (fmlookup (objects b) u)"
  shows "norm_state a = norm_state b"
proof -
  have "fmmap norm_object (objects a) = fmmap norm_object (objects b)"
    by (rule fmap_ext) (simp add: assms(3))
  with assms(1,2) show ?thesis by (simp add: norm_state_def)
qed

lemma norm_state_idem [simp]: "norm_state (norm_state st) = norm_state st"
proof (rule norm_state_eqI)
  fix u
  show "map_option norm_object (fmlookup (objects (norm_state st)) u) =
      map_option norm_object (fmlookup (objects st) u)"
    by (simp add: option.map_comp comp_def)
qed simp_all

section \<open>What a delta contains\<close>

lemma diffFields_left_other: "k \<noteq> x \<Longrightarrow> fmlookup (diffFields_left a b k m) x = fmlookup m x"
  by (auto simp: diffFields_left_def Let_def split: option.splits)

lemma diffFields_right_other: "k \<noteq> x \<Longrightarrow> fmlookup (diffFields_right a b k m) x = fmlookup m x"
  by (auto simp: diffFields_right_def)

definition field_diff :: "string option \<Rightarrow> string option \<Rightarrow> field_change option" where
  "field_diff x y =
     (case (x, y) of
        (None, None) \<Rightarrow> None
      | (Some va, None) \<Rightarrow> Some (fc va [])
      | (None, Some vb) \<Rightarrow> Some (fc [] vb)
      | (Some va, Some vb) \<Rightarrow> if va \<noteq> vb then Some (fc va vb) else None)"

lemma diffFields_lookup [container_simps]:
  "fmlookup (diffFields a b) x = field_diff (fmlookup a x) (fmlookup b x)"
proof -
  let ?g = "\<lambda>k old. if old \<noteq> None then old else
      (case fmlookup b k of None \<Rightarrow> Some (fc (the (fmlookup a k)) [])
       | Some vb \<Rightarrow> if the (fmlookup a k) \<noteq> vb then Some (fc (the (fmlookup a k)) vb) else None)"
  let ?h = "\<lambda>k old. if fmlookup a k = None \<and> old = None then Some (fc [] (the (fmlookup b k))) else old"
  have left: "fmlookup (fold (diffFields_left a b) (sorted_keys a) fmempty) x =
      (if x \<in> set (sorted_keys a) then ?g x None else None)"
    by (subst fold_lookup_distinct [where g = ?g])
      (auto simp: diffFields_left_other diffFields_left_def Let_def split: option.splits)
  have "fmlookup (diffFields a b) x =
      (let l = fmlookup (fold (diffFields_left a b) (sorted_keys a) fmempty) x in
       if x \<in> set (sorted_keys b) then ?h x l else l)"
    unfolding diffFields_def Let_def
    by (subst fold_lookup_distinct [where g = ?h])
      (auto simp: diffFields_right_other diffFields_right_def)
  then show ?thesis unfolding left
    by (auto simp: field_diff_def fmlookup_dom'_iff split: option.splits)
qed

lemma field_diff_None: "field_diff x y = None \<longleftrightarrow> x = y"
  by (auto simp: field_diff_def split: option.splits)

lemma diffFields_empty_iff [simp]: "diffFields a b = fmempty \<longleftrightarrow> a = b"
proof
  assume "diffFields a b = fmempty"
  then have "field_diff (fmlookup a x) (fmlookup b x) = None" for x
    by (metis diffFields_lookup fmempty_lookup)
  then show "a = b" by (intro fmap_ext) (simp add: field_diff_None)
next
  assume "a = b"
  then show "diffFields a b = fmempty" by (intro fmap_ext) (simp add: diffFields_lookup field_diff_None)
qed

lemma field_diff_Some:
  assumes "field_diff (fmlookup a k) (fmlookup b k) = Some c"
  shows "before c = get_or_empty a k" and "after c = get_or_empty b k"
  using assms by (auto simp: field_diff_def get_or_empty_def split: option.splits if_splits)

lemma diff_prev_loop_eq:
  "diff_prev_loop us prev nxt d =
     d\<lparr>removes := removes d @
          map (\<lambda>u. the (fmlookup (objects prev) u)) (filter (\<lambda>u. fmlookup (objects nxt) u = None) us),
       modifies := modifies d @
          map (\<lambda>u. \<lparr>m_uuid = u, m_fields = diffFields (obj_fields (the (fmlookup (objects prev) u)))
                     (obj_fields (the (fmlookup (objects nxt) u)))\<rparr>)
            (filter (\<lambda>u. \<exists>ob. fmlookup (objects nxt) u = Some ob \<and>
                obj_fields (the (fmlookup (objects prev) u)) \<noteq> obj_fields ob) us)\<rparr>"
proof (induction us arbitrary: d)
  case (Cons u us)
  then show ?case
    by (cases "fmlookup (objects nxt) u") (simp_all add: Let_def)
qed simp

lemma diff_next_loop_eq:
  "diff_next_loop us prev nxt d =
     d\<lparr>adds := adds d @
          map (\<lambda>u. the (fmlookup (objects nxt) u)) (filter (\<lambda>u. fmlookup (objects prev) u = None) us)\<rparr>"
  by (induction us prev nxt d rule: diff_next_loop.induct) auto

lemma diff_simps [simp]:
  "headerChanges (diff op on prev nxt) = diffFields (header prev) (header nxt)"
  "rawHeaderChange (diff op on prev nxt) =
     (if rawHeader prev \<noteq> rawHeader nxt then Some (fc (rawHeader prev) (rawHeader nxt)) else None)"
  "adds (diff op on prev nxt) =
     map (\<lambda>u. the (fmlookup (objects nxt) u)) (filter (\<lambda>u. fmlookup (objects prev) u = None) on)"
  "removes (diff op on prev nxt) =
     map (\<lambda>u. the (fmlookup (objects prev) u)) (filter (\<lambda>u. fmlookup (objects nxt) u = None) op)"
  "modifies (diff op on prev nxt) =
     map (\<lambda>u. \<lparr>m_uuid = u, m_fields = diffFields (obj_fields (the (fmlookup (objects prev) u)))
                     (obj_fields (the (fmlookup (objects nxt) u)))\<rparr>)
       (filter (\<lambda>u. \<exists>ob. fmlookup (objects nxt) u = Some ob \<and>
           obj_fields (the (fmlookup (objects prev) u)) \<noteq> obj_fields ob) op)"
  by (simp_all add: diff_def Let_def diff_prev_loop_eq diff_next_loop_eq empty_delta_def)

section \<open>What applying a delta does\<close>

lemma apply_header_step_eq [simp]:
  "apply_header_step (k, c) (hdr, out) =
     (set_or_erase k (after c) hdr, if get_or_empty hdr k \<noteq> before c then out @ [ModifyStale] else out)"
  by (simp add: apply_header_step_def)

lemma apply_field_step_eq [simp]:
  "apply_field_step (k, c) (flds, out) =
     (if get_or_empty flds k \<noteq> before c then (flds, out @ [ModifyStale])
      else (set_or_erase k (after c) flds, out))"
  by (simp add: apply_field_step_def)

lemma apply_add_eq [simp]:
  "apply_add ob (objs, out) =
     (if fmlookup objs (uuid ob) \<noteq> None then (objs, out @ [AddAlreadyExists])
      else (emplace (uuid ob) ob objs, out))"
  by (simp add: apply_add_def)

lemma apply_remove_eq [simp]:
  "apply_remove ob (objs, out) =
     (if fmlookup objs (uuid ob) = None then (objs, out @ [Missing]) else (fmdrop (uuid ob) objs, out))"
  by (simp add: apply_remove_def)

text \<open>Loops over a change map: each key is touched once, so the loop is a pointwise update.\<close>

lemma header_fold_lookup:
  assumes "distinct (map fst kcs)"
  shows "fmlookup (fst (fold apply_header_step kcs (hdr, out))) x =
    (case map_of kcs x of None \<Rightarrow> fmlookup hdr x
     | Some c \<Rightarrow> if after c = [] then None else Some (after c))"
  using assms
proof (induction kcs arbitrary: hdr out)
  case (Cons kc kcs)
  then show ?case
    by (cases kc) (auto simp: set_or_erase_lookup map_of_eq_None_iff image_iff
        split: option.splits)
qed simp

lemma header_fold_conflicts:
  assumes "distinct (map fst kcs)"
  shows "snd (fold apply_header_step kcs (hdr, out)) =
     out @ concat (map (\<lambda>(k, c). if get_or_empty hdr k \<noteq> before c then [ModifyStale] else []) kcs)"
  using assms
proof (induction kcs arbitrary: hdr out)
  case (Cons kc kcs)
  obtain k c where kc: "kc = (k, c)" by (cases kc)
  have nk: "k \<noteq> a" if "(a, b) \<in> set kcs" for a b using that Cons.prems kc by force
  have same: "map (\<lambda>(k', c). if get_or_empty (set_or_erase k v hdr) k' \<noteq> before c then [ModifyStale] else []) kcs =
      map (\<lambda>(k', c). if get_or_empty hdr k' \<noteq> before c then [ModifyStale] else []) kcs" for v
    by (intro map_cong refl) (use nk in \<open>fastforce split: prod.split\<close>)
  from Cons kc show ?case by (simp add: same del: get_or_empty_set_or_erase)
qed simp

lemma field_fold_lookup:
  assumes "distinct (map fst kcs)"
  shows "fmlookup (fst (fold apply_field_step kcs (flds, out))) x =
    (case map_of kcs x of None \<Rightarrow> fmlookup flds x
     | Some c \<Rightarrow> if get_or_empty flds x \<noteq> before c then fmlookup flds x
        else if after c = [] then None else Some (after c))"
  using assms
proof (induction kcs arbitrary: flds out)
  case (Cons kc kcs)
  obtain k c where kc: "kc = (k, c)" by (cases kc)
  have "map_of kcs k = None" using Cons.prems kc by (simp add: map_of_eq_None_iff)
  with Cons kc show ?case
    by (cases "x = k") (auto simp: set_or_erase_lookup split: option.splits)
qed simp

lemma field_fold_conflicts:
  assumes "distinct (map fst kcs)"
  shows "snd (fold apply_field_step kcs (flds, out)) =
     out @ concat (map (\<lambda>(k, c). if get_or_empty flds k \<noteq> before c then [ModifyStale] else []) kcs)"
  using assms
proof (induction kcs arbitrary: flds out)
  case (Cons kc kcs)
  obtain k c where kc: "kc = (k, c)" by (cases kc)
  have nk: "k \<noteq> a" if "(a, b) \<in> set kcs" for a b using that Cons.prems kc by force
  have same: "map (\<lambda>(k', c). if get_or_empty (set_or_erase k v flds) k' \<noteq> before c then [ModifyStale] else []) kcs =
      map (\<lambda>(k', c). if get_or_empty flds k' \<noteq> before c then [ModifyStale] else []) kcs" for v
    by (intro map_cong refl) (use nk in \<open>fastforce split: prod.split\<close>)
  from Cons kc show ?case by (simp add: same del: get_or_empty_set_or_erase)
qed simp

text \<open>The object loops, for lists without repeated identifiers.\<close>

lemma add_fold_lookup:
  "fmlookup (fst (fold apply_add obs (objs, out))) u =
     (case fmlookup objs u of Some ob \<Rightarrow> Some ob
      | None \<Rightarrow> find (\<lambda>ob. uuid ob = u) obs)"
proof (induction obs arbitrary: objs out)
  case (Cons ob obs)
  then show ?case by (auto split: option.splits)
qed (simp split: option.splits)

lemma add_fold_conflicts:
  assumes "\<forall>ob \<in> set obs. fmlookup objs (uuid ob) = None" and "distinct (map uuid obs)"
  shows "snd (fold apply_add obs (objs, out)) = out"
  using assms
proof (induction obs arbitrary: objs out)
  case (Cons ob obs)
  then show ?case by (auto simp: image_iff)
qed simp

lemma remove_fold_lookup:
  "fmlookup (fst (fold apply_remove obs (objs, out))) u =
     (if u \<in> uuid ` set obs then None else fmlookup objs u)"
proof (induction obs arbitrary: objs out)
  case (Cons ob obs)
  then show ?case by auto
qed simp

lemma remove_fold_conflicts:
  assumes "\<forall>ob \<in> set obs. fmlookup objs (uuid ob) \<noteq> None" and "distinct (map uuid obs)"
  shows "snd (fold apply_remove obs (objs, out)) = out"
  using assms
proof (induction obs arbitrary: objs out)
  case (Cons ob obs)
  have "\<forall>ob' \<in> set obs. fmlookup (fmdrop (uuid ob) objs) (uuid ob') \<noteq> None"
    using Cons.prems by (auto simp: image_iff)
  then have "snd (fold apply_remove obs (fmdrop (uuid ob) objs, out)) = out"
    using Cons.prems by (intro Cons.IH) auto
  with Cons.prems show ?case by auto
qed simp

definition modify_object :: "modify \<Rightarrow> lobject \<Rightarrow> lobject" where
  "modify_object m ob =
     ob\<lparr>obj_fields := fst (fold apply_field_step (sorted_list_of_fmap (m_fields m)) (obj_fields ob, []))\<rparr>"

lemma field_fold_fst_out:
  assumes "distinct (map fst kcs)"
  shows "fst (fold apply_field_step kcs (flds, out)) = fst (fold apply_field_step kcs (flds, []))"
  by (rule fmap_ext) (simp add: field_fold_lookup [OF assms])

lemma apply_modify_fst:
  "fst (apply_modify m (objs, out)) =
     (case fmlookup objs (m_uuid m) of None \<Rightarrow> objs | Some ob \<Rightarrow> fmupd (m_uuid m) (modify_object m ob) objs)"
  using field_fold_fst_out [of "sorted_list_of_fmap (m_fields m)"]
  by (auto simp: apply_modify_def modify_object_def split: option.splits prod.splits)
    (metis distinct_sorted_keys fst_conv map_fst_sorted_list_of_fmap)

lemma modify_object_fields:
  "fmlookup (obj_fields (modify_object m ob)) x =
    (case fmlookup (m_fields m) x of None \<Rightarrow> fmlookup (obj_fields ob) x
     | Some c \<Rightarrow> if get_or_empty (obj_fields ob) x \<noteq> before c then fmlookup (obj_fields ob) x
        else if after c = [] then None else Some (after c))"
  by (simp add: modify_object_def field_fold_lookup)

lemma modify_fold_lookup:
  assumes "distinct (map m_uuid ms)"
  shows "fmlookup (fst (fold apply_modify ms (objs, out))) u =
    (case find (\<lambda>m. m_uuid m = u) ms of None \<Rightarrow> fmlookup objs u
     | Some m \<Rightarrow> map_option (modify_object m) (fmlookup objs u))"
  using assms
proof (induction ms arbitrary: objs out)
  case (Cons m ms)
  obtain objs' out' where st: "apply_modify m (objs, out) = (objs', out')" by fastforce
  then have objs': "objs' = (case fmlookup objs (m_uuid m) of None \<Rightarrow> objs
      | Some ob \<Rightarrow> fmupd (m_uuid m) (modify_object m ob) objs)"
    using apply_modify_fst [of m objs out] by simp
  have "find (\<lambda>m'. m_uuid m' = m_uuid m) ms = None"
    using Cons.prems by (auto simp: find_None_iff image_iff)
  with Cons st objs' show ?case
    by (cases "m_uuid m = u") (auto split: option.splits)
qed simp

section \<open>The functional specification of apply\<close>

text \<open>
  A delta is well formed when no object identifier occurs twice in it: the loops over adds,
  removes and modifies then act on different objects, and each object, each field and each
  conflict can be described on its own.  Every delta that \<open>diff\<close> builds is well formed.
\<close>

definition touched :: "delta \<Rightarrow> object_uuid list" where
  "touched d = map uuid (adds d) @ map uuid (removes d) @ map m_uuid (modifies d)"

definition wf_delta :: "delta \<Rightarrow> bool" where
  "wf_delta d \<longleftrightarrow> distinct (touched d)"

definition apply_object_spec :: "delta \<Rightarrow> object_uuid \<Rightarrow> lobject option \<Rightarrow> lobject option" where
  "apply_object_spec d u old =
     (case find (\<lambda>ob. uuid ob = u) (adds d) of
        Some new \<Rightarrow> (case old of Some ob \<Rightarrow> Some ob | None \<Rightarrow> Some new)
      | None \<Rightarrow>
          if u \<in> uuid ` set (removes d) then None
          else (case find (\<lambda>m. m_uuid m = u) (modifies d) of
                  None \<Rightarrow> old | Some m \<Rightarrow> map_option (modify_object m) old))"

definition header_conflicts :: "level_state \<Rightarrow> delta \<Rightarrow> conflict list" where
  "header_conflicts base d =
     concat (map (\<lambda>(k, c). if get_or_empty (header base) k \<noteq> before c then [ModifyStale] else [])
       (sorted_list_of_fmap (headerChanges d))) @
     (case rawHeaderChange d of None \<Rightarrow> []
      | Some c \<Rightarrow> if rawHeader base \<noteq> before c then [ModifyStale] else [])"

definition modify_conflicts :: "object_table \<Rightarrow> modify \<Rightarrow> conflict list" where
  "modify_conflicts objs m =
     (case fmlookup objs (m_uuid m) of
        None \<Rightarrow> [Missing]
      | Some ob \<Rightarrow> concat (map (\<lambda>(k, c). if get_or_empty (obj_fields ob) k \<noteq> before c then [ModifyStale] else [])
          (sorted_list_of_fmap (m_fields m))))"

definition apply_conflicts :: "level_state \<Rightarrow> delta \<Rightarrow> conflict list" where
  "apply_conflicts base d =
     header_conflicts base d @
     map (\<lambda>_. AddAlreadyExists) (filter (\<lambda>ob. fmlookup (objects base) (uuid ob) \<noteq> None) (adds d)) @
     map (\<lambda>_. Missing) (filter (\<lambda>ob. fmlookup (objects base) (uuid ob) = None) (removes d)) @
     concat (map (modify_conflicts (objects base)) (modifies d))"

lemma add_fold_all_conflicts:
  assumes "distinct (map uuid obs)"
  shows "snd (fold apply_add obs (objs, out)) =
    out @ map (\<lambda>_. AddAlreadyExists) (filter (\<lambda>ob. fmlookup objs (uuid ob) \<noteq> None) obs)"
  using assms
proof (induction obs arbitrary: objs out)
  case (Cons ob obs)
  have same: "filter (\<lambda>ob'. fmlookup (emplace (uuid ob) ob objs) (uuid ob') \<noteq> None) obs =
      filter (\<lambda>ob'. fmlookup objs (uuid ob') \<noteq> None) obs"
    using Cons.prems by (intro filter_cong refl) (auto simp: image_iff)
  have "distinct (map uuid obs)" using Cons.prems by simp
  note IH = Cons.IH [OF this, of "emplace (uuid ob) ob objs" out, unfolded same]
    Cons.IH [OF this, of objs "out @ [AddAlreadyExists]"]
  show ?case by (auto simp: IH)
qed simp

lemma remove_fold_all_conflicts:
  assumes "distinct (map uuid obs)"
  shows "snd (fold apply_remove obs (objs, out)) =
    out @ map (\<lambda>_. Missing) (filter (\<lambda>ob. fmlookup objs (uuid ob) = None) obs)"
  using assms
proof (induction obs arbitrary: objs out)
  case (Cons ob obs)
  have same: "filter (\<lambda>ob'. fmlookup (fmdrop (uuid ob) objs) (uuid ob') = None) obs =
      filter (\<lambda>ob'. fmlookup objs (uuid ob') = None) obs"
    using Cons.prems by (intro filter_cong refl) (auto simp: image_iff)
  have "distinct (map uuid obs)" using Cons.prems by simp
  note IH = Cons.IH [OF this, of "fmdrop (uuid ob) objs" out, unfolded same]
    Cons.IH [OF this, of objs "out @ [Missing]"]
  show ?case by (auto simp: IH)
qed simp

lemma apply_modify_snd:
  "snd (apply_modify m (objs, out)) = out @ modify_conflicts objs m"
proof (cases "fmlookup objs (m_uuid m)")
  case (Some ob)
  have "snd (fold apply_field_step (sorted_list_of_fmap (m_fields m)) (obj_fields ob, out)) =
      out @ modify_conflicts objs m"
    using Some by (subst field_fold_conflicts) (simp_all add: modify_conflicts_def)
  with Some show ?thesis by (simp add: apply_modify_def split_beta)
qed (simp add: apply_modify_def modify_conflicts_def)

lemma modify_fold_all_conflicts:
  assumes "distinct (map m_uuid ms)"
  shows "snd (fold apply_modify ms (objs, out)) = out @ concat (map (modify_conflicts objs) ms)"
  using assms
proof (induction ms arbitrary: objs out)
  case (Cons m ms)
  obtain objs' out' where st: "apply_modify m (objs, out) = (objs', out')" by fastforce
  then have out': "out' = out @ modify_conflicts objs m"
    using apply_modify_snd [of m objs out] by simp
  have objs': "objs' = (case fmlookup objs (m_uuid m) of None \<Rightarrow> objs
      | Some ob \<Rightarrow> fmupd (m_uuid m) (modify_object m ob) objs)"
    using apply_modify_fst [of m objs out] st by simp
  have same: "map (modify_conflicts objs') ms = map (modify_conflicts objs) ms"
    using Cons.prems by (intro map_cong refl)
      (auto simp: modify_conflicts_def objs' image_iff split: option.splits)
  have "distinct (map m_uuid ms)" using Cons.prems by simp
  note IH = Cons.IH [OF this, of objs' out', unfolded same]
  show ?case using IH by (simp add: st out')
qed simp

lemma modify_conflicts_cong:
  "fmlookup objs (m_uuid m) = fmlookup objs' (m_uuid m) \<Longrightarrow> modify_conflicts objs m = modify_conflicts objs' m"
  by (simp add: modify_conflicts_def)

lemma apply_delta_parts:
  "apply_delta base d =
    (let h = fold apply_header_step (sorted_list_of_fmap (headerChanges d)) (header base, []);
         r = apply_raw (rawHeaderChange d) (rawHeader base, snd h);
         s = fold apply_modify (modifies d) (fold apply_remove (removes d) (fold apply_add (adds d) (objects base, snd r)))
     in (\<lparr>rawHeader = fst r, header = fst h, objects = fst s\<rparr>, snd s))"
  by (simp add: apply_delta_def Let_def split: prod.splits)

lemma wf_delta_distinct:
  assumes "wf_delta d"
  shows "distinct (map uuid (adds d))" "distinct (map uuid (removes d))" "distinct (map m_uuid (modifies d))"
    and "uuid ` set (adds d) \<inter> uuid ` set (removes d) = {}"
    and "uuid ` set (adds d) \<inter> m_uuid ` set (modifies d) = {}"
    and "uuid ` set (removes d) \<inter> m_uuid ` set (modifies d) = {}"
  using assms by (auto simp: wf_delta_def touched_def)

lemma apply_delta_object:
  assumes "wf_delta d"
  shows "fmlookup (objects (fst (apply_delta base d))) u = apply_object_spec d u (fmlookup (objects base) u)"
proof -
  note dis = wf_delta_distinct [OF assms]
  define s1 where "s1 = fold apply_add (adds d) (objects base, snd (apply_raw (rawHeaderChange d)
    (rawHeader base, snd (fold apply_header_step (sorted_list_of_fmap (headerChanges d)) (header base, [])))))"
  have s1: "fmlookup (fst s1) u = (case fmlookup (objects base) u of Some ob \<Rightarrow> Some ob
      | None \<Rightarrow> find (\<lambda>ob. uuid ob = u) (adds d))"
    by (simp add: s1_def add_fold_lookup)
  define s2 where "s2 = fold apply_remove (removes d) s1"
  have s2: "fmlookup (fst s2) u = (if u \<in> uuid ` set (removes d) then None else fmlookup (fst s1) u)"
    using remove_fold_lookup [of "removes d" "fst s1" "snd s1" u] by (simp add: s2_def)
  have "fmlookup (objects (fst (apply_delta base d))) u =
    (case find (\<lambda>m. m_uuid m = u) (modifies d) of None \<Rightarrow> fmlookup (fst s2) u
     | Some m \<Rightarrow> map_option (modify_object m) (fmlookup (fst s2) u))"
    using modify_fold_lookup [OF dis(3), of "fst s2" "snd s2" u]
    by (simp add: apply_delta_parts Let_def s1_def s2_def)
  moreover have "u \<in> uuid ` set (adds d) \<longleftrightarrow> find (\<lambda>ob. uuid ob = u) (adds d) \<noteq> None"
    by (metis find_None_image)
  moreover have "u \<in> m_uuid ` set (modifies d) \<longleftrightarrow> find (\<lambda>m. m_uuid m = u) (modifies d) \<noteq> None"
    by (metis find_None_image)
  ultimately show ?thesis
    using dis(4-6) by (auto simp: s2 s1 apply_object_spec_def split: option.splits)
qed

lemma apply_delta_header [simp]:
  "fmlookup (header (fst (apply_delta base d))) k =
    (case fmlookup (headerChanges d) k of None \<Rightarrow> fmlookup (header base) k
     | Some c \<Rightarrow> if after c = [] then None else Some (after c))"
  "rawHeader (fst (apply_delta base d)) =
    (case rawHeaderChange d of None \<Rightarrow> rawHeader base | Some c \<Rightarrow> after c)"
  by (simp_all add: apply_delta_parts Let_def header_fold_lookup apply_raw_def split: option.splits)

lemma apply_delta_conflicts:
  assumes "wf_delta d"
  shows "snd (apply_delta base d) = apply_conflicts base d"
proof -
  note dis = wf_delta_distinct [OF assms]
  define r where "r = apply_raw (rawHeaderChange d)
    (rawHeader base, snd (fold apply_header_step (sorted_list_of_fmap (headerChanges d)) (header base, [])))"
  have r: "snd r = header_conflicts base d"
    by (auto simp: r_def apply_raw_def header_conflicts_def header_fold_conflicts split: option.splits)
  define s1 where "s1 = fold apply_add (adds d) (objects base, snd r)"
  define s2 where "s2 = fold apply_remove (removes d) (fst s1, snd s1)"
  have look1: "fmlookup (fst s1) u = fmlookup (objects base) u" if "u \<notin> uuid ` set (adds d)" for u
    using that find_None_image [of uuid u "adds d"] by (simp add: s1_def add_fold_lookup split: option.splits)
  have look2: "fmlookup (fst s2) u = fmlookup (objects base) u"
    if "u \<notin> uuid ` set (adds d)" "u \<notin> uuid ` set (removes d)" for u
    unfolding s2_def remove_fold_lookup using that by (simp add: look1)
  have m1: "snd s1 = snd r @ map (\<lambda>_. AddAlreadyExists) (filter (\<lambda>ob. fmlookup (objects base) (uuid ob) \<noteq> None) (adds d))"
    unfolding s1_def by (rule add_fold_all_conflicts [OF dis(1)])
  have m2: "filter (\<lambda>ob. fmlookup (fst s1) (uuid ob) = None) (removes d) =
      filter (\<lambda>ob. fmlookup (objects base) (uuid ob) = None) (removes d)"
    using dis(4) by (intro filter_cong refl) (subst look1, auto)
  have m3: "map (modify_conflicts (fst s2)) (modifies d) = map (modify_conflicts (objects base)) (modifies d)"
    using dis(5,6) by (intro map_cong refl modify_conflicts_cong look2) auto
  have "snd s2 = snd s1 @ map (\<lambda>_. Missing) (filter (\<lambda>ob. fmlookup (objects base) (uuid ob) = None) (removes d))"
    unfolding s2_def remove_fold_all_conflicts [OF dis(2)] m2 ..
  then have "snd (fold apply_modify (modifies d) (fst s2, snd s2)) = apply_conflicts base d"
    unfolding modify_fold_all_conflicts [OF dis(3)] m3 by (simp add: m1 apply_conflicts_def r)
  then show ?thesis by (simp add: apply_delta_parts Let_def r_def s1_def s2_def)
qed

lemma distinct_map_filter_keyed:
  assumes "keyed st" and "enumerates us (objects st)"
  shows "map uuid (map (\<lambda>u. the (fmlookup (objects st) u)) (filter P us)) = filter P us"
  unfolding map_map by (rule map_idI) (use assms in \<open>auto simp: enumerates_def keyed_def fmpred_iff fmlookup_dom'_iff\<close>)

lemma wf_delta_diff:
  assumes "keyed prev" "keyed nxt" and "enumerates op (objects prev)" "enumerates on (objects nxt)"
  shows "wf_delta (diff op on prev nxt)"
  using assms distinct_map_filter_keyed [OF assms(1,3)] distinct_map_filter_keyed [OF assms(2,4)]
  by (auto simp: wf_delta_def touched_def comp_def enumerates_def fmlookup_dom'_iff)

section \<open>Diff and apply are inverse\<close>

lemma modify_object_diff:
  assumes "m_fields m = diffFields (obj_fields a) (obj_fields b)"
  shows "norm_fields (obj_fields (modify_object m a)) = norm_fields (obj_fields b)"
  unfolding norm_fields_eq_iff
proof
  fix k
  show "get_or_empty (obj_fields (modify_object m a)) k = get_or_empty (obj_fields b) k"
  proof (cases "fmlookup (diffFields (obj_fields a) (obj_fields b)) k")
    case None
    then have "fmlookup (obj_fields a) k = fmlookup (obj_fields b) k"
      by (simp add: diffFields_lookup field_diff_None)
    with None assms show ?thesis by (simp add: get_or_empty_def modify_object_fields)
  next
    case (Some c)
    then have "before c = get_or_empty (obj_fields a) k" "after c = get_or_empty (obj_fields b) k"
      using field_diff_Some [of "obj_fields a" k "obj_fields b" c] by (simp_all add: diffFields_lookup)
    with Some assms show ?thesis
      by (simp add: get_or_empty_def [of "obj_fields (modify_object m a)"] modify_object_fields)
  qed
qed

lemma uuid_modify_object [simp]: "uuid (modify_object m ob) = uuid ob"
  by (simp add: modify_object_def)

lemma find_map_keyed:
  assumes "keyed st" and "set us \<subseteq> fmdom' (objects st)"
  shows "find (\<lambda>ob. uuid ob = u) (map (\<lambda>u. the (fmlookup (objects st) u)) us) =
    (if u \<in> set us then fmlookup (objects st) u else None)"
  using assms(2)
proof (induction us)
  case (Cons x us)
  then have "uuid (the (fmlookup (objects st) x)) = x" "fmlookup (objects st) x \<noteq> None"
    using assms(1) by (auto simp: keyed_def fmpred_iff fmlookup_dom'_iff)
  with Cons show ?case by auto
qed simp

lemma find_map_modify: "find (\<lambda>m. m_uuid m = u) (map (\<lambda>u. \<lparr>m_uuid = u, m_fields = f u\<rparr>) us) =
    (if u \<in> set us then Some \<lparr>m_uuid = u, m_fields = f u\<rparr> else None)"
  by (induction us) auto

text \<open>The object table after a delta \<open>diff prev nxt\<close> is applied to any state \<open>base\<close>.\<close>

lemma apply_diff_object:
  assumes k: "keyed prev" "keyed nxt" and e: "enumerates op (objects prev)" "enumerates on (objects nxt)"
  shows "fmlookup (objects (fst (apply_delta base (diff op on prev nxt)))) u =
    (let b = fmlookup (objects base) u in
     case (fmlookup (objects prev) u, fmlookup (objects nxt) u) of
       (None, None) \<Rightarrow> b
     | (None, Some new) \<Rightarrow> (case b of Some ob \<Rightarrow> Some ob | None \<Rightarrow> Some new)
     | (Some _, None) \<Rightarrow> None
     | (Some x, Some y) \<Rightarrow>
         if obj_fields x = obj_fields y then b
         else map_option (modify_object \<lparr>m_uuid = u, m_fields = diffFields (obj_fields x) (obj_fields y)\<rparr>) b)"
proof -
  have on: "u \<in> set on \<longleftrightarrow> fmlookup (objects nxt) u \<noteq> None" and op: "u \<in> set op \<longleftrightarrow> fmlookup (objects prev) u \<noteq> None" for u
    using e by (auto simp: enumerates_def fmlookup_dom'_iff)
  have adds: "find (\<lambda>ob. uuid ob = u) (adds (diff op on prev nxt)) =
      (if fmlookup (objects prev) u = None then fmlookup (objects nxt) u else None)"
    unfolding diff_simps
    by (subst find_map_keyed [OF k(2)]) (use e on in \<open>auto simp: enumerates_def\<close>)
  have rem: "u \<in> uuid ` set (removes (diff op on prev nxt)) \<longleftrightarrow>
      fmlookup (objects prev) u \<noteq> None \<and> fmlookup (objects nxt) u = None"
    using distinct_map_filter_keyed [OF k(1) e(1), of "\<lambda>u. fmlookup (objects nxt) u = None"] op
    by (metis (mono_tags, lifting) diff_simps(4) list.set_map mem_Collect_eq set_filter)
  have mod: "find (\<lambda>m. m_uuid m = u) (modifies (diff op on prev nxt)) =
      (if fmlookup (objects prev) u \<noteq> None \<and> (\<exists>ob. fmlookup (objects nxt) u = Some ob \<and>
           obj_fields (the (fmlookup (objects prev) u)) \<noteq> obj_fields ob)
       then Some \<lparr>m_uuid = u, m_fields = diffFields (obj_fields (the (fmlookup (objects prev) u)))
          (obj_fields (the (fmlookup (objects nxt) u)))\<rparr> else None)"
    unfolding diff_simps find_map_modify using op by auto
  show ?thesis
    unfolding apply_delta_object [OF wf_delta_diff [OF assms]] apply_object_spec_def adds rem mod
    by (auto simp: Let_def split: option.splits)
qed

lemma modify_conflicts_diff:
  "modify_conflicts objs \<lparr>m_uuid = u, m_fields = diffFields (obj_fields a) (obj_fields b)\<rparr> = []"
  if "fmlookup objs u = Some a"
proof -
  have "\<forall>(k, c) \<in> set (sorted_list_of_fmap (diffFields (obj_fields a) (obj_fields b))).
      get_or_empty (obj_fields a) k = before c"
    by (auto simp: set_sorted_list_of_fmap diffFields_lookup intro: field_diff_Some(1) [symmetric])
  with that show ?thesis by (auto simp: modify_conflicts_def)
qed

lemma apply_diff:
  assumes "keyed prev" "keyed nxt" and "enumerates op (objects prev)" "enumerates on (objects nxt)"
  shows "snd (apply_delta prev (diff op on prev nxt)) = []
    \<and> norm_state (fst (apply_delta prev (diff op on prev nxt))) = norm_state nxt"
proof
  let ?d = "diff op on prev nxt"
  have op: "u \<in> set op \<Longrightarrow> fmlookup (objects prev) u \<noteq> None" for u
    using assms(3) by (auto simp: enumerates_def fmlookup_dom'_iff)
  have "\<forall>(k, c) \<in> set (sorted_list_of_fmap (headerChanges ?d)). get_or_empty (header prev) k = before c"
    by (auto simp: set_sorted_list_of_fmap diffFields_lookup intro: field_diff_Some(1) [symmetric])
  then have "header_conflicts prev ?d = []"
    by (auto simp: header_conflicts_def)
  moreover have "modify_conflicts (objects prev) m = []" if "m \<in> set (modifies ?d)" for m
    using that op by (auto intro!: modify_conflicts_diff)
  moreover have "fmlookup (objects prev) (uuid ob) = None" if "ob \<in> set (adds ?d)" for ob
    using that assms(2,4) by (auto simp: enumerates_def keyed_def fmpred_iff fmlookup_dom'_iff)
  moreover have "fmlookup (objects prev) (uuid ob) \<noteq> None" if "ob \<in> set (removes ?d)" for ob
    using that assms(1,3) op by (auto simp: keyed_def fmpred_iff)
  ultimately show "snd (apply_delta prev ?d) = []"
    unfolding apply_delta_conflicts [OF wf_delta_diff [OF assms]]
    by (simp add: apply_conflicts_def filter_empty_conv)
  show "norm_state (fst (apply_delta prev ?d)) = norm_state nxt"
  proof (rule norm_state_eqI)
    show "norm_fields (header (fst (apply_delta prev ?d))) = norm_fields (header nxt)"
      unfolding norm_fields_eq_iff
    proof
      fix k
      show "get_or_empty (header (fst (apply_delta prev ?d))) k = get_or_empty (header nxt) k"
        by (auto simp: get_or_empty_def diffFields_lookup field_diff_def split: option.splits)
    qed
  next
    fix u
    show "map_option norm_object (fmlookup (objects (fst (apply_delta prev ?d))) u) =
        map_option norm_object (fmlookup (objects nxt) u)"
      unfolding apply_diff_object [OF assms]
      using assms(1,2)
      by (auto simp: Let_def norm_object_def modify_object_diff keyed_def fmpred_iff split: option.splits)
  qed simp
qed

text \<open>
  C31. Round trip of the differ: applying \<open>diff prev next\<close> to \<open>prev\<close> reports no conflict and
  yields \<open>next\<close>, up to fields whose value is empty (which the format treats as absent),
  for every order in which the two object tables are iterated.
\<close>

theorem diff_apply_roundtrip:
  assumes "keyed prev" "keyed nxt" and "enumerates op (objects prev)" "enumerates on (objects nxt)"
  shows "snd (apply_delta prev (diff op on prev nxt)) = []
    \<and> norm_state (fst (apply_delta prev (diff op on prev nxt))) = norm_state nxt"
  using apply_diff [OF assms] .

text \<open>A concrete instance for the witnesses: one object changed, one removed, one added.\<close>

definition level_a :: level_state where
  "level_a =
     \<lparr>rawHeader = ''raw'', header = fmap_of_list [(''kA1'', ''x''), (''kA2'', ''0'')],
      objects = fmap_of_list
        [(1, \<lparr>uuid = 1, obj_fields = fmap_of_list [(''1'', ''8''), (''2'', ''30'')]\<rparr>),
         (2, \<lparr>uuid = 2, obj_fields = fmap_of_list [(''1'', ''1'')]\<rparr>)]\<rparr>"

definition level_b :: level_state where
  "level_b =
     \<lparr>rawHeader = [], header = fmap_of_list [(''kA1'', ''y'')],
      objects = fmap_of_list
        [(1, \<lparr>uuid = 1, obj_fields = fmap_of_list [(''1'', ''8''), (''2'', ''60''), (''3'', ''5'')]\<rparr>),
         (9, \<lparr>uuid = 9, obj_fields = fmap_of_list [(''1'', ''7'')]\<rparr>)]\<rparr>"

lemma levels_keyed: "keyed level_a" "keyed level_b"
  by code_simp+

theorem diff_apply_roundtrip_witness:
  "norm_state (fst (apply_delta level_a
      (diff (sorted_keys (objects level_a)) (sorted_keys (objects level_b)) level_a level_b))) =
   norm_state level_b"
  using diff_apply_roundtrip [OF levels_keyed sorted_keys_enumerates sorted_keys_enumerates] by simp

text \<open>
  A clean application merges pointwise: applying \<open>diff prev next\<close> to any other state
  \<open>base\<close> of the same level, an object that both versions and the state have takes, field by
  field, the new value where the delta changed the field and the state still had the old
  value, and keeps its own value otherwise; the conflicts reported are exactly those listed
  by \<open>apply_conflicts\<close>.
\<close>

theorem apply_diff_pointwise:
  assumes "keyed prev" "keyed nxt" and "enumerates op (objects prev)" "enumerates on (objects nxt)"
    and "fmlookup (objects prev) u = Some x" "fmlookup (objects nxt) u = Some y"
    and "fmlookup (objects base) u = Some z"
  shows "snd (apply_delta base (diff op on prev nxt)) = apply_conflicts base (diff op on prev nxt) \<and>
    (\<exists>r. fmlookup (objects (fst (apply_delta base (diff op on prev nxt)))) u = Some r \<and> uuid r = uuid z \<and>
      (\<forall>k. get_or_empty (obj_fields r) k =
        (if get_or_empty (obj_fields x) k = get_or_empty (obj_fields y) k then get_or_empty (obj_fields z) k
         else if get_or_empty (obj_fields z) k = get_or_empty (obj_fields x) k then get_or_empty (obj_fields y) k
         else get_or_empty (obj_fields z) k)))"
proof
  let ?d = "diff op on prev nxt"
  let ?m = "\<lparr>m_uuid = u, m_fields = diffFields (obj_fields x) (obj_fields y)\<rparr>"
  show "snd (apply_delta base ?d) = apply_conflicts base ?d"
    by (rule apply_delta_conflicts [OF wf_delta_diff [OF assms(1-4)]])
  have m: "get_or_empty (obj_fields (modify_object ?m z)) k =
        (if get_or_empty (obj_fields x) k = get_or_empty (obj_fields y) k then get_or_empty (obj_fields z) k
         else if get_or_empty (obj_fields z) k = get_or_empty (obj_fields x) k then get_or_empty (obj_fields y) k
         else get_or_empty (obj_fields z) k)" for k
  proof (cases "fmlookup (diffFields (obj_fields x) (obj_fields y)) k")
    case None
    then have "fmlookup (obj_fields x) k = fmlookup (obj_fields y) k"
      by (simp add: diffFields_lookup field_diff_None)
    with None show ?thesis by (simp add: get_or_empty_def modify_object_fields)
  next
    case (Some c)
    then have "before c = get_or_empty (obj_fields x) k" "after c = get_or_empty (obj_fields y) k"
      using field_diff_Some [of "obj_fields x" k "obj_fields y" c] by (simp_all add: diffFields_lookup)
    with Some show ?thesis
      by (auto simp: get_or_empty_def [of "obj_fields (modify_object ?m z)"] modify_object_fields
          get_or_empty_def [of "obj_fields z"] split: option.splits)
  qed
  have "fmlookup (objects (fst (apply_delta base ?d))) u =
      (if obj_fields x = obj_fields y then Some z else Some (modify_object ?m z))"
    unfolding apply_diff_object [OF assms(1-4)] using assms(5-7) by (simp add: Let_def)
  with m show "\<exists>r. fmlookup (objects (fst (apply_delta base ?d))) u = Some r \<and> uuid r = uuid z \<and>
      (\<forall>k. get_or_empty (obj_fields r) k =
        (if get_or_empty (obj_fields x) k = get_or_empty (obj_fields y) k then get_or_empty (obj_fields z) k
         else if get_or_empty (obj_fields z) k = get_or_empty (obj_fields x) k then get_or_empty (obj_fields y) k
         else get_or_empty (obj_fields z) k))"
    by (cases "obj_fields x = obj_fields y") auto
qed

theorem apply_diff_pointwise_witness:
  "\<exists>r. fmlookup (objects (fst (apply_delta
        (level_a\<lparr>objects := fmupd 1 \<lparr>uuid = 1, obj_fields = fmap_of_list [(''1'', ''9''), (''2'', ''30'')]\<rparr> (objects level_a)\<rparr>)
        (diff (sorted_keys (objects level_a)) (sorted_keys (objects level_b)) level_a level_b)))) 1 = Some r
     \<and> get_or_empty (obj_fields r) ''1'' = ''9'' \<and> get_or_empty (obj_fields r) ''2'' = ''60''"
proof -
  let ?x = "\<lparr>uuid = 1, obj_fields = fmap_of_list [(''1'', ''8''), (''2'', ''30'')]\<rparr> :: lobject"
  let ?y = "\<lparr>uuid = 1, obj_fields = fmap_of_list [(''1'', ''8''), (''2'', ''60''), (''3'', ''5'')]\<rparr> :: lobject"
  let ?z = "\<lparr>uuid = 1, obj_fields = fmap_of_list [(''1'', ''9''), (''2'', ''30'')]\<rparr> :: lobject"
  have look: "fmlookup (objects level_a) 1 = Some ?x" "fmlookup (objects level_b) 1 = Some ?y"
    by (simp_all add: level_a_def level_b_def)
  have "fmlookup (objects (level_a\<lparr>objects := fmupd 1 ?z (objects level_a)\<rparr>)) 1 = Some ?z" by simp
  note r = apply_diff_pointwise [OF levels_keyed sorted_keys_enumerates sorted_keys_enumerates look this]
  then show ?thesis by (elim conjE exE) (auto simp: get_or_empty_def)
qed

section \<open>Empty values do not influence a delta's effect\<close>

definition same_table :: "object_table \<times> conflict list \<Rightarrow> object_table \<times> conflict list \<Rightarrow> bool" where
  "same_table s t \<longleftrightarrow> fmmap norm_object (fst s) = fmmap norm_object (fst t) \<and> snd s = snd t"

definition same_fields :: "fieldmap \<times> conflict list \<Rightarrow> fieldmap \<times> conflict list \<Rightarrow> bool" where
  "same_fields s t \<longleftrightarrow> norm_fields (fst s) = norm_fields (fst t) \<and> snd s = snd t"

lemma same_table_lookup:
  "fmmap norm_object a = fmmap norm_object b \<longleftrightarrow>
     (\<forall>u. map_option norm_object (fmlookup a u) = map_option norm_object (fmlookup b u))"
  by (metis fmap_ext fmlookup_map)

lemma same_table_None:
  "fmmap norm_object a = fmmap norm_object b \<Longrightarrow> fmlookup a u = None \<longleftrightarrow> fmlookup b u = None"
  by (metis fmlookup_map option.map_disc_iff)

lemma same_fields_header_step:
  "same_fields s t \<Longrightarrow> same_fields (apply_header_step kc s) (apply_header_step kc t)"
  by (cases kc; cases s; cases t) (simp add: same_fields_def norm_fields_eq_iff)

lemma same_fields_field_step:
  "same_fields s t \<Longrightarrow> same_fields (apply_field_step kc s) (apply_field_step kc t)"
  by (cases kc; cases s; cases t) (simp add: same_fields_def norm_fields_eq_iff)

lemma same_table_add: "same_table s t \<Longrightarrow> same_table (apply_add ob s) (apply_add ob t)"
  using same_table_None [of "fst s" "fst t"]
  by (cases s; cases t) (auto simp: same_table_def same_table_lookup)

lemma same_table_remove: "same_table s t \<Longrightarrow> same_table (apply_remove ob s) (apply_remove ob t)"
  using same_table_None [of "fst s" "fst t"]
  by (cases s; cases t) (auto simp: same_table_def same_table_lookup)

lemma same_table_modify:
  assumes "same_table s t"
  shows "same_table (apply_modify m s) (apply_modify m t)"
proof -
  obtain a o1 b o2 where st: "s = (a, o1)" "t = (b, o2)" by (cases s; cases t)
  with assms have tab: "\<forall>u. map_option norm_object (fmlookup a u) = map_option norm_object (fmlookup b u)"
    and o: "o1 = o2" by (simp_all add: same_table_def same_table_lookup)
  show ?thesis
  proof (cases "fmlookup a (m_uuid m)")
    case None
    then have "fmlookup b (m_uuid m) = None" using tab by (metis option.map_disc_iff)
    with None assms st o show ?thesis by (simp add: apply_modify_def same_table_def)
  next
    case (Some x)
    then obtain y where y: "fmlookup b (m_uuid m) = Some y" and xy: "norm_object y = norm_object x"
      using tab by (metis map_option_eq_Some)
    let ?f = "fold apply_field_step (sorted_list_of_fmap (m_fields m))"
    have "same_fields (obj_fields x, o1) (obj_fields y, o2)"
      using xy o by (simp add: same_fields_def) (metis norm_object_simps(2))
    then have f: "same_fields (?f (obj_fields x, o1)) (?f (obj_fields y, o2))"
      by (intro fold_related [where R = same_fields] same_fields_field_step)
    have "norm_object (x\<lparr>obj_fields := fst (?f (obj_fields x, o1))\<rparr>) =
        norm_object (y\<lparr>obj_fields := fst (?f (obj_fields y, o2))\<rparr>)"
      using f xy by (cases x; cases y) (simp add: same_fields_def norm_object_def)
    with Some y st f tab show ?thesis
      by (simp add: apply_modify_def split_beta same_table_def same_table_lookup same_fields_def)
  qed
qed

lemma apply_delta_norm_cong:
  assumes "norm_state a = norm_state b"
  shows "norm_state (fst (apply_delta a d)) = norm_state (fst (apply_delta b d))"
    and "snd (apply_delta a d) = snd (apply_delta b d)"
proof -
  from assms have raw: "rawHeader a = rawHeader b" and hdr: "norm_fields (header a) = norm_fields (header b)"
    and objs: "fmmap norm_object (objects a) = fmmap norm_object (objects b)"
    by (metis norm_state_simps)+
  define ha where "ha = fold apply_header_step (sorted_list_of_fmap (headerChanges d)) (header a, [])"
  define hb where "hb = fold apply_header_step (sorted_list_of_fmap (headerChanges d)) (header b, [])"
  have h: "same_fields ha hb" unfolding ha_def hb_def
    by (intro fold_related [where R = same_fields] same_fields_header_step)
      (simp_all add: same_fields_def hdr)
  define ra where "ra = apply_raw (rawHeaderChange d) (rawHeader a, snd ha)"
  define rb where "rb = apply_raw (rawHeaderChange d) (rawHeader b, snd hb)"
  have r: "ra = rb" using h raw by (simp add: ra_def rb_def same_fields_def)
  define sa where "sa = fold apply_modify (modifies d) (fold apply_remove (removes d) (fold apply_add (adds d) (objects a, snd ra)))"
  define sb where "sb = fold apply_modify (modifies d) (fold apply_remove (removes d) (fold apply_add (adds d) (objects b, snd rb)))"
  have "same_table sa sb" unfolding sa_def sb_def
    by (intro fold_related [where R = same_table] same_table_modify same_table_remove same_table_add)
      (simp_all add: same_table_def objs r)
  moreover have "apply_delta a d = (\<lparr>rawHeader = fst ra, header = fst ha, objects = fst sa\<rparr>, snd sa)"
    "apply_delta b d = (\<lparr>rawHeader = fst rb, header = fst hb, objects = fst sb\<rparr>, snd sb)"
    by (simp_all add: apply_delta_parts Let_def ha_def hb_def ra_def rb_def sa_def sb_def)
  ultimately show "norm_state (fst (apply_delta a d)) = norm_state (fst (apply_delta b d))"
    and "snd (apply_delta a d) = snd (apply_delta b d)"
    using h r by (simp_all add: norm_state_def same_table_def same_fields_def)
qed

text \<open>Applying keeps every object under its own identifier.\<close>

definition keyed_table :: "object_table \<Rightarrow> bool" where
  "keyed_table objs \<longleftrightarrow> fmpred (\<lambda>k ob. uuid ob = k) objs"

lemma keyed_table_steps:
  "keyed_table (fst s) \<Longrightarrow> keyed_table (fst (apply_add ob s))"
  "keyed_table (fst s) \<Longrightarrow> keyed_table (fst (apply_remove ob s))"
  "keyed_table (fst s) \<Longrightarrow> keyed_table (fst (apply_modify m s))"
  by (cases s; auto simp: keyed_table_def fmpred_iff apply_modify_fst split: option.splits if_splits)+

lemma keyed_apply_delta:
  assumes "keyed base"
  shows "keyed (fst (apply_delta base d))"
proof -
  have "keyed_table (fst (fold apply_modify ms (fold apply_remove rs (fold apply_add as s))))"
    if "keyed_table (fst s)" for ms rs as s
    by (intro fold_invariant [where P = "\<lambda>s. keyed_table (fst s)"] keyed_table_steps that)
  with assms show ?thesis
    by (simp add: apply_delta_parts Let_def keyed_def keyed_table_def)
qed

text \<open>Objects outside a delta keep their value, whatever the delta.\<close>

lemma apply_delta_frame:
  assumes "u \<notin> set (touched d)"
  shows "fmlookup (objects (fst (apply_delta base d))) u = fmlookup (objects base) u"
proof -
  define P where "P = (\<lambda>s :: object_table \<times> conflict list. fmlookup (fst s) u = fmlookup (objects base) u)"
  have "P (fold apply_modify (modifies d) (fold apply_remove (removes d) (fold apply_add (adds d) (objects base, c))))" for c
    by (intro fold_invariant [where P = P])
      (use assms in \<open>auto simp: P_def touched_def apply_modify_fst split: option.splits\<close>)
  then show ?thesis by (simp add: apply_delta_parts Let_def P_def)
qed

lemma keyed_empty [simp]: "keyed empty_state"
  by (simp add: keyed_def empty_state_def)

end
