(* ===== verification/Matcher.thy ===== *)
theory Matcher
  imports Coordinates Differ
begin

text \<open>
  \<open>src/identity/Matcher.cpp\<close>: giving the objects of a freshly parsed level the identifiers
  they had in the previous version, by an exact fingerprint first (first in, first out among
  equal fingerprints) and by the nearest object of the same type within 32 units otherwise;
  an object without a match gets a random identifier.  The generator is the list of the
  values it will produce; \<open>None\<close> means that the list was too short.
\<close>

section \<open>Fingerprints and cells\<close>

record fingerprint =
  fp_type :: string
  fp_rx :: int
  fp_ry :: int
  fp_rot :: string
  fp_groups :: string

record spatial_cell =
  cell_type :: string
  cell_cx :: int
  cell_cy :: int

definition fingerprintOf :: "(rat \<Rightarrow> int) \<Rightarrow> fieldmap \<Rightarrow> fingerprint" where
  "fingerprintOf oob f =
     \<lparr>fp_type = get_or_empty f kType,
      fp_rx = grid_round oob (parseDoubleOr f kX 0),
      fp_ry = grid_round oob (parseDoubleOr f kY 0),
      fp_rot = get_or_empty f kRotation,
      fp_groups = get_or_empty f kGroups\<rparr>"

definition spatialCellOf :: "(rat \<Rightarrow> int) \<Rightarrow> fieldmap \<Rightarrow> spatial_cell" where
  "spatialCellOf oob f =
     \<lparr>cell_type = get_or_empty f kType,
      cell_cx = cell_index oob (parseDoubleOr f kX 0),
      cell_cy = cell_index oob (parseDoubleOr f kY 0)\<rparr>"

section \<open>Random identifiers\<close>

text \<open>Zero is the placeholder of the parser: the loop draws until the value is not zero.\<close>

fun freshUuid :: "u64 list \<Rightarrow> (object_uuid \<times> u64 list) option" where
  "freshUuid [] = None"
| "freshUuid (v # draws) = (if v = 0 then freshUuid draws else Some (v, draws))"

fun assignFresh_loop :: "object_uuid list \<Rightarrow> object_table \<Rightarrow> u64 list \<Rightarrow> object_table \<Rightarrow>
    (object_table \<times> u64 list) option" where
  "assignFresh_loop [] objs draws rebuilt = Some (rebuilt, draws)"
| "assignFresh_loop (k # ks) objs draws rebuilt =
     (case freshUuid draws of
        None \<Rightarrow> None
      | Some (v, draws') \<Rightarrow>
          assignFresh_loop ks objs draws' (emplace v ((the (fmlookup objs k))\<lparr>uuid := v\<rparr>) rebuilt))"

definition assignFreshUuids :: "object_uuid list \<Rightarrow> level_state \<Rightarrow> u64 list \<Rightarrow> (level_state \<times> u64 list) option" where
  "assignFreshUuids ord st draws =
     (case assignFresh_loop ord (objects st) draws fmempty of
        None \<Rightarrow> None
      | Some (rebuilt, draws') \<Rightarrow> Some (st\<lparr>objects := rebuilt\<rparr>, draws'))"

section \<open>Matching\<close>

record assign_stats =
  fingerprintHits :: nat
  spatialFallbacks :: nat
  freshUuids :: nat

record matcher =
  buckets :: "(fingerprint, object_uuid list) fmap"
  claimed :: "object_uuid list"
  rebuilt :: object_table
  draws :: "u64 list"
  stats :: assign_stats

definition push_back :: "'k \<Rightarrow> 'v \<Rightarrow> ('k, 'v list) fmap \<Rightarrow> ('k, 'v list) fmap" where
  "push_back k v m = fmupd k (get_or_empty m k @ [v]) m"

definition build_buckets :: "(rat \<Rightarrow> int) \<Rightarrow> level_state \<Rightarrow> (fingerprint, object_uuid list) fmap" where
  "build_buckets oob prev =
     fold (\<lambda>u. push_back (fingerprintOf oob (obj_fields (the (fmlookup (objects prev) u)))) u)
       (sorted_keys (objects prev)) fmempty"

definition build_grid :: "(rat \<Rightarrow> int) \<Rightarrow> level_state \<Rightarrow> (spatial_cell, object_uuid list) fmap" where
  "build_grid oob prev =
     fold (\<lambda>u. push_back (spatialCellOf oob (obj_fields (the (fmlookup (objects prev) u)))) u)
       (sorted_keys (objects prev)) fmempty"

text \<open>Popping the front of a bucket until an unclaimed candidate; 0 when there is none.\<close>

fun take_unclaimed :: "object_uuid list \<Rightarrow> object_uuid list \<Rightarrow> object_uuid \<times> object_uuid list" where
  "take_unclaimed cl [] = (0, [])"
| "take_unclaimed cl (c # cs) = (if c \<notin> set cl then (c, cs) else take_unclaimed cl cs)"

definition match_fingerprint :: "(rat \<Rightarrow> int) \<Rightarrow> lobject \<Rightarrow> matcher \<Rightarrow> object_uuid \<times> matcher" where
  "match_fingerprint oob ob s =
     (let fp = fingerprintOf oob (obj_fields ob) in
      case fmlookup (buckets s) fp of
        None \<Rightarrow> (0, s)
      | Some q \<Rightarrow>
          (case take_unclaimed (claimed s) q of
             (m, rest) \<Rightarrow> (m, s\<lparr>buckets := fmupd fp rest (buckets s)\<rparr>)))"

definition closer :: "rat option \<Rightarrow> rat \<Rightarrow> bool" where
  "closer d2 best = (case d2 of None \<Rightarrow> False | Some d \<Rightarrow> d < best)"

definition nearest_step :: "level_state \<Rightarrow> object_uuid list \<Rightarrow> fieldmap \<Rightarrow> object_uuid \<Rightarrow>
    object_uuid \<times> rat \<Rightarrow> object_uuid \<times> rat" where
  "nearest_step prev cl flds cand s =
     (case s of (best, bestD2) \<Rightarrow>
        if cand \<in> set cl then (best, bestD2)
        else
          (let d2 = distanceSquared (obj_fields (the (fmlookup (objects prev) cand))) flds in
           if closer d2 bestD2 then (cand, the d2) else (best, bestD2)))"

definition probe_cells :: "spatial_cell \<Rightarrow> spatial_cell list" where
  "probe_cells c =
     concat (map (\<lambda>dx. map (\<lambda>dy. c\<lparr>cell_cx := cell_cx c + dx, cell_cy := cell_cy c + dy\<rparr>) [- 1, 0, 1]) [- 1, 0, 1])"

definition match_spatial :: "(rat \<Rightarrow> int) \<Rightarrow> level_state \<Rightarrow> (spatial_cell, object_uuid list) fmap \<Rightarrow>
    object_uuid list \<Rightarrow> fieldmap \<Rightarrow> object_uuid" where
  "match_spatial oob prev grid cl flds =
     fst (fold (nearest_step prev cl flds)
            (concat (map (get_or_empty grid) (probe_cells (spatialCellOf oob flds))))
            (0, kSpatialThreshold * kSpatialThreshold))"

definition claim :: "lobject \<Rightarrow> object_uuid \<Rightarrow> matcher \<Rightarrow> matcher" where
  "claim ob m s =
     s\<lparr>claimed := m # claimed s, rebuilt := emplace m (ob\<lparr>uuid := m\<rparr>) (rebuilt s)\<rparr>"

definition assign_step :: "(rat \<Rightarrow> int) \<Rightarrow> level_state \<Rightarrow> (spatial_cell, object_uuid list) fmap \<Rightarrow>
    lobject \<Rightarrow> matcher \<Rightarrow> matcher option" where
  "assign_step oob prev grid ob s0 =
     (case match_fingerprint oob ob s0 of (m1, s1) \<Rightarrow>
        if m1 \<noteq> 0 then
          Some (claim ob m1 (s1\<lparr>stats := (stats s1)\<lparr>fingerprintHits := fingerprintHits (stats s1) + 1\<rparr>\<rparr>))
        else
          (let m2 = match_spatial oob prev grid (claimed s1) (obj_fields ob) in
           if m2 \<noteq> 0 then
             Some (claim ob m2 (s1\<lparr>stats := (stats s1)\<lparr>spatialFallbacks := spatialFallbacks (stats s1) + 1\<rparr>\<rparr>))
           else
             (case freshUuid (draws s1) of
                None \<Rightarrow> None
              | Some (m3, ds) \<Rightarrow>
                  Some (claim ob m3 (s1\<lparr>draws := ds,
                    stats := (stats s1)\<lparr>freshUuids := freshUuids (stats s1) + 1\<rparr>\<rparr>)))))"

fun assign_loop :: "(rat \<Rightarrow> int) \<Rightarrow> level_state \<Rightarrow> (spatial_cell, object_uuid list) fmap \<Rightarrow>
    lobject list \<Rightarrow> matcher \<Rightarrow> matcher option" where
  "assign_loop oob prev grid [] s = Some s"
| "assign_loop oob prev grid (ob # obs) s =
     (case assign_step oob prev grid ob s of None \<Rightarrow> None | Some s' \<Rightarrow> assign_loop oob prev grid obs s')"

definition zero_stats :: assign_stats where
  "zero_stats = \<lparr>fingerprintHits = 0, spatialFallbacks = 0, freshUuids = 0\<rparr>"

text \<open>\<open>ord\<close> is the iteration order of the incoming table, used when there is no previous object.\<close>

definition assignUuids :: "(rat \<Rightarrow> int) \<Rightarrow> object_uuid list \<Rightarrow> level_state \<Rightarrow> level_state \<Rightarrow> u64 list \<Rightarrow>
    (level_state \<times> u64 list \<times> assign_stats) option" where
  "assignUuids oob ord prev incoming ds =
     (if objects prev = fmempty then
        (case assignFreshUuids ord incoming ds of
           None \<Rightarrow> None
         | Some (st, ds') \<Rightarrow> Some (st, ds', zero_stats\<lparr>freshUuids := length (sorted_keys (objects st))\<rparr>))
      else
        (case assign_loop oob prev (build_grid oob prev)
            (map (\<lambda>u. the (fmlookup (objects incoming) u)) (sorted_keys (objects incoming)))
            \<lparr>buckets = build_buckets oob prev, claimed = [], rebuilt = fmempty, draws = ds, stats = zero_stats\<rparr> of
           None \<Rightarrow> None
         | Some s \<Rightarrow> Some (incoming\<lparr>objects := rebuilt s\<rparr>, draws s, stats s)))"

section \<open>The contract of one step\<close>

definition prev_ids :: "level_state \<Rightarrow> object_uuid set" where
  "prev_ids prev = fmdom' (objects prev)"

definition fresh_draws :: "u64 list \<Rightarrow> object_uuid set \<Rightarrow> bool" where
  "fresh_draws ds used \<longleftrightarrow> distinct (filter (\<lambda>v. v \<noteq> 0) ds) \<and> (\<forall>v \<in> set ds. v \<noteq> 0 \<longrightarrow> v \<notin> used)"

lemma freshUuid_Some:
  assumes "freshUuid ds = Some (v, ds')"
  shows "v \<noteq> 0 \<and> v \<in> set ds \<and> set ds' \<subseteq> set ds
    \<and> filter (\<lambda>v. v \<noteq> 0) ds = v # filter (\<lambda>v. v \<noteq> 0) ds'"
  using assms by (induction ds rule: freshUuid.induct) (auto split: if_splits)

lemma freshUuid_total: "filter (\<lambda>v. v \<noteq> 0) ds \<noteq> [] \<Longrightarrow> \<exists>v ds'. freshUuid ds = Some (v, ds')"
  by (induction ds rule: freshUuid.induct) auto

lemma fresh_draws_step:
  assumes "freshUuid ds = Some (v, ds')" and "fresh_draws ds used"
  shows "v \<notin> used" and "fresh_draws ds' (insert v used)"
  using freshUuid_Some [OF assms(1)] assms(2) by (auto simp: fresh_draws_def)

lemma take_unclaimed_spec:
  assumes "take_unclaimed cl q = (m, rest)"
  shows "(m \<noteq> 0 \<longrightarrow> m \<in> set q \<and> m \<notin> set cl) \<and> set rest \<subseteq> set q"
  using assms by (induction cl q rule: take_unclaimed.induct) (auto split: if_splits)

lemma nearest_fold_spec:
  "fst (fold (nearest_step prev cl flds) cands (b, d)) = b
   \<or> fst (fold (nearest_step prev cl flds) cands (b, d)) \<in> set cands - set cl"
proof (induction cands arbitrary: b d)
  case (Cons c cands)
  obtain b' d' where s: "nearest_step prev cl flds c (b, d) = (b', d')" by fastforce
  then have "b' = b \<or> b' = c \<and> c \<notin> set cl"
    by (auto simp: nearest_step_def Let_def split: if_splits)
  with Cons.IH [of b' d'] show ?case by (auto simp: s)
qed simp

lemma push_back_get: "get_or_empty (push_back k v m) k' = (if k = k' then get_or_empty m k @ [v] else get_or_empty m k')"
  by (simp add: push_back_def)

lemma push_back_fold:
  "get_or_empty (fold (\<lambda>u. push_back (f u) u) us m) k = get_or_empty m k @ filter (\<lambda>u. f u = k) us"
  by (induction us arbitrary: m) (auto simp: push_back_get)

lemma build_buckets_get:
  "get_or_empty (build_buckets oob prev) fp =
     filter (\<lambda>u. fingerprintOf oob (obj_fields (the (fmlookup (objects prev) u))) = fp) (sorted_keys (objects prev))"
  by (simp add: build_buckets_def push_back_fold)

lemma build_grid_get: "set (get_or_empty (build_grid oob prev) c) \<subseteq> prev_ids prev"
  by (auto simp: build_grid_def push_back_fold prev_ids_def)

lemma match_spatial_spec:
  assumes "match_spatial oob prev (build_grid oob prev) cl flds \<noteq> 0"
  shows "match_spatial oob prev (build_grid oob prev) cl flds \<in> prev_ids prev - set cl"
  using assms build_grid_get nearest_fold_spec [of prev cl flds
      "concat (map (get_or_empty (build_grid oob prev)) (probe_cells (spatialCellOf oob flds)))"
      0 "kSpatialThreshold * kSpatialThreshold"]
  by (auto simp: match_spatial_def)

definition total_stats :: "assign_stats \<Rightarrow> nat" where
  "total_stats st = fingerprintHits st + spatialFallbacks st + freshUuids st"

definition matcher_inv :: "level_state \<Rightarrow> matcher \<Rightarrow> bool" where
  "matcher_inv prev s \<longleftrightarrow>
     distinct (claimed s) \<and> 0 \<notin> set (claimed s) \<and> fmdom' (rebuilt s) = set (claimed s) \<and>
     (\<forall>fp. set (get_or_empty (buckets s) fp) \<subseteq> prev_ids prev) \<and>
     fresh_draws (draws s) (prev_ids prev \<union> set (claimed s))"

definition claims_one :: "level_state \<Rightarrow> lobject \<Rightarrow> matcher \<Rightarrow> matcher \<Rightarrow> bool" where
  "claims_one prev ob s s' \<longleftrightarrow>
     (\<exists>m. m \<noteq> 0 \<and> m \<notin> set (claimed s) \<and> claimed s' = m # claimed s \<and>
       rebuilt s' = fmupd m (ob\<lparr>uuid := m\<rparr>) (rebuilt s) \<and>
       (m \<in> prev_ids prev \<or> m \<in> set (draws s))) \<and>
     total_stats (stats s') = total_stats (stats s) + 1 \<and> set (draws s') \<subseteq> set (draws s) \<and>
     length (filter (\<lambda>v. v \<noteq> 0) (draws s)) \<le> Suc (length (filter (\<lambda>v. v \<noteq> 0) (draws s')))"

lemma claim_spec:
  assumes "matcher_inv prev s" and "m \<noteq> 0" "m \<notin> set (claimed s)" and "fresh_draws (draws s) (insert m (prev_ids prev \<union> set (claimed s)))"
  shows "matcher_inv prev (claim ob m s)"
    and "claimed (claim ob m s) = m # claimed s"
    and "rebuilt (claim ob m s) = fmupd m (ob\<lparr>uuid := m\<rparr>) (rebuilt s)"
proof -
  have "fmlookup (rebuilt s) m = None"
    using assms(1,3) by (auto simp: matcher_inv_def fmlookup_dom'_iff)
  then have e: "emplace m x (rebuilt s) = fmupd m x (rebuilt s)" for x by (simp add: emplace_def)
  show "claimed (claim ob m s) = m # claimed s"
    and "rebuilt (claim ob m s) = fmupd m (ob\<lparr>uuid := m\<rparr>) (rebuilt s)"
    by (simp_all add: claim_def e)
  show "matcher_inv prev (claim ob m s)"
    using assms by (auto simp: matcher_inv_def claim_def e insert_commute)
qed

lemma fresh_draws_mono: "fresh_draws ds used \<Longrightarrow> used' \<subseteq> used \<Longrightarrow> fresh_draws ds used'"
  by (auto simp: fresh_draws_def)

lemma match_fingerprint_spec:
  assumes "match_fingerprint oob ob s = (m, s')" and "matcher_inv prev s"
  shows "matcher_inv prev s' \<and> claimed s' = claimed s \<and> rebuilt s' = rebuilt s \<and> draws s' = draws s \<and> stats s' = stats s
    \<and> (m \<noteq> 0 \<longrightarrow> m \<in> prev_ids prev \<and> m \<notin> set (claimed s))"
proof (cases "fmlookup (buckets s) (fingerprintOf oob (obj_fields ob))")
  case None
  with assms show ?thesis by (auto simp: match_fingerprint_def)
next
  case (Some q)
  obtain m' rest where t: "take_unclaimed (claimed s) q = (m', rest)" by fastforce
  have "set q \<subseteq> prev_ids prev"
    using assms(2) Some get_or_empty_def [of "buckets s" "fingerprintOf oob (obj_fields ob)"]
    unfolding matcher_inv_def by (metis option.simps(5))
  moreover have s': "s' = s\<lparr>buckets := fmupd (fingerprintOf oob (obj_fields ob)) rest (buckets s)\<rparr>" "m' = m"
    using assms(1) Some t by (auto simp: match_fingerprint_def)
  moreover have "\<forall>fp. set (get_or_empty (buckets s) fp) \<subseteq> prev_ids prev"
    using assms(2) by (simp add: matcher_inv_def)
  ultimately have "\<forall>fp. set (get_or_empty (buckets s') fp) \<subseteq> prev_ids prev"
    and "m \<noteq> 0 \<longrightarrow> m \<in> prev_ids prev \<and> m \<notin> set (claimed s)"
    using take_unclaimed_spec [OF t] by (simp_all, blast+)
  with assms(2) s' show ?thesis by (simp add: matcher_inv_def)
qed

lemma assign_step_spec:
  assumes "assign_step oob prev (build_grid oob prev) ob s = Some s'" and "matcher_inv prev s"
  shows "matcher_inv prev s' \<and> claims_one prev ob s s'"
proof -
  obtain m1 s1 where fp: "match_fingerprint oob ob s = (m1, s1)" by fastforce
  note f = match_fingerprint_spec [OF fp assms(2)]
  have fd: "fresh_draws (draws s) (prev_ids prev \<union> set (claimed s))"
    using assms(2) by (simp add: matcher_inv_def)
  have old: ?thesis if s': "s' = claim ob m (s1\<lparr>stats := st\<rparr>)" and m: "m \<noteq> 0" "m \<in> prev_ids prev" "m \<notin> set (claimed s)"
    and st: "total_stats st = total_stats (stats s) + 1" for m st
  proof -
    have "matcher_inv prev s1" using f by blast
    then have "matcher_inv prev (s1\<lparr>stats := st\<rparr>)" by (simp add: matcher_inv_def)
    moreover have "fresh_draws (draws s) (insert m (prev_ids prev \<union> set (claimed s)))"
      using fd m(2) by (simp add: insert_absorb)
    ultimately show ?thesis
      using claim_spec [of prev "s1\<lparr>stats := st\<rparr>" m ob] m f st
      by (auto simp: s' claims_one_def) (simp_all add: claim_def)
  qed
  show ?thesis
  proof (cases "m1 \<noteq> 0")
    case True
    with assms(1) fp have "s' = claim ob m1 (s1\<lparr>stats := (stats s1)\<lparr>fingerprintHits := fingerprintHits (stats s1) + 1\<rparr>\<rparr>)"
      by (simp add: assign_step_def)
    with True f show ?thesis by (intro old) (auto simp: total_stats_def)
  next
    case m1: False
    let ?m2 = "match_spatial oob prev (build_grid oob prev) (claimed s1) (obj_fields ob)"
    show ?thesis
    proof (cases "?m2 \<noteq> 0")
      case True
      with m1 assms(1) fp have "s' = claim ob ?m2 (s1\<lparr>stats := (stats s1)\<lparr>spatialFallbacks := spatialFallbacks (stats s1) + 1\<rparr>\<rparr>)"
        by (simp add: assign_step_def)
      with True f match_spatial_spec [OF True] show ?thesis by (intro old) (auto simp: total_stats_def)
    next
      case False
      then obtain v ds where v: "freshUuid (draws s) = Some (v, ds)"
        and s': "s' = claim ob v (s1\<lparr>draws := ds, stats := (stats s1)\<lparr>freshUuids := freshUuids (stats s1) + 1\<rparr>\<rparr>)"
        using m1 assms(1) fp f by (auto simp: assign_step_def split: option.splits)
      let ?s2 = "s1\<lparr>draws := ds, stats := (stats s1)\<lparr>freshUuids := freshUuids (stats s1) + 1\<rparr>\<rparr>"
      note fr = fresh_draws_step [OF v fd] freshUuid_Some [OF v]
      have "matcher_inv prev ?s2"
        using f fr(2) by (auto simp: matcher_inv_def intro: fresh_draws_mono)
      then have "matcher_inv prev s'" "claimed s' = v # claimed s" "rebuilt s' = fmupd v (ob\<lparr>uuid := v\<rparr>) (rebuilt s)"
        using claim_spec [of prev ?s2 v ob] fr f by (auto simp: s')
      with fr show ?thesis by (auto simp: claims_one_def s' claim_def total_stats_def f)
    qed
  qed
qed

lemma assign_step_total:
  assumes "filter (\<lambda>v. v \<noteq> 0) (draws s) \<noteq> []" and "matcher_inv prev s"
  shows "\<exists>s'. assign_step oob prev grid ob s = Some s'"
proof -
  obtain m1 s1 where fp: "match_fingerprint oob ob s = (m1, s1)" by fastforce
  note f = match_fingerprint_spec [OF fp assms(2)]
  obtain v ds where "freshUuid (draws s1) = Some (v, ds)" using freshUuid_total assms(1) f by metis
  then show ?thesis by (simp add: assign_step_def fp Let_def)
qed

section \<open>The whole loop\<close>

text \<open>The result files the object \<open>obs ! i\<close> under the identifier \<open>ids ! i\<close>.\<close>

definition files :: "object_uuid list \<Rightarrow> lobject list \<Rightarrow> object_table \<Rightarrow> bool" where
  "files ids obs tab \<longleftrightarrow>
     length ids = length obs \<and> distinct ids \<and> 0 \<notin> set ids \<and> fmdom' tab = set ids \<and>
     (\<forall>(i, ob) \<in> set (zip ids obs). fmlookup tab i = Some (ob\<lparr>uuid := i\<rparr>))"

lemma files_snoc:
  assumes "files ids obs tab" and "i \<noteq> 0" "i \<notin> set ids"
  shows "files (ids @ [i]) (obs @ [ob]) (fmupd i (ob\<lparr>uuid := i\<rparr>) tab)"
  using assms by (auto simp: files_def dest: set_zip_leftD)

lemma assign_loop_files:
  assumes "assign_loop oob prev (build_grid oob prev) obs s = Some s'"
    and "matcher_inv prev s" and "files (rev (claimed s)) done (rebuilt s)"
  shows "matcher_inv prev s' \<and> files (rev (claimed s')) (done @ obs) (rebuilt s')
    \<and> set (claimed s') \<subseteq> set (claimed s) \<union> prev_ids prev \<union> set (draws s)
    \<and> total_stats (stats s') = total_stats (stats s) + length obs"
  using assms
proof (induction obs arbitrary: s "done")
  case (Cons ob obs)
  then obtain s1 where s1: "assign_step oob prev (build_grid oob prev) ob s = Some s1"
    and loop: "assign_loop oob prev (build_grid oob prev) obs s1 = Some s'"
    by (auto split: option.splits)
  from assign_step_spec [OF s1 Cons.prems(2)] obtain m where
    m: "m \<noteq> 0" "m \<notin> set (claimed s)" "claimed s1 = m # claimed s"
      "rebuilt s1 = fmupd m (ob\<lparr>uuid := m\<rparr>) (rebuilt s)" "m \<in> prev_ids prev \<or> m \<in> set (draws s)"
    and inv: "matcher_inv prev s1" "set (draws s1) \<subseteq> set (draws s)"
      "total_stats (stats s1) = total_stats (stats s) + 1"
    by (auto simp: claims_one_def)
  have "files (rev (claimed s1)) (done @ [ob]) (rebuilt s1)"
    using files_snoc [OF Cons.prems(3) m(1)] m by simp
  with Cons.IH [OF loop inv(1) this] m inv(2,3) show ?case by auto
qed auto

lemma assign_loop_total:
  assumes "length obs \<le> length (filter (\<lambda>v. v \<noteq> 0) (draws s))" and "matcher_inv prev s"
  shows "\<exists>s'. assign_loop oob prev (build_grid oob prev) obs s = Some s'"
  using assms
proof (induction obs arbitrary: s)
  case (Cons ob obs)
  then have "filter (\<lambda>v. v \<noteq> 0) (draws s) \<noteq> []" by auto
  then obtain s1 where s1: "assign_step oob prev (build_grid oob prev) ob s = Some s1"
    using assign_step_total Cons.prems(2) by blast
  with assign_step_spec [OF s1 Cons.prems(2)] Cons show ?case by (auto simp: claims_one_def)
qed simp

lemma assignFresh_loop_files:
  assumes "assignFresh_loop ks objs ds tab = Some (tab', ds')"
    and "files ids done tab" and "fresh_draws ds (set ids)"
  shows "\<exists>ids'. files (ids @ ids') (done @ map (\<lambda>k. the (fmlookup objs k)) ks) tab' \<and> set ids' \<subseteq> set ds"
  using assms
proof (induction ks objs ds tab arbitrary: ids "done" rule: assignFresh_loop.induct)
  case (2 k ks objs ds tab)
  then obtain v ds1 where v: "freshUuid ds = Some (v, ds1)"
    and loop: "assignFresh_loop ks objs ds1 (emplace v ((the (fmlookup objs k))\<lparr>uuid := v\<rparr>) tab) = Some (tab', ds')"
    by (auto split: option.splits)
  note fr = fresh_draws_step [OF v "2.prems"(3)] freshUuid_Some [OF v]
  then have e: "emplace v x tab = fmupd v x tab" for x
    using "2.prems"(2) by (auto simp: emplace_def files_def fmlookup_dom'_iff split: option.split)
  let ?ob = "the (fmlookup objs k)"
  have "files (ids @ [v]) (done @ [?ob]) (emplace v (?ob\<lparr>uuid := v\<rparr>) tab)"
    unfolding e using "2.prems"(2) fr by (intro files_snoc) auto
  from "2.IH" [OF v refl loop this] fr obtain ids' where
    "files ((ids @ [v]) @ ids') ((done @ [?ob]) @ map (\<lambda>k. the (fmlookup objs k)) ks) tab'" "set ids' \<subseteq> set ds1"
    by auto
  with fr show ?case by (intro exI [of _ "v # ids'"]) auto
next
  case (1 objs ds tab)
  then show ?case by (intro exI [of _ "[]"]) simp
qed

lemma assignFresh_loop_total:
  "length ks \<le> length (filter (\<lambda>v. v \<noteq> 0) ds) \<Longrightarrow> \<exists>r. assignFresh_loop ks objs ds tab = Some r"
proof (induction ks objs ds tab rule: assignFresh_loop.induct)
  case (2 k ks objs ds tab)
  then have "filter (\<lambda>v. v \<noteq> 0) ds \<noteq> []" by auto
  then obtain v ds1 where v: "freshUuid ds = Some (v, ds1)" using freshUuid_total by blast
  with 2 freshUuid_Some [OF v] show ?case by auto
qed simp

lemma length_enumerates: "enumerates ks m \<Longrightarrow> length ks = length (sorted_keys m)"
  by (metis distinct_card enumerates_def sorted_keys_enumerates)

lemma files_length: "files ids obs tab \<Longrightarrow> length (sorted_keys tab) = length obs"
  using length_enumerates [of ids tab] by (simp add: files_def enumerates_def)

text \<open>The assignment as a renaming of the keys of the incoming table.\<close>

definition renames :: "(object_uuid \<Rightarrow> object_uuid) \<Rightarrow> object_table \<Rightarrow> object_table \<Rightarrow> bool" where
  "renames f tab tab' \<longleftrightarrow>
     inj_on f (fmdom' tab) \<and> fmdom' tab' = f ` fmdom' tab \<and>
     (\<forall>u ob. fmlookup tab u = Some ob \<longrightarrow> f u \<noteq> 0 \<and> fmlookup tab' (f u) = Some (ob\<lparr>uuid := f u\<rparr>))"

lemma files_renames:
  assumes "files ids (map (\<lambda>k. the (fmlookup tab k)) ks) tab'" and "enumerates ks tab"
  shows "\<exists>f. renames f tab tab' \<and> (\<forall>u \<in> fmdom' tab. f u \<in> set ids)"
proof (intro exI conjI)
  let ?f = "\<lambda>u. the (map_of (zip ks ids) u)"
  have len: "length ids = length ks" and d: "distinct ks" "distinct ids" "set ks = fmdom' tab"
    and dom: "fmdom' tab' = set ids" and nz: "0 \<notin> set ids"
    and look: "\<forall>(i, ob) \<in> set (zip ids (map (\<lambda>k. the (fmlookup tab k)) ks)). fmlookup tab' i = Some (ob\<lparr>uuid := i\<rparr>)"
    using assms by (auto simp: files_def enumerates_def)
  have f: "?f (ks ! i) = ids ! i" if "i < length ks" for i
    using that len d(1) by (simp add: map_of_zip_nth)
  have ks: "u \<in> fmdom' tab \<Longrightarrow> \<exists>i < length ks. u = ks ! i" for u
    using d(3) by (metis in_set_conv_nth)
  have inj: "inj_on ?f (fmdom' tab)"
  proof (rule inj_onI)
    fix u v assume "u \<in> fmdom' tab" "v \<in> fmdom' tab" and eq: "?f u = ?f v"
    then obtain i j where ij: "i < length ks" "j < length ks" "u = ks ! i" "v = ks ! j" using ks by blast
    with eq f have "ids ! i = ids ! j" by simp
    with ij len d(2) show "u = v" by (simp add: nth_eq_iff_index_eq)
  qed
  have "?f ` set ks = set ids"
  proof -
    have "map ?f ks = ids" by (rule nth_equalityI) (use len f in auto)
    then show ?thesis by (metis set_map)
  qed
  then have img: "fmdom' tab' = ?f ` fmdom' tab" using d(3) dom by simp
  have "?f u \<noteq> 0 \<and> fmlookup tab' (?f u) = Some (ob\<lparr>uuid := ?f u\<rparr>)" if u: "fmlookup tab u = Some ob" for u ob
  proof -
    obtain i where i: "i < length ks" "u = ks ! i" using ks u by (auto simp: fmlookup_dom'_iff)
    then have "(ids ! i, ob) \<in> set (zip ids (map (\<lambda>k. the (fmlookup tab k)) ks))"
      using len u by (auto simp: in_set_zip intro!: exI [of _ i])
    with look have "fmlookup tab' (ids ! i) = Some (ob\<lparr>uuid := ids ! i\<rparr>)" by auto
    moreover have "ids ! i \<noteq> 0" using nz i len by (metis nth_mem)
    ultimately show ?thesis using f [OF i(1)] i(2) by simp
  qed
  with inj img show "renames ?f tab tab'" by (simp add: renames_def)
  show "\<forall>u \<in> fmdom' tab. ?f u \<in> set ids" using img dom by blast
qed

lemma initial_matcher_inv:
  "fresh_draws ds (prev_ids prev) \<Longrightarrow>
     matcher_inv prev \<lparr>buckets = build_buckets oob prev, claimed = [], rebuilt = fmempty, draws = ds, stats = zero_stats\<rparr>"
  by (auto simp: matcher_inv_def build_buckets_get prev_ids_def)

text \<open>Whenever an assignment returns, the objects are the incoming ones under new names.\<close>

lemma assignFresh_renames:
  assumes "assignFreshUuids ord incoming ds = Some (st, ds')" and "enumerates ord (objects incoming)" and "fresh_draws ds {}"
  shows "\<exists>f. renames f (objects incoming) (objects st) \<and> (\<forall>u \<in> fmdom' (objects incoming). f u \<in> set ds)
    \<and> header st = header incoming \<and> rawHeader st = rawHeader incoming
    \<and> length (sorted_keys (objects st)) = length (sorted_keys (objects incoming))"
proof -
  from assms(1) obtain tab where r: "assignFresh_loop ord (objects incoming) ds fmempty = Some (tab, ds')"
    and st: "st = incoming\<lparr>objects := tab\<rparr>" by (auto simp: assignFreshUuids_def split: option.splits prod.splits)
  have "files [] [] (fmempty :: object_table)" by (simp add: files_def)
  from assignFresh_loop_files [OF r this] assms(3) obtain ids where
    ids: "files ids (map (\<lambda>k. the (fmlookup (objects incoming) k)) ord) tab" "set ids \<subseteq> set ds" by auto
  obtain f where f: "renames f (objects incoming) tab" "\<forall>u \<in> fmdom' (objects incoming). f u \<in> set ids"
    using files_renames [OF ids(1) assms(2)] by blast
  moreover have "length (sorted_keys tab) = length (sorted_keys (objects incoming))"
    using files_length [OF ids(1)] length_enumerates [OF assms(2)] by simp
  ultimately show ?thesis using ids(2) st by (intro exI [of _ f]) auto
qed

lemma assignUuids_renames:
  assumes "assignUuids oob ord prev incoming ds = Some (st, ds', sts)"
    and "enumerates ord (objects incoming)" and "fresh_draws ds (prev_ids prev)"
  shows "\<exists>f. renames f (objects incoming) (objects st)
    \<and> (\<forall>u \<in> fmdom' (objects incoming). f u \<in> prev_ids prev \<union> set ds)
    \<and> header st = header incoming \<and> rawHeader st = rawHeader incoming
    \<and> total_stats sts = length (sorted_keys (objects incoming))"
proof (cases "objects prev = fmempty")
  case True
  with assms(1) have r: "assignFreshUuids ord incoming ds = Some (st, ds')"
    and sts: "sts = zero_stats\<lparr>freshUuids := length (sorted_keys (objects st))\<rparr>"
    by (auto simp: assignUuids_def split: option.splits)
  have "fresh_draws ds {}" using assms(3) by (simp add: fresh_draws_def)
  from assignFresh_renames [OF r assms(2) this] sts show ?thesis by (auto simp: total_stats_def zero_stats_def)
next
  case False
  let ?s0 = "\<lparr>buckets = build_buckets oob prev, claimed = [], rebuilt = fmempty, draws = ds, stats = zero_stats\<rparr>"
  let ?obs = "map (\<lambda>u. the (fmlookup (objects incoming) u)) (sorted_keys (objects incoming))"
  have inv: "matcher_inv prev ?s0" using assms(3) by (rule initial_matcher_inv)
  from assms(1) False obtain s where s: "assign_loop oob prev (build_grid oob prev) ?obs ?s0 = Some s"
    and st: "st = incoming\<lparr>objects := rebuilt s\<rparr>" "sts = stats s"
    by (auto simp: assignUuids_def split: option.splits)
  have "files (rev (claimed ?s0)) [] (rebuilt ?s0)" by (simp add: files_def)
  note l = assign_loop_files [OF s inv this]
  then obtain f where f: "renames f (objects incoming) (rebuilt s)"
    "\<forall>u \<in> fmdom' (objects incoming). f u \<in> set (claimed s)"
    using files_renames [of "rev (claimed s)" "objects incoming" "sorted_keys (objects incoming)" "rebuilt s"] by auto
  have "set (claimed s) \<subseteq> prev_ids prev \<union> set ds" "total_stats (stats s) = length (sorted_keys (objects incoming))"
    using l by (simp_all add: total_stats_def zero_stats_def)
  with f st show ?thesis by (intro exI [of _ f]) auto
qed

section \<open>Properties\<close>

text \<open>
  C26. Giving identifiers never loses, duplicates or alters an object: with a generator whose
  non-zero values are new and enough of them, the assignment returns, the objects of the
  result are exactly the incoming ones filed under pairwise different non-zero identifiers,
  each identifier is one of the previous version or one drawn, the header is untouched, and
  the three counters sum to the number of objects.
\<close>

theorem assignUuids_spec:
  assumes "enumerates ord (objects incoming)" and "fresh_draws ds (prev_ids prev)"
    and "length (sorted_keys (objects incoming)) \<le> length (filter (\<lambda>v. v \<noteq> 0) ds)"
  shows "\<exists>st ds' sts f. assignUuids oob ord prev incoming ds = Some (st, ds', sts)
    \<and> renames f (objects incoming) (objects st)
    \<and> (\<forall>u \<in> fmdom' (objects incoming). f u \<in> prev_ids prev \<union> set ds)
    \<and> header st = header incoming \<and> rawHeader st = rawHeader incoming
    \<and> total_stats sts = length (sorted_keys (objects incoming))"
proof -
  let ?s0 = "\<lparr>buckets = build_buckets oob prev, claimed = [], rebuilt = fmempty, draws = ds, stats = zero_stats\<rparr>"
  have "\<exists>st ds' sts. assignUuids oob ord prev incoming ds = Some (st, ds', sts)"
  proof (cases "objects prev = fmempty")
    case True
    obtain tab ds' where "assignFresh_loop ord (objects incoming) ds fmempty = Some (tab, ds')"
      using assignFresh_loop_total [of ord ds "objects incoming" fmempty] assms(3) length_enumerates [OF assms(1)]
      by fastforce
    with True show ?thesis by (simp add: assignUuids_def assignFreshUuids_def)
  next
    case False
    obtain s where "assign_loop oob prev (build_grid oob prev)
        (map (\<lambda>u. the (fmlookup (objects incoming) u)) (sorted_keys (objects incoming))) ?s0 = Some s"
      using assign_loop_total [OF _ initial_matcher_inv [OF assms(2), of oob],
          of "map (\<lambda>u. the (fmlookup (objects incoming) u)) (sorted_keys (objects incoming))" oob] assms(3) by auto
    with False show ?thesis by (simp add: assignUuids_def)
  qed
  then obtain st ds' sts where "assignUuids oob ord prev incoming ds = Some (st, ds', sts)" by blast
  with assignUuids_renames [OF this assms(1,2)] show ?thesis by blast
qed

theorem assignUuids_spec_witness:
  "\<exists>st ds' sts f. assignUuids (\<lambda>_. 0) [9, 1] level_a level_b [0, 77, 5] = Some (st, ds', sts)
    \<and> renames f (objects level_b) (objects st)
    \<and> (\<forall>u \<in> fmdom' (objects level_b). f u \<in> prev_ids level_a \<union> set [0, 77, 5])
    \<and> header st = header level_b \<and> rawHeader st = rawHeader level_b
    \<and> total_stats sts = length (sorted_keys (objects level_b))"
proof (rule assignUuids_spec)
  have "fmdom' (objects level_b) = {1, 9}" by (auto simp: level_b_def fmlookup_dom'_iff split: if_splits)
  then show "enumerates [9, 1] (objects level_b)" by (auto simp: enumerates_def)
  have "fmdom' (objects level_a) = {1, 2}" by (auto simp: level_a_def fmlookup_dom'_iff split: if_splits)
  then show "fresh_draws [0, 77, 5] (prev_ids level_a)" by (auto simp: fresh_draws_def prev_ids_def)
  show "length (sorted_keys (objects level_b)) \<le> length (filter (\<lambda>v. v \<noteq> 0) [0, 77, 5 :: u64])" by code_simp
qed

text \<open>The identity case: objects that did not change are matched in order, one by one.\<close>

lemma assign_loop_identity:
  assumes "list_all2 (\<lambda>u ob. obj_fields ob = obj_fields (the (fmlookup (objects prev) u))) us obs"
    and "distinct us" and "0 \<notin> set us" and "set us \<inter> set (claimed s) = {}"
    and "\<And>fp. get_or_empty (buckets s) fp =
      filter (\<lambda>u. fingerprintOf oob (obj_fields (the (fmlookup (objects prev) u))) = fp) us"
    and "fmdom' (rebuilt s) \<inter> set us = {}"
  shows "\<exists>s'. assign_loop oob prev grid obs s = Some s' \<and> draws s' = draws s
    \<and> rebuilt s' = fold (\<lambda>(u, ob) tab. fmupd u (ob\<lparr>uuid := u\<rparr>) tab) (zip us obs) (rebuilt s)
    \<and> fingerprintHits (stats s') = fingerprintHits (stats s) + length us
    \<and> spatialFallbacks (stats s') = spatialFallbacks (stats s) \<and> freshUuids (stats s') = freshUuids (stats s)"
  using assms
proof (induction us obs arbitrary: s rule: list_all2_induct)
  case Nil
  then show ?case by simp
next
  case (Cons u us ob obs)
  let ?fp = "\<lambda>u. fingerprintOf oob (obj_fields (the (fmlookup (objects prev) u)))"
  let ?rest = "filter (\<lambda>v. ?fp v = ?fp u) us"
  have fp: "fingerprintOf oob (obj_fields ob) = ?fp u" using Cons.hyps by simp
  have "get_or_empty (buckets s) (?fp u) = u # ?rest" using Cons.prems(4) by simp
  then have "fmlookup (buckets s) (?fp u) = Some (u # ?rest)"
    by (auto simp: get_or_empty_def split: option.splits)
  moreover have "u \<notin> set (claimed s)" "u \<noteq> 0" using Cons.prems by auto
  ultimately have m: "match_fingerprint oob ob s = (u, s\<lparr>buckets := fmupd (?fp u) ?rest (buckets s)\<rparr>)"
    by (simp add: match_fingerprint_def Let_def fp)
  define s1 where "s1 = claim ob u (s\<lparr>buckets := fmupd (?fp u) ?rest (buckets s),
      stats := (stats s)\<lparr>fingerprintHits := fingerprintHits (stats s) + 1\<rparr>\<rparr>)"
  have step: "assign_step oob prev grid ob s = Some s1"
    using \<open>u \<noteq> 0\<close> by (simp add: assign_step_def m s1_def)
  have "fmlookup (rebuilt s) u = None" using Cons.prems(5) by (auto simp: fmlookup_dom'_iff)
  then have e: "emplace u x (rebuilt s) = fmupd u x (rebuilt s)" for x by (simp add: emplace_def)
  have "\<exists>s'. assign_loop oob prev grid obs s1 = Some s' \<and> draws s' = draws s1
    \<and> rebuilt s' = fold (\<lambda>(u, ob) tab. fmupd u (ob\<lparr>uuid := u\<rparr>) tab) (zip us obs) (rebuilt s1)
    \<and> fingerprintHits (stats s') = fingerprintHits (stats s1) + length us
    \<and> spatialFallbacks (stats s') = spatialFallbacks (stats s1) \<and> freshUuids (stats s') = freshUuids (stats s1)"
  proof (rule Cons.IH)
    show "get_or_empty (buckets s1) fp = filter (\<lambda>v. ?fp v = fp) us" for fp
      using Cons.prems(4) [of fp] by (auto simp: s1_def claim_def)
    show "fmdom' (rebuilt s1) \<inter> set us = {}" using Cons.prems by (auto simp: s1_def claim_def e)
  qed (use Cons.prems in \<open>auto simp: s1_def claim_def\<close>)
  then show ?case by (auto simp: step s1_def claim_def e)
qed

lemma fold_zip_upd_lookup:
  "distinct us \<Longrightarrow> length us = length obs \<Longrightarrow>
     fmlookup (fold (\<lambda>(u, ob) tab. fmupd u (f u ob) tab) (zip us obs) tab) x =
       (case map_of (zip us obs) x of None \<Rightarrow> fmlookup tab x | Some ob \<Rightarrow> Some (f x ob))"
proof (induction us arbitrary: obs tab)
  case (Cons u us)
  then obtain ob obs' where o: "obs = ob # obs'" by (cases obs) auto
  with Cons.prems have none: "map_of (zip us obs') u = None" by (simp add: map_of_zip_is_None)
  have "fmlookup (fold (\<lambda>(u, ob) tab. fmupd u (f u ob) tab) (zip us obs') (fmupd u (f u ob) tab)) x =
      (case map_of (zip us obs') x of None \<Rightarrow> fmlookup (fmupd u (f u ob) tab) x | Some ob \<Rightarrow> Some (f x ob))"
    using Cons o by simp
  then show ?case by (cases "x = u") (simp_all add: o none split: option.split)
qed simp

lemma rebuild_identity:
  assumes "keyed prev" and "list_all2 (\<lambda>u ob. obj_fields ob = obj_fields (the (fmlookup (objects prev) u)))
      (sorted_keys (objects prev)) obs"
  shows "fold (\<lambda>(u, ob) tab. fmupd u (ob\<lparr>uuid := u\<rparr>) tab) (zip (sorted_keys (objects prev)) obs) fmempty = objects prev"
proof (rule fmap_ext)
  fix x
  let ?us = "sorted_keys (objects prev)"
  have len: "length ?us = length obs" using assms(2) by (rule list_all2_lengthD)
  note look = fold_zip_upd_lookup [OF distinct_sorted_keys len, where f = "\<lambda>u ob. ob\<lparr>uuid := u\<rparr>" and tab = fmempty]
  show "fmlookup (fold (\<lambda>(u, ob) tab. fmupd u (ob\<lparr>uuid := u\<rparr>) tab) (zip ?us obs) fmempty) x = fmlookup (objects prev) x"
  proof (cases "x \<in> set ?us")
    case False
    then show ?thesis
      using look [of x] map_of_zip_is_None [OF len, of x] by (simp add: fmdom'_notD split: option.split)
  next
    case True
    then obtain ob where ob: "map_of (zip ?us obs) x = Some ob"
      using len by (metis map_of_zip_is_Some)
    then have "(x, ob) \<in> set (zip ?us obs)" by (rule map_of_SomeD)
    with assms(2) have f: "obj_fields ob = obj_fields (the (fmlookup (objects prev) x))"
      by (auto simp: list_all2_iff)
    obtain y where y: "fmlookup (objects prev) x = Some y" using True by (auto simp: fmlookup_dom'_iff)
    with assms(1) have "uuid y = x" by (auto simp: keyed_def fmpred_iff)
    then have "ob\<lparr>uuid := x\<rparr> = y" using f y by (cases ob; cases y) simp
    with ob y show ?thesis using look [of x] by simp
  qed
qed

lemma assignUuids_identity:
  assumes "keyed prev" and "fmlookup (objects prev) 0 = None" and "objects prev \<noteq> fmempty"
    and "object_texts incoming = object_texts prev"
  shows "assignUuids oob ord prev incoming ds =
     Some (incoming\<lparr>objects := objects prev\<rparr>, ds, zero_stats\<lparr>fingerprintHits := length (sorted_keys (objects prev))\<rparr>)"
proof -
  let ?us = "sorted_keys (objects prev)"
  let ?obs = "map (\<lambda>u. the (fmlookup (objects incoming) u)) (sorted_keys (objects incoming))"
  let ?s0 = "\<lparr>buckets = build_buckets oob prev, claimed = [], rebuilt = fmempty, draws = ds, stats = zero_stats\<rparr>"
  have "map obj_fields ?obs = map (\<lambda>u. obj_fields (the (fmlookup (objects prev) u))) ?us"
    using assms(4) by (simp add: comp_def)
  then have l: "list_all2 (\<lambda>u ob. obj_fields ob = obj_fields (the (fmlookup (objects prev) u))) ?us ?obs"
    by (auto simp: list_all2_conv_all_nth list_eq_iff_nth_eq)
  have "0 \<notin> set ?us" using assms(2) by (simp add: fmlookup_dom'_iff)
  then obtain s where s: "assign_loop oob prev (build_grid oob prev) ?obs ?s0 = Some s" "draws s = ds"
    "rebuilt s = fold (\<lambda>(u, ob) tab. fmupd u (ob\<lparr>uuid := u\<rparr>) tab) (zip ?us ?obs) fmempty"
    "fingerprintHits (stats s) = length ?us" "spatialFallbacks (stats s) = 0" "freshUuids (stats s) = 0"
    using assign_loop_identity [OF l, of ?s0 oob "build_grid oob prev"]
    by (auto simp: build_buckets_get zero_stats_def)
  have "stats s = zero_stats\<lparr>fingerprintHits := length ?us\<rparr>"
    using s(4-6) by (cases "stats s") (simp add: zero_stats_def)
  then show ?thesis
    using assms(3) s rebuild_identity [OF assms(1) l] by (simp add: assignUuids_def)
qed

text \<open>
  An unchanged level keeps its identity: when the incoming objects have, in file order,
  the same data as the previous ones, every object gets its old identifier back, by the
  fingerprint alone and without drawing a number.
\<close>

theorem unchanged_level_keeps_uuids:
  assumes "keyed prev" and "fmlookup (objects prev) 0 = None" and "objects prev \<noteq> fmempty"
    and "object_texts incoming = object_texts prev"
  shows "assignUuids oob ord prev incoming ds =
     Some (incoming\<lparr>objects := objects prev\<rparr>, ds, zero_stats\<lparr>fingerprintHits := length (sorted_keys (objects prev))\<rparr>)"
  by (rule assignUuids_identity [OF assms])

theorem unchanged_level_keeps_uuids_witness:
  "assignUuids (\<lambda>_. 0) [] sample_level (parseLevelString (serializeLevelString sample_level)) [4] =
     Some (sample_level, [4], zero_stats\<lparr>fingerprintHits := 2\<rparr>)"
proof -
  let ?inc = "parseLevelString (serializeLevelString sample_level)"
  have "keyed sample_level" "fmlookup (objects sample_level) 0 = None" "objects sample_level \<noteq> fmempty"
    by code_simp+
  moreover have "object_texts ?inc = object_texts sample_level" by code_simp
  ultimately have "assignUuids (\<lambda>_. 0) [] sample_level ?inc [4] =
     Some (?inc\<lparr>objects := objects sample_level\<rparr>, [4], zero_stats\<lparr>fingerprintHits := length (sorted_keys (objects sample_level))\<rparr>)"
    by (rule unchanged_level_keeps_uuids)
  moreover have "?inc\<lparr>objects := objects sample_level\<rparr> = sample_level" by code_simp
  moreover have "length (sorted_keys (objects sample_level)) = 2" by code_simp
  ultimately show ?thesis by simp
qed

text \<open>
  C27. Committing a level that was only printed and parsed again produces no object change:
  the delta between the previous version and the reparsed, re-identified one has no added,
  removed or modified object.
\<close>

theorem reparse_commit_has_no_object_change:
  assumes "keyed prev" and "fmlookup (objects prev) 0 = None" and "objects prev \<noteq> fmempty"
    and "clean_objects prev" and "clean_header prev" and "enumerates op (objects prev)"
  shows "\<exists>st sts. assignUuids oob ord prev (parseLevelString (serializeLevelString prev)) ds = Some (st, ds, sts)
    \<and> adds (diff op op prev st) = [] \<and> removes (diff op op prev st) = [] \<and> modifies (diff op op prev st) = []
    \<and> serializeLevelString st = serializeLevelString prev"
proof -
  let ?inc = "parseLevelString (serializeLevelString prev)"
  let ?st = "?inc\<lparr>objects := objects prev\<rparr>"
  note t = reparse_objects(2) [OF assms(4,5)]
  have "assignUuids oob ord prev ?inc ds =
     Some (?st, ds, zero_stats\<lparr>fingerprintHits := length (sorted_keys (objects prev))\<rparr>)"
    by (rule assignUuids_identity [OF assms(1-3) t])
  moreover have look: "u \<in> set op \<Longrightarrow> \<exists>ob. fmlookup (objects prev) u = Some ob" for u
    using assms(6) by (auto simp: enumerates_def fmlookup_dom'_iff)
  have "adds (diff op op prev ?st) = []" "removes (diff op op prev ?st) = []" "modifies (diff op op prev ?st) = []"
    using look by (fastforce simp: filter_empty_conv)+
  moreover have "(if rawHeader ?inc \<noteq> [] then rawHeader ?inc else serializeFields (header ?inc)) =
      (if rawHeader prev \<noteq> [] then rawHeader prev else serializeFields (header prev))"
    using serialize_header_parse [of "serializeLevelString prev"] splitView_serialize_clean [OF assms(4,5)]
    unfolding Let_def by (simp only: list.sel)
  then have "serializeLevelString ?st = serializeLevelString prev"
    by (intro serialize_cong) (simp_all cong: if_cong split del: if_split)
  ultimately show ?thesis by blast
qed

theorem reparse_commit_has_no_object_change_witness:
  "\<exists>st sts. assignUuids (\<lambda>_. 0) [] sample_level (parseLevelString (serializeLevelString sample_level)) [] = Some (st, [], sts)
    \<and> adds (diff [7, 3] [7, 3] sample_level st) = [] \<and> removes (diff [7, 3] [7, 3] sample_level st) = []
    \<and> modifies (diff [7, 3] [7, 3] sample_level st) = []
    \<and> serializeLevelString st = serializeLevelString sample_level"
proof (rule reparse_commit_has_no_object_change [OF _ _ _ sample_level_clean])
  show "keyed sample_level" "fmlookup (objects sample_level) 0 = None" "objects sample_level \<noteq> fmempty"
    by code_simp+
  have "fmdom' (objects sample_level) = {3, 7}" by (auto simp: sample_level_def fmlookup_dom'_iff split: if_splits)
  then show "enumerates [7, 3] (objects sample_level)" by (auto simp: enumerates_def)
qed

end
