(* ===== verification/Delta_Json.thy ===== *)
theory Delta_Json
  imports Differ
begin

text \<open>
  \<open>src/diff/Delta.cpp\<close>: the JSON form of a delta.  The JSON library (matjson) is not part of
  the repository: its values and operations are a record that every function takes, and
  \<open>json_ok\<close> is what the program relies on.  The order in which the hash table of an
  object's fields is written is the argument \<open>fo\<close>.
\<close>

section \<open>The JSON library\<close>

record 'j json_ops =
  js_object :: "(string \<times> 'j) list \<Rightarrow> 'j"
  js_array :: "'j list \<Rightarrow> 'j"
  js_string :: "string \<Rightarrow> 'j"
  js_entries :: "'j \<Rightarrow> (string \<times> 'j) list option"
  js_elements :: "'j \<Rightarrow> 'j list option"
  js_text :: "'j \<Rightarrow> string option"
  js_dump :: "'j \<Rightarrow> string"
  js_parse :: "string \<Rightarrow> 'j option"

text \<open>An object keeps its entries, an array its elements, a string its text, and printing
  without indentation is undone by parsing.\<close>

definition json_ok :: "'j json_ops \<Rightarrow> bool" where
  "json_ok j \<longleftrightarrow>
     (\<forall>es. distinct (map fst es) \<longrightarrow> js_entries j (js_object j es) = Some es) \<and>
     (\<forall>vs. js_elements j (js_array j vs) = Some vs) \<and>
     (\<forall>s. js_text j (js_string j s) = Some s) \<and>
     (\<forall>v. js_parse j (js_dump j v) = Some v)"

text \<open>\<open>value.get(key)\<close>: the member of an object.\<close>

definition js_get :: "'j json_ops \<Rightarrow> string \<Rightarrow> 'j \<Rightarrow> 'j option" where
  "js_get j key v = Option.bind (js_entries j v) (\<lambda>es. map_of es key)"

definition js_get_text :: "'j json_ops \<Rightarrow> string \<Rightarrow> 'j \<Rightarrow> string option" where
  "js_get_text j key v = Option.bind (js_get j key v) (js_text j)"

fun traverse :: "('a \<Rightarrow> 'b option) \<Rightarrow> 'a list \<Rightarrow> 'b list option" where
  "traverse f [] = Some []"
| "traverse f (x # xs) =
     (case f x of None \<Rightarrow> None | Some y \<Rightarrow> (case traverse f xs of None \<Rightarrow> None | Some ys \<Rightarrow> Some (y # ys)))"

definition enumerates_fields :: "(fieldmap \<Rightarrow> string list) \<Rightarrow> bool" where
  "enumerates_fields fo \<longleftrightarrow> (\<forall>m. enumerates (fo m) m)"

section \<open>Writing\<close>

definition change_to_json :: "'j json_ops \<Rightarrow> field_change \<Rightarrow> 'j" where
  "change_to_json j c = js_object j [(''b'', js_string j (before c)), (''a'', js_string j (after c))]"

definition changes_to_json :: "'j json_ops \<Rightarrow> (string, field_change) fmap \<Rightarrow> 'j" where
  "changes_to_json j m = js_object j (map (\<lambda>(k, c). (k, change_to_json j c)) (sorted_list_of_fmap m))"

definition fields_to_json :: "'j json_ops \<Rightarrow> (fieldmap \<Rightarrow> string list) \<Rightarrow> fieldmap \<Rightarrow> 'j" where
  "fields_to_json j fo m = js_object j (map (\<lambda>k. (k, js_string j (the (fmlookup m k)))) (fo m))"

definition object_to_json :: "'j json_ops \<Rightarrow> (fieldmap \<Rightarrow> string list) \<Rightarrow> lobject \<Rightarrow> 'j" where
  "object_to_json j fo ob =
     js_object j [(''uuid'', js_string j (nat_to_string (unat (uuid ob)))),
                  (''fields'', fields_to_json j fo (obj_fields ob))]"

definition modify_to_json :: "'j json_ops \<Rightarrow> modify \<Rightarrow> 'j" where
  "modify_to_json j m =
     js_object j [(''uuid'', js_string j (nat_to_string (unat (m_uuid m)))),
                  (''fields'', changes_to_json j (m_fields m))]"

definition delta_to_json :: "'j json_ops \<Rightarrow> (fieldmap \<Rightarrow> string list) \<Rightarrow> delta \<Rightarrow> 'j" where
  "delta_to_json j fo d =
     js_object j
       ([(''h'', changes_to_json j (headerChanges d))] @
        (case rawHeaderChange d of None \<Rightarrow> [] | Some c \<Rightarrow> [(''hr'', change_to_json j c)]) @
        [(''+'', js_array j (map (object_to_json j fo) (adds d))),
         (''-'', js_array j (map (object_to_json j fo) (removes d))),
         (''~'', js_array j (map (modify_to_json j) (modifies d)))])"

definition dumpDelta :: "'j json_ops \<Rightarrow> (fieldmap \<Rightarrow> string list) \<Rightarrow> delta \<Rightarrow> string" where
  "dumpDelta j fo d = js_dump j (delta_to_json j fo d)"

section \<open>Reading\<close>

definition change_from_json :: "'j json_ops \<Rightarrow> 'j \<Rightarrow> field_change option" where
  "change_from_json j v =
     Some \<lparr>before = (case js_get_text j ''b'' v of None \<Rightarrow> [] | Some s \<Rightarrow> s),
           after = (case js_get_text j ''a'' v of None \<Rightarrow> [] | Some s \<Rightarrow> s)\<rparr>"

text \<open>A \<open>std::map\<close> is read from an object, entry by entry.\<close>

definition changes_from_json :: "'j json_ops \<Rightarrow> 'j \<Rightarrow> (string, field_change) fmap option" where
  "changes_from_json j v =
     Option.bind (js_entries j v) (\<lambda>es.
       map_option fmap_of_list
         (traverse (\<lambda>(k, w). map_option (Pair k) (change_from_json j w)) es))"

definition fieldMapFromJson :: "'j json_ops \<Rightarrow> 'j \<Rightarrow> fieldmap" where
  "fieldMapFromJson j v =
     (case js_entries j v of
        None \<Rightarrow> fmempty
      | Some es \<Rightarrow>
          fold (\<lambda>(k, w) out. case js_text j w of None \<Rightarrow> out | Some s \<Rightarrow> emplace k s out) es fmempty)"

definition read_uuid :: "'j json_ops \<Rightarrow> 'j \<Rightarrow> object_uuid" where
  "read_uuid j v =
     (case js_get_text j ''uuid'' v of
        None \<Rightarrow> 0
      | Some s \<Rightarrow> (case parseUInt64Full s of None \<Rightarrow> 0 | Some u \<Rightarrow> u))"

definition object_from_json :: "'j json_ops \<Rightarrow> 'j \<Rightarrow> lobject option" where
  "object_from_json j v =
     Some \<lparr>uuid = read_uuid j v,
           obj_fields = (case js_get j ''fields'' v of None \<Rightarrow> fmempty | Some f \<Rightarrow> fieldMapFromJson j f)\<rparr>"

definition modify_from_json :: "'j json_ops \<Rightarrow> 'j \<Rightarrow> modify option" where
  "modify_from_json j v =
     Some \<lparr>m_uuid = read_uuid j v,
           m_fields = (case Option.bind (js_get j ''fields'' v) (changes_from_json j) of
              None \<Rightarrow> fmempty | Some m \<Rightarrow> m)\<rparr>"

definition list_from_json :: "'j json_ops \<Rightarrow> ('j \<Rightarrow> 'a option) \<Rightarrow> string \<Rightarrow> 'j \<Rightarrow> 'a list" where
  "list_from_json j f key v =
     (case Option.bind (js_get j key v) (\<lambda>a. Option.bind (js_elements j a) (traverse f)) of
        None \<Rightarrow> [] | Some xs \<Rightarrow> xs)"

definition delta_from_json :: "'j json_ops \<Rightarrow> 'j \<Rightarrow> delta option" where
  "delta_from_json j v =
     (if js_entries j v = None then None
      else Some
        \<lparr>headerChanges = (case Option.bind (js_get j ''h'' v) (changes_from_json j) of
            None \<Rightarrow> fmempty | Some m \<Rightarrow> m),
         rawHeaderChange = Option.bind (js_get j ''hr'' v) (change_from_json j),
         adds = list_from_json j (object_from_json j) ''+'' v,
         removes = list_from_json j (object_from_json j) ''-'' v,
         modifies = list_from_json j (modify_from_json j) ''~'' v\<rparr>)"

definition parseDelta :: "'j json_ops \<Rightarrow> string \<Rightarrow> delta option" where
  "parseDelta j blob = Option.bind (js_parse j blob) (delta_from_json j)"

section \<open>Round trip\<close>

lemma json_simps:
  assumes "json_ok j"
  shows "distinct (map fst es) \<Longrightarrow> js_entries j (js_object j es) = Some es"
    and "js_elements j (js_array j vs) = Some vs"
    and "js_text j (js_string j s) = Some s"
    and "js_parse j (js_dump j v) = Some v"
  using assms by (simp_all add: json_ok_def)

lemma traverse_map: "(\<And>x. x \<in> set xs \<Longrightarrow> f (g x) = Some (h x)) \<Longrightarrow> traverse f (map g xs) = Some (map h xs)"
  by (induction xs) auto

lemma change_roundtrip: "json_ok j \<Longrightarrow> change_from_json j (change_to_json j c) = Some c"
  by (simp add: change_from_json_def change_to_json_def js_get_text_def js_get_def json_simps)

lemma changes_roundtrip: "json_ok j \<Longrightarrow> changes_from_json j (changes_to_json j m) = Some m"
proof -
  assume j: "json_ok j"
  let ?f = "\<lambda>(k, c). (k, change_to_json j c)"
  have keys: "map fst (map ?f (sorted_list_of_fmap m)) = sorted_keys m"
    by (simp add: comp_def split_beta flip: map_fst_sorted_list_of_fmap)
  have "traverse (\<lambda>(k, w). map_option (Pair k) (change_from_json j w)) (map ?f (sorted_list_of_fmap m))
      = Some (map (\<lambda>kc. kc) (sorted_list_of_fmap m))"
    by (rule traverse_map) (auto simp: change_roundtrip [OF j])
  moreover have "js_entries j (changes_to_json j m) = Some (map ?f (sorted_list_of_fmap m))"
    unfolding changes_to_json_def by (rule json_simps(1) [OF j]) (simp only: keys distinct_sorted_keys)
  ultimately show ?thesis by (simp add: changes_from_json_def)
qed

lemma emplace_fold_lookup:
  assumes "distinct ks"
  shows "fmlookup (fold (\<lambda>k. emplace k (f k)) ks m0) x =
     (if x \<in> set ks then (case fmlookup m0 x of None \<Rightarrow> Some (f x) | Some y \<Rightarrow> Some y) else fmlookup m0 x)"
  by (rule fold_lookup_distinct [OF _ _ assms, where g = "\<lambda>k r. case r of None \<Rightarrow> Some (f k) | Some y \<Rightarrow> Some y"])
    (simp_all split: option.split)

lemma fields_roundtrip:
  assumes "json_ok j" and "enumerates_fields fo"
  shows "fieldMapFromJson j (fields_to_json j fo m) = m"
proof (rule fmap_ext)
  fix x
  have e: "distinct (fo m)" "set (fo m) = fmdom' m"
    using assms(2) by (auto simp: enumerates_fields_def enumerates_def)
  have "js_entries j (fields_to_json j fo m) = Some (map (\<lambda>k. (k, js_string j (the (fmlookup m k)))) (fo m))"
    unfolding fields_to_json_def by (rule json_simps(1) [OF assms(1)]) (simp add: comp_def e(1))
  then have "fieldMapFromJson j (fields_to_json j fo m) = fold (\<lambda>k out. emplace k (the (fmlookup m k)) out) (fo m) fmempty"
    by (simp add: fieldMapFromJson_def fold_map comp_def json_simps(3) [OF assms(1)])
  then have "fmlookup (fieldMapFromJson j (fields_to_json j fo m)) x =
      (if x \<in> fmdom' m then Some (the (fmlookup m x)) else None)"
    using emplace_fold_lookup [OF e(1), of "\<lambda>k. the (fmlookup m k)" fmempty x] e(2) by simp
  then show "fmlookup (fieldMapFromJson j (fields_to_json j fo m)) x = fmlookup m x"
    by (cases "fmlookup m x") (simp_all add: fmlookup_dom'_iff)
qed

lemma object_roundtrip:
  "json_ok j \<Longrightarrow> enumerates_fields fo \<Longrightarrow> object_from_json j (object_to_json j fo ob) = Some ob"
  by (simp add: object_from_json_def object_to_json_def read_uuid_def js_get_text_def js_get_def json_simps fields_roundtrip)

lemma modify_roundtrip: "json_ok j \<Longrightarrow> modify_from_json j (modify_to_json j m) = Some m"
  by (simp add: modify_from_json_def modify_to_json_def read_uuid_def js_get_text_def js_get_def json_simps changes_roundtrip)

lemma list_roundtrip:
  "json_ok j \<Longrightarrow> js_get j key v = Some (js_array j (map g xs)) \<Longrightarrow> (\<And>x. f (g x) = Some x) \<Longrightarrow>
     list_from_json j f key v = xs"
  using traverse_map [of xs f g "\<lambda>x. x"] by (simp add: list_from_json_def json_simps)

lemma parse_dump_delta:
  assumes "json_ok j" and "enumerates_fields fo"
  shows "parseDelta j (dumpDelta j fo d) = Some d"
proof -
  let ?v = "delta_to_json j fo d"
  let ?es = "[(''h'', changes_to_json j (headerChanges d))] @
        (case rawHeaderChange d of None \<Rightarrow> [] | Some c \<Rightarrow> [(''hr'', change_to_json j c)]) @
        [(''+'', js_array j (map (object_to_json j fo) (adds d))),
         (''-'', js_array j (map (object_to_json j fo) (removes d))),
         (''~'', js_array j (map (modify_to_json j) (modifies d)))]"
  have es: "js_entries j ?v = Some ?es"
    unfolding delta_to_json_def by (rule json_simps(1) [OF assms(1)]) (simp split: option.split)
  have get: "js_get j k ?v = map_of ?es k" for k
    by (simp add: js_get_def es)
  have "js_get j ''h'' ?v = Some (changes_to_json j (headerChanges d))"
    "js_get j ''hr'' ?v = map_option (change_to_json j) (rawHeaderChange d)"
    "js_get j ''+'' ?v = Some (js_array j (map (object_to_json j fo) (adds d)))"
    "js_get j ''-'' ?v = Some (js_array j (map (object_to_json j fo) (removes d)))"
    "js_get j ''~'' ?v = Some (js_array j (map (modify_to_json j) (modifies d)))"
    by (simp_all add: get map_add_def split: option.split)
  note g = this
  have "Option.bind (map_option (change_to_json j) (rawHeaderChange d)) (change_from_json j) = rawHeaderChange d"
    by (cases "rawHeaderChange d") (simp_all add: change_roundtrip [OF assms(1)])
  moreover have "list_from_json j (object_from_json j) ''+'' ?v = adds d"
    "list_from_json j (object_from_json j) ''-'' ?v = removes d"
    "list_from_json j (modify_from_json j) ''~'' ?v = modifies d"
    by (rule list_roundtrip [OF assms(1)], rule g, simp add: object_roundtrip [OF assms] modify_roundtrip [OF assms(1)])+
  ultimately have "delta_from_json j ?v = Some d"
    by (simp add: delta_from_json_def es g(1,2) changes_roundtrip [OF assms(1)])
  then show ?thesis by (simp add: parseDelta_def dumpDelta_def json_simps(4) [OF assms(1)])
qed

section \<open>A concrete library\<close>

text \<open>A small value type with a printer and a parser that satisfies the contract: objects,
  arrays and strings in a prefix notation.\<close>

datatype jv = JObj "(string \<times> jv) list" | JArr "jv list" | JStr string

fun enc_str :: "string \<Rightarrow> string" where
  "enc_str [] = ''.''"
| "enc_str (c # cs) = ''c'' @ c # enc_str cs"

fun dec_str :: "string \<Rightarrow> (string \<times> string) option" where
  "dec_str [] = None"
| "dec_str (t # r) =
     (if t = CHR ''.'' then Some ([], r)
      else
        (case r of
           [] \<Rightarrow> None
         | c # r' \<Rightarrow> (case dec_str r' of None \<Rightarrow> None | Some (s, rest) \<Rightarrow> Some (c # s, rest))))"

fun jv_enc :: "jv \<Rightarrow> string" and enc_items :: "jv list \<Rightarrow> string" and enc_members :: "(string \<times> jv) list \<Rightarrow> string" where
  "jv_enc (JStr s) = ''s'' @ enc_str s"
| "jv_enc (JArr vs) = ''a'' @ enc_items vs"
| "jv_enc (JObj es) = ''o'' @ enc_members es"
| "enc_items [] = ''.''"
| "enc_items (v # vs) = '','' @ jv_enc v @ enc_items vs"
| "enc_members [] = ''.''"
| "enc_members ((k, v) # es) = '','' @ enc_str k @ jv_enc v @ enc_members es"

fun jv_dec :: "nat \<Rightarrow> string \<Rightarrow> (jv \<times> string) option"
  and dec_items :: "nat \<Rightarrow> string \<Rightarrow> (jv list \<times> string) option"
  and dec_members :: "nat \<Rightarrow> string \<Rightarrow> ((string \<times> jv) list \<times> string) option" where
  "jv_dec 0 s = None"
| "jv_dec (Suc n) s =
     (case s of
        [] \<Rightarrow> None
      | t # r \<Rightarrow>
          if t = CHR ''s'' then (case dec_str r of None \<Rightarrow> None | Some (x, rest) \<Rightarrow> Some (JStr x, rest))
          else if t = CHR ''a'' then (case dec_items n r of None \<Rightarrow> None | Some (x, rest) \<Rightarrow> Some (JArr x, rest))
          else (case dec_members n r of None \<Rightarrow> None | Some (x, rest) \<Rightarrow> Some (JObj x, rest)))"
| "dec_items 0 s = None"
| "dec_items (Suc n) s =
     (case s of
        [] \<Rightarrow> None
      | t # r \<Rightarrow>
          if t = CHR ''.'' then Some ([], r)
          else
            (case jv_dec n r of
               None \<Rightarrow> None
             | Some (v, r1) \<Rightarrow> (case dec_items n r1 of None \<Rightarrow> None | Some (vs, r2) \<Rightarrow> Some (v # vs, r2))))"
| "dec_members 0 s = None"
| "dec_members (Suc n) s =
     (case s of
        [] \<Rightarrow> None
      | t # r \<Rightarrow>
          if t = CHR ''.'' then Some ([], r)
          else
            (case dec_str r of
               None \<Rightarrow> None
             | Some (k, r0) \<Rightarrow>
                 (case jv_dec n r0 of
                    None \<Rightarrow> None
                  | Some (v, r1) \<Rightarrow>
                      (case dec_members n r1 of None \<Rightarrow> None | Some (es, r2) \<Rightarrow> Some ((k, v) # es, r2)))))"

definition jv_json :: "jv json_ops" where
  "jv_json =
     \<lparr>js_object = JObj, js_array = JArr, js_string = JStr,
      js_entries = (\<lambda>v. case v of JObj es \<Rightarrow> Some es | _ \<Rightarrow> None),
      js_elements = (\<lambda>v. case v of JArr vs \<Rightarrow> Some vs | _ \<Rightarrow> None),
      js_text = (\<lambda>v. case v of JStr s \<Rightarrow> Some s | _ \<Rightarrow> None),
      js_dump = jv_enc,
      js_parse = (\<lambda>s. case jv_dec (length s) s of Some (v, []) \<Rightarrow> Some v | _ \<Rightarrow> None)\<rparr>"

lemma dec_enc_str [simp]: "dec_str (enc_str s @ r) = Some (s, r)"
  by (induction s) auto

lemma enc_str_nonempty [simp]: "enc_str s \<noteq> []"
  by (cases s) auto

lemma jv_enc_pos: "0 < length (jv_enc v)"
  by (cases v) auto

lemma dec_enc:
  "length (jv_enc v) \<le> n \<Longrightarrow> jv_dec n (jv_enc v @ r) = Some (v, r)"
  "length (enc_items vs) \<le> n \<Longrightarrow> dec_items n (enc_items vs @ r) = Some (vs, r)"
  "length (enc_members es) \<le> n \<Longrightarrow> dec_members n (enc_members es @ r) = Some (es, r)"
proof (induction v and vs and es arbitrary: n r and n r and n r rule: jv_enc_enc_items_enc_members.induct)
  case (1 s)
  then show ?case by (cases n) auto
next
  case (2 vs)
  then show ?case by (cases n) auto
next
  case (3 es)
  then show ?case by (cases n) auto
next
  case 4
  then show ?case by (cases n) auto
next
  case (5 v vs)
  then show ?case by (cases n) auto
next
  case 6
  then show ?case by (cases n) auto
next
  case (7 k v es)
  then show ?case by (cases n) auto
qed

lemma jv_json_ok: "json_ok jv_json"
  using dec_enc(1) [of _ _ "[]"] by (simp add: json_ok_def jv_json_def)

lemma sorted_keys_fields: "enumerates_fields sorted_keys"
  by (simp add: enumerates_fields_def)

text \<open>
  C39. A delta survives its JSON form: \<open>parseDelta\<close> of \<open>dumpDelta\<close> is the same delta, for any
  order in which the field tables are written.
\<close>

theorem delta_json_roundtrip:
  assumes "json_ok j" and "enumerates_fields fo"
  shows "parseDelta j (dumpDelta j fo d) = Some d"
  by (rule parse_dump_delta [OF assms])

theorem delta_json_roundtrip_witness:
  "parseDelta jv_json (dumpDelta jv_json sorted_keys (diff [1, 2] [1, 9] level_a level_b)) =
     Some (diff [1, 2] [1, 9] level_a level_b)"
  by (rule delta_json_roundtrip [OF jv_json_ok sorted_keys_fields])

end
