(* ===== verification/Git_Service.thy ===== *)
theory Git_Service
  imports History_Copy Matcher Delta_Json
begin

text \<open>
  \<open>src/service/GitService.cpp\<close>: reconstructing the state of a commit from its chain of
  deltas through a bounded cache, and the operations commit, checkout, revert, squash and
  import of a level, each in its prepare and finalize halves.  \<open>None\<close> as the outcome of an
  operation means that it does not return: the walk over a cyclic chain of parents, or the
  random generator giving nothing but the reserved value zero.
\<close>

section \<open>The service\<close>

text \<open>What the code gets from outside: zlib, the JSON library, the iteration orders of the
  hash tables and the result of the out-of-range float conversion.\<close>

record 'j service_env =
  e_zlib :: zlib
  e_json :: "'j json_ops"
  e_fields :: "fieldmap \<Rightarrow> string list"
  e_objects :: "object_table \<Rightarrow> object_uuid list"
  e_rows :: "(commit_id, commit_row) fmap \<Rightarrow> commit_id list"
  e_oob :: "rat \<Rightarrow> int"

definition env_ok :: "'j service_env \<Rightarrow> bool" where
  "env_ok e \<longleftrightarrow> zlib_ok (e_zlib e) \<and> json_ok (e_json e) \<and> enumerates_fields (e_fields e) \<and>
     hash_order (e_objects e) \<and> hash_order (e_rows e)"

record service =
  db_conn :: conn
  state_cache :: "(commit_id, level_state) fmap"
  cache_capacity :: nat

datatype git_error =
    ErrReconstruct | ErrNoHead | ErrOtherLevel | ErrNotFound | ErrNoParent | ErrTooFew
  | ErrNotContiguous | ErrSquash | ErrSameLevel | ErrCopy | ErrCopyThrew | ErrStore store_error

definition cachePut :: "commit_id \<Rightarrow> level_state \<Rightarrow> service \<Rightarrow> service" where
  "cachePut i st svc =
     (let m = state_cache svc in
      case fmlookup m i of
        Some _ \<Rightarrow> svc\<lparr>state_cache := fmupd i st m\<rparr>
      | None \<Rightarrow>
          svc\<lparr>state_cache := emplace i st (if length (sorted_keys m) \<ge> cache_capacity svc then fmempty else m)\<rparr>)"

definition cacheGet :: "commit_id \<Rightarrow> service \<Rightarrow> level_state option" where
  "cacheGet i svc = fmlookup (state_cache svc) i"

definition clearReconstructCache :: "service \<Rightarrow> service" where
  "clearReconstructCache svc = svc\<lparr>state_cache := fmempty\<rparr>"

definition diff_states :: "'j service_env \<Rightarrow> level_state \<Rightarrow> level_state \<Rightarrow> delta" where
  "diff_states e prev nxt = diff (e_objects e (objects prev)) (e_objects e (objects nxt)) prev nxt"

definition dump :: "'j service_env \<Rightarrow> delta \<Rightarrow> string" where
  "dump e d = dumpDelta (e_json e) (e_fields e) d"

section \<open>Reconstruction\<close>

text \<open>The walk to the nearest cached ancestor or the root, collecting the rows on the way.\<close>

partial_function (option) walk_chain :: "zlib \<Rightarrow> (commit_id, level_state) fmap \<Rightarrow> commit_id \<Rightarrow> commit_row list \<Rightarrow>
    conn \<Rightarrow> ((commit_row list \<times> level_state) option \<times> conn) option" where
  "walk_chain z cch cur chain c =
     (case fmlookup cch cur of
        Some hit \<Rightarrow> Some (Some (chain, hit), c)
      | None \<Rightarrow>
          (case get_row z cur c of (row, c1) \<Rightarrow>
             case row of
               None \<Rightarrow> Some (None, c1)
             | Some r \<Rightarrow>
                 (case row_parent r of
                    None \<Rightarrow> Some (Some (chain @ [r], empty_state), c1)
                  | Some p \<Rightarrow> walk_chain z cch p (chain @ [r]) c1)))"

declare walk_chain.simps [code]

fun replay :: "'j service_env \<Rightarrow> commit_row list \<Rightarrow> level_state \<Rightarrow> service \<Rightarrow> level_state option \<times> service" where
  "replay e [] st svc = (Some st, svc)"
| "replay e (r # rows) st svc =
     (case parseDelta (e_json e) (row_delta r) of
        None \<Rightarrow> (None, svc)
      | Some d \<Rightarrow>
          (let st1 = fst (apply_delta st d) in replay e rows st1 (cachePut (row_id r) st1 svc)))"

definition reconstruct :: "'j service_env \<Rightarrow> commit_id \<Rightarrow> service \<Rightarrow> (level_state option \<times> service) option" where
  "reconstruct e i svc =
     (case cacheGet i svc of
        Some hit \<Rightarrow> Some (Some hit, svc)
      | None \<Rightarrow>
          (case walk_chain (e_zlib e) (state_cache svc) i [] (db_conn svc) of
             None \<Rightarrow> None
           | Some (None, c) \<Rightarrow> Some (None, svc\<lparr>db_conn := c\<rparr>)
           | Some (Some (chain, st), c) \<Rightarrow> Some (replay e (rev chain) st (svc\<lparr>db_conn := c\<rparr>))))"

text \<open>Continuing after a reconstruction.\<close>

definition after_reconstruct :: "'j service_env \<Rightarrow> commit_id \<Rightarrow> service \<Rightarrow>
    (level_state option \<Rightarrow> service \<Rightarrow> 'r option) \<Rightarrow> 'r option" where
  "after_reconstruct e i svc k = (case reconstruct e i svc of None \<Rightarrow> None | Some (r, svc1) \<Rightarrow> k r svc1)"

section \<open>Commit\<close>

definition identify :: "'j service_env \<Rightarrow> level_state option \<Rightarrow> string \<Rightarrow> u64 list \<Rightarrow>
    (level_state \<times> u64 list) option" where
  "identify e headState live ds =
     (let incoming = parseLevelString live in
      case headState of
        None \<Rightarrow> assignFreshUuids (e_objects e (objects incoming)) incoming ds
      | Some h \<Rightarrow>
          (case assignUuids (e_oob e) (e_objects e (objects incoming)) h incoming ds of
             None \<Rightarrow> None
           | Some (st, ds1, _) \<Rightarrow> Some (st, ds1)))"

definition record_commit :: "'j service_env \<Rightarrow> int \<Rightarrow> level_key \<Rightarrow> string \<Rightarrow> commit_id option \<Rightarrow> level_state option \<Rightarrow>
    level_state \<Rightarrow> service \<Rightarrow> (git_error + commit_id) \<times> service" where
  "record_commit e now lk msg parent headState incoming svc =
     (let headRef = (case headState of None \<Rightarrow> empty_state | Some h \<Rightarrow> h);
          blob = dump e (diff_states e headRef incoming)
      in case insertAndSetHead (e_zlib e) now lk parent None msg blob (db_conn svc) of
           (Inl err, c) \<Rightarrow> (Inl (ErrStore err), svc\<lparr>db_conn := c\<rparr>)
         | (Inr i, c) \<Rightarrow> (Inr i, cachePut i incoming (svc\<lparr>db_conn := c\<rparr>)))"

definition git_commit :: "'j service_env \<Rightarrow> int \<Rightarrow> level_key \<Rightarrow> string \<Rightarrow> string \<Rightarrow> u64 list \<Rightarrow> service \<Rightarrow>
    ((git_error + commit_id) \<times> service) option" where
  "git_commit e now lk msg live ds svc =
     (case getHead lk (db_conn svc) of (parent, c) \<Rightarrow>
        let svc1 = svc\<lparr>db_conn := c\<rparr> in
        case parent of
          None \<Rightarrow>
            (case identify e None live ds of
               None \<Rightarrow> None
             | Some (incoming, _) \<Rightarrow> Some (record_commit e now lk msg None None incoming svc1))
        | Some p \<Rightarrow>
            after_reconstruct e p svc1 (\<lambda>headState svc2.
              case headState of
                None \<Rightarrow> Some (Inl ErrReconstruct, svc2)
              | Some h \<Rightarrow>
                  (case identify e (Some h) live ds of
                     None \<Rightarrow> None
                   | Some (incoming, _) \<Rightarrow> Some (record_commit e now lk msg (Some p) (Some h) incoming svc2))))"

section \<open>Pending operations\<close>

record pending_head =
  ph_level :: level_key
  ph_parent :: "commit_id option"
  ph_parent_ix :: "nat option"
  ph_reverts :: "commit_id option"
  ph_message :: string
  ph_delta :: string
  ph_cache :: "level_state option"

record pending_squash =
  ps_level :: level_key
  ps_ids :: "commit_id list"
  ps_parent :: "commit_id option"
  ps_message :: string
  ps_delta :: string

record pending_replace =
  pr_dest :: level_key
  pr_src :: level_key

record ('t, 'p) prepared =
  outcome :: "git_error + 't"
  pending :: "'p option"

definition refuse :: "git_error \<Rightarrow> service \<Rightarrow> (('t, 'p) prepared \<times> service) option" where
  "refuse err svc = Some (\<lparr>outcome = Inl err, pending = None\<rparr>, svc)"

section \<open>Checkout\<close>

definition head_update :: "level_key \<Rightarrow> commit_id \<Rightarrow> commit_id \<Rightarrow> string \<Rightarrow> string \<Rightarrow> pending_head" where
  "head_update lk parent reverts msg blob =
     \<lparr>ph_level = lk, ph_parent = Some parent, ph_parent_ix = None, ph_reverts = Some reverts,
      ph_message = msg, ph_delta = blob, ph_cache = None\<rparr>"

text \<open>The second part of \<open>prepareCheckout\<close>, once both states are there.\<close>

definition checkout_plan :: "'j service_env \<Rightarrow> level_key \<Rightarrow> commit_id \<Rightarrow> commit_id \<Rightarrow> level_state option \<Rightarrow>
    level_state option \<Rightarrow> service \<Rightarrow> ((level_state, pending_head) prepared \<times> service) option" where
  "checkout_plan e lk hid target headState targetState svc =
     (case (headState, targetState) of
        (Some hs, Some ts) \<Rightarrow>
          (case get_row (e_zlib e) target (db_conn svc) of (row, c) \<Rightarrow>
             let svc1 = svc\<lparr>db_conn := c\<rparr>; blob = dump e (diff_states e hs ts) in
             case row of
               Some r \<Rightarrow>
                 if row_level r \<noteq> lk then refuse ErrOtherLevel svc1
                 else Some (\<lparr>outcome = Inr ts,
                     pending = Some (head_update lk hid target (''Checkout: '' @ shorten (row_message r) 40) blob)\<rparr>, svc1)
             | None \<Rightarrow>
                 Some (\<lparr>outcome = Inr ts,
                   pending = Some (head_update lk hid target (''Checkout: '' @ int_to_string target) blob)\<rparr>, svc1))
      | _ \<Rightarrow> refuse ErrReconstruct svc)"

definition prepareCheckout :: "'j service_env \<Rightarrow> level_key \<Rightarrow> commit_id \<Rightarrow> service \<Rightarrow>
    ((level_state, pending_head) prepared \<times> service) option" where
  "prepareCheckout e lk target svc =
     (case getHead lk (db_conn svc) of (h, c) \<Rightarrow>
        let svc1 = svc\<lparr>db_conn := c\<rparr> in
        case h of
          None \<Rightarrow> refuse ErrNoHead svc1
        | Some hid \<Rightarrow>
            if hid = target then
              after_reconstruct e target svc1 (\<lambda>r svc2.
                case r of
                  None \<Rightarrow> refuse ErrReconstruct svc2
                | Some st \<Rightarrow> Some (\<lparr>outcome = Inr st, pending = None\<rparr>, svc2))
            else
              after_reconstruct e hid svc1 (\<lambda>headState svc2.
              after_reconstruct e target svc2 (\<lambda>targetState svc3.
                checkout_plan e lk hid target headState targetState svc3)))"

definition finalizeCheckout :: "'j service_env \<Rightarrow> int \<Rightarrow> pending_head \<Rightarrow> level_state \<Rightarrow> service \<Rightarrow>
    (git_error + commit_id) \<times> service" where
  "finalizeCheckout e now p applied svc =
     (case insertAndSetHead (e_zlib e) now (ph_level p) (ph_parent p) (ph_reverts p) (ph_message p) (ph_delta p) (db_conn svc) of
        (Inl err, c) \<Rightarrow> (Inl (ErrStore err), svc\<lparr>db_conn := c\<rparr>)
      | (Inr i, c) \<Rightarrow> (Inr i, cachePut i applied (svc\<lparr>db_conn := c\<rparr>)))"

text \<open>The two halves in a row, as \<open>GitService::checkout\<close> runs them; the identifier of the new
  commit is kept beside the state.\<close>

definition run_head_update :: "'j service_env \<Rightarrow> int \<Rightarrow> ('t \<Rightarrow> level_state) \<Rightarrow>
    (('t, pending_head) prepared \<times> service) option \<Rightarrow> ((git_error + 't \<times> commit_id option) \<times> service) option" where
  "run_head_update e now state_of prep =
     (case prep of
        None \<Rightarrow> None
      | Some (p, svc) \<Rightarrow>
          (case outcome p of
             Inl err \<Rightarrow> Some (Inl err, svc)
           | Inr v \<Rightarrow>
               (case pending p of
                  None \<Rightarrow> Some (Inr (v, None), svc)
                | Some ph \<Rightarrow>
                    (case finalizeCheckout e now ph (state_of v) svc of
                       (Inl err, svc1) \<Rightarrow> Some (Inl err, svc1)
                     | (Inr i, svc1) \<Rightarrow> Some (Inr (v, Some i), svc1)))))"

definition checkout :: "'j service_env \<Rightarrow> int \<Rightarrow> level_key \<Rightarrow> commit_id \<Rightarrow> service \<Rightarrow>
    ((git_error + level_state \<times> commit_id option) \<times> service) option" where
  "checkout e now lk target svc = run_head_update e now (\<lambda>st. st) (prepareCheckout e lk target svc)"

section \<open>Revert\<close>

record revert_payload =
  rp_state :: level_state
  rp_conflicts :: "conflict list"

definition make_revert :: "'j service_env \<Rightarrow> level_state \<Rightarrow> level_state \<Rightarrow> level_state \<Rightarrow> revert_payload" where
  "make_revert e parentState targetState headState =
     (case apply_delta headState (diff_states e targetState parentState) of (st, confl) \<Rightarrow>
        \<lparr>rp_state = st, rp_conflicts = confl\<rparr>)"

definition revert_plan :: "'j service_env \<Rightarrow> level_key \<Rightarrow> commit_id \<Rightarrow> commit_id \<Rightarrow> string \<Rightarrow> level_state option \<Rightarrow>
    level_state option \<Rightarrow> level_state option \<Rightarrow> service \<Rightarrow> ((revert_payload, pending_head) prepared \<times> service) option" where
  "revert_plan e lk hid target msg parentState targetState headState svc =
     (case (parentState, targetState, headState) of
        (Some ps, Some ts, Some hs) \<Rightarrow>
          (let v = make_revert e ps ts hs;
               blob = dump e (diff_states e hs (rp_state v))
           in Some (\<lparr>outcome = Inr v,
                pending = Some (head_update lk hid target (''Revert: '' @ shorten msg 40) blob)\<rparr>, svc))
      | _ \<Rightarrow> refuse ErrReconstruct svc)"

definition prepareRevert :: "'j service_env \<Rightarrow> level_key \<Rightarrow> commit_id \<Rightarrow> service \<Rightarrow>
    ((revert_payload, pending_head) prepared \<times> service) option" where
  "prepareRevert e lk target svc =
     (case getHead lk (db_conn svc) of (h, c) \<Rightarrow>
        let svc1 = svc\<lparr>db_conn := c\<rparr> in
        case h of
          None \<Rightarrow> refuse ErrNoHead svc1
        | Some hid \<Rightarrow>
            (case get_row (e_zlib e) target (db_conn svc1) of (row, c2) \<Rightarrow>
               let svc2 = svc1\<lparr>db_conn := c2\<rparr> in
               case row of
                 None \<Rightarrow> refuse ErrNotFound svc2
               | Some r \<Rightarrow>
                   if row_level r \<noteq> lk then refuse ErrOtherLevel svc2
                   else
                     (case row_parent r of
                        None \<Rightarrow> refuse ErrNoParent svc2
                      | Some par \<Rightarrow>
                          after_reconstruct e par svc2 (\<lambda>parentState svc3.
                          after_reconstruct e target svc3 (\<lambda>targetState svc4.
                          after_reconstruct e hid svc4 (\<lambda>headState svc5.
                            revert_plan e lk hid target (row_message r) parentState targetState headState svc5))))))"

definition revert :: "'j service_env \<Rightarrow> int \<Rightarrow> level_key \<Rightarrow> commit_id \<Rightarrow> service \<Rightarrow>
    ((git_error + revert_payload \<times> commit_id option) \<times> service) option" where
  "revert e now lk target svc = run_head_update e now rp_state (prepareRevert e lk target svc)"

section \<open>Squash\<close>

fun load_rows :: "zlib \<Rightarrow> level_key \<Rightarrow> commit_id list \<Rightarrow> conn \<Rightarrow> (git_error + commit_row list) \<times> conn" where
  "load_rows z lk [] c = (Inr [], c)"
| "load_rows z lk (i # ids) c =
     (case get_row z i c of (row, c1) \<Rightarrow>
        case row of
          None \<Rightarrow> (Inl ErrNotFound, c1)
        | Some r \<Rightarrow>
            if row_level r \<noteq> lk then (Inl ErrOtherLevel, c1)
            else
              (case load_rows z lk ids c1 of
                 (Inl err, c2) \<Rightarrow> (Inl err, c2)
               | (Inr rows, c2) \<Rightarrow> (Inr (r # rows), c2)))"

fun contiguous :: "commit_row list \<Rightarrow> bool" where
  "contiguous (a # b # rows) \<longleftrightarrow> row_parent b = Some (row_id a) \<and> contiguous (b # rows)"
| "contiguous [a] \<longleftrightarrow> True"
| "contiguous [] \<longleftrightarrow> True"

definition prepareSquash_with :: "'j service_env \<Rightarrow> level_key \<Rightarrow> commit_id list \<Rightarrow> string \<Rightarrow> commit_row list \<Rightarrow>
    level_state option \<Rightarrow> service \<Rightarrow> ((level_state, pending_squash) prepared \<times> service) option" where
  "prepareSquash_with e lk ids msg rows base svc =
     (case base of
        None \<Rightarrow> refuse ErrReconstruct svc
      | Some b \<Rightarrow>
          after_reconstruct e (row_id (last rows)) svc (\<lambda>target svc1.
            case target of
              None \<Rightarrow> refuse ErrReconstruct svc1
            | Some t \<Rightarrow>
                Some (\<lparr>outcome = Inr t,
                  pending = Some \<lparr>ps_level = lk, ps_ids = ids, ps_parent = row_parent (hd rows),
                    ps_message = msg, ps_delta = dump e (diff_states e b t)\<rparr>\<rparr>, svc1)))"

definition prepareSquash :: "'j service_env \<Rightarrow> level_key \<Rightarrow> commit_id list \<Rightarrow> string \<Rightarrow> service \<Rightarrow>
    ((level_state, pending_squash) prepared \<times> service) option" where
  "prepareSquash e lk ids msg svc =
     (if length ids < 2 then refuse ErrTooFew svc
      else
        (case load_rows (e_zlib e) lk ids (db_conn svc) of (res, c) \<Rightarrow>
           let svc1 = svc\<lparr>db_conn := c\<rparr> in
           case res of
             Inl err \<Rightarrow> refuse err svc1
           | Inr rows \<Rightarrow>
               if \<not> contiguous rows then refuse ErrNotContiguous svc1
               else
                 (case row_parent (hd rows) of
                    None \<Rightarrow> prepareSquash_with e lk ids msg rows (Some empty_state) svc1
                  | Some p \<Rightarrow> after_reconstruct e p svc1 (\<lambda>base svc2. prepareSquash_with e lk ids msg rows base svc2))))"

definition finalizeSquash :: "'j service_env \<Rightarrow> int \<Rightarrow> pending_squash \<Rightarrow> level_state \<Rightarrow> service \<Rightarrow>
    (git_error + commit_id) \<times> service" where
  "finalizeSquash e now p applied svc =
     (case Commit_Store.squash (e_zlib e) now (ps_level p) (ps_ids p) (ps_parent p) (ps_message p) (ps_delta p) (db_conn svc) of
        (None, c) \<Rightarrow> (Inl ErrSquash, svc\<lparr>db_conn := c\<rparr>)
      | (Some i, c) \<Rightarrow> (Inr i, cachePut i applied (clearReconstructCache (svc\<lparr>db_conn := c\<rparr>))))"

definition git_squash :: "'j service_env \<Rightarrow> int \<Rightarrow> level_key \<Rightarrow> commit_id list \<Rightarrow> string \<Rightarrow> service \<Rightarrow>
    ((git_error + level_state \<times> commit_id option) \<times> service) option" where
  "git_squash e now lk ids msg svc =
     (case prepareSquash e lk ids msg svc of
        None \<Rightarrow> None
      | Some (p, svc1) \<Rightarrow>
          (case outcome p of
             Inl err \<Rightarrow> Some (Inl err, svc1)
           | Inr st \<Rightarrow>
               (case pending p of
                  None \<Rightarrow> Some (Inr (st, None), svc1)
                | Some ps \<Rightarrow>
                    (case finalizeSquash e now ps st svc1 of
                       (Inl err, svc2) \<Rightarrow> Some (Inl err, svc2)
                     | (Inr i, svc2) \<Rightarrow> Some (Inr (st, Some i), svc2)))))"

section \<open>Taking over the history of another level\<close>

definition prepareImportLevelFrom :: "'j service_env \<Rightarrow> level_key \<Rightarrow> level_key \<Rightarrow> service \<Rightarrow>
    ((level_state, pending_replace) prepared \<times> service) option" where
  "prepareImportLevelFrom e dest src svc =
     (if dest = src then refuse ErrSameLevel svc
      else
        (case getHead src (db_conn svc) of (h, c) \<Rightarrow>
           let svc1 = svc\<lparr>db_conn := c\<rparr> in
           case h of
             None \<Rightarrow> refuse ErrNoHead svc1
           | Some hid \<Rightarrow>
               after_reconstruct e hid svc1 (\<lambda>r svc2.
                 case r of
                   None \<Rightarrow> refuse ErrReconstruct svc2
                 | Some st \<Rightarrow> Some (\<lparr>outcome = Inr st, pending = Some \<lparr>pr_dest = dest, pr_src = src\<rparr>\<rparr>, svc2))))"

definition finalizeImportLevelFrom :: "'j service_env \<Rightarrow> pending_replace \<Rightarrow> level_state \<Rightarrow> service \<Rightarrow>
    (git_error + unit) \<times> service" where
  "finalizeImportLevelFrom e p applied svc =
     (case replaceLevelHistoryFrom (e_zlib e) (e_rows e) (pr_dest p) (pr_src p) (db_conn svc) of
        (Replaced, c) \<Rightarrow>
          (let svc1 = clearReconstructCache (svc\<lparr>db_conn := c\<rparr>) in
           case getHead (pr_dest p) c of
             (None, c1) \<Rightarrow> (Inr (), svc1\<lparr>db_conn := c1\<rparr>)
           | (Some h, c1) \<Rightarrow> (Inr (), cachePut h applied (svc1\<lparr>db_conn := c1\<rparr>)))
      | (Refused, c) \<Rightarrow> (Inl ErrCopy, svc\<lparr>db_conn := c\<rparr>)
      | (Raised, c) \<Rightarrow> (Inl ErrCopyThrew, svc\<lparr>db_conn := c\<rparr>))"

definition importLevelFrom :: "'j service_env \<Rightarrow> level_key \<Rightarrow> level_key \<Rightarrow> service \<Rightarrow>
    ((git_error + level_state) \<times> service) option" where
  "importLevelFrom e dest src svc =
     (case prepareImportLevelFrom e dest src svc of
        None \<Rightarrow> None
      | Some (p, svc1) \<Rightarrow>
          (case outcome p of
             Inl err \<Rightarrow> Some (Inl err, svc1)
           | Inr st \<Rightarrow>
               (case pending p of
                  None \<Rightarrow> Some (Inr st, svc1)
                | Some pr \<Rightarrow>
                    (case finalizeImportLevelFrom e pr st svc1 of
                       (Inl err, svc2) \<Rightarrow> Some (Inl err, svc2)
                     | (Inr _, svc2) \<Rightarrow> Some (Inr st, svc2)))))"

end
