(* ===== verification/Commit_Log.thy ===== *)
theory Commit_Log
  imports Git_Service
begin

text \<open>
  What a commit means: its state is the result of replaying the deltas of its ancestors from
  the empty level, oldest first.  Two interfaces of \<open>GitService\<close> are stated as locales and
  instantiated on the model: the log of commits it appends to and squashes (provided by
  \<open>src/store/CommitStore.cpp\<close>) and the cache of states (\<open>m_cache\<close>), which may forget.
\<close>

section \<open>The meaning of a commit\<close>

text \<open>The service sees a database as a log: identifier to parent and delta.\<close>

type_synonym log_view = "commit_id \<Rightarrow> (commit_id option \<times> delta) option"

inductive history :: "log_view \<Rightarrow> commit_id \<Rightarrow> level_state \<Rightarrow> bool" for V where
  root: "V i = Some (None, \<delta>) \<Longrightarrow> history V i (fst (apply_delta empty_state \<delta>))"
| child: "V i = Some (Some p, \<delta>) \<Longrightarrow> history V p st \<Longrightarrow> history V i (fst (apply_delta st \<delta>))"

inductive_cases historyE: "history V i st"

inductive descends :: "log_view \<Rightarrow> commit_id \<Rightarrow> nat \<Rightarrow> bool" for V where
  root: "V i = Some (None, \<delta>) \<Longrightarrow> descends V i 0"
| child: "V i = Some (Some p, \<delta>) \<Longrightarrow> descends V p n \<Longrightarrow> descends V i (Suc n)"

inductive_cases descendsE: "descends V i n"

lemma history_det: "history V i s \<Longrightarrow> history V i t \<Longrightarrow> s = t"
proof (induction arbitrary: t rule: history.induct)
  case (root i \<delta>)
  from root(2) show ?case
  proof (rule historyE)
    fix \<delta>2 assume "t = fst (apply_delta empty_state \<delta>2)" "V i = Some (None, \<delta>2)"
    with root(1) show ?thesis by simp
  next
    fix p \<delta>2 st assume "V i = Some (Some p, \<delta>2)"
    with root(1) show ?thesis by simp
  qed
next
  case (child i p \<delta> st)
  from child(4) show ?case
  proof (rule historyE)
    fix \<delta>2 assume "V i = Some (None, \<delta>2)"
    with child(1) show ?thesis by simp
  next
    fix p2 \<delta>2 st2 assume "t = fst (apply_delta st2 \<delta>2)" "V i = Some (Some p2, \<delta>2)" "history V p2 st2"
    with child(1,3) show ?thesis by simp
  qed
qed

lemma history_descends: "history V i s \<Longrightarrow> \<exists>n. descends V i n"
  by (induction rule: history.induct) (auto intro: descends.intros)

lemma history_Some: "history V i s \<Longrightarrow> \<exists>p \<delta>. V i = Some (p, \<delta>)"
  by (auto elim: historyE)

lemma history_keyed: "history V i s \<Longrightarrow> keyed s"
  by (induction rule: history.induct) (auto intro: keyed_apply_delta)

lemma history_mono:
  assumes "\<And>j x. V j = Some x \<Longrightarrow> V' j = Some x" and "history V i s"
  shows "history V' i s"
  using assms(2) by induction (auto intro: history.intros assms(1))

text \<open>States are determined up to empty values.\<close>

definition yields :: "log_view \<Rightarrow> commit_id \<Rightarrow> level_state \<Rightarrow> bool" where
  "yields V i s \<longleftrightarrow> (\<exists>t. history V i t \<and> norm_state t = norm_state s)"

definition starts :: "log_view \<Rightarrow> commit_id option \<Rightarrow> level_state \<Rightarrow> bool" where
  "starts V p s \<longleftrightarrow> keyed s \<and> (case p of None \<Rightarrow> s = empty_state | Some q \<Rightarrow> yields V q s)"

lemma yields_mono: "(\<And>j x. V j = Some x \<Longrightarrow> V' j = Some x) \<Longrightarrow> yields V i s \<Longrightarrow> yields V' i s"
  unfolding yields_def using history_mono by metis

lemma yields_det: "yields V i s \<Longrightarrow> yields V i t \<Longrightarrow> norm_state s = norm_state t"
  unfolding yields_def using history_det by metis

lemma yields_step:
  assumes "starts V p b" and "V i = Some (p, \<delta>)" and "norm_state (fst (apply_delta b \<delta>)) = norm_state s"
  shows "yields V i s"
proof (cases p)
  case None
  with assms show ?thesis by (auto simp: yields_def starts_def intro!: history.root)
next
  case (Some q)
  with assms(1) obtain t where t: "history V q t" "norm_state t = norm_state b" by (auto simp: starts_def yields_def)
  have "history V i (fst (apply_delta t \<delta>))" using assms(2) t(1) Some by (auto intro: history.child)
  moreover have "norm_state (fst (apply_delta t \<delta>)) = norm_state s"
    using apply_delta_norm_cong(1) [OF t(2)] assms(3) by simp
  ultimately show ?thesis unfolding yields_def by blast
qed

text \<open>A contiguous chain of commits above a base.\<close>

fun chain_from :: "log_view \<Rightarrow> commit_id option \<Rightarrow> commit_id list \<Rightarrow> bool" where
  "chain_from V p [] \<longleftrightarrow> True"
| "chain_from V p (i # ids) \<longleftrightarrow> (\<exists>\<delta>. V i = Some (p, \<delta>)) \<and> chain_from V (Some i) ids"

lemma chain_depth:
  "chain_from V (Some q) ids \<Longrightarrow> ids \<noteq> [] \<Longrightarrow> descends V (last ids) n \<Longrightarrow> \<exists>m < n. descends V q m"
proof (induction ids arbitrary: q)
  case (Cons i ids)
  obtain \<delta> where i: "V i = Some (Some q, \<delta>)" using Cons.prems(1) by auto
  obtain m where m: "m \<le> n" "descends V i m"
  proof (cases "ids = []")
    case True
    with Cons.prems(3) show thesis by (intro that [of n]) simp_all
  next
    case False
    with Cons.prems Cons.IH [of i] that show thesis by (metis chain_from.simps(2) last_ConsR less_imp_le)
  qed
  from m(2) i obtain k where "m = Suc k" "descends V q k" by (auto elim: descendsE)
  with m(1) show ?case by (intro exI [of _ k]) simp
qed simp

lemma descends_det: "descends V i n \<Longrightarrow> descends V i m \<Longrightarrow> n = m"
proof (induction arbitrary: m rule: descends.induct)
  case (root i \<delta>)
  from root(2) show ?case by (rule descendsE) (simp_all add: root(1))
next
  case (child i p \<delta> n)
  from child(4) show ?case
  proof (rule descendsE)
    fix \<delta>2 q k assume "m = Suc k" "V i = Some (Some q, \<delta>2)" "descends V q k"
    with child(1,3) show ?thesis by simp
  qed (simp add: child(1))
qed

definition depth :: "log_view \<Rightarrow> commit_id \<Rightarrow> nat" where
  "depth V i = (THE n. descends V i n)"

lemma depth_eq: "descends V i n \<Longrightarrow> depth V i = n"
  unfolding depth_def using descends_det by (intro the_equality)

lemma depth_parent:
  assumes "V i = Some (Some p, \<delta>)" and "descends V i n"
  shows "depth V p < depth V i"
proof -
  from assms(2) obtain k where "n = Suc k" "descends V p k" by (rule descendsE) (use assms(1) in auto)
  with assms(2) show ?thesis by (simp add: depth_eq)
qed

section \<open>The log as an interface\<close>

locale commit_log =
  fixes view :: "'d \<Rightarrow> log_view"
    and appended :: "'d \<Rightarrow> commit_id option \<Rightarrow> delta \<Rightarrow> commit_id \<Rightarrow> 'd \<Rightarrow> bool"
    and folded :: "'d \<Rightarrow> commit_id list \<Rightarrow> commit_id option \<Rightarrow> delta \<Rightarrow> commit_id \<Rightarrow> 'd \<Rightarrow> bool"
  assumes append: "appended d p \<delta> i d' \<Longrightarrow> view d i = None \<and> view d' = (view d)(i := Some (p, \<delta>))"
    and fold_new: "folded d ids p \<delta> i d' \<Longrightarrow> view d i = None \<and> view d' i = Some (p, \<delta>) \<and> ids \<noteq> []"
    and fold_old: "folded d ids p \<delta> i d' \<Longrightarrow> j \<notin> set ids \<Longrightarrow> view d j = Some (q, \<delta>j) \<Longrightarrow>
        view d' j = Some (if q = Some (last ids) then Some i else q, \<delta>j)"
    and fold_closed: "folded d ids p \<delta> i d' \<Longrightarrow> view d' j = Some (Some k, \<delta>j) \<Longrightarrow> k \<notin> set ids"
begin

lemma append_keeps: "appended d p \<delta> i d' \<Longrightarrow> history (view d) j s \<Longrightarrow> history (view d') j s"
  using append by (elim history_mono [rotated]) auto

lemma append_new:
  assumes "appended d p \<delta> i d'" and "starts (view d) p b" and "norm_state (fst (apply_delta b \<delta>)) = norm_state s"
  shows "yields (view d') i s"
proof (rule yields_step [OF _ _ assms(3)])
  from append [OF assms(1)] have new: "view d i = None" "view d' = (view d)(i := Some (p, \<delta>))" by auto
  show "view d' i = Some (p, \<delta>)" by (simp add: new)
  have "yields (view d) q b \<Longrightarrow> yields (view d') q b" for q
    by (rule yields_mono [of "view d"]) (auto simp: new)
  then show "starts (view d') p b" using assms(2) by (auto simp: starts_def split: option.splits)
qed

text \<open>
  Replacing commits by one keeps the state of every commit that survives.  The replaced
  commits need not form a chain any more: it is enough that parents come before their
  children in some ranking and that the base comes before the newest of them.
\<close>

lemma fold_keeps_ranked:
  assumes f: "folded d ids p \<delta> i d'"
    and up: "\<And>j q \<delta>j s. view d j = Some (Some q, \<delta>j) \<Longrightarrow> history (view d) j s \<Longrightarrow> rk q < (rk j :: nat)"
    and below: "\<And>q s. p = Some q \<Longrightarrow> history (view d) (last ids) s \<Longrightarrow> rk q < rk (last ids)"
    and base: "starts (view d) p b" and top: "\<And>s. history (view d) (last ids) s \<Longrightarrow> norm_state s = norm_state t"
    and comb: "norm_state (fst (apply_delta b \<delta>)) = norm_state t"
  shows "history (view d) j s \<Longrightarrow> j \<notin> set ids \<Longrightarrow> yields (view d') j s"
proof (induction "rk j" arbitrary: j s rule: less_induct)
  case less
  note new = fold_new [OF f]
  from less.prems(1) obtain q \<delta>j where j: "view d j = Some (q, \<delta>j)" using history_Some by metis
  note j' = fold_old [OF f less.prems(2) j]
  show ?case
  proof (cases q)
    case None
    with j' have "view d' j = Some (None, \<delta>j)" by simp
    moreover have "s = fst (apply_delta empty_state \<delta>j)" using less.prems(1) j None by (auto elim: historyE)
    ultimately show ?thesis by (auto simp: yields_def intro: history.root)
  next
    case (Some par)
    with less.prems(1) j obtain sp where sp: "history (view d) par sp" "s = fst (apply_delta sp \<delta>j)" by (auto elim: historyE)
    have lt: "rk par < rk j" using up j Some less.prems(1) by blast
    show ?thesis
    proof (cases "par = last ids")
      case True
      have start: "starts (view d') p b"
      proof (cases p)
        case None
        with base show ?thesis by (simp add: starts_def)
      next
        case (Some r)
        with base obtain u where u: "history (view d) r u" "norm_state u = norm_state b" by (auto simp: starts_def yields_def)
        have "rk r < rk j" using below [OF Some] sp(1) lt True by fastforce
        moreover have "r \<notin> set ids" using fold_closed [OF f, of i r \<delta>] new Some by simp
        ultimately have "yields (view d') r u" using less.hyps u(1) by blast
        with Some base u(2) show ?thesis by (auto simp: starts_def yields_def)
      qed
      then have "yields (view d') i t" using new comb by (intro yields_step [of _ p b]) auto
      moreover have "norm_state sp = norm_state t" using top sp(1) True by simp
      moreover have "keyed sp" using sp(1) by (rule history_keyed)
      ultimately have "starts (view d') (Some i) sp" by (auto simp: starts_def yields_def)
      moreover have "view d' j = Some (Some i, \<delta>j)" using j' Some True by simp
      ultimately show ?thesis using sp(2) by (intro yields_step) auto
    next
      case False
      then have vj: "view d' j = Some (Some par, \<delta>j)" using j' Some by simp
      then have "par \<notin> set ids" by (rule fold_closed [OF f])
      then have "yields (view d') par sp" using less.hyps lt sp(1) by blast
      then have "starts (view d') (Some par) sp" using history_keyed [OF sp(1)] by (simp add: starts_def)
      then show ?thesis using vj sp(2) by (intro yields_step) auto
    qed
  qed
qed

lemma fold_state_from:
  assumes f: "folded d ids p \<delta> i d'" and base: "starts (view d) p b" and comb: "norm_state (fst (apply_delta b \<delta>)) = norm_state t"
    and keeps: "\<And>j s. history (view d) j s \<Longrightarrow> j \<notin> set ids \<Longrightarrow> yields (view d') j s"
  shows "yields (view d') i t"
proof (rule yields_step [OF _ _ comb])
  note new = fold_new [OF f]
  then show "view d' i = Some (p, \<delta>)" by simp
  show "starts (view d') p b"
  proof (cases p)
    case None
    with base show ?thesis by (simp add: starts_def)
  next
    case (Some q)
    with base obtain u where u: "history (view d) q u" "norm_state u = norm_state b" by (auto simp: starts_def yields_def)
    have "q \<notin> set ids" using fold_closed [OF f, of i q \<delta>] new Some by simp
    then have "yields (view d') q u" using keeps u(1) by simp
    with Some base u(2) show ?thesis by (auto simp: starts_def yields_def)
  qed
qed

text \<open>A chain that is still contiguous is ranked by the depth of its commits.\<close>

lemma fold_keeps:
  assumes f: "folded d ids p \<delta> i d'" and chain: "chain_from (view d) p ids" and base: "starts (view d) p b"
    and top: "yields (view d) (last ids) t" and comb: "norm_state (fst (apply_delta b \<delta>)) = norm_state t"
    and j: "history (view d) j s" "j \<notin> set ids"
  shows "yields (view d') j s"
proof -
  have up: "depth (view d) q < depth (view d) k" if "view d k = Some (Some q, \<delta>k)" "history (view d) k u" for k q \<delta>k u
  proof -
    from history_descends [OF that(2)] obtain n where "descends (view d) k n" ..
    with that(1) show ?thesis by (rule depth_parent)
  qed
  have below: "depth (view d) q < depth (view d) (last ids)" if "p = Some q" "history (view d) (last ids) u" for q u
  proof -
    from history_descends [OF that(2)] obtain n where n: "descends (view d) (last ids) n" ..
    have "ids \<noteq> []" using fold_new [OF f] by simp
    from chain_depth [OF chain [unfolded that(1)] this n] obtain m where "m < n" "descends (view d) q m" by blast
    with n show ?thesis by (simp add: depth_eq)
  qed
  have t: "norm_state u = norm_state t" if "history (view d) (last ids) u" for u
    using top history_det [OF that] by (auto simp: yields_def)
  show ?thesis by (rule fold_keeps_ranked [where rk = "depth (view d)", OF f up below base t comb j])
qed

lemma fold_state:
  assumes "folded d ids p \<delta> i d'" and "chain_from (view d) p ids" and "starts (view d) p b"
    and "yields (view d) (last ids) t" and "norm_state (fst (apply_delta b \<delta>)) = norm_state t"
  shows "yields (view d') i t"
  using fold_state_from [OF assms(1,3,5)] fold_keeps [OF assms] by blast

end

section \<open>The database as a log\<close>

definition delta_of :: "'j service_env \<Rightarrow> crow \<Rightarrow> delta option" where
  "delta_of e r = parseDelta (e_json e) (row_delta (rowFromStatement (e_zlib e) (0, r)))"

definition db_view :: "'j service_env \<Rightarrow> db \<Rightarrow> log_view" where
  "db_view e d i =
     (case fmlookup (commits d) i of
        None \<Rightarrow> None
      | Some r \<Rightarrow> map_option (\<lambda>\<delta>. (r_parent r, \<delta>)) (delta_of e r))"

definition db_appended :: "'j service_env \<Rightarrow> db \<Rightarrow> commit_id option \<Rightarrow> delta \<Rightarrow> commit_id \<Rightarrow> db \<Rightarrow> bool" where
  "db_appended e d p \<delta> i d' \<longleftrightarrow>
     (\<exists>r. i = next_id d \<and> r_parent r = p \<and> delta_of e r = Some \<delta> \<and> d' = committed r d)"

definition db_folded :: "'j service_env \<Rightarrow> db \<Rightarrow> commit_id list \<Rightarrow> commit_id option \<Rightarrow> delta \<Rightarrow> commit_id \<Rightarrow> db \<Rightarrow> bool" where
  "db_folded e d ids p \<delta> i d' \<longleftrightarrow>
     (\<exists>r. i = next_id d \<and> i \<notin> set ids \<and> ids \<noteq> [] \<and> r_parent r = p \<and> delta_of e r = Some \<delta> \<and>
       d' = squashed r ids (r_level r) d \<and> fk_ok d')"

lemma fk_parent: "fk_ok d \<Longrightarrow> fmlookup (commits d) j = Some r \<Longrightarrow> r_parent r = Some p \<Longrightarrow> fmlookup (commits d) p \<noteq> None"
proof -
  assume "fk_ok d" "fmlookup (commits d) j = Some r" "r_parent r = Some p"
  then have "ref_ok d (r_parent r)" unfolding fk_ok_def fmpred_iff by blast
  with \<open>r_parent r = Some p\<close> show ?thesis by (simp add: ref_ok_def)
qed

lemma fk_head: "fk_ok d \<Longrightarrow> fmlookup (refs d) lk = Some h \<Longrightarrow> fmlookup (commits d) h \<noteq> None"
  by (auto simp: fk_ok_def fmpred_iff ref_ok_def)

lemma delta_of_squashed [simp]: "delta_of e (squashed_row n ids lk i r) = delta_of e r"
  by (simp add: delta_of_def rowFromStatement_def)

interpretation db_log: commit_log "db_view e" "db_appended e" "db_folded e" for e
proof
  fix d p \<delta> i d'
  assume "db_appended e d p \<delta> i d'"
  then show "db_view e d i = None \<and> db_view e d' = (db_view e d)(i := Some (p, \<delta>))"
    by (auto simp: db_appended_def db_view_def committed_def inserted_def fun_eq_iff)
next
  fix d ids p \<delta> i d'
  assume "db_folded e d ids p \<delta> i d'"
  then obtain r where r: "i = next_id d" "i \<notin> set ids" "ids \<noteq> []" "r_parent r = p" "delta_of e r = Some \<delta>"
    "d' = squashed r ids (r_level r) d" and fk: "fk_ok d'" unfolding db_folded_def by blast
  show "db_view e d i = None \<and> db_view e d' i = Some (p, \<delta>) \<and> ids \<noteq> []"
    using r by (auto simp: db_view_def squashed_lookup)
  have gone: "x \<in> set ids \<Longrightarrow> fmlookup (commits d') x = None" for x by (simp add: r(6) squashed_lookup)
  fix j q \<delta>j
  show "q \<notin> set ids" if "db_view e d' j = Some (Some q, \<delta>j)"
  proof -
    from that obtain row where "fmlookup (commits d') j = Some row" "r_parent row = Some q"
      by (auto simp: db_view_def split: option.splits)
    with fk_parent [OF fk] gone show ?thesis by blast
  qed
next
  fix d ids p \<delta> i d' j q \<delta>j
  assume "db_folded e d ids p \<delta> i d'" and j: "j \<notin> set ids" "db_view e d j = Some (q, \<delta>j)"
  then obtain r where r: "i = next_id d" "ids \<noteq> []" "d' = squashed r ids (r_level r) d" and fk: "fk_ok d'"
    unfolding db_folded_def by blast
  from j(2) obtain row where row: "fmlookup (commits d) j = Some row" "r_parent row = q" "delta_of e row = Some \<delta>j"
    by (auto simp: db_view_def split: option.splits)
  have "j \<noteq> i" using row(1) next_id_new [of d] r(1) by auto
  then have row': "fmlookup (commits d') j = Some (squashed_row i ids (r_level r) j row)"
    using r j(1) row(1) by (simp add: squashed_lookup)
  have "r_level row = r_level r" if "q = Some (last ids)"
  proof (rule ccontr)
    assume "r_level row \<noteq> r_level r"
    then have "r_parent (squashed_row i ids (r_level r) j row) = Some (last ids)" using that row(2) by simp
    from fk_parent [OF fk row' this] r(2) show False by (simp add: r(3) squashed_lookup)
  qed
  then show "db_view e d' j = Some (if q = Some (last ids) then Some i else q, \<delta>j)"
    using row' row \<open>j \<noteq> i\<close> by (auto simp: db_view_def)
qed

section \<open>The cache as an interface\<close>

locale state_memo =
  fixes get :: "commit_id \<Rightarrow> 'c \<Rightarrow> level_state option"
    and put :: "commit_id \<Rightarrow> level_state \<Rightarrow> 'c \<Rightarrow> 'c"
    and clear :: "'c \<Rightarrow> 'c"
  assumes get_put: "get i (put i s c) = Some s"
    and get_put_other: "get j (put i s c) = Some t \<Longrightarrow> j = i \<and> t = s \<or> get j c = Some t"
    and get_clear: "get j (clear c) = None"
begin

definition faithful :: "(commit_id \<Rightarrow> level_state \<Rightarrow> bool) \<Rightarrow> 'c \<Rightarrow> bool" where
  "faithful P c \<longleftrightarrow> (\<forall>i s. get i c = Some s \<longrightarrow> P i s)"

lemma faithful_put: "faithful P c \<Longrightarrow> P i s \<Longrightarrow> faithful P (put i s c)"
  using get_put_other unfolding faithful_def by blast

lemma faithful_clear: "faithful P (clear c)"
  by (simp add: faithful_def get_clear)

lemma faithful_mono: "faithful P c \<Longrightarrow> (\<And>i s. P i s \<Longrightarrow> Q i s) \<Longrightarrow> faithful Q c"
  by (auto simp: faithful_def)

lemma faithful_get: "faithful P c \<Longrightarrow> get i c = Some s \<Longrightarrow> P i s"
  by (simp add: faithful_def)

end

lemma cachePut_conn [simp]: "db_conn (cachePut i s svc) = db_conn svc" "cache_capacity (cachePut i s svc) = cache_capacity svc"
  by (simp_all add: cachePut_def Let_def split: option.split)

lemma clear_conn [simp]: "db_conn (clearReconstructCache svc) = db_conn svc"
  by (simp add: clearReconstructCache_def)

interpretation memo: state_memo cacheGet cachePut clearReconstructCache
  by unfold_locales (auto simp: cacheGet_def cachePut_def clearReconstructCache_def Let_def split: option.splits if_splits)

end
