(* ===== verification/Service_Spec.thy ===== *)
theory Service_Spec
  imports Commit_Log
begin

text \<open>
  What \<open>src/service/GitService.cpp\<close> promises: the invariant that ties the cache to the
  database, reconstruction under every schedule of failures, and the meaning of commit,
  checkout, revert and squash in terms of the states of commits.
\<close>

section \<open>The invariant\<close>

definition sound_db :: "'j service_env \<Rightarrow> db \<Rightarrow> bool" where
  "sound_db e d \<longleftrightarrow> fk_ok d \<and> ids_ok d \<and>
     (\<forall>i r. fmlookup (commits d) i = Some r \<longrightarrow> (\<exists>s. history (db_view e d) i s))"

text \<open>A cached state belongs to an identifier that was used, and while its commit exists is its state.\<close>

definition good_state :: "'j service_env \<Rightarrow> db \<Rightarrow> commit_id \<Rightarrow> level_state \<Rightarrow> bool" where
  "good_state e d i s \<longleftrightarrow> i \<le> autoinc d \<and> keyed s \<and>
     (fmlookup (commits d) i \<noteq> None \<longrightarrow> yields (db_view e d) i s)"

definition svc_ok :: "'j service_env \<Rightarrow> service \<Rightarrow> bool" where
  "svc_ok e svc \<longleftrightarrow> saved (db_conn svc) = None \<and> fk_on (db_conn svc) \<and> sound_db e (cdb (db_conn svc)) \<and>
     memo.faithful (good_state e (cdb (db_conn svc))) svc"

definition same_db :: "conn \<Rightarrow> conn \<Rightarrow> bool" where
  "same_db c c' \<longleftrightarrow> cdb c' = cdb c \<and> saved c' = saved c \<and> is_open c' = is_open c \<and> fk_on c' = fk_on c \<and>
     (faults c = [] \<longrightarrow> c' = c)"

lemma same_db_refl [simp]: "same_db c c" by (simp add: same_db_def)

lemma same_db_trans: "same_db a b \<Longrightarrow> same_db b c \<Longrightarrow> same_db a c"
  by (auto simp: same_db_def)

lemma same_db_get_row: "same_db c (snd (get_row z i c))"
  by (simp add: same_db_def get_row_frame) (simp add: get_row_def)

lemma same_db_getHead: "same_db c (snd (getHead lk c))"
  by (simp add: same_db_def getHead_def split_beta)

lemma svc_ok_conn: "svc_ok e svc \<Longrightarrow> same_db (db_conn svc) c \<Longrightarrow> svc_ok e (svc\<lparr>db_conn := c\<rparr>)"
  by (simp add: svc_ok_def same_db_def memo.faithful_def cacheGet_def)

lemma get_row_Some:
  assumes "get_row z i c = (Some r, c')"
  shows "\<exists>row. fmlookup (commits (cdb c)) i = Some row \<and> r = rowFromStatement z (i, row)"
proof -
  obtain f c1 where t: "tick c = (f, c1)" by fastforce
  with assms tick_pair [OF t] show ?thesis by (auto simp: get_row_def split: if_splits)
qed

lemma row_delta_any: "row_delta (rowFromStatement z (i, r)) = row_delta (rowFromStatement z (j, r))"
  by (simp add: rowFromStatement_def)

lemma row_simps [simp]:
  "row_id (rowFromStatement z (i, r)) = i" "row_parent (rowFromStatement z (i, r)) = r_parent r"
  "row_level (rowFromStatement z (i, r)) = c_str (r_level r)" "row_message (rowFromStatement z (i, r)) = c_str (r_message r)"
  by (simp_all add: rowFromStatement_def)

section \<open>Reconstruction\<close>

fun grounded :: "'j service_env \<Rightarrow> log_view \<Rightarrow> commit_id option \<Rightarrow> commit_row list \<Rightarrow> bool" where
  "grounded e V p [] \<longleftrightarrow> True"
| "grounded e V p (r # rows) \<longleftrightarrow>
     (\<exists>\<delta>. parseDelta (e_json e) (row_delta r) = Some \<delta> \<and> V (row_id r) = Some (p, \<delta>)) \<and>
     grounded e V (Some (row_id r)) rows"

definition tip :: "commit_id option \<Rightarrow> commit_row list \<Rightarrow> commit_id option" where
  "tip p rows = (if rows = [] then p else Some (row_id (last rows)))"

lemma grounded_snoc:
  "grounded e V p (rows @ [r]) \<longleftrightarrow> grounded e V p rows \<and>
     (\<exists>\<delta>. parseDelta (e_json e) (row_delta r) = Some \<delta> \<and> V (row_id r) = Some (tip p rows, \<delta>))"
  by (induction rows arbitrary: p) (auto simp: tip_def)

lemma tip_snoc [simp]: "tip p (rows @ [r]) = Some (row_id r)"
  by (simp add: tip_def)

lemma starts_parent: "starts V (Some p) s \<longleftrightarrow> keyed s \<and> yields V p s"
  by (simp add: starts_def)

lemma db_view_dom: "db_view e d i = Some x \<Longrightarrow> fmlookup (commits d) i \<noteq> None"
  by (auto simp: db_view_def split: option.splits)

lemma yields_dom: "yields (db_view e d) i s \<Longrightarrow> fmlookup (commits d) i \<noteq> None"
  unfolding yields_def using history_Some db_view_dom by metis

lemma replay_ok:
  assumes "grounded e (db_view e (cdb (db_conn svc))) p rows" and "starts (db_view e (cdb (db_conn svc))) p s" and "svc_ok e svc"
  shows "\<exists>s' svc'. replay e rows s svc = (Some s', svc') \<and> starts (db_view e (cdb (db_conn svc))) (tip p rows) s'
    \<and> svc_ok e svc' \<and> db_conn svc' = db_conn svc"
  using assms
proof (induction rows arbitrary: p s svc)
  case (Cons r rows)
  let ?V = "db_view e (cdb (db_conn svc))" and ?d = "cdb (db_conn svc)"
  from Cons.prems(1) obtain \<delta> where d: "parseDelta (e_json e) (row_delta r) = Some \<delta>" "?V (row_id r) = Some (p, \<delta>)"
    and rest: "grounded e ?V (Some (row_id r)) rows" by auto
  let ?s = "fst (apply_delta s \<delta>)"
  have y: "yields ?V (row_id r) ?s" by (rule yields_step [OF Cons.prems(2) d(2) refl])
  have k: "keyed ?s" using Cons.prems(2) keyed_apply_delta by (simp add: starts_def)
  have "row_id r \<le> autoinc ?d"
    using db_view_dom [OF d(2)] Cons.prems(3) by (auto simp: svc_ok_def sound_db_def ids_ok_def fmpred_iff)
  then have "good_state e ?d (row_id r) ?s" using y k by (simp add: good_state_def)
  then have ok: "svc_ok e (cachePut (row_id r) ?s svc)"
    using Cons.prems(3) by (simp add: svc_ok_def memo.faithful_put)
  have "\<exists>s' svc'. replay e rows ?s (cachePut (row_id r) ?s svc) = (Some s', svc')
      \<and> starts ?V (tip (Some (row_id r)) rows) s' \<and> svc_ok e svc' \<and> db_conn svc' = db_conn svc"
    using Cons.IH [of "cachePut (row_id r) ?s svc" "Some (row_id r)" ?s] rest y k ok by (simp add: starts_parent)
  then show ?case using d(1) by (auto simp: Let_def tip_def)
qed (simp add: tip_def)

lemma walk_chain_ok:
  assumes "\<forall>i s. fmlookup cch i = Some s \<longrightarrow> good_state e d i s"
    and "descends (db_view e d) cur n" and "cdb c = d"
  shows "\<exists>res c'. walk_chain (e_zlib e) cch cur chain c = Some (res, c') \<and> same_db c c' \<and>
    (faults c = [] \<and> is_open c \<longrightarrow> res \<noteq> None) \<and>
    (\<forall>chain' s. res = Some (chain', s) \<longrightarrow>
       (\<exists>path p. chain' = chain @ path \<and> grounded e (db_view e d) p (rev path) \<and> starts (db_view e d) p s \<and>
          tip p (rev path) = Some cur))"
  using assms(2,3)
proof (induction n arbitrary: cur chain c rule: nat_induct)
  case (0 cur chain c)
  from 0(1) obtain \<delta> where v: "db_view e d cur = Some (None, \<delta>)" by (auto elim: descendsE)
  then obtain row where row: "fmlookup (commits d) cur = Some row" "r_parent row = None" "delta_of e row = Some \<delta>"
    by (auto simp: db_view_def split: option.splits)
  let ?r = "rowFromStatement (e_zlib e) (cur, row)"
  show ?case
  proof (cases "fmlookup cch cur")
    case (Some s)
    with assms(1) row(1) have "yields (db_view e d) cur s" "keyed s" by (auto simp: good_state_def)
    then show ?thesis using Some by (subst walk_chain.simps) (auto simp: starts_parent tip_def intro!: exI [of _ "[]"] exI [of _ "Some cur"])
  next
    case None
    obtain res c1 where g: "get_row (e_zlib e) cur c = (res, c1)" by fastforce
    have s: "same_db c c1" using same_db_get_row [of c "e_zlib e" cur] g by simp
    show ?thesis
    proof (cases res)
      case None2: None
      have "\<not> (faults c = [] \<and> is_open c)" using g None2 0(2) row(1) by auto
      then show ?thesis using None None2 g s by (subst walk_chain.simps) auto
    next
      case (Some r)
      with get_row_Some g have "r = ?r" using 0(2) row(1) by fastforce
      then show ?thesis using None Some g s row v
        by (subst walk_chain.simps)
          (auto simp: starts_def tip_def delta_of_def row_delta_any [of _ cur row 0] intro!: exI [of _ "[?r]"] exI [of _ None])
    qed
  qed
next
  case (Suc n cur chain c)
  from Suc.prems(1) obtain q \<delta> where v: "db_view e d cur = Some (Some q, \<delta>)" and q: "descends (db_view e d) q n" by (auto elim: descendsE)
  then obtain row where row: "fmlookup (commits d) cur = Some row" "r_parent row = Some q" "delta_of e row = Some \<delta>"
    by (auto simp: db_view_def split: option.splits)
  let ?r = "rowFromStatement (e_zlib e) (cur, row)"
  show ?case
  proof (cases "fmlookup cch cur")
    case (Some s)
    with assms(1) row(1) have "yields (db_view e d) cur s" "keyed s" by (auto simp: good_state_def)
    then show ?thesis using Some by (subst walk_chain.simps) (auto simp: starts_parent tip_def intro!: exI [of _ "[]"] exI [of _ "Some cur"])
  next
    case None
    obtain res c1 where g: "get_row (e_zlib e) cur c = (res, c1)" by fastforce
    have s: "same_db c c1" using same_db_get_row [of c "e_zlib e" cur] g by simp
    show ?thesis
    proof (cases res)
      case None2: None
      have "\<not> (faults c = [] \<and> is_open c)" using g None2 Suc.prems(2) row(1) by auto
      then show ?thesis using None None2 g s by (subst walk_chain.simps) auto
    next
      case (Some r)
      with get_row_Some g have r: "r = ?r" using Suc.prems(2) row(1) by fastforce
      have w: "walk_chain (e_zlib e) cch cur chain c = walk_chain (e_zlib e) cch q (chain @ [?r]) c1"
        using None Some g r row(2) by (subst walk_chain.simps) simp
      have "cdb c1 = d" using s Suc.prems(2) by (simp add: same_db_def)
      from Suc.IH [OF q this, of "chain @ [?r]"] obtain res' c' where ih: "walk_chain (e_zlib e) cch q (chain @ [?r]) c1 = Some (res', c')"
        "same_db c1 c'" "faults c1 = [] \<and> is_open c1 \<longrightarrow> res' \<noteq> None"
        and path: "\<And>chain' s. res' = Some (chain', s) \<Longrightarrow> \<exists>path p. chain' = chain @ ?r # path \<and> grounded e (db_view e d) p (rev path)
           \<and> starts (db_view e d) p s \<and> tip p (rev path) = Some q"
        by auto
      have "faults c = [] \<and> is_open c \<longrightarrow> res' \<noteq> None" using ih(3) s by (auto simp: same_db_def)
      moreover have "\<exists>path p. chain' = chain @ path \<and> grounded e (db_view e d) p (rev path) \<and> starts (db_view e d) p s' \<and> tip p (rev path) = Some cur"
        if res': "res' = Some (chain', s')" for chain' s'
      proof -
        from path [OF res'] obtain path p where p: "chain' = chain @ ?r # path" "grounded e (db_view e d) p (rev path)"
          "starts (db_view e d) p s'" "tip p (rev path) = Some q" by blast
        have "grounded e (db_view e d) p (rev (?r # path))"
          using p v row(3) by (simp add: grounded_snoc delta_of_def row_delta_any [of _ cur row 0])
        with p show ?thesis by (intro exI [of _ "?r # path"] exI [of _ p]) simp
      qed
      ultimately show ?thesis unfolding w using ih(1) same_db_trans [OF s ih(2)] by blast
    qed
  qed
qed

text \<open>Reconstruction of any identifier returns; what it returns is the state of the commit.\<close>

lemma reconstruct_ok:
  assumes "svc_ok e svc"
  shows "\<exists>res svc'. reconstruct e i svc = Some (res, svc') \<and> svc_ok e svc' \<and> same_db (db_conn svc) (db_conn svc')
    \<and> (\<forall>s. res = Some s \<longrightarrow> keyed s \<and> (fmlookup (commits (cdb (db_conn svc))) i \<noteq> None \<longrightarrow> yields (db_view e (cdb (db_conn svc))) i s))
    \<and> (faults (db_conn svc) = [] \<and> is_open (db_conn svc) \<and> fmlookup (commits (cdb (db_conn svc))) i \<noteq> None \<longrightarrow> res \<noteq> None)"
proof (cases "cacheGet i svc")
  case (Some s)
  moreover from this assms have "good_state e (cdb (db_conn svc)) i s"
    using memo.faithful_get unfolding svc_ok_def by blast
  ultimately show ?thesis using assms by (auto simp: reconstruct_def good_state_def)
next
  case miss: None
  let ?c = "db_conn svc" and ?d = "cdb (db_conn svc)"
  show ?thesis
  proof (cases "fmlookup (commits ?d) i")
    case None
    obtain res c1 where g: "get_row (e_zlib e) i ?c = (res, c1)" by fastforce
    have "res = None" using get_row_Some g None by (cases res) fastforce+
    then have "walk_chain (e_zlib e) (state_cache svc) i [] ?c = Some (None, c1)"
      using miss g by (subst walk_chain.simps) (simp add: cacheGet_def)
    moreover have s: "same_db ?c c1" using same_db_get_row [of ?c "e_zlib e" i] g by simp
    ultimately show ?thesis using miss None svc_ok_conn [OF assms s] by (simp add: reconstruct_def)
  next
    case (Some row)
    have good: "\<forall>i s. fmlookup (state_cache svc) i = Some s \<longrightarrow> good_state e ?d i s"
      using assms by (simp add: svc_ok_def memo.faithful_def cacheGet_def)
    have hist: "\<And>i r. fmlookup (commits ?d) i = Some r \<Longrightarrow> \<exists>s. history (db_view e ?d) i s"
      using assms by (auto simp: svc_ok_def sound_db_def)
    obtain n where "descends (db_view e ?d) i n" using hist [OF Some] history_descends by blast
    from walk_chain_ok [OF good this refl, where chain = "[]"] obtain res c1 where
      w: "walk_chain (e_zlib e) (state_cache svc) i [] ?c = Some (res, c1)" "same_db ?c c1"
        "faults ?c = [] \<and> is_open ?c \<longrightarrow> res \<noteq> None"
      and path: "\<And>chain s. res = Some (chain, s) \<Longrightarrow> \<exists>p. grounded e (db_view e ?d) p (rev chain) \<and> starts (db_view e ?d) p s
           \<and> tip p (rev chain) = Some i" by auto
    let ?svc = "svc\<lparr>db_conn := c1\<rparr>"
    have ok: "svc_ok e ?svc" using svc_ok_conn [OF assms w(2)] .
    have d1: "cdb c1 = ?d" using w(2) by (simp add: same_db_def)
    show ?thesis
    proof (cases res)
      case None2: None
      then show ?thesis using miss w ok by (auto simp: reconstruct_def)
    next
      case Some2: (Some cs)
      obtain chain s where cs: "cs = (chain, s)" by fastforce
      from path Some2 cs obtain p where p: "grounded e (db_view e ?d) p (rev chain)" "starts (db_view e ?d) p s" "tip p (rev chain) = Some i" by blast
      from replay_ok [of e ?svc p "rev chain" s] p ok d1 obtain s' svc' where
        r: "replay e (rev chain) s ?svc = (Some s', svc')" "starts (db_view e ?d) (Some i) s'" "svc_ok e svc'" "db_conn svc' = c1" by auto
      then show ?thesis using miss w Some2 cs by (auto simp: reconstruct_def starts_parent)
    qed
  qed
qed

section \<open>Adding a commit\<close>

lemma delta_of_new:
  assumes "env_ok e" and "compressBlob (e_zlib e) (dump e \<delta>) (- 1) = Some stored"
  shows "delta_of e (new_row lk p rv msg now stored) = Some \<delta>"
proof -
  have "decompressBlob (e_zlib e) stored = Some (dump e \<delta>)"
    using assms decompress_compress by (auto simp: env_ok_def)
  moreover have "parseDelta (e_json e) (dump e \<delta>) = Some \<delta>"
    using assms(1) parse_dump_delta by (auto simp: env_ok_def dump_def)
  ultimately show ?thesis
    using compressBlob_nonempty [OF assms(2)] by (simp add: delta_of_def rowFromStatement_def new_row_def)
qed

lemma apply_diff_states:
  assumes "env_ok e" and "keyed a" and "keyed b"
  shows "norm_state (fst (apply_delta a (diff_states e a b))) = norm_state b"
  using assms apply_diff by (simp add: diff_states_def env_ok_def hash_order_def)

text \<open>What one new commit does to the database and to the states of commits.\<close>

definition commit_added :: "'j service_env \<Rightarrow> db \<Rightarrow> level_key \<Rightarrow> commit_id option \<Rightarrow> commit_id \<Rightarrow> level_state \<Rightarrow> db \<Rightarrow> bool" where
  "commit_added e d lk p i s d' \<longleftrightarrow>
     autoinc d < i \<and> autoinc d' = i \<and> meta_version d' = meta_version d \<and> fmlookup (commits d) i = None \<and>
     (\<exists>r. fmlookup (commits d') i = Some r \<and> r_level r = lk \<and> r_parent r = p) \<and>
     fmlookup (refs d') lk = Some i \<and>
     (\<forall>l. l \<noteq> lk \<longrightarrow> fmlookup (refs d') l = fmlookup (refs d) l) \<and>
     (\<forall>j. j \<noteq> i \<longrightarrow> fmlookup (commits d') j = fmlookup (commits d) j) \<and>
     yields (db_view e d') i s \<and>
     (\<forall>j t. history (db_view e d) j t \<longrightarrow> history (db_view e d') j t)"

lemma good_state_mono:
  assumes "good_state e d j t" and "autoinc d \<le> autoinc d'"
    and "\<And>j r. fmlookup (commits d') j = Some r \<Longrightarrow> j \<le> autoinc d \<Longrightarrow> fmlookup (commits d) j \<noteq> None"
    and "\<And>j t. yields (db_view e d) j t \<Longrightarrow> fmlookup (commits d') j \<noteq> None \<Longrightarrow> yields (db_view e d') j t"
  shows "good_state e d' j t"
proof -
  have "yields (db_view e d') j t" if "fmlookup (commits d') j \<noteq> None"
  proof -
    from that assms(1,3) have "fmlookup (commits d) j \<noteq> None" by (auto simp: good_state_def)
    with assms(1) have "yields (db_view e d) j t" by (simp add: good_state_def)
    then show ?thesis using assms(4) that by blast
  qed
  with assms(1,2) show ?thesis by (auto simp: good_state_def)
qed

lemma insert_uncached_ok:
  assumes e: "env_ok e" and ok: "svc_ok e svc"
    and base: "starts (db_view e (cdb (db_conn svc))) p b" and "keyed s"
    and comb: "norm_state (fst (apply_delta b \<delta>)) = norm_state s"
    and ins: "insertAndSetHead (e_zlib e) now lk p rv msg (dump e \<delta>) (db_conn svc) = (Inr i, c')"
  shows "svc_ok e (svc\<lparr>db_conn := c'\<rparr>) \<and> good_state e (cdb c') i s \<and> commit_added e (cdb (db_conn svc)) lk p i s (cdb c')"
proof -
  let ?d = "cdb (db_conn svc)" and ?d' = "cdb c'"
  from ok have sv: "saved (db_conn svc) = None" "fk_on (db_conn svc)" "sound_db e ?d" by (simp_all add: svc_ok_def)
  from insertAndSetHead_Inr [OF ins sv(1)] obtain stored where st: "compressBlob (e_zlib e) (dump e \<delta>) (- 1) = Some stored"
    and i: "i = next_id ?d" and d': "?d' = committed (new_row lk p rv msg now stored) ?d"
    and fr: "saved c' = None" "fk_on c'" "fk_ok ?d'" using sv(2) by blast
  let ?row = "new_row lk p rv msg now stored"
  have app: "db_appended e ?d p \<delta> i ?d'"
    unfolding db_appended_def using i d' delta_of_new [OF e st, of lk p rv msg now]
    by (intro exI [of _ ?row]) (simp add: new_row_def)
  note new = db_log.append [OF app]
  have y: "yields (db_view e ?d') i s" by (rule db_log.append_new [OF app base comb])
  have keep: "history (db_view e ?d) j t \<Longrightarrow> history (db_view e ?d') j t" for j t
    by (rule db_log.append_keeps [OF app])
  have look: "fmlookup (commits ?d') j = (if j = i then Some ?row else fmlookup (commits ?d) j)" for j
    by (simp add: d' i committed_def inserted_def)
  have fresh: "autoinc ?d < i" "autoinc ?d' = i"
    using autoinc_next_id [of ?d] by (simp_all add: i d' committed_def inserted_def)
  have added: "commit_added e ?d lk p i s ?d'"
    using y keep i fresh by (auto simp: commit_added_def look) (simp_all add: d' committed_def new_row_def i inserted_def)
  have ids: "ids_ok ?d'" using sv(3) ids_ok_committed by (simp add: d' sound_db_def)
  have "\<exists>s. history (db_view e ?d') j s" if "fmlookup (commits ?d') j = Some r" for j r
  proof (cases "j = i")
    case True
    then show ?thesis using y by (auto simp: yields_def)
  next
    case False
    with that look sv(3) show ?thesis using keep unfolding sound_db_def by metis
  qed
  then have sound: "sound_db e ?d'" using ids fr(3) by (simp add: sound_db_def)
  have auto_le: "autoinc ?d \<le> autoinc ?d'" "autoinc ?d < i" "i \<le> autoinc ?d'"
    using autoinc_next_id [of ?d] by (simp_all add: d' committed_def inserted_def i)
  have "memo.faithful (good_state e ?d) (svc\<lparr>db_conn := c'\<rparr>)"
    using ok by (simp add: svc_ok_def memo.faithful_def cacheGet_def)
  then have "memo.faithful (good_state e ?d') (svc\<lparr>db_conn := c'\<rparr>)"
  proof (rule memo.faithful_mono)
    fix j t assume "good_state e ?d j t"
    then show "good_state e ?d' j t"
      by (rule good_state_mono) (use auto_le look in \<open>auto simp: yields_def intro: keep split: if_splits\<close>)
  qed
  moreover have "good_state e ?d' i s" using y \<open>keyed s\<close> auto_le by (simp add: good_state_def)
  ultimately show ?thesis using added fr sound by (simp add: svc_ok_def)
qed

lemma insert_ok:
  assumes "env_ok e" and "svc_ok e svc" and "starts (db_view e (cdb (db_conn svc))) p b" and "keyed s"
    and "norm_state (fst (apply_delta b \<delta>)) = norm_state s"
    and "insertAndSetHead (e_zlib e) now lk p rv msg (dump e \<delta>) (db_conn svc) = (Inr i, c')"
  shows "svc_ok e (cachePut i s (svc\<lparr>db_conn := c'\<rparr>)) \<and> commit_added e (cdb (db_conn svc)) lk p i s (cdb c')"
  using insert_uncached_ok [OF assms] memo.faithful_put by (simp add: svc_ok_def)

lemma insert_failed:
  assumes "svc_ok e svc" and "insertAndSetHead (e_zlib e) now lk p rv msg blob (db_conn svc) = (Inl err, c')"
  shows "svc_ok e (svc\<lparr>db_conn := c'\<rparr>) \<and> cdb c' = cdb (db_conn svc)"
proof -
  have "saved (db_conn svc) = None" using assms(1) by (simp add: svc_ok_def)
  from insertAndSetHead_Inl [OF assms(2) this] assms(1) show ?thesis
    by (simp add: svc_ok_def memo.faithful_def cacheGet_def)
qed

end
