(* ===== verification/Service_Ops.thy ===== *)
theory Service_Ops
  imports Service_Spec
begin

text \<open>
  The operations of \<open>src/service/GitService.cpp\<close> against the meaning of commits: each keeps
  the invariant of the service, leaves the database as it was when it reports an error, and
  on success adds the commit it promises.
\<close>

section \<open>Identified levels\<close>

lemma claim_keyed: "keyed_table (rebuilt s) \<Longrightarrow> keyed_table (rebuilt (claim ob m s))"
  by (auto simp: claim_def keyed_table_def fmpred_iff split: if_splits)

lemma match_fingerprint_rebuilt: "match_fingerprint oob ob s = (m, s') \<Longrightarrow> rebuilt s' = rebuilt s"
  by (auto simp: match_fingerprint_def Let_def split: option.splits prod.splits)

lemma assign_step_keyed:
  assumes "assign_step oob prev grid ob s = Some s'" and "keyed_table (rebuilt s)"
  shows "keyed_table (rebuilt s')"
proof -
  obtain m s1 where m: "match_fingerprint oob ob s = (m, s1)" by fastforce
  have "keyed_table (rebuilt s1)" using match_fingerprint_rebuilt [OF m] assms(2) by simp
  with assms(1) m show ?thesis
    by (auto simp: assign_step_def Let_def split: if_splits option.splits intro!: claim_keyed)
qed

lemma assign_loop_keyed:
  "assign_loop oob prev grid obs s = Some s' \<Longrightarrow> keyed_table (rebuilt s) \<Longrightarrow> keyed_table (rebuilt s')"
  by (induction obs arbitrary: s) (auto split: option.splits intro: assign_step_keyed)

lemma assignFresh_keyed:
  "assignFresh_loop ks objs ds tab = Some (tab', ds') \<Longrightarrow> keyed_table tab \<Longrightarrow> keyed_table tab'"
proof (induction ks arbitrary: ds tab)
  case (Cons k ks)
  have "keyed_table (emplace v (ob\<lparr>uuid := v\<rparr>) tab)" for v ob
    using Cons.prems(2) by (auto simp: keyed_table_def fmpred_iff split: if_splits)
  with Cons show ?case by (auto split: option.splits prod.splits)
qed simp

lemma assignFreshUuids_keyed: "assignFreshUuids ord st ds = Some (st', ds') \<Longrightarrow> keyed st'"
  using assignFresh_keyed [of ord "objects st" ds fmempty]
  by (auto simp: assignFreshUuids_def keyed_def keyed_table_def split: option.splits prod.splits)

lemma assignUuids_keyed:
  assumes "assignUuids oob ord prev inc ds = Some (st', ds', sts)"
  shows "keyed st'"
proof (cases "objects prev = fmempty")
  case True
  with assms assignFreshUuids_keyed show ?thesis by (auto simp: assignUuids_def split: option.splits prod.splits)
next
  case False
  let ?s = "\<lparr>buckets = build_buckets oob prev, claimed = [], rebuilt = fmempty, draws = ds, stats = zero_stats\<rparr>"
  have "keyed_table (rebuilt ?s)" by (simp add: keyed_table_def)
  with assms False assign_loop_keyed [of oob prev _ _ ?s] show ?thesis
    by (auto simp: assignUuids_def keyed_def keyed_table_def split: option.splits)
qed

lemma identify_keyed: "identify e h live ds = Some (st, ds') \<Longrightarrow> keyed st"
  using assignFreshUuids_keyed assignUuids_keyed
  by (auto simp: identify_def Let_def split: option.splits prod.splits)

section \<open>Sequencing\<close>

definition step_ok :: "'j service_env \<Rightarrow> service \<Rightarrow> service \<Rightarrow> bool" where
  "step_ok e svc svc' \<longleftrightarrow> svc_ok e svc' \<and> same_db (db_conn svc) (db_conn svc')"

lemma step_ok_db: "step_ok e svc svc' \<Longrightarrow> cdb (db_conn svc') = cdb (db_conn svc)"
  by (simp add: step_ok_def same_db_def)

lemma step_ok_trans: "step_ok e a b \<Longrightarrow> step_ok e b c \<Longrightarrow> step_ok e a c"
  unfolding step_ok_def using same_db_trans by blast

lemma step_ok_conn: "svc_ok e svc \<Longrightarrow> same_db (db_conn svc) c \<Longrightarrow> step_ok e svc (svc\<lparr>db_conn := c\<rparr>)"
  by (simp add: step_ok_def svc_ok_conn)

lemma step_ok_refl: "svc_ok e svc \<Longrightarrow> step_ok e svc svc"
  by (simp add: step_ok_def)

definition state_of :: "'j service_env \<Rightarrow> db \<Rightarrow> commit_id \<Rightarrow> level_state \<Rightarrow> bool" where
  "state_of e d i s \<longleftrightarrow> keyed s \<and> (fmlookup (commits d) i \<noteq> None \<longrightarrow> yields (db_view e d) i s)"

lemma state_of_starts:
  "state_of e d i s \<Longrightarrow> fmlookup (commits d) i \<noteq> None \<Longrightarrow> starts (db_view e d) (Some i) s"
  by (simp add: state_of_def starts_parent)

lemma after_reconstruct_Some:
  assumes "after_reconstruct e i svc k = Some r" and "svc_ok e svc"
  shows "\<exists>res svc1. k res svc1 = Some r \<and> step_ok e svc svc1 \<and>
    (\<forall>s. res = Some s \<longrightarrow> state_of e (cdb (db_conn svc)) i s) \<and>
    (faults (db_conn svc) = [] \<and> is_open (db_conn svc) \<and> fmlookup (commits (cdb (db_conn svc))) i \<noteq> None \<longrightarrow> res \<noteq> None)"
proof -
  from reconstruct_ok [OF assms(2), of i] obtain res svc1 where
    r: "reconstruct e i svc = Some (res, svc1)" "svc_ok e svc1" "same_db (db_conn svc) (db_conn svc1)"
    and s: "\<forall>s. res = Some s \<longrightarrow> keyed s \<and> (fmlookup (commits (cdb (db_conn svc))) i \<noteq> None \<longrightarrow> yields (db_view e (cdb (db_conn svc))) i s)"
      "faults (db_conn svc) = [] \<and> is_open (db_conn svc) \<and> fmlookup (commits (cdb (db_conn svc))) i \<noteq> None \<longrightarrow> res \<noteq> None"
    by blast
  with assms(1) have "k res svc1 = Some r" by (simp add: after_reconstruct_def)
  with r s show ?thesis by (intro exI [of _ res] exI [of _ svc1]) (simp add: step_ok_def state_of_def)
qed

lemma getHead_Some:
  assumes "getHead lk c = (Some h, c')"
  shows "fmlookup (refs (cdb c)) lk = Some h"
proof -
  obtain f c1 where t: "tick c = (f, c1)" by fastforce
  with assms tick_pair [OF t] show ?thesis by (auto simp: getHead_def split: if_splits)
qed

lemma getHead_step: "getHead lk (db_conn svc) = (h, c) \<Longrightarrow> svc_ok e svc \<Longrightarrow> step_ok e svc (svc\<lparr>db_conn := c\<rparr>)"
  using same_db_getHead [of "db_conn svc" lk] by (auto intro: step_ok_conn)

lemma get_row_step: "get_row z i (db_conn svc) = (r, c) \<Longrightarrow> svc_ok e svc \<Longrightarrow> step_ok e svc (svc\<lparr>db_conn := c\<rparr>)"
  using same_db_get_row [of "db_conn svc" z i] by (auto intro: step_ok_conn)

lemma head_exists:
  "svc_ok e svc \<Longrightarrow> fmlookup (refs (cdb (db_conn svc))) lk = Some h \<Longrightarrow> fmlookup (commits (cdb (db_conn svc))) h \<noteq> None"
  unfolding svc_ok_def sound_db_def using fk_head by blast

lemma parent_exists:
  "svc_ok e svc \<Longrightarrow> fmlookup (commits (cdb (db_conn svc))) i = Some r \<Longrightarrow> r_parent r = Some p \<Longrightarrow>
     fmlookup (commits (cdb (db_conn svc))) p \<noteq> None"
  unfolding svc_ok_def sound_db_def using fk_parent by blast

section \<open>Commit\<close>

lemma record_commit_ok:
  assumes e: "env_ok e" and ok: "svc_ok e svc" and k: "keyed incoming"
    and base: "starts (db_view e (cdb (db_conn svc))) parent (case headState of None \<Rightarrow> empty_state | Some h \<Rightarrow> h)"
    and r: "record_commit e now lk msg parent headState incoming svc = (res, svc')"
  shows "svc_ok e svc' \<and>
    (case res of
       Inl err \<Rightarrow> cdb (db_conn svc') = cdb (db_conn svc)
     | Inr i \<Rightarrow> commit_added e (cdb (db_conn svc)) lk parent i incoming (cdb (db_conn svc')))"
proof -
  let ?b = "case headState of None \<Rightarrow> empty_state | Some h \<Rightarrow> h"
  let ?\<delta> = "diff_states e ?b incoming"
  have "keyed ?b" using base by (simp add: starts_def)
  then have comb: "norm_state (fst (apply_delta ?b ?\<delta>)) = norm_state incoming"
    using apply_diff_states [OF e] k by blast
  obtain x c where ins: "insertAndSetHead (e_zlib e) now lk parent None msg (dump e ?\<delta>) (db_conn svc) = (x, c)" by fastforce
  show ?thesis
  proof (cases x)
    case (Inl err)
    from insert_failed [OF ok ins [unfolded Inl]] ins Inl r show ?thesis
      by (auto simp: record_commit_def Let_def)
  next
    case (Inr i)
    from insert_ok [OF e ok base k comb ins [unfolded Inr]] ins Inr r show ?thesis
      by (auto simp: record_commit_def Let_def)
  qed
qed

text \<open>\<open>committed_as\<close>: the outcome of an operation that adds a commit with state \<open>s\<close>.\<close>

lemma git_commit_ok:
  assumes e: "env_ok e" and ok: "svc_ok e svc" and run: "git_commit e now lk msg live ds svc = Some (res, svc')"
  shows "svc_ok e svc' \<and>
    (case res of
       Inl err \<Rightarrow> cdb (db_conn svc') = cdb (db_conn svc)
     | Inr i \<Rightarrow> \<exists>parent h incoming ds'. identify e h live ds = Some (incoming, ds') \<and>
         (parent = None \<and> h = None \<or>
          (\<exists>p s. parent = Some p \<and> h = Some s \<and> fmlookup (refs (cdb (db_conn svc))) lk = Some p \<and>
             yields (db_view e (cdb (db_conn svc))) p s)) \<and>
         commit_added e (cdb (db_conn svc)) lk parent i incoming (cdb (db_conn svc')))"
proof -
  obtain parent c where g: "getHead lk (db_conn svc) = (parent, c)" by fastforce
  let ?svc1 = "svc\<lparr>db_conn := c\<rparr>"
  have s1: "step_ok e svc ?svc1" by (rule getHead_step [OF g ok])
  show ?thesis
  proof (cases parent)
    case None
    from run g None obtain incoming ds' where inc: "identify e None live ds = Some (incoming, ds')"
      and rec: "record_commit e now lk msg None None incoming ?svc1 = (res, svc')"
      by (auto simp: git_commit_def split: option.splits)
    have st: "starts (db_view e (cdb (db_conn ?svc1))) None (case None of None \<Rightarrow> empty_state | Some h \<Rightarrow> h)"
      by (simp add: starts_def)
    from record_commit_ok [OF e _ identify_keyed [OF inc] st rec] s1 step_ok_db [OF s1] inc show ?thesis
      by (auto simp: step_ok_def split: sum.splits)
  next
    case (Some p)
    have hd: "fmlookup (refs (cdb (db_conn svc))) lk = Some p" using getHead_Some g Some by simp
    from run g Some obtain hs svc2 where k: "(case hs of None \<Rightarrow> Some (Inl ErrReconstruct, svc2)
        | Some h \<Rightarrow> (case identify e (Some h) live ds of None \<Rightarrow> None
            | Some (incoming, _) \<Rightarrow> Some (record_commit e now lk msg (Some p) (Some h) incoming svc2))) = Some (res, svc')"
      and s2: "step_ok e ?svc1 svc2" and hs: "\<forall>s. hs = Some s \<longrightarrow> state_of e (cdb (db_conn ?svc1)) p s"
      using after_reconstruct_Some [of e p ?svc1 _ "(res, svc')"] s1 by (fastforce simp: git_commit_def step_ok_def)
    have s12: "step_ok e svc svc2" by (rule step_ok_trans [OF s1 s2])
    show ?thesis
    proof (cases hs)
      case None
      with k s12 step_ok_db [OF s12] show ?thesis by (auto simp: step_ok_def)
    next
      case (Some h)
      with k obtain incoming ds' where inc: "identify e (Some h) live ds = Some (incoming, ds')"
        and rec: "record_commit e now lk msg (Some p) (Some h) incoming svc2 = (res, svc')"
        by (auto split: option.splits)
      have so: "state_of e (cdb (db_conn svc)) p h" using hs Some step_ok_db [OF s1] by simp
      then have sp: "starts (db_view e (cdb (db_conn svc))) (Some p) h"
        using head_exists [OF ok hd] by (intro state_of_starts)
      have "starts (db_view e (cdb (db_conn svc2))) (Some p) (case Some h of None \<Rightarrow> empty_state | Some h \<Rightarrow> h)"
        using sp step_ok_db [OF s12] by simp
      from record_commit_ok [OF e _ identify_keyed [OF inc] this rec] s12 step_ok_db [OF s12] inc hd sp show ?thesis
        by (auto simp: step_ok_def starts_parent split: sum.splits
            intro!: exI [of _ "Some p"] exI [of _ "Some h"] exI [of _ incoming])
    qed
  qed
qed

section \<open>Checkout and revert\<close>

text \<open>A pending update of the HEAD that records the way from the HEAD's state to \<open>s\<close>.\<close>

definition leads_to :: "'j service_env \<Rightarrow> service \<Rightarrow> level_key \<Rightarrow> level_state \<Rightarrow> pending_head \<Rightarrow> bool" where
  "leads_to e svc lk s p \<longleftrightarrow>
     (\<exists>h b msg rv. p = head_update lk h rv msg (dump e (diff_states e b s)) \<and> keyed s \<and>
        fmlookup (refs (cdb (db_conn svc))) lk = Some h \<and> starts (db_view e (cdb (db_conn svc))) (Some h) b)"

lemma finalizeCheckout_ok:
  assumes e: "env_ok e" and ok: "svc_ok e svc" and p: "leads_to e svc lk s p"
    and fin: "finalizeCheckout e now p s svc = (res, svc')"
  shows "svc_ok e svc' \<and>
    (case res of
       Inl err \<Rightarrow> cdb (db_conn svc') = cdb (db_conn svc)
     | Inr i \<Rightarrow> \<exists>h. fmlookup (refs (cdb (db_conn svc))) lk = Some h \<and>
         commit_added e (cdb (db_conn svc)) lk (Some h) i s (cdb (db_conn svc')))"
proof -
  from p obtain h b msg rv where ph: "p = head_update lk h rv msg (dump e (diff_states e b s))" "keyed s"
    "fmlookup (refs (cdb (db_conn svc))) lk = Some h" "starts (db_view e (cdb (db_conn svc))) (Some h) b"
    unfolding leads_to_def by blast
  have "keyed b" using ph(4) by (simp add: starts_def)
  then have comb: "norm_state (fst (apply_delta b (diff_states e b s))) = norm_state s"
    using apply_diff_states [OF e] ph(2) by blast
  obtain x c where ins: "insertAndSetHead (e_zlib e) now lk (Some h) (Some rv) msg (dump e (diff_states e b s)) (db_conn svc) = (x, c)"
    by fastforce
  show ?thesis
  proof (cases x)
    case (Inl err)
    from insert_failed [OF ok ins [unfolded Inl]] ins Inl fin ph(1) show ?thesis
      by (auto simp: finalizeCheckout_def head_update_def)
  next
    case (Inr i)
    from insert_ok [OF e ok ph(4,2) comb ins [unfolded Inr]] ins Inr fin ph(1,3) show ?thesis
      by (auto simp: finalizeCheckout_def head_update_def)
  qed
qed

text \<open>The contract of a preparing half: the database stays, and a pending update is correct.\<close>

definition prepares :: "'j service_env \<Rightarrow> service \<Rightarrow> level_key \<Rightarrow> ('t \<Rightarrow> level_state) \<Rightarrow> ('t \<Rightarrow> bool) \<Rightarrow>
    ('t, pending_head) prepared \<Rightarrow> service \<Rightarrow> bool" where
  "prepares e svc lk st Q p svc' \<longleftrightarrow> step_ok e svc svc' \<and>
     (\<forall>v. outcome p = Inr v \<longrightarrow> Q v \<and> (\<forall>ph. pending p = Some ph \<longrightarrow> leads_to e svc' lk (st v) ph))"

lemma refuse_prepares: "step_ok e svc svc1 \<Longrightarrow> refuse err svc1 = Some (p, svc') \<Longrightarrow> prepares e svc lk st Q p svc'"
  by (auto simp: refuse_def prepares_def)

lemma run_head_update_ok:
  assumes e: "env_ok e" and prep: "prepares e svc lk st Q p svc1"
    and run: "run_head_update e now st (Some (p, svc1)) = Some (res, svc')"
  shows "svc_ok e svc' \<and>
    (case res of
       Inl err \<Rightarrow> cdb (db_conn svc') = cdb (db_conn svc)
     | Inr (v, None) \<Rightarrow> cdb (db_conn svc') = cdb (db_conn svc) \<and> Q v
     | Inr (v, Some i) \<Rightarrow> Q v \<and> (\<exists>h. fmlookup (refs (cdb (db_conn svc))) lk = Some h \<and>
         commit_added e (cdb (db_conn svc)) lk (Some h) i (st v) (cdb (db_conn svc'))))"
proof -
  have s1: "svc_ok e svc1" "cdb (db_conn svc1) = cdb (db_conn svc)"
    using prep step_ok_db by (auto simp: prepares_def step_ok_def)
  show ?thesis
  proof (cases "outcome p")
    case (Inl err)
    then show ?thesis using run s1 by (auto simp: run_head_update_def)
  next
    case (Inr v)
    with prep have Q: "Q v" "\<And>ph. pending p = Some ph \<Longrightarrow> leads_to e svc1 lk (st v) ph" by (simp_all add: prepares_def)
    show ?thesis
    proof (cases "pending p")
      case None
      then show ?thesis using run s1 Inr Q by (auto simp: run_head_update_def)
    next
      case (Some ph)
      obtain r svc2 where f: "finalizeCheckout e now ph (st v) svc1 = (r, svc2)" by fastforce
      from finalizeCheckout_ok [OF e s1(1) Q(2) [OF Some] f] run Inr Some f Q(1) s1(2) show ?thesis
        by (cases r) (auto simp: run_head_update_def)
    qed
  qed
qed

lemma step_ok_parts: "step_ok e svc svc1 \<Longrightarrow> svc_ok e svc1 \<and> cdb (db_conn svc1) = cdb (db_conn svc)"
  using step_ok_db by (simp add: step_ok_def)

lemma leads_to_head:
  assumes "svc_ok e svc" and "step_ok e svc svc'" and "fmlookup (refs (cdb (db_conn svc))) lk = Some h"
    and "state_of e (cdb (db_conn svc)) h b" and "keyed s"
  shows "leads_to e svc' lk s (head_update lk h rv msg (dump e (diff_states e b s)))"
proof -
  have "starts (db_view e (cdb (db_conn svc))) (Some h) b"
    by (rule state_of_starts [OF assms(4) head_exists [OF assms(1,3)]])
  then show ?thesis using assms(3,5) step_ok_db [OF assms(2)] unfolding leads_to_def
    by (intro exI [of _ h] exI [of _ b] exI [of _ msg] exI [of _ rv]) simp
qed

lemma checkout_plan_ok:
  assumes ok: "svc_ok e svc" and s: "step_ok e svc svc1" and h: "fmlookup (refs (cdb (db_conn svc))) lk = Some hid"
    and hs: "\<forall>s. hs = Some s \<longrightarrow> state_of e (cdb (db_conn svc)) hid s"
    and ts: "\<forall>s. ts = Some s \<longrightarrow> state_of e (cdb (db_conn svc)) target s"
    and run: "checkout_plan e lk hid target hs ts svc1 = Some (p, svc')"
  shows "prepares e svc lk (\<lambda>st. st) (state_of e (cdb (db_conn svc)) target) p svc'"
proof (cases "hs = None \<or> ts = None")
  case True
  with run have "refuse ErrReconstruct svc1 = Some (p, svc')" by (auto simp: checkout_plan_def split: option.splits)
  then show ?thesis by (rule refuse_prepares [OF s])
next
  case False
  then obtain h1 t1 where ht: "hs = Some h1" "ts = Some t1" by auto
  obtain row c2 where row: "get_row (e_zlib e) target (db_conn svc1) = (row, c2)" by fastforce
  let ?svc2 = "svc1\<lparr>db_conn := c2\<rparr>"
  have s2: "step_ok e svc ?svc2" using step_ok_trans [OF s get_row_step [OF row]] step_ok_parts [OF s] by blast
  have lead: "leads_to e ?svc2 lk t1 (head_update lk hid target msg (dump e (diff_states e h1 t1)))" for msg
    using hs ts ht by (intro leads_to_head [OF ok s2 h]) (simp_all add: state_of_def)
  show ?thesis
  proof (cases "\<exists>r. row = Some r \<and> row_level r \<noteq> lk")
    case True
    with run ht row have "refuse ErrOtherLevel ?svc2 = Some (p, svc')" by (auto simp: checkout_plan_def Let_def)
    then show ?thesis by (rule refuse_prepares [OF s2])
  next
    case False
    with run ht row obtain msg where "svc' = ?svc2"
      "p = \<lparr>outcome = Inr t1, pending = Some (head_update lk hid target msg (dump e (diff_states e h1 t1)))\<rparr>"
      by (auto simp: checkout_plan_def Let_def split: option.splits if_splits)
    with lead s2 ts ht show ?thesis by (auto simp: prepares_def)
  qed
qed

lemma prepareCheckout_ok:
  assumes ok: "svc_ok e svc" and run: "prepareCheckout e lk target svc = Some (p, svc')"
  shows "prepares e svc lk (\<lambda>st. st) (state_of e (cdb (db_conn svc)) target) p svc'"
proof -
  let ?d = "cdb (db_conn svc)"
  obtain h c where g: "getHead lk (db_conn svc) = (h, c)" by fastforce
  let ?svc1 = "svc\<lparr>db_conn := c\<rparr>"
  have s1: "step_ok e svc ?svc1" by (rule getHead_step [OF g ok])
  note ok1 = step_ok_parts [OF s1]
  show ?thesis
  proof (cases h)
    case None
    with run g have "refuse ErrNoHead ?svc1 = Some (p, svc')" by (simp add: prepareCheckout_def)
    then show ?thesis by (rule refuse_prepares [OF s1])
  next
    case (Some hid)
    have hd: "fmlookup (refs ?d) lk = Some hid" using getHead_Some g Some by simp
    show ?thesis
    proof (cases "hid = target")
      case True
      with run g Some have "after_reconstruct e target ?svc1 (\<lambda>r svc2. case r of None \<Rightarrow> refuse ErrReconstruct svc2
          | Some st \<Rightarrow> Some (\<lparr>outcome = Inr st, pending = None\<rparr>, svc2)) = Some (p, svc')" by (simp add: prepareCheckout_def)
      from after_reconstruct_Some [OF this] ok1 obtain r svc2 where
        k: "(case r of None \<Rightarrow> refuse ErrReconstruct svc2 | Some st \<Rightarrow> Some (\<lparr>outcome = Inr st, pending = None\<rparr>, svc2)) = Some (p, svc')"
        and s2: "step_ok e ?svc1 svc2" and st: "\<forall>s. r = Some s \<longrightarrow> state_of e ?d target s" by auto
      show ?thesis
        using k st step_ok_trans [OF s1 s2] by (cases r) (auto simp: prepares_def refuse_def)
    next
      case False
      with run g Some have "after_reconstruct e hid ?svc1 (\<lambda>hs svc2. after_reconstruct e target svc2 (checkout_plan e lk hid target hs)) = Some (p, svc')"
        by (simp add: prepareCheckout_def)
      from after_reconstruct_Some [OF this] ok1 obtain hs svc2 where
        k2: "after_reconstruct e target svc2 (checkout_plan e lk hid target hs) = Some (p, svc')" and s2: "step_ok e ?svc1 svc2"
        and hs: "\<forall>s. hs = Some s \<longrightarrow> state_of e ?d hid s" by auto
      note s12 = step_ok_trans [OF s1 s2]
      note ok2 = step_ok_parts [OF s12]
      from after_reconstruct_Some [OF k2] ok2 obtain ts svc3 where
        k3: "checkout_plan e lk hid target hs ts svc3 = Some (p, svc')" and s3: "step_ok e svc2 svc3"
        and ts: "\<forall>s. ts = Some s \<longrightarrow> state_of e ?d target s" by auto
      show ?thesis by (rule checkout_plan_ok [OF ok step_ok_trans [OF s12 s3] hd hs ts k3])
    qed
  qed
qed

text \<open>What a revert gives: the undoing of the target applied to the HEAD's state.\<close>

definition reverted :: "'j service_env \<Rightarrow> service \<Rightarrow> level_key \<Rightarrow> commit_id \<Rightarrow> revert_payload \<Rightarrow> bool" where
  "reverted e svc lk target v \<longleftrightarrow>
     (\<exists>r par h ps ts hs. fmlookup (commits (cdb (db_conn svc))) target = Some r \<and> r_parent r = Some par \<and>
        fmlookup (refs (cdb (db_conn svc))) lk = Some h \<and> c_str (r_level r) = lk \<and>
        yields (db_view e (cdb (db_conn svc))) par ps \<and> yields (db_view e (cdb (db_conn svc))) target ts \<and>
        yields (db_view e (cdb (db_conn svc))) h hs \<and> keyed ps \<and> keyed ts \<and> keyed hs \<and>
        v = make_revert e ps ts hs)"

lemma keyed_revert: "keyed hs \<Longrightarrow> keyed (rp_state (make_revert e ps ts hs))"
  using keyed_apply_delta by (simp add: make_revert_def split_beta)

lemma revert_plan_ok:
  assumes ok: "svc_ok e svc" and s: "step_ok e svc svc1" and h: "fmlookup (refs (cdb (db_conn svc))) lk = Some hid"
    and row: "fmlookup (commits (cdb (db_conn svc))) target = Some r" "r_parent r = Some par" "c_str (r_level r) = lk"
    and st: "\<forall>x. ps = Some x \<longrightarrow> state_of e (cdb (db_conn svc)) par x" "\<forall>x. ts = Some x \<longrightarrow> state_of e (cdb (db_conn svc)) target x"
      "\<forall>x. hs = Some x \<longrightarrow> state_of e (cdb (db_conn svc)) hid x"
    and run: "revert_plan e lk hid target msg ps ts hs svc1 = Some (p, svc')"
  shows "prepares e svc lk rp_state (reverted e svc lk target) p svc'"
proof (cases "ps = None \<or> ts = None \<or> hs = None")
  case True
  with run have "refuse ErrReconstruct svc1 = Some (p, svc')" by (auto simp: revert_plan_def split: option.splits)
  then show ?thesis by (rule refuse_prepares [OF s])
next
  case False
  then obtain p1 t1 h1 where x: "ps = Some p1" "ts = Some t1" "hs = Some h1" by auto
  let ?v = "make_revert e p1 t1 h1"
  have so: "state_of e (cdb (db_conn svc)) par p1" "state_of e (cdb (db_conn svc)) target t1" "state_of e (cdb (db_conn svc)) hid h1"
    using st x by simp_all
  have "reverted e svc lk target ?v" unfolding reverted_def
    using row h so head_exists [OF ok h] parent_exists [OF ok row(1,2)] by (auto simp: state_of_def)
  moreover have "leads_to e svc1 lk (rp_state ?v) (head_update lk hid target m (dump e (diff_states e h1 (rp_state ?v))))" for m
    using so(3) keyed_revert [of h1] by (intro leads_to_head [OF ok s h]) (auto simp: state_of_def)
  moreover from run x have "svc' = svc1"
    "p = \<lparr>outcome = Inr ?v, pending = Some (head_update lk hid target (''Revert: '' @ shorten msg 40) (dump e (diff_states e h1 (rp_state ?v))))\<rparr>"
    by (simp_all add: revert_plan_def Let_def)
  ultimately show ?thesis using s by (simp add: prepares_def)
qed

lemma prepareRevert_ok:
  assumes ok: "svc_ok e svc" and run: "prepareRevert e lk target svc = Some (p, svc')"
  shows "prepares e svc lk rp_state (reverted e svc lk target) p svc'"
proof -
  let ?d = "cdb (db_conn svc)"
  obtain h c where g: "getHead lk (db_conn svc) = (h, c)" by fastforce
  let ?svc1 = "svc\<lparr>db_conn := c\<rparr>"
  have s1: "step_ok e svc ?svc1" by (rule getHead_step [OF g ok])
  note ok1 = step_ok_parts [OF s1]
  obtain row c2 where gr: "get_row (e_zlib e) target (db_conn ?svc1) = (row, c2)" by fastforce
  let ?svc2 = "?svc1\<lparr>db_conn := c2\<rparr>"
  have s2: "step_ok e svc ?svc2" using step_ok_trans [OF s1 get_row_step [OF gr]] ok1 by blast
  note ok2 = step_ok_parts [OF s2]
  note no = refuse_prepares [OF s1] refuse_prepares [OF s2]
  show ?thesis
  proof (cases "h = None \<or> row = None \<or> row_level (the row) \<noteq> lk \<or> row_parent (the row) = None")
    case True
    with run g gr obtain err where "refuse err ?svc1 = Some (p, svc') \<or> refuse err ?svc2 = Some (p, svc')"
      by (cases h; cases row; cases "row_parent (the row)") (auto simp: prepareRevert_def Let_def split: if_splits)
    then show ?thesis using no by blast
  next
    case False
    then obtain hid rw par where x: "h = Some hid" "row = Some rw" "row_level rw = lk" "row_parent rw = Some par" by auto
    have hd: "fmlookup (refs ?d) lk = Some hid" using getHead_Some g x(1) by simp
    obtain r where r: "fmlookup (commits ?d) target = Some r" "rw = rowFromStatement (e_zlib e) (target, r)"
      using get_row_Some gr x(2) ok1 by fastforce
    with x have r': "r_parent r = Some par" "c_str (r_level r) = lk" by simp_all
    from run g gr x have k: "after_reconstruct e par ?svc2 (\<lambda>ps svc3. after_reconstruct e target svc3 (\<lambda>ts svc4.
        after_reconstruct e hid svc4 (\<lambda>hs svc5. revert_plan e lk hid target (row_message rw) ps ts hs svc5))) = Some (p, svc')"
      by (simp add: prepareRevert_def Let_def)
    from after_reconstruct_Some [OF k] ok2 obtain ps svc3 where
      k3: "after_reconstruct e target svc3 (\<lambda>ts svc4. after_reconstruct e hid svc4 (\<lambda>hs svc5. revert_plan e lk hid target (row_message rw) ps ts hs svc5)) = Some (p, svc')"
      and s3: "step_ok e svc svc3" and ps: "\<forall>x. ps = Some x \<longrightarrow> state_of e ?d par x" using step_ok_trans [OF s2] by auto
    from after_reconstruct_Some [OF k3] step_ok_parts [OF s3] obtain ts svc4 where
      k4: "after_reconstruct e hid svc4 (\<lambda>hs svc5. revert_plan e lk hid target (row_message rw) ps ts hs svc5) = Some (p, svc')"
      and s4: "step_ok e svc svc4" and ts: "\<forall>x. ts = Some x \<longrightarrow> state_of e ?d target x" using step_ok_trans [OF s3] by auto
    from after_reconstruct_Some [OF k4] step_ok_parts [OF s4] obtain hs svc5 where
      k5: "revert_plan e lk hid target (row_message rw) ps ts hs svc5 = Some (p, svc')"
      and s5: "step_ok e svc svc5" and hs: "\<forall>x. hs = Some x \<longrightarrow> state_of e ?d hid x" using step_ok_trans [OF s4] by auto
    show ?thesis by (rule revert_plan_ok [OF ok s5 hd r(1) r' ps ts hs k5])
  qed
qed

end
