(* ===== verification/Service_Squash.thy ===== *)
theory Service_Squash
  imports Service_Ops
begin

text \<open>
  Squashing and taking over the history of another level, \<open>prepareSquash\<close>,
  \<open>finalizeSquash\<close>, \<open>prepareImportLevelFrom\<close> and \<open>finalizeImportLevelFrom\<close> of
  \<open>src/service/GitService.cpp\<close>: both keep the state of every commit that survives.
\<close>

section \<open>The selected commits\<close>

definition loaded :: "'j service_env \<Rightarrow> db \<Rightarrow> level_key \<Rightarrow> commit_row list \<Rightarrow> bool" where
  "loaded e d lk rows \<longleftrightarrow>
     (\<forall>r \<in> set rows. \<exists>row. fmlookup (commits d) (row_id r) = Some row \<and>
        r = rowFromStatement (e_zlib e) (row_id r, row) \<and> c_str (r_level row) = lk)"

lemma load_rows_ok:
  assumes "svc_ok e svc" and "load_rows (e_zlib e) lk ids (db_conn svc) = (res, c)"
  shows "same_db (db_conn svc) c \<and>
    (\<forall>rows. res = Inr rows \<longrightarrow> map row_id rows = ids \<and> loaded e (cdb (db_conn svc)) lk rows)"
  using assms
proof (induction ids arbitrary: svc res c)
  case (Cons i ids)
  obtain row c1 where g: "get_row (e_zlib e) i (db_conn svc) = (row, c1)" by fastforce
  have s1: "same_db (db_conn svc) c1" using same_db_get_row [of "db_conn svc" "e_zlib e" i] g by simp
  show ?case
  proof (cases "row = None \<or> row_level (the row) \<noteq> lk")
    case True
    then show ?thesis using Cons.prems(2) g s1 by (cases row) auto
  next
    case False
    then obtain r where r: "row = Some r" "row_level r = lk" by auto
    obtain res1 c2 where l: "load_rows (e_zlib e) lk ids c1 = (res1, c2)" by fastforce
    from Cons.IH [of "svc\<lparr>db_conn := c1\<rparr>" res1 c2] l svc_ok_conn [OF Cons.prems(1) s1]
    have ih: "same_db c1 c2" "\<And>rows. res1 = Inr rows \<Longrightarrow> map row_id rows = ids \<and> loaded e (cdb c1) lk rows" by auto
    obtain rw where "fmlookup (commits (cdb (db_conn svc))) i = Some rw" "r = rowFromStatement (e_zlib e) (i, rw)"
      using get_row_Some g r(1) by blast
    then have "loaded e (cdb (db_conn svc)) lk [r]" using r(2) by (simp add: loaded_def)
    moreover have "cdb c1 = cdb (db_conn svc)" using s1 by (simp add: same_db_def)
    ultimately show ?thesis using Cons.prems(2) g r l ih same_db_trans [OF s1 ih(1)] \<open>r = rowFromStatement (e_zlib e) (i, rw)\<close>
      by (cases res1) (auto simp: loaded_def)
  qed
qed (auto simp: loaded_def)

lemma loaded_view:
  assumes "\<And>i r. fmlookup (commits d) i = Some r \<Longrightarrow> \<exists>s. history (db_view e d) i s"
    and "loaded e d lk rows" and "x \<in> set rows"
  shows "\<exists>\<delta>. db_view e d (row_id x) = Some (row_parent x, \<delta>)"
proof -
  from assms(2,3) obtain row where row: "fmlookup (commits d) (row_id x) = Some row" "x = rowFromStatement (e_zlib e) (row_id x, row)"
    unfolding loaded_def by blast
  have "row_parent x = r_parent row" by (subst row(2)) simp
  moreover from row(1) assms(1) history_Some obtain p \<delta> where "db_view e d (row_id x) = Some (p, \<delta>)" by metis
  ultimately show ?thesis using row(1) by (auto simp: db_view_def)
qed

lemma contiguous_chain:
  assumes "\<And>i r. fmlookup (commits d) i = Some r \<Longrightarrow> \<exists>s. history (db_view e d) i s"
  shows "loaded e d lk rows \<Longrightarrow> contiguous rows \<Longrightarrow> rows \<noteq> [] \<Longrightarrow> chain_from (db_view e d) (row_parent (hd rows)) (map row_id rows)"
proof (induction rows rule: contiguous.induct)
  case (1 a b rows)
  have "loaded e d lk (b # rows)" using 1(2) by (simp add: loaded_def)
  with 1 have "chain_from (db_view e d) (row_parent b) (map row_id (b # rows))" by simp
  moreover have "\<exists>\<delta>. db_view e d (row_id a) = Some (row_parent a, \<delta>)" by (rule loaded_view [OF assms 1(2)]) simp_all
  moreover have "row_parent b = Some (row_id a)" using 1(3) by simp
  ultimately show ?case by simp
next
  case single: (2 a)
  then show ?case using loaded_view [OF assms single(1)] by simp
qed simp

section \<open>Squash\<close>

text \<open>What a squash does to the states of commits.\<close>

definition commits_folded :: "'j service_env \<Rightarrow> db \<Rightarrow> level_key \<Rightarrow> commit_id list \<Rightarrow> commit_id \<Rightarrow> level_state \<Rightarrow> db \<Rightarrow> bool" where
  "commits_folded e d lk ids i t d' \<longleftrightarrow>
     fmlookup (commits d) i = None \<and> yields (db_view e d') i t \<and> yields (db_view e d) (last ids) t \<and>
     (\<forall>j \<in> set ids. fmlookup (commits d') j = None) \<and>
     (\<forall>j s. j \<notin> set ids \<longrightarrow> history (db_view e d) j s \<longrightarrow> yields (db_view e d') j s) \<and>
     (\<forall>l. fmlookup (refs d') l = map_option (\<lambda>h. if l = lk \<and> h \<in> set ids then i else h) (fmlookup (refs d) l))"

definition folds :: "'j service_env \<Rightarrow> db \<Rightarrow> level_key \<Rightarrow> commit_id list \<Rightarrow> level_state \<Rightarrow> pending_squash \<Rightarrow> bool" where
  "folds e d lk ids t p \<longleftrightarrow>
     (\<exists>par b msg. p = \<lparr>ps_level = lk, ps_ids = ids, ps_parent = par, ps_message = msg, ps_delta = dump e (diff_states e b t)\<rparr> \<and>
        keyed t \<and> starts (db_view e d) par b \<and> chain_from (db_view e d) par ids \<and> ids \<noteq> [] \<and>
        yields (db_view e d) (last ids) t \<and> (\<forall>j \<in> set ids. at_level d lk j))"

lemma finalizeSquash_ok:
  assumes e: "env_ok e" and ok: "svc_ok e svc" and p: "folds e (cdb (db_conn svc)) lk ids t p"
    and fin: "finalizeSquash e now p t svc = (res, svc')"
  shows "svc_ok e svc' \<and>
    (case res of
       Inl err \<Rightarrow> cdb (db_conn svc') = cdb (db_conn svc)
     | Inr i \<Rightarrow> commits_folded e (cdb (db_conn svc)) lk ids i t (cdb (db_conn svc')))"
proof -
  let ?d = "cdb (db_conn svc)"
  from ok have sv: "saved (db_conn svc) = None" "fk_on (db_conn svc)" "sound_db e ?d" by (simp_all add: svc_ok_def)
  from p obtain par b msg where p': "p = \<lparr>ps_level = lk, ps_ids = ids, ps_parent = par, ps_message = msg, ps_delta = dump e (diff_states e b t)\<rparr>"
    and kt: "keyed t" and base: "starts (db_view e ?d) par b" and chain: "chain_from (db_view e ?d) par ids" "ids \<noteq> []"
    and top: "yields (db_view e ?d) (last ids) t" and ex: "\<forall>j \<in> set ids. fmlookup (commits ?d) j \<noteq> None"
    unfolding folds_def using at_level_exists by blast
  have comb: "norm_state (fst (apply_delta b (diff_states e b t))) = norm_state t"
    using apply_diff_states [OF e] kt base by (simp add: starts_def)
  obtain x c where sq: "Commit_Store.squash (e_zlib e) now lk ids par msg (dump e (diff_states e b t)) (db_conn svc) = (x, c)" by fastforce
  show ?thesis
  proof (cases x)
    case None
    from squash_None [OF sq [unfolded None] sv(1)] ok fin sq None p' show ?thesis
      by (auto simp: finalizeSquash_def svc_ok_def memo.faithful_def cacheGet_def)
  next
    case (Some i)
    let ?d' = "cdb c"
    from squash_Some [OF sq [unfolded Some] sv(1)] sv(2) obtain stored where
      st: "compressBlob (e_zlib e) (dump e (diff_states e b t)) (- 1) = Some stored" and i: "i = next_id ?d"
      and d': "?d' = squashed (new_row lk par None msg (squash_time (e_zlib e) now ids (db_conn svc)) stored) ids lk ?d"
      and fr: "saved c = None" "fk_on c" "fk_ok ?d'" by auto
    have new: "i \<notin> set ids" using ex i by auto
    have fold: "db_folded e ?d ids par (diff_states e b t) i ?d'"
      unfolding db_folded_def using i new chain(2) d' fr(3) delta_of_new [OF e st]
      by (intro exI [of _ "new_row lk par None msg (squash_time (e_zlib e) now ids (db_conn svc)) stored"]) (auto simp: new_row_def)
    note keep = db_log.fold_keeps [OF fold chain(1) base top comb]
    have y: "yields (db_view e ?d') i t" by (rule db_log.fold_state [OF fold chain(1) base top comb])
    have "fmlookup (refs ?d') l = map_option (\<lambda>h. if l = lk \<and> h \<in> set ids then i else h) (fmlookup (refs ?d) l)" for l
      by (cases "fmlookup (refs ?d) lk"; cases "fmlookup (refs ?d) l") (auto simp: d' squashed_def i)
    moreover have "fmlookup (commits ?d') j = None" if "j \<in> set ids" for j using that by (simp add: d' squashed_lookup)
    ultimately have folded: "commits_folded e ?d lk ids i t ?d'"
      unfolding commits_folded_def using y keep top i by simp
    have "\<exists>s. history (db_view e ?d') j s" if "fmlookup (commits ?d') j = Some r" for j r
    proof (cases "j = i")
      case True
      then show ?thesis using y by (auto simp: yields_def)
    next
      case False
      with that i obtain r' where j: "j \<notin> set ids" "fmlookup (commits ?d) j = Some r'"
        by (auto simp: d' squashed_lookup split: if_splits)
      with sv(3) obtain s where "history (db_view e ?d) j s" unfolding sound_db_def by blast
      with keep j(1) show ?thesis unfolding yields_def by blast
    qed
    then have sound: "sound_db e ?d'" using sv(3) ids_ok_squashed fr(3) by (simp add: sound_db_def d')
    have "good_state e ?d' i t" using y kt by (simp add: good_state_def d' squashed_def i)
    then have "memo.faithful (good_state e ?d') (cachePut i t (clearReconstructCache (svc\<lparr>db_conn := c\<rparr>)))"
      by (intro memo.faithful_put memo.faithful_clear)
    with fin sq Some p' folded sound fr show ?thesis by (auto simp: finalizeSquash_def svc_ok_def)
  qed
qed

lemma prepareSquash_with_ok:
  assumes e: "env_ok e" and ok: "svc_ok e svc" and s1: "step_ok e svc svc1"
    and rows: "loaded e (cdb (db_conn svc)) lk rows" "contiguous rows" "rows \<noteq> []" "map row_id rows = ids"
    and base: "\<forall>b. base = Some b \<longrightarrow> starts (db_view e (cdb (db_conn svc))) (row_parent (hd rows)) b"
    and run: "prepareSquash_with e lk ids msg rows base svc1 = Some (p, svc')"
  shows "step_ok e svc svc' \<and> (\<forall>t. outcome p = Inr t \<longrightarrow> (\<exists>ps. pending p = Some ps \<and> folds e (cdb (db_conn svc)) lk ids t ps))"
proof (cases base)
  case None
  with run s1 show ?thesis by (auto simp: prepareSquash_with_def refuse_def)
next
  case (Some b)
  let ?d = "cdb (db_conn svc)"
  from run Some have k: "after_reconstruct e (row_id (last rows)) svc1 (\<lambda>target svc1. case target of None \<Rightarrow> refuse ErrReconstruct svc1
        | Some t \<Rightarrow> Some (\<lparr>outcome = Inr t, pending = Some \<lparr>ps_level = lk, ps_ids = ids, ps_parent = row_parent (hd rows),
             ps_message = msg, ps_delta = dump e (diff_states e b t)\<rparr>\<rparr>, svc1)) = Some (p, svc')"
    by (simp add: prepareSquash_with_def)
  from after_reconstruct_Some [OF k] step_ok_parts [OF s1] obtain target svc2 where
    t: "(case target of None \<Rightarrow> refuse ErrReconstruct svc2
        | Some t \<Rightarrow> Some (\<lparr>outcome = Inr t, pending = Some \<lparr>ps_level = lk, ps_ids = ids, ps_parent = row_parent (hd rows),
             ps_message = msg, ps_delta = dump e (diff_states e b t)\<rparr>\<rparr>, svc2)) = Some (p, svc')"
    and s2: "step_ok e svc svc2" and st: "\<forall>s. target = Some s \<longrightarrow> state_of e ?d (row_id (last rows)) s"
    using step_ok_trans [OF s1] by auto
  have ex: "\<forall>j \<in> set ids. at_level ?d lk j"
  proof
    fix j assume "j \<in> set ids"
    with rows(4) obtain r where "r \<in> set rows" "row_id r = j" by auto
    with rows(1) obtain row where "fmlookup (commits ?d) j = Some row" "c_str (r_level row) = lk" unfolding loaded_def by blast
    then show "at_level ?d lk j" by (auto simp: at_level_def)
  qed
  have last: "row_id (last rows) = last ids" "ids \<noteq> []" using rows(3,4) by (auto simp: last_map)
  have "chain_from (db_view e ?d) (row_parent (hd rows)) ids"
    using contiguous_chain [of ?d e, OF _ rows(1,2,3)] ok rows(4) by (auto simp: svc_ok_def sound_db_def)
  then have "folds e ?d lk ids x \<lparr>ps_level = lk, ps_ids = ids, ps_parent = row_parent (hd rows),
             ps_message = msg, ps_delta = dump e (diff_states e b x)\<rparr>" if "target = Some x" for x
    unfolding folds_def using st that base Some ex last last_in_set [OF last(2)] at_level_exists [of ?d lk "last ids"]
    by (intro exI [of _ "row_parent (hd rows)"] exI [of _ b] exI [of _ msg]) (auto simp: state_of_def)
  with t s2 show ?thesis by (cases target) (auto simp: refuse_def)
qed

lemma prepareSquash_ok:
  assumes e: "env_ok e" and ok: "svc_ok e svc" and run: "prepareSquash e lk ids msg svc = Some (p, svc')"
  shows "step_ok e svc svc' \<and> (\<forall>t. outcome p = Inr t \<longrightarrow> (\<exists>ps. pending p = Some ps \<and> folds e (cdb (db_conn svc)) lk ids t ps))"
proof -
  obtain res c where l: "load_rows (e_zlib e) lk ids (db_conn svc) = (res, c)" by fastforce
  let ?svc1 = "svc\<lparr>db_conn := c\<rparr>"
  note lr = load_rows_ok [OF ok l]
  have s1: "step_ok e svc ?svc1" using step_ok_conn [OF ok] lr by blast
  show ?thesis
  proof (cases "length ids < 2 \<or> (\<exists>err. res = Inl err) \<or> (\<exists>rows. res = Inr rows \<and> \<not> contiguous rows)")
    case True
    with run l have "\<exists>err s. (s = svc \<or> s = ?svc1) \<and> refuse err s = Some (p, svc')"
      by (cases res) (auto simp: prepareSquash_def Let_def split: if_splits)
    then show ?thesis using s1 step_ok_refl [OF ok] by (auto simp: refuse_def)
  next
    case False
    then obtain rows where r: "2 \<le> length ids" "res = Inr rows" "contiguous rows" by (cases res) auto
    with lr have rows: "loaded e (cdb (db_conn svc)) lk rows" "map row_id rows = ids" "rows \<noteq> []" by auto
    show ?thesis
    proof (cases "row_parent (hd rows)")
      case None
      with run l r have "prepareSquash_with e lk ids msg rows (Some empty_state) ?svc1 = Some (p, svc')" by (simp add: prepareSquash_def Let_def)
      from prepareSquash_with_ok [OF e ok s1 rows(1) r(3) rows(3,2) _ this] None show ?thesis by (simp add: starts_def)
    next
      case (Some par)
      with run l r have k: "after_reconstruct e par ?svc1 (\<lambda>base svc2. prepareSquash_with e lk ids msg rows base svc2) = Some (p, svc')"
        by (simp add: prepareSquash_def Let_def)
      from after_reconstruct_Some [OF k] step_ok_parts [OF s1] obtain base svc2 where
        k2: "prepareSquash_with e lk ids msg rows base svc2 = Some (p, svc')" and s2: "step_ok e svc svc2"
        and b: "\<forall>s. base = Some s \<longrightarrow> state_of e (cdb (db_conn svc)) par s" using step_ok_trans [OF s1] by auto
      have "hd rows \<in> set rows" using rows(3) by simp
      then obtain row where "fmlookup (commits (cdb (db_conn svc))) (row_id (hd rows)) = Some row" "hd rows = rowFromStatement (e_zlib e) (row_id (hd rows), row)"
        using rows(1) unfolding loaded_def by blast
      with Some have "fmlookup (commits (cdb (db_conn svc))) par \<noteq> None" using parent_exists [OF ok] by (metis row_simps(2))
      with b Some have "\<forall>b. base = Some b \<longrightarrow> starts (db_view e (cdb (db_conn svc))) (row_parent (hd rows)) b"
        by (simp add: state_of_starts)
      from prepareSquash_with_ok [OF e ok s2 rows(1) r(3) rows(3,2) this k2] show ?thesis .
    qed
  qed
qed

lemma git_squash_ok:
  assumes e: "env_ok e" and ok: "svc_ok e svc" and run: "git_squash e now lk ids msg svc = Some (res, svc')"
  shows "svc_ok e svc' \<and>
    (case res of
       Inl err \<Rightarrow> cdb (db_conn svc') = cdb (db_conn svc)
     | Inr (t, i) \<Rightarrow> \<exists>k. i = Some k \<and> commits_folded e (cdb (db_conn svc)) lk ids k t (cdb (db_conn svc')))"
proof -
  from run obtain p svc1 where prep: "prepareSquash e lk ids msg svc = Some (p, svc1)"
    by (auto simp: git_squash_def split: option.splits prod.splits)
  note pr = prepareSquash_ok [OF e ok prep]
  note s1 = step_ok_parts [OF conjunct1 [OF pr]]
  show ?thesis
  proof (cases "outcome p")
    case (Inl err)
    with run prep s1 show ?thesis by (auto simp: git_squash_def)
  next
    case (Inr t)
    with pr obtain ps where ps: "pending p = Some ps" "folds e (cdb (db_conn svc1)) lk ids t ps" using s1 by auto
    obtain r svc2 where f: "finalizeSquash e now ps t svc1 = (r, svc2)" by fastforce
    from finalizeSquash_ok [OF e _ ps(2) f] s1 run prep Inr ps(1) f show ?thesis
      by (cases r) (auto simp: git_squash_def)
  qed
qed

section \<open>Taking over the history of another level\<close>

definition history_copied :: "'j service_env \<Rightarrow> db \<Rightarrow> level_key \<Rightarrow> level_key \<Rightarrow> db \<Rightarrow> bool" where
  "history_copied e d dest src d' \<longleftrightarrow>
     (\<exists>f S. level_image (e_zlib e) dest src d d' f S \<and>
        (\<forall>i \<in> S. \<forall>s. history (db_view e d) i s \<longrightarrow> history (db_view e d') (f i) s) \<and>
        (\<forall>lk j r s. lk \<noteq> dest \<longrightarrow> level_commit d lk j r \<longrightarrow> history (db_view e d) j s \<longrightarrow> history (db_view e d') j s))"

lemma decompress_nonempty: "decompressBlob z b = Some x \<Longrightarrow> b \<noteq> []"
  by (auto simp: decompressBlob_def)

lemma image_view:
  assumes im: "level_image (e_zlib e) dest src d d' f S" and i: "i \<in> S" "level_commit d src i r" and v: "db_view e d i = Some (p, \<delta>)"
  shows "db_view e d' (f i) = Some (map_option f p, \<delta>) \<and> (\<forall>q. p = Some q \<longrightarrow> q \<in> S)"
proof -
  from level_imageD(2) [OF im i] obtain r' where r': "level_commit d' dest (f i) r'" "r_parent r' = map_option f (r_parent r)"
    "decompressBlob (e_zlib e) (r_blob r') = Some (row_delta (rowFromStatement (e_zlib e) (i, r)))"
    and cl: "\<forall>q. r_parent r = Some q \<or> r_reverts r = Some q \<longrightarrow> q \<in> S"
    by blast
  have "delta_of e r' = delta_of e r"
    using r'(3) decompress_nonempty [OF r'(3)] row_delta_any [of "e_zlib e" i r 0] by (simp add: delta_of_def) (simp add: rowFromStatement_def)
  then show ?thesis using v i(2) r'(1,2) cl by (auto simp: db_view_def level_commit_def)
qed

lemma image_history:
  assumes im: "level_image (e_zlib e) dest src d d' f S"
  shows "history (db_view e d) i s \<Longrightarrow> i \<in> S \<Longrightarrow> history (db_view e d') (f i) s"
proof (induction rule: history.induct)
  case (root i \<delta>)
  from level_imageD(1) [OF im root(2)] obtain r where "level_commit d src i r" ..
  from image_view [OF im root(2) this root(1)] show ?case by (auto intro: history.root)
next
  case (child i p \<delta> st)
  from level_imageD(1) [OF im child(4)] obtain r where "level_commit d src i r" ..
  from image_view [OF im child(4) this child(1)] child(3) show ?case by (auto intro: history.child)
qed

lemma other_row:
  assumes "level_image z dest src d d' f S" and "r_level r \<noteq> dest"
  shows "fmlookup (commits d') j = Some r \<longleftrightarrow> fmlookup (commits d) j = Some r"
  using level_imageD(4) [OF assms, of j r] by (simp add: level_commit_def)

lemma other_history:
  assumes im: "level_image (e_zlib e) dest src d d' f S" and fk: "fk_ok d'" and ids: "ids_ok d"
  shows "history (db_view e d) j s \<Longrightarrow> fmlookup (commits d) j = Some r \<Longrightarrow> r_level r \<noteq> dest \<Longrightarrow> history (db_view e d') j s"
proof (induction arbitrary: r rule: history.induct)
  case (root i \<delta>)
  have "fmlookup (commits d') i = Some r" using other_row [OF im root(3)] root(2) by simp
  then have "db_view e d' i = Some (None, \<delta>)" using root(1,2) by (simp add: db_view_def)
  then show ?case by (rule history.root)
next
  case (child i p \<delta> st)
  have row: "fmlookup (commits d') i = Some r" using other_row [OF im child(5)] child(4) by simp
  then have v: "db_view e d' i = Some (Some p, \<delta>)" using child(1,4) by (simp add: db_view_def)
  from child(1,4) have "r_parent r = Some p" by (auto simp: db_view_def split: option.splits)
  from fk_parent [OF fk row this] obtain rp' where rp': "fmlookup (commits d') p = Some rp'" by blast
  from history_Some [OF child(2)] db_view_dom obtain rp where rp: "fmlookup (commits d) p = Some rp" by fastforce
  have ne: "r_level rp' \<noteq> dest"
  proof
    assume "r_level rp' = dest"
    then have "level_commit d' dest p rp'" using rp' by (simp add: level_commit_def)
    from level_imageD(3) [OF im this] level_imageD(5) [OF im ids] rp show False by auto
  qed
  have "fmlookup (commits d) p = Some rp'" using other_row [OF im ne] rp' by simp
  from child(3) [OF this ne] v show ?case by (intro history.child)
qed

lemma copied_sound:
  assumes im: "level_image (e_zlib e) dest src d d' f S" and ne: "dest \<noteq> src" and d: "sound_db e d" and fk: "fk_ok d'" and ids: "ids_ok d'"
  shows "sound_db e d' \<and> history_copied e d dest src d'"
proof -
  from d have idd: "ids_ok d" and hist: "\<And>i r. fmlookup (commits d) i = Some r \<Longrightarrow> \<exists>s. history (db_view e d) i s"
    by (auto simp: sound_db_def)
  have "\<exists>s. history (db_view e d') j s" if j: "fmlookup (commits d') j = Some r" for j r
  proof (cases "r_level r = dest")
    case True
    with j have "level_commit d' dest j r" by (simp add: level_commit_def)
    from level_imageD(3) [OF im this] obtain i where i: "i \<in> S" "j = f i" by blast
    from level_imageD(1) [OF im i(1)] obtain ri where "fmlookup (commits d) i = Some ri" by (auto simp: level_commit_def)
    then obtain s where "history (db_view e d) i s" using hist by blast
    from image_history [OF im this i(1)] i(2) show ?thesis by blast
  next
    case False
    then have row: "fmlookup (commits d) j = Some r" using other_row [OF im False] j by simp
    then obtain s where "history (db_view e d) j s" using hist by blast
    from other_history [OF im fk idd this row False] show ?thesis by blast
  qed
  moreover have "history_copied e d dest src d'" unfolding history_copied_def
  proof (intro exI conjI ballI allI impI)
    show "level_image (e_zlib e) dest src d d' f S" by (rule im)
    show "history (db_view e d') (f i) s" if "i \<in> S" "history (db_view e d) i s" for i s
      using image_history [OF im that(2,1)] .
    show "history (db_view e d') j s" if "lk \<noteq> dest" "level_commit d lk j r" "history (db_view e d) j s" for lk j r s
      using other_history [OF im fk idd that(3)] that(1,2) by (simp add: level_commit_def)
  qed
  ultimately show ?thesis using fk ids by (simp add: sound_db_def)
qed

lemma finalizeImport_ok:
  assumes e: "env_ok e" and ok: "svc_ok e svc" and hd: "fmlookup (refs (cdb (db_conn svc))) (pr_src p) = Some h"
    and st: "state_of e (cdb (db_conn svc)) h s" and fin: "finalizeImportLevelFrom e p s svc = (res, svc')"
  shows "svc_ok e svc' \<and>
    (case res of
       Inl err \<Rightarrow> cdb (db_conn svc') = cdb (db_conn svc)
     | Inr _ \<Rightarrow> history_copied e (cdb (db_conn svc)) (pr_dest p) (pr_src p) (cdb (db_conn svc')))"
proof -
  let ?d = "cdb (db_conn svc)"
  from ok have sv: "saved (db_conn svc) = None" "fk_on (db_conn svc)" "sound_db e ?d" by (simp_all add: svc_ok_def)
  obtain r c where rep: "replaceLevelHistoryFrom (e_zlib e) (e_rows e) (pr_dest p) (pr_src p) (db_conn svc) = (r, c)" by fastforce
  show ?thesis
  proof (cases "r = Replaced")
    case False
    from replace_failed [OF rep False sv(1)] fin rep False ok show ?thesis
      by (cases r) (auto simp: finalizeImportLevelFrom_def svc_ok_def memo.faithful_def cacheGet_def)
  next
    case True
    have "hash_order (e_rows e)" "zlib_ok (e_zlib e)" using e by (simp_all add: env_ok_def)
    from replace_image [OF rep [unfolded True] sv(1) this] sv obtain f S where im: "level_image (e_zlib e) (pr_dest p) (pr_src p) ?d (cdb c) f S"
      and fr: "pr_dest p \<noteq> pr_src p" "saved c = None" "fk_on c" "fk_ok (cdb c)" "ids_ok (cdb c)" by (auto simp: sound_db_def)
    note sound = copied_sound [OF im fr(1) sv(3) fr(4,5)]
    let ?svc1 = "clearReconstructCache (svc\<lparr>db_conn := c\<rparr>)"
    have ok1: "svc_ok e ?svc1" using fr sound by (simp add: svc_ok_def memo.faithful_clear)
    obtain h' c1 where g: "getHead (pr_dest p) c = (h', c1)" by fastforce
    have s1: "step_ok e ?svc1 (?svc1\<lparr>db_conn := c1\<rparr>)" using getHead_step [of _ ?svc1] g ok1 by simp
    note ok2 = step_ok_parts [OF s1]
    show ?thesis
    proof (cases h')
      case None
      with fin rep True g ok2 sound show ?thesis by (auto simp: finalizeImportLevelFrom_def Let_def)
    next
      case (Some k)
      have k: "k = f h" "h \<in> S" using level_imageD(6) [OF im] hd getHead_Some g Some by auto
      have "yields (db_view e ?d) h s" "keyed s" using st head_exists [OF ok hd] by (auto simp: state_of_def)
      then have y: "yields (db_view e (cdb c)) k s" using image_history [OF im] k unfolding yields_def by blast
      then have "good_state e (cdb c) k s"
        using yields_dom [OF y] fr(5) \<open>keyed s\<close> by (auto simp: good_state_def ids_ok_def fmpred_iff)
      then have "svc_ok e (cachePut k s (?svc1\<lparr>db_conn := c1\<rparr>))"
        using ok2 memo.faithful_put [of "good_state e (cdb c)" "?svc1\<lparr>db_conn := c1\<rparr>" k s] by (auto simp: svc_ok_def)
      with fin rep True g Some ok2 sound show ?thesis by (auto simp: finalizeImportLevelFrom_def Let_def)
    qed
  qed
qed

lemma importLevelFrom_ok:
  assumes e: "env_ok e" and ok: "svc_ok e svc" and run: "importLevelFrom e dest src svc = Some (res, svc')"
  shows "svc_ok e svc' \<and>
    (case res of
       Inl err \<Rightarrow> cdb (db_conn svc') = cdb (db_conn svc)
     | Inr s \<Rightarrow> history_copied e (cdb (db_conn svc)) dest src (cdb (db_conn svc')))"
proof -
  let ?d = "cdb (db_conn svc)"
  obtain hh c where g: "getHead src (db_conn svc) = (hh, c)" by fastforce
  let ?svc1 = "svc\<lparr>db_conn := c\<rparr>"
  have s1: "step_ok e svc ?svc1" by (rule getHead_step [OF g ok])
  show ?thesis
  proof (cases "dest = src \<or> hh = None")
    case True
    with run g step_ok_parts [OF s1] ok show ?thesis
      by (auto simp: importLevelFrom_def prepareImportLevelFrom_def refuse_def Let_def split: if_splits)
  next
    case False
    then obtain h where h: "hh = Some h" "dest \<noteq> src" by auto
    let ?k = "\<lambda>r svc2. case r of None \<Rightarrow> refuse ErrReconstruct svc2
        | Some st \<Rightarrow> Some (\<lparr>outcome = Inr st, pending = Some \<lparr>pr_dest = dest, pr_src = src\<rparr>\<rparr>, svc2)"
    from run obtain p svc3 where prep: "prepareImportLevelFrom e dest src svc = Some (p, svc3)"
      by (auto simp: importLevelFrom_def split: option.splits prod.splits)
    then have "after_reconstruct e h ?svc1 ?k = Some (p, svc3)" using g h by (simp add: prepareImportLevelFrom_def Let_def)
    from after_reconstruct_Some [OF this] step_ok_parts [OF s1] obtain r svc2 where
      k: "?k r svc2 = Some (p, svc3)" and s2: "step_ok e svc svc2" and st: "\<forall>s. r = Some s \<longrightarrow> state_of e ?d h s"
      using step_ok_trans [OF s1] by auto
    note ok2 = step_ok_parts [OF s2]
    show ?thesis
    proof (cases r)
      case None
      with k run prep ok2 show ?thesis by (auto simp: importLevelFrom_def refuse_def)
    next
      case (Some s)
      let ?p = "\<lparr>pr_dest = dest, pr_src = src\<rparr>"
      obtain x svc4 where f: "finalizeImportLevelFrom e ?p s svc2 = (x, svc4)" by fastforce
      have "fmlookup (refs (cdb (db_conn svc2))) (pr_src ?p) = Some h" "state_of e (cdb (db_conn svc2)) h s"
        using getHead_Some g h(1) st Some ok2 by auto
      from finalizeImport_ok [OF e _ this f] ok2 k Some run prep f show ?thesis
        by (cases x) (auto simp: importLevelFrom_def)
    qed
  qed
qed

end
