(* ===== verification/File_Store.thy ===== *)
theory File_Store
  imports Text_Format
begin

text \<open>
  The files under an export or import: \<open>src/util/io/FileAtomic.cpp\<close> and
  \<open>src/util/io/DbZip.cpp\<close> over a disk that maps paths to bytes.  Every call that touches the
  disk consumes one entry of a schedule of failures; a write that fails may leave any prefix
  behind.  The archive library of Geode is a parameter.
\<close>

section \<open>Disk and paths\<close>

text \<open>An entry \<open>Some n\<close> makes a call fail; a failing write has created the file and written
  \<open>n - 1\<close> bytes, or done nothing when \<open>n\<close> is zero.\<close>

record disk =
  contents :: "(string, string) fmap"
  io_faults :: "nat option list"

definition io_tick :: "disk \<Rightarrow> nat option \<times> disk" where
  "io_tick d = (case io_faults d of [] \<Rightarrow> (None, d) | f # fs \<Rightarrow> (f, d\<lparr>io_faults := fs\<rparr>))"

definition on_files :: "((string, string) fmap \<Rightarrow> (string, string) fmap) \<Rightarrow> disk \<Rightarrow> disk" where
  "on_files f d = d\<lparr>contents := f (contents d)\<rparr>"

definition path_filename :: "string \<Rightarrow> string" where
  "path_filename p = rev (takeWhile (\<lambda>c. c \<noteq> CHR ''/'') (rev p))"

definition path_stem :: "string \<Rightarrow> string" where
  "path_stem p =
     (let f = path_filename p; rest = dropWhile (\<lambda>c. c \<noteq> CHR ''.'') (rev f)
      in if f = ''.'' \<or> f = ''..'' \<or> length rest \<le> 1 then f else rev (tl rest))"

definition path_join :: "string \<Rightarrow> string \<Rightarrow> string" where
  "path_join dir f = dir @ ''/'' @ f"

section \<open>File operations\<close>

text \<open>\<open>std::filesystem::remove\<close> with an error code nobody reads.\<close>

definition remove_file :: "string \<Rightarrow> disk \<Rightarrow> disk" where
  "remove_file p d = (case io_tick d of (f, d1) \<Rightarrow> if f = None then on_files (fmdrop p) d1 else d1)"

definition file_exists :: "string \<Rightarrow> disk \<Rightarrow> bool \<times> disk" where
  "file_exists p d = (case io_tick d of (f, d1) \<Rightarrow> (f = None \<and> fmlookup (contents d1) p \<noteq> None, d1))"

definition readBinary :: "string \<Rightarrow> disk \<Rightarrow> string option \<times> disk" where
  "readBinary p d = (case io_tick d of (f, d1) \<Rightarrow> (if f = None then fmlookup (contents d1) p else None, d1))"

definition writeBinary :: "string \<Rightarrow> string \<Rightarrow> disk \<Rightarrow> bool \<times> disk" where
  "writeBinary p bytes d =
     (case io_tick d of
        (None, d1) \<Rightarrow> (True, on_files (fmupd p bytes) d1)
      | (Some 0, d1) \<Rightarrow> (False, d1)
      | (Some (Suc n), d1) \<Rightarrow> (False, on_files (fmupd p (take n bytes)) d1))"

definition replaceFileAtomic :: "string \<Rightarrow> string \<Rightarrow> disk \<Rightarrow> bool \<times> disk" where
  "replaceFileAtomic source target d =
     (case io_tick d of (f, d1) \<Rightarrow>
        case fmlookup (contents d1) source of
          None \<Rightarrow> (False, d1)
        | Some bytes \<Rightarrow>
            if f = None then (True, on_files (\<lambda>m. fmupd target bytes (fmdrop source m)) d1) else (False, d1))"

section \<open>Forms of a history file\<close>

datatype DbFileForm = Sqlite | Zip | Unknown

definition kSqliteMagic :: string where
  "kSqliteMagic = ''SQLite format 3'' @ [CHR 0x00]"

definition kZipMagic :: string where
  "kZipMagic = [CHR 0x50, CHR 0x4B, CHR 0x03, CHR 0x04]"

definition sniff :: "string \<Rightarrow> DbFileForm" where
  "sniff buf =
     (if length buf \<ge> length kZipMagic \<and> take (length kZipMagic) buf = kZipMagic then Zip
      else if length buf \<ge> 16 \<and> take 16 buf = kSqliteMagic then Sqlite
      else Unknown)"

definition peekDbFileForm :: "string \<Rightarrow> disk \<Rightarrow> DbFileForm \<times> disk" where
  "peekDbFileForm p d =
     (case readBinary p d of
        (None, d1) \<Rightarrow> (Unknown, d1)
      | (Some bytes, d1) \<Rightarrow> (sniff (take 16 bytes), d1))"

section \<open>Archives\<close>

text \<open>The archive library: the bytes of an archive with the given entries, the entries of such
  bytes, and the text of its errors.\<close>

record zip_lib =
  zip_pack :: "(string \<times> string) list \<Rightarrow> string"
  zip_entries :: "string \<Rightarrow> (string \<times> string) list option"
  zip_error :: string

definition zip_ok :: "zip_lib \<Rightarrow> bool" where
  "zip_ok z \<longleftrightarrow>
     (\<forall>n b. zip_entries z (zip_pack z [(n, b)]) = Some [(n, b)] \<and>
        take (length kZipMagic) (zip_pack z [(n, b)]) = kZipMagic)"

definition writeZipAtomic :: "zip_lib \<Rightarrow> string \<Rightarrow> string \<Rightarrow> string \<Rightarrow> disk \<Rightarrow> bool \<times> disk" where
  "writeZipAtomic z outZip entryName bytes d =
     (let tmpPath = outZip @ ''.tmp'' in
      case writeBinary tmpPath [] d of
        (False, d1) \<Rightarrow> (False, d1)
      | (True, d1) \<Rightarrow>
          (case writeBinary tmpPath (zip_pack z [(entryName, bytes)]) d1 of
             (False, d2) \<Rightarrow> (False, remove_file tmpPath d2)
           | (True, d2) \<Rightarrow>
               (case replaceFileAtomic tmpPath outZip d2 of
                  (False, d3) \<Rightarrow> (False, remove_file tmpPath d3)
                | (True, d3) \<Rightarrow> (True, d3))))"

definition zip_target :: "string \<Rightarrow> (string \<times> string) list \<Rightarrow> string + string" where
  "zip_target entryName entries =
     (if entryName \<noteq> [] then Inr entryName
      else
        (case entries of
           [] \<Rightarrow> Inl ''readZipEntry: zip has no entries''
         | [e] \<Rightarrow> Inr (fst e)
         | _ \<Rightarrow> Inl ''readZipEntry: zip must contain exactly one entry when no name given''))"

definition readZipEntry :: "zip_lib \<Rightarrow> string \<Rightarrow> string \<Rightarrow> disk \<Rightarrow> (string + string) \<times> disk" where
  "readZipEntry z inZip entryName d =
     (case readBinary inZip d of (raw, d1) \<Rightarrow>
        case Option.bind raw (zip_entries z) of
          None \<Rightarrow> (Inl (''readZipEntry: Unzip::create failed: '' @ zip_error z), d1)
        | Some entries \<Rightarrow>
            (case zip_target entryName entries of
               Inl err \<Rightarrow> (Inl err, d1)
             | Inr target \<Rightarrow>
                 (case map_of entries target of
                    None \<Rightarrow> (Inl (''readZipEntry: entry '' @ [CHR 0x27] @ target @ [CHR 0x27] @ '' not found''), d1)
                  | Some bytes \<Rightarrow>
                      (case io_tick d1 of (f, d2) \<Rightarrow>
                         (if f = None then Inr bytes
                          else Inl (''readZipEntry: extract failed: '' @ zip_error z), d2)))))"

definition extractZipToFile :: "zip_lib \<Rightarrow> string \<Rightarrow> string \<Rightarrow> string \<Rightarrow> disk \<Rightarrow> (string + unit) \<times> disk" where
  "extractZipToFile z inZip outFile entryName d =
     (case readZipEntry z inZip entryName d of
        (Inl err, d1) \<Rightarrow> (Inl err, d1)
      | (Inr bytes, d1) \<Rightarrow>
          (case writeBinary outFile bytes d1 of
             (True, d2) \<Rightarrow> (Inr (), d2)
           | (False, d2) \<Rightarrow> (Inl (''writeBinary failed: '' @ zip_error z), d2)))"

section \<open>What the operations leave alone\<close>

definition keeps_files :: "string set \<Rightarrow> disk \<Rightarrow> disk \<Rightarrow> bool" where
  "keeps_files S d d' \<longleftrightarrow> (\<forall>p. p \<notin> S \<longrightarrow> fmlookup (contents d') p = fmlookup (contents d) p)"

named_theorems disk_steps \<open>what a call on the disk does\<close>

lemma io_tick_contents [simp]: "contents (snd (io_tick d)) = contents d"
  by (simp add: io_tick_def split: list.split)

lemma io_tick_pair: "io_tick d = (f, d') \<Longrightarrow> contents d' = contents d"
  using io_tick_contents [of d] by simp

lemma io_tick_none [simp]: "io_faults d = [] \<Longrightarrow> io_tick d = (None, d)"
  by (simp add: io_tick_def)

lemma on_files_simps [simp]:
  "contents (on_files f d) = f (contents d)" "io_faults (on_files f d) = io_faults d"
  by (simp_all add: on_files_def)

lemma keeps_files_refl [simp, intro]: "keeps_files S d d"
  by (simp add: keeps_files_def)

lemma keeps_files_trans: "keeps_files S a b \<Longrightarrow> keeps_files S b c \<Longrightarrow> keeps_files S a c"
  by (simp add: keeps_files_def)

lemma keeps_files_mono: "keeps_files S d d' \<Longrightarrow> S \<subseteq> T \<Longrightarrow> keeps_files T d d'"
  by (auto simp: keeps_files_def)

lemma keeps_tick [disk_steps]: "keeps_files S d (snd (io_tick d))"
  by (simp add: keeps_files_def)

lemma keeps_on_files:
  "(\<And>p m. p \<notin> S \<Longrightarrow> fmlookup (f m) p = fmlookup m p) \<Longrightarrow> keeps_files S d d' \<Longrightarrow> keeps_files S d (on_files f d')"
  by (simp add: keeps_files_def)

lemma keeps_remove [disk_steps]: "p \<in> S \<Longrightarrow> keeps_files S d (remove_file p d)"
  using keeps_tick [of S d] by (auto simp: remove_file_def split_beta intro!: keeps_on_files)

lemma keeps_exists [disk_steps]: "keeps_files S d (snd (file_exists p d))"
  using keeps_tick [of S d] by (simp add: file_exists_def split_beta)

lemma keeps_read [disk_steps]: "keeps_files S d (snd (readBinary p d))"
  using keeps_tick [of S d] by (simp add: readBinary_def split_beta)

lemma keeps_write [disk_steps]: "p \<in> S \<Longrightarrow> keeps_files S d (snd (writeBinary p bytes d))"
  using keeps_tick [of S d]
  by (auto simp: writeBinary_def split: prod.split option.split nat.split intro!: keeps_on_files)

lemma keeps_replace [disk_steps]:
  "source \<in> S \<Longrightarrow> target \<in> S \<Longrightarrow> keeps_files S d (snd (replaceFileAtomic source target d))"
  using keeps_tick [of S d]
  by (auto simp: replaceFileAtomic_def split: prod.split option.split intro!: keeps_on_files)

lemma keeps_peek [disk_steps]: "keeps_files S d (snd (peekDbFileForm p d))"
  using keeps_read [of S d p] by (cases "readBinary p d") (auto simp: peekDbFileForm_def split: option.split)

lemma replaceFile_effect:
  assumes "replaceFileAtomic source target d = (b, d')" and "source \<noteq> target"
  shows "if b then fmlookup (contents d') target = fmlookup (contents d) source \<and> fmlookup (contents d) source \<noteq> None
           \<and> fmlookup (contents d') source = None
         else contents d' = contents d"
proof -
  obtain f d1 where t: "io_tick d = (f, d1)" by fastforce
  with assms io_tick_pair [OF t] show ?thesis
    by (auto simp: replaceFileAtomic_def split: option.splits if_splits)
qed

lemma write_effect: "writeBinary p bytes d = (True, d') \<Longrightarrow> fmlookup (contents d') p = Some bytes"
  by (auto simp: writeBinary_def split: prod.splits option.splits nat.splits)

text \<open>The archive appears whole under its name, or the name keeps what it had.\<close>

lemma writeZipAtomic_effect:
  assumes "writeZipAtomic z out name bytes d = (b, d')"
  shows "keeps_files {out, out @ ''.tmp''} d d' \<and>
    fmlookup (contents d') out = (if b then Some (zip_pack z [(name, bytes)]) else fmlookup (contents d) out)"
proof -
  let ?t = "out @ ''.tmp''" and ?S = "{out @ ''.tmp''}"
  obtain b1 d1 where w1: "writeBinary ?t [] d = (b1, d1)" by fastforce
  obtain b2 d2 where w2: "writeBinary ?t (zip_pack z [(name, bytes)]) d1 = (b2, d2)" by fastforce
  obtain b3 d3 where r: "replaceFileAtomic ?t out d2 = (b3, d3)" by fastforce
  have k1: "keeps_files ?S d d1" using keeps_write [of ?t ?S d "[]"] w1 by simp
  have k2: "keeps_files ?S d d2" using keeps_files_trans [OF k1] keeps_write [of ?t ?S d1] w2 by (metis insertI1 snd_conv)
  have un: "keeps_files ?S d x \<Longrightarrow> keeps_files {out, ?t} d x \<and> fmlookup (contents x) out = fmlookup (contents d) out" for x
    by (auto simp: keeps_files_def)
  have rem: "keeps_files ?S d x \<Longrightarrow> keeps_files ?S d (remove_file ?t x)" for x
    using keeps_files_trans keeps_remove by blast
  consider "b1" "b2" "b3" | "\<not> b1" | "b1" "\<not> b2" | "b1" "b2" "\<not> b3" by blast
  then show ?thesis
  proof cases
    case 1
    then have "b" "d' = d3" using assms w1 w2 r by (simp_all add: writeZipAtomic_def Let_def)
    moreover have "fmlookup (contents d3) out = Some (zip_pack z [(name, bytes)])"
      using replaceFile_effect [OF r] write_effect [of ?t] w2 1 by auto
    moreover have "keeps_files {out, ?t} d d3"
      using keeps_files_trans [OF conjunct1 [OF un [OF k2]]] keeps_replace [of ?t "{out, ?t}" out d2] r by simp
    ultimately show ?thesis by simp
  next
    case 2
    then have "\<not> b" "d' = d1" using assms w1 by (simp_all add: writeZipAtomic_def Let_def)
    then show ?thesis using un [OF k1] by simp
  next
    case 3
    then have "\<not> b" "d' = remove_file ?t d2" using assms w1 w2 by (simp_all add: writeZipAtomic_def Let_def)
    then show ?thesis using un [OF rem [OF k2]] by simp
  next
    case 4
    then have b: "\<not> b" "d' = remove_file ?t d3" using assms w1 w2 r by (simp_all add: writeZipAtomic_def Let_def)
    have "keeps_files ?S d d3" using replaceFile_effect [OF r] k2 4 by (simp add: keeps_files_def)
    then show ?thesis using un [OF rem] b by simp
  qed
qed

lemma extractZip_keeps [disk_steps]:
  "out \<in> S \<Longrightarrow> keeps_files S d (snd (extractZipToFile z p out name d))"
proof -
  assume out: "out \<in> S"
  have r: "keeps_files S d (snd (readZipEntry z p name d))"
    using keeps_read [of S d p] keeps_files_trans [OF _ keeps_tick]
    by (auto simp: readZipEntry_def split_beta split: option.split sum.split)
  obtain x d1 where x: "readZipEntry z p name d = (x, d1)" by fastforce
  show ?thesis
  proof (cases x)
    case (Inr bytes)
    obtain b d2 where w: "writeBinary out bytes d1 = (b, d2)" by fastforce
    with keeps_write [OF out, of d1 bytes] r x keeps_files_trans have "keeps_files S d d2" by fastforce
    with x w Inr show ?thesis by (cases b) (simp_all add: extractZipToFile_def)
  qed (use r x in \<open>simp add: extractZipToFile_def\<close>)
qed

lemma extractZip_no_fault:
  assumes "zip_ok z" and "io_faults d = []" and "fmlookup (contents d) p = Some (zip_pack z [(name, bytes)])" and "name \<noteq> []"
  shows "extractZipToFile z p out name d = (Inr (), on_files (fmupd out bytes) d)"
  using assms by (simp add: zip_ok_def extractZipToFile_def readZipEntry_def readBinary_def zip_target_def writeBinary_def)

lemma length_kZipMagic [simp]: "length kZipMagic = 4"
  by (simp add: kZipMagic_def)

lemma sniff_zip:
  assumes "zip_ok z"
  shows "sniff (take 16 (zip_pack z [(n, b)])) = Zip"
proof -
  have t: "take 4 (zip_pack z [(n, b)]) = kZipMagic" using assms by (simp add: zip_ok_def)
  then have "length (take 4 (zip_pack z [(n, b)])) = 4" by simp
  then have "4 \<le> length (zip_pack z [(n, b)])" by simp
  with t show ?thesis by (simp add: sniff_def min_def)
qed

lemma sniff_sqlite: "sniff kSqliteMagic = Sqlite"
  by (simp add: sniff_def kSqliteMagic_def kZipMagic_def)

end
