(* ===== verification/Gdge_Package.thy ===== *)
theory Gdge_Package
  imports File_Store Commit_Store
begin

text \<open>
  \<open>src/store/GdgePackage.cpp\<close>: a history file, an SQLite database with a table of metadata and
  a table of commits, optionally inside an archive.  Its tables are maps; the bytes SQLite
  keeps them in are parameters (\<open>g_image\<close>, \<open>g_load\<close>), as are the archive library, zlib, the
  clock, the setting that chooses the archive and the directory for temporary files.
\<close>

section \<open>Package data\<close>

record package_commit =
  commitIndex :: int
  parentIndex :: "int option"
  revertsIndex :: "int option"
  commitMessage :: string
  createdAt :: int
  deltaBlob :: string

record package_metadata =
  formatVersion :: string
  rootHash :: string
  headIndex :: "int option"
  sourceLevelKey :: level_key
  exportedAt :: int

record package_data =
  metadata :: package_metadata
  package_commits :: "package_commit list"

fun contiguous_from :: "int \<Rightarrow> int list \<Rightarrow> bool" where
  "contiguous_from i [] \<longleftrightarrow> True"
| "contiguous_from i (x # xs) \<longleftrightarrow> x = i \<and> contiguous_from (i + 1) xs"

definition isValidIndex :: "nat \<Rightarrow> int option \<Rightarrow> bool" where
  "isValidIndex n idx = (case idx of None \<Rightarrow> True | Some i \<Rightarrow> 0 \<le> i \<and> i < int n)"

fun reference_reason :: "nat \<Rightarrow> package_commit list \<Rightarrow> string" where
  "reference_reason n [] = []"
| "reference_reason n (c # cs) =
     (if \<not> isValidIndex n (parentIndex c) then ''parent_index out of range''
      else if \<not> isValidIndex n (revertsIndex c) then ''reverts_index out of range''
      else reference_reason n cs)"

definition validateDataReason :: "package_data \<Rightarrow> string" where
  "validateDataReason p =
     (let n = length (package_commits p); refsReason = reference_reason n (package_commits p) in
      if rootHash (metadata p) = [] then ''metadata.rootHash empty''
      else if sourceLevelKey (metadata p) = [] then ''metadata.sourceLevelKey empty''
      else if formatVersion (metadata p) = [] then ''metadata.formatVersion empty''
      else if \<not> contiguous_from 0 (sort (map commitIndex (package_commits p)))
      then ''commit_index sequence not contiguous from 0''
      else if refsReason \<noteq> [] then refsReason
      else if \<not> isValidIndex n (headIndex (metadata p)) then ''head_index out of range''
      else [])"

definition validateData :: "package_data \<Rightarrow> bool" where
  "validateData p \<longleftrightarrow> validateDataReason p = []"

section \<open>The database in the file\<close>

record package_row =
  pk_parent :: "int option"
  pk_reverts :: "int option"
  pk_message :: string
  pk_created :: int
  pk_blob :: string

record package_db =
  meta_table :: "(string, string) fmap option"
  commit_table :: "(int, package_row) fmap option"

definition empty_package_db :: package_db where
  "empty_package_db = \<lparr>meta_table = None, commit_table = None\<rparr>"

record package_env =
  g_zip :: zip_lib
  g_zlib :: zlib
  g_image :: "string \<Rightarrow> package_db \<Rightarrow> string"
  g_load :: "string \<Rightarrow> package_db option"
  g_errmsg :: string
  g_temp :: string
  g_compress :: bool
  g_now :: int

text \<open>An empty file is an empty database, and what SQLite wrote it reads back.\<close>

definition package_env_ok :: "package_env \<Rightarrow> bool" where
  "package_env_ok g \<longleftrightarrow> zip_ok (g_zip g) \<and> zlib_ok (g_zlib g) \<and> g_load g [] = Some empty_package_db \<and>
     (\<forall>old t. g_load g (g_image g old t) = Some t \<and> take 16 (g_image g old t) = kSqliteMagic)"

text \<open>A connection: the tables, their state before the transaction, whether the file holds a
  database at all, and the disk whose schedule decides which calls fail.\<close>

record package_conn =
  pk_db :: package_db
  pk_saved :: "package_db option"
  pk_valid :: bool
  pk_disk :: disk

type_synonym package_step = "package_conn \<Rightarrow> bool \<times> package_conn"

definition pk_call :: package_step where
  "pk_call c = (case io_tick (pk_disk c) of (f, d) \<Rightarrow> (f = None, c\<lparr>pk_disk := d\<rparr>))"

definition execSql :: "(package_conn \<Rightarrow> package_conn option) \<Rightarrow> package_step" where
  "execSql s c =
     (case pk_call c of (ok, c1) \<Rightarrow>
        if \<not> ok \<or> \<not> pk_valid c1 then (False, c1)
        else (case s c1 of None \<Rightarrow> (False, c1) | Some c2 \<Rightarrow> (True, c2)))"

definition bindText :: "string \<Rightarrow> package_step" where
  "bindText s c = (case pk_call c of (ok, c1) \<Rightarrow> (ok \<and> \<not> isBlobFootprintTooLarge (length s), c1))"

text \<open>The chain \<open>a && b && ...\<close>.\<close>

fun all_steps :: "package_step list \<Rightarrow> package_step" where
  "all_steps [] c = (True, c)"
| "all_steps (s # ss) c = (case s c of (ok, c1) \<Rightarrow> if ok then all_steps ss c1 else (False, c1))"

definition sql_begin :: "package_conn \<Rightarrow> package_conn option" where
  "sql_begin c = (if pk_saved c = None then Some (c\<lparr>pk_saved := Some (pk_db c)\<rparr>) else None)"

definition sql_commit :: "package_conn \<Rightarrow> package_conn option" where
  "sql_commit c = (if pk_saved c = None then None else Some (c\<lparr>pk_saved := None\<rparr>))"

definition on_tables :: "(package_db \<Rightarrow> package_db option) \<Rightarrow> package_conn \<Rightarrow> package_conn option" where
  "on_tables f c = map_option (\<lambda>t. c\<lparr>pk_db := t\<rparr>) (f (pk_db c))"

definition drop_commits :: "package_db \<Rightarrow> package_db option" where
  "drop_commits t = Some (t\<lparr>commit_table := None\<rparr>)"

definition drop_meta :: "package_db \<Rightarrow> package_db option" where
  "drop_meta t = Some (t\<lparr>meta_table := None\<rparr>)"

definition create_meta :: "package_db \<Rightarrow> package_db option" where
  "create_meta t = (if meta_table t = None then Some (t\<lparr>meta_table := Some fmempty\<rparr>) else None)"

definition create_commits :: "package_db \<Rightarrow> package_db option" where
  "create_commits t = (if commit_table t = None then Some (t\<lparr>commit_table := Some fmempty\<rparr>) else None)"

definition upsert_meta :: "string \<Rightarrow> string \<Rightarrow> package_db \<Rightarrow> package_db option" where
  "upsert_meta k v t = map_option (\<lambda>m. t\<lparr>meta_table := Some (fmupd k v m)\<rparr>) (meta_table t)"

definition insert_row :: "int \<Rightarrow> package_row \<Rightarrow> package_db \<Rightarrow> package_db option" where
  "insert_row i r t =
     (case commit_table t of
        None \<Rightarrow> None
      | Some m \<Rightarrow> if fmlookup m i = None then Some (t\<lparr>commit_table := Some (fmupd i r m)\<rparr>) else None)"

section \<open>Writing\<close>

definition setMeta :: "string \<Rightarrow> string \<Rightarrow> package_step" where
  "setMeta k v = all_steps [pk_call, bindText k, bindText v, execSql (on_tables (upsert_meta k v))]"

definition row_of :: "package_commit \<Rightarrow> string \<Rightarrow> package_row" where
  "row_of c stored =
     \<lparr>pk_parent = parentIndex c, pk_reverts = revertsIndex c, pk_message = commitMessage c,
      pk_created = createdAt c, pk_blob = stored\<rparr>"

definition write_commit :: "zlib \<Rightarrow> package_commit \<Rightarrow> package_step" where
  "write_commit z c k =
     (case compressBlob z (deltaBlob c) (- 1) of
        None \<Rightarrow> (False, k)
      | Some stored \<Rightarrow>
          (case bindText stored k of (bindBlobOk, k1) \<Rightarrow>
             all_steps [bindText (commitMessage c), pk_call, Pair bindBlobOk,
               execSql (on_tables (insert_row (commitIndex c) (row_of c stored)))] k1))"

definition schema_steps :: "package_step list" where
  "schema_steps =
     [execSql Some, execSql Some, execSql sql_begin, execSql (on_tables drop_commits),
      execSql (on_tables drop_meta), execSql (on_tables create_meta), execSql (on_tables create_commits)]"

definition meta_pairs :: "int \<Rightarrow> package_metadata \<Rightarrow> (string \<times> string) list" where
  "meta_pairs now m =
     [(''format_version'', formatVersion m), (''root_hash'', rootHash m),
      (''source_level_key'', sourceLevelKey m),
      (''exported_at'', int_to_string (if exportedAt m > 0 then exportedAt m else now))]
     @ (case headIndex m of None \<Rightarrow> [] | Some h \<Rightarrow> [(''head_index'', int_to_string h)])"

definition package_writer :: "package_env \<Rightarrow> package_data \<Rightarrow> package_step" where
  "package_writer g p =
     all_steps (schema_steps
       @ map (\<lambda>(k, v). setMeta k v) (meta_pairs (g_now g) (metadata p))
       @ pk_call # map (write_commit (g_zlib g)) (package_commits p)
       @ [execSql sql_commit])"

text \<open>Opening creates the file; the bytes of the file change when the transaction commits.\<close>

definition open_package :: "package_env \<Rightarrow> string \<Rightarrow> disk \<Rightarrow> package_conn option \<times> disk" where
  "open_package g path d =
     (case io_tick d of (f, d1) \<Rightarrow>
        if f \<noteq> None then (None, d1)
        else
          (let bytes = get_or_empty (contents d1) path; loaded = g_load g bytes
           in (Some \<lparr>pk_db = (case loaded of None \<Rightarrow> empty_package_db | Some t \<Rightarrow> t), pk_saved = None,
                 pk_valid = (loaded \<noteq> None), pk_disk = on_files (fmupd path bytes) d1\<rparr>, d1)))"

definition writeGdgePackageSqlite :: "package_env \<Rightarrow> string \<Rightarrow> package_data \<Rightarrow> disk \<Rightarrow> bool \<times> disk" where
  "writeGdgePackageSqlite g outPath p d =
     (if \<not> validateData p then (False, d)
      else
        (case open_package g outPath d of
           (None, d1) \<Rightarrow> (False, d1)
         | (Some c, _) \<Rightarrow>
             (case package_writer g p c of (ok, c1) \<Rightarrow>
                if ok then (True, on_files (fmupd outPath (g_image g (get_or_empty (contents d) outPath) (pk_db c1))) (pk_disk c1))
                else (False, if pk_saved c1 = None then pk_disk c1 else snd (io_tick (pk_disk c1))))))"

definition write_plain :: "package_env \<Rightarrow> string \<Rightarrow> package_data \<Rightarrow> disk \<Rightarrow> (string + unit) \<times> disk" where
  "write_plain g outPath p d =
     (let tmpPath = outPath @ ''.tmp'' in
      case writeGdgePackageSqlite g tmpPath p d of
        (False, d1) \<Rightarrow> (Inl ''failed to write sqlite package'', remove_file tmpPath d1)
      | (True, d1) \<Rightarrow>
          (case replaceFileAtomic tmpPath outPath d1 of
             (False, d2) \<Rightarrow> (Inl ''failed to replace package file atomically'', remove_file tmpPath d2)
           | (True, d2) \<Rightarrow> (Inr (), d2)))"

definition write_zipped :: "package_env \<Rightarrow> string \<Rightarrow> package_data \<Rightarrow> disk \<Rightarrow> (string + unit) \<times> disk" where
  "write_zipped g outPath p d =
     (let sqlitePath = outPath @ ''.sqlite-tmp'' in
      case writeGdgePackageSqlite g sqlitePath p d of
        (False, d1) \<Rightarrow> (Inl ''failed to write sqlite package for zip export'', d1)
      | (True, d1) \<Rightarrow>
          (case readBinary sqlitePath d1 of
             (None, d2) \<Rightarrow> (Inl ''failed to read intermediate sqlite for zip export'', remove_file sqlitePath d2)
           | (Some bytes, d2) \<Rightarrow>
               (case writeZipAtomic (g_zip g) outPath ''package.gdge'' bytes d2 of (wroteZip, d3) \<Rightarrow>
                  (if wroteZip then Inr () else Inl ''failed to write zip package'', remove_file sqlitePath d3))))"

definition writeGdgePackage :: "package_env \<Rightarrow> string \<Rightarrow> package_data \<Rightarrow> disk \<Rightarrow> (string + unit) \<times> disk" where
  "writeGdgePackage g outPath p d =
     (if \<not> g_compress g then write_plain g outPath p d else write_zipped g outPath p d)"

section \<open>Reading\<close>

definition getMeta :: "string \<Rightarrow> package_conn \<Rightarrow> string option \<times> package_conn" where
  "getMeta k c =
     (case pk_call c of (ok, c1) \<Rightarrow>
        if \<not> ok \<or> \<not> pk_valid c1 then (None, c1)
        else
          (case meta_table (pk_db c1) of
             None \<Rightarrow> (None, c1)
           | Some m \<Rightarrow>
               (case all_steps [bindText k, pk_call] c1 of (ok2, c2) \<Rightarrow>
                  (if ok2 then map_option c_str (fmlookup m k) else None, c2))))"

definition value_or :: "string \<Rightarrow> string option \<Rightarrow> string" where
  "value_or dflt v = (case v of None \<Rightarrow> dflt | Some s \<Rightarrow> s)"

definition parse_failure :: "string \<Rightarrow> string \<Rightarrow> string" where
  "parse_failure what s = what @ '' parse failed: '' @ [CHR 0x27] @ s @ [CHR 0x27]"

definition read_metadata :: "package_conn \<Rightarrow> (string + package_metadata) \<times> package_conn" where
  "read_metadata c =
     (case getMeta ''format_version'' c of (ver, c1) \<Rightarrow>
      case getMeta ''root_hash'' c1 of (hash, c2) \<Rightarrow>
      case getMeta ''source_level_key'' c2 of (key, c3) \<Rightarrow>
      case getMeta ''exported_at'' c3 of (exported, c4) \<Rightarrow>
        let exportedAtText = value_or ''0'' exported in
        case parseInt64 exportedAtText of
          None \<Rightarrow> (Inl (parse_failure ''exported_at'' exportedAtText), c4)
        | Some at \<Rightarrow>
            (case getMeta ''head_index'' c4 of (head, c5) \<Rightarrow>
               let m = \<lparr>formatVersion = value_or [] ver, rootHash = value_or [] hash, headIndex = None,
                        sourceLevelKey = value_or [] key, exportedAt = at\<rparr>
               in (case head of
                     None \<Rightarrow> (Inr m, c5)
                   | Some h \<Rightarrow>
                       (case parseInt64 h of
                          None \<Rightarrow> (Inl (parse_failure ''head_index'' h), c5)
                        | Some i \<Rightarrow> (Inr (m\<lparr>headIndex := Some i\<rparr>), c5)))))"

definition commit_of :: "int \<Rightarrow> package_row \<Rightarrow> string \<Rightarrow> package_commit" where
  "commit_of i r json =
     \<lparr>commitIndex = i, parentIndex = pk_parent r, revertsIndex = pk_reverts r,
      commitMessage = c_str (pk_message r), createdAt = pk_created r, deltaBlob = json\<rparr>"

fun read_rows :: "package_env \<Rightarrow> (int \<times> package_row) list \<Rightarrow> package_conn \<Rightarrow>
    (string + package_commit list) \<times> package_conn" where
  "read_rows g [] c =
     (case pk_call c of (ok, c1) \<Rightarrow> (if ok then Inr [] else Inl (''commits step failed: '' @ g_errmsg g), c1))"
| "read_rows g ((i, r) # rows) c =
     (case pk_call c of (ok, c1) \<Rightarrow>
        if \<not> ok then (Inl (''commits step failed: '' @ g_errmsg g), c1)
        else
          (case (if pk_blob r = [] then Some [] else decompressBlob (g_zlib g) (pk_blob r)) of
             None \<Rightarrow> (Inl (''decompress delta_blob failed for commit_index='' @ int_to_string i), c1)
           | Some json \<Rightarrow>
               (case read_rows g rows c1 of
                  (Inl err, c2) \<Rightarrow> (Inl err, c2)
                | (Inr cs, c2) \<Rightarrow> (Inr (commit_of i r json # cs), c2))))"

definition read_commits :: "package_env \<Rightarrow> package_conn \<Rightarrow> (string + package_commit list) \<times> package_conn" where
  "read_commits g c =
     (case pk_call c of (ok, c1) \<Rightarrow>
        case commit_table (pk_db c1) of
          None \<Rightarrow> (Inl (''prepare commits select failed: '' @ g_errmsg g), c1)
        | Some t \<Rightarrow>
            (if \<not> ok \<or> \<not> pk_valid c1 then (Inl (''prepare commits select failed: '' @ g_errmsg g), c1)
             else read_rows g (sorted_list_of_fmap t) c1))"

definition read_package :: "package_env \<Rightarrow> package_conn \<Rightarrow> (string + package_data) \<times> package_conn" where
  "read_package g c =
     (case read_metadata c of
        (Inl err, c1) \<Rightarrow> (Inl err, c1)
      | (Inr m, c1) \<Rightarrow>
          (case read_commits g c1 of
             (Inl err, c2) \<Rightarrow> (Inl err, c2)
           | (Inr cs, c2) \<Rightarrow> (Inr \<lparr>metadata = m, package_commits = cs\<rparr>, c2)))"

text \<open>Opening for reading does not create the file.\<close>

definition open_readonly :: "package_env \<Rightarrow> string \<Rightarrow> disk \<Rightarrow> package_conn option \<times> disk" where
  "open_readonly g path d =
     (case readBinary path d of
        (None, d1) \<Rightarrow> (None, d1)
      | (Some bytes, d1) \<Rightarrow>
          (let loaded = g_load g bytes
           in (Some \<lparr>pk_db = (case loaded of None \<Rightarrow> empty_package_db | Some t \<Rightarrow> t), pk_saved = None,
                 pk_valid = (loaded \<noteq> None), pk_disk = d1\<rparr>, d1)))"

definition checked :: "string + package_data \<Rightarrow> string + package_data" where
  "checked res =
     (case res of
        Inl err \<Rightarrow> Inl err
      | Inr p \<Rightarrow> if validateDataReason p = [] then Inr p else Inl (''validateData failed: '' @ validateDataReason p))"

definition readGdgePackageFromSqlitePath :: "package_env \<Rightarrow> string \<Rightarrow> string \<Rightarrow> disk \<Rightarrow>
    (string + package_data) \<times> disk" where
  "readGdgePackageFromSqlitePath g sqlitePath cleanupPath d =
     (let doCleanup = (\<lambda>d. if cleanupPath = [] then d else remove_file cleanupPath d) in
      case open_readonly g sqlitePath d of
        (None, d1) \<Rightarrow> (Inl (''sqlite3_open_v2 failed: '' @ g_errmsg g), doCleanup d1)
      | (Some c, _) \<Rightarrow> (case read_package g c of (res, c1) \<Rightarrow> (checked res, doCleanup (pk_disk c1))))"

definition extraction_path :: "package_env \<Rightarrow> string \<Rightarrow> string" where
  "extraction_path g path = path_join (g_temp g) (path_stem path @ ''.gdge.tmp'')"

definition readGdgePackage :: "package_env \<Rightarrow> string \<Rightarrow> disk \<Rightarrow> (string + package_data) \<times> disk" where
  "readGdgePackage g path d =
     (case file_exists path d of
        (False, d1) \<Rightarrow> (Inl ''file does not exist'', d1)
      | (True, d1) \<Rightarrow>
          (case peekDbFileForm path d1 of
             (Sqlite, d2) \<Rightarrow> readGdgePackageFromSqlitePath g path [] d2
           | (Zip, d2) \<Rightarrow>
               (let tmpPath = extraction_path g path in
                case extractZipToFile (g_zip g) path tmpPath ''package.gdge'' d2 of
                  (Inl err, d3) \<Rightarrow> (Inl (''zip extract failed: '' @ err), d3)
                | (Inr _, d3) \<Rightarrow> readGdgePackageFromSqlitePath g tmpPath tmpPath d3)
           | (Unknown, d2) \<Rightarrow> (Inl ''unknown file form (not zip or sqlite)'', d2)))"

end
