(* ===== verification/Gd_Header.thy ===== *)
theory Gd_Header
  imports Level_Model
begin

text \<open>
  \<open>src/model/GdHeader.cpp\<close>: the key/value list of a raw level header, the colour channels
  stored under the key \<open>kS38\<close>, and the three-way merge of two headers with a common base.
  The locale \<open>three_way\<close> is the contract of every three-way merge of the program: an
  unchanged side yields to the other one, and only a real divergence counts as a conflict.
\<close>

section \<open>The contract of a three-way merge\<close>

locale three_way =
  fixes eqv :: "'a \<Rightarrow> 'a \<Rightarrow> bool"
    and merge3 :: "'a \<Rightarrow> 'a \<Rightarrow> 'a \<Rightarrow> 'a \<times> nat"
  assumes eqv_refl: "eqv x x"
    and both: "eqv (fst (merge3 b x x)) x" "snd (merge3 b x x) = 0"
    and only_theirs: "eqv (fst (merge3 b b t)) t" "snd (merge3 b b t) = 0"
    and only_ours: "eqv (fst (merge3 b x b)) x" "snd (merge3 b x b) = 0"
begin

lemma conflict_needs_divergence: "snd (merge3 b x t) \<noteq> 0 \<Longrightarrow> x \<noteq> t \<and> x \<noteq> b \<and> t \<noteq> b"
  using both only_theirs only_ours by metis

lemma unchanged: "eqv (fst (merge3 b b b)) b" "snd (merge3 b b b) = 0"
  by (rule both)+

end

text \<open>
  The rule the code repeats for header values and channel records: equal sides agree, an
  unchanged side yields, otherwise ours is kept and a conflict is counted.
\<close>

definition choose3 :: "'v \<Rightarrow> 'v \<Rightarrow> 'v \<Rightarrow> 'v \<times> nat" where
  "choose3 b ours theirs =
     (if ours = theirs then (ours, 0)
      else if ours = b then (theirs, 0)
      else if theirs = b then (ours, 0)
      else (ours, 1))"

interpretation choice: three_way "(=)" choose3
  by unfold_locales (auto simp: choose3_def)

section \<open>Key/value lists\<close>

type_synonym kvlist = "(string \<times> string) list"
type_synonym channel_record = "(int, string) fmap"
type_synonym channel_map = "(int, channel_record) fmap"

fun parseHeader_loop :: "string list \<Rightarrow> string list \<Rightarrow> kvlist \<Rightarrow> kvlist option" where
  "parseHeader_loop (k # v # tokens) seen out =
     (if k \<in> set seen then None else parseHeader_loop tokens (k # seen) (out @ [(k, v)]))"
| "parseHeader_loop _ seen out = Some out"

definition parseHeader :: "string \<Rightarrow> kvlist option" where
  "parseHeader chunk =
     (let tokens = pop_trailing_empty (splitView chunk (CHR '','')) in
      if length tokens mod 2 \<noteq> 0 then None else parseHeader_loop tokens [] [])"

fun serializeHeader_loop :: "nat \<Rightarrow> kvlist \<Rightarrow> string \<Rightarrow> string" where
  "serializeHeader_loop i [] out = out"
| "serializeHeader_loop i ((k, v) # kv) out =
     serializeHeader_loop (Suc i) kv ((if i > 0 then out @ '','' else out) @ k @ '','' @ v)"

definition serializeHeader :: "kvlist \<Rightarrow> string" where
  "serializeHeader kv = serializeHeader_loop 0 kv []"

section \<open>Colour channels\<close>

fun parseRecord_loop :: "string list \<Rightarrow> channel_record \<Rightarrow> channel_record option" where
  "parseRecord_loop (k # v # tokens) flds =
     (case parseInt k of None \<Rightarrow> None | Some key \<Rightarrow> parseRecord_loop tokens (fmupd key v flds))"
| "parseRecord_loop _ flds = Some flds"

fun parseChannels_loop :: "string list \<Rightarrow> channel_map \<Rightarrow> channel_map option" where
  "parseChannels_loop [] out = Some out"
| "parseChannels_loop (rec # recs) out =
     (if rec = [] then parseChannels_loop recs out
      else
        (let tokens = splitView rec (CHR ''_'') in
         if length tokens mod 2 \<noteq> 0 then None
         else
           (case parseRecord_loop tokens fmempty of
              None \<Rightarrow> None
            | Some flds \<Rightarrow>
                (case fmlookup flds 6 of
                   None \<Rightarrow> None
                 | Some idText \<Rightarrow>
                     (case parseInt idText of
                        None \<Rightarrow> None
                      | Some channelId \<Rightarrow>
                          if fmlookup out channelId \<noteq> None then None
                          else parseChannels_loop recs (emplace channelId flds out))))))"

definition parseChannels :: "string \<Rightarrow> channel_map option" where
  "parseChannels value =
     (if value = [] then Some fmempty
      else parseChannels_loop (splitView value (CHR ''|'')) fmempty)"

fun serializeRecord_loop :: "(int \<times> string) list \<Rightarrow> bool \<Rightarrow> string \<Rightarrow> string" where
  "serializeRecord_loop [] firstKv out = out"
| "serializeRecord_loop ((key, value) # rec) firstKv out =
     serializeRecord_loop rec False
       ((if firstKv then out else out @ ''_'') @ int_to_string key @ ''_'' @ value)"

fun serializeChannels_loop :: "channel_record list \<Rightarrow> bool \<Rightarrow> string \<Rightarrow> string" where
  "serializeChannels_loop [] firstRecord out = out"
| "serializeChannels_loop (rec # recs) firstRecord out =
     serializeChannels_loop recs False
       (serializeRecord_loop (sorted_list_of_fmap rec) True (if firstRecord then out else out @ ''|''))"

definition serializeChannels :: "channel_map \<Rightarrow> string" where
  "serializeChannels ch = serializeChannels_loop (map snd (sorted_list_of_fmap ch)) True []"

section \<open>Merging\<close>

definition kS38 :: string where "kS38 = ''kS38''"

definition kv_map :: "kvlist \<Rightarrow> fieldmap" where
  "kv_map kv = fold (\<lambda>(k, v) m. fmupd k v m) kv fmempty"

definition push_key :: "string \<times> string \<Rightarrow> string list \<Rightarrow> string list" where
  "push_key kv keyOrder = (if fst kv \<in> set keyOrder then keyOrder else keyOrder @ [fst kv])"

definition key_order :: "kvlist \<Rightarrow> kvlist \<Rightarrow> kvlist \<Rightarrow> string list" where
  "key_order b ours theirs = fold push_key b (fold push_key theirs (fold push_key ours []))"

definition ch_get :: "channel_map option \<Rightarrow> int \<Rightarrow> channel_record option" where
  "ch_get ch cid = (case ch of None \<Rightarrow> None | Some m \<Rightarrow> fmlookup m cid)"

definition ch_ids :: "channel_map option \<Rightarrow> int fset" where
  "ch_ids ch = (case ch of None \<Rightarrow> {||} | Some m \<Rightarrow> fmdom m)"

definition merge_record_step :: "channel_map option \<Rightarrow> channel_map option \<Rightarrow> channel_map option \<Rightarrow>
    int \<Rightarrow> channel_map \<times> nat \<Rightarrow> channel_map \<times> nat" where
  "merge_record_step b ours theirs cid s =
     (case s of (outMap, conflicts) \<Rightarrow>
        (case choose3 (ch_get b cid) (ch_get ours cid) (ch_get theirs cid) of
           (mergedRec, c) \<Rightarrow>
             (case mergedRec of None \<Rightarrow> outMap | Some r \<Rightarrow> fmupd cid r outMap, conflicts + c)))"

definition merge_channels :: "channel_map option \<Rightarrow> channel_map option \<Rightarrow> channel_map option \<Rightarrow>
    channel_map option \<times> nat" where
  "merge_channels b ours theirs =
     (if ours = theirs then (ours, 0)
      else if ours = b then (theirs, 0)
      else if theirs = b then (ours, 0)
      else
        (case fold (merge_record_step b ours theirs)
            (sorted_list_of_fset (ch_ids b |\<union>| ch_ids ours |\<union>| ch_ids theirs)) (fmempty, 0) of
           (outMap, conflicts) \<Rightarrow> (Some outMap, conflicts)))"

text \<open>\<open>parseOpt\<close>: the outer option is failure, the inner one absence.\<close>

definition parseOpt :: "string option \<Rightarrow> channel_map option option" where
  "parseOpt v =
     (case v of
        None \<Rightarrow> Some None
      | Some s \<Rightarrow> (case parseChannels s of None \<Rightarrow> None | Some ch \<Rightarrow> Some (Some ch)))"

definition merge_channel_value :: "string option \<Rightarrow> string option \<Rightarrow> string option \<Rightarrow>
    string option \<times> nat" where
  "merge_channel_value b ours theirs =
     (case (parseOpt b, parseOpt ours, parseOpt theirs) of
        (Some bCh, Some oCh, Some tCh) \<Rightarrow>
          (case merge_channels bCh oCh tCh of
             (mergedChannels, c) \<Rightarrow> (map_option serializeChannels mergedChannels, c))
      | _ \<Rightarrow> (ours, 1))"

definition merge_value :: "string \<Rightarrow> string option \<Rightarrow> string option \<Rightarrow> string option \<Rightarrow>
    string option \<times> nat" where
  "merge_value key b ours theirs =
     (if key = kS38 then merge_channel_value b ours theirs else choose3 b ours theirs)"

definition merge_key_step :: "fieldmap \<Rightarrow> fieldmap \<Rightarrow> fieldmap \<Rightarrow> string \<Rightarrow>
    kvlist \<times> nat \<Rightarrow> kvlist \<times> nat" where
  "merge_key_step bMap oMap tMap key s =
     (case s of (mergedKv, conflicts) \<Rightarrow>
        (case merge_value key (fmlookup bMap key) (fmlookup oMap key) (fmlookup tMap key) of
           (v, c) \<Rightarrow>
             (case v of None \<Rightarrow> mergedKv | Some x \<Rightarrow> mergedKv @ [(key, x)], conflicts + c)))"

definition merge_kv :: "kvlist \<Rightarrow> kvlist \<Rightarrow> kvlist \<Rightarrow> kvlist \<times> nat" where
  "merge_kv b ours theirs =
     fold (merge_key_step (kv_map b) (kv_map ours) (kv_map theirs)) (key_order b ours theirs) ([], 0)"

definition mergeHeaders3Way :: "string \<Rightarrow> string \<Rightarrow> string \<Rightarrow> (string \<times> nat) option" where
  "mergeHeaders3Way base ours theirs =
     (case (parseHeader base, parseHeader ours, parseHeader theirs) of
        (Some b, Some u, Some t) \<Rightarrow>
          (case merge_kv b u t of (mergedKv, conflicts) \<Rightarrow> Some (serializeHeader mergedKv, conflicts))
      | _ \<Rightarrow> None)"

section \<open>Key/value lists: printing and reading back\<close>

lemma serializeHeader_loop_join:
  "serializeHeader_loop i kv out =
     out @ (if kv = [] then [] else (if i > 0 then '','' else []) @ join_with (CHR '','') (flat_pairs kv))"
proof (induction i kv out rule: serializeHeader_loop.induct)
  case (2 i k v kv out)
  then show ?case by (simp add: join_with_Cons)
qed simp

lemma serializeHeader_join: "serializeHeader kv = join_with (CHR '','') (flat_pairs kv)"
  by (simp add: serializeHeader_def serializeHeader_loop_join)

lemma parseHeader_loop_flat:
  "distinct (map fst kv) \<Longrightarrow> set (map fst kv) \<inter> set seen = {} \<Longrightarrow>
     parseHeader_loop (flat_pairs kv) seen out = Some (out @ kv)"
  by (induction kv arbitrary: seen out rule: flat_pairs.induct) auto

lemma length_flat_pairs [simp]: "length (flat_pairs kv) = 2 * length kv"
  by (induction kv rule: flat_pairs.induct) auto

lemma last_flat_pairs_snd: "kv \<noteq> [] \<Longrightarrow> last (flat_pairs kv) = snd (last kv)"
  by (induction kv rule: flat_pairs.induct) auto

text \<open>A key/value list the text can carry.\<close>

definition printable_kv :: "kvlist \<Rightarrow> bool" where
  "printable_kv kv \<longleftrightarrow> distinct (map fst kv) \<and>
     list_all (\<lambda>(k, v). CHR '','' \<notin> set k \<and> CHR '','' \<notin> set v) kv \<and>
     (kv \<noteq> [] \<longrightarrow> snd (last kv) \<noteq> [])"

lemma parse_serializeHeader:
  assumes "printable_kv kv"
  shows "parseHeader (serializeHeader kv) = Some kv"
proof (cases "kv = []")
  case True
  then show ?thesis
    by (simp add: parseHeader_def serializeHeader_join splitView_eq pop_trailing_empty_def)
next
  case False
  have "\<forall>t \<in> set (flat_pairs kv). CHR '','' \<notin> set t"
    using assms by (auto simp: printable_kv_def set_flat_pairs list_all_iff)
  then have "splitView (serializeHeader kv) (CHR '','') = flat_pairs kv"
    unfolding splitView_eq serializeHeader_join using False by (intro split_join) simp_all
  with False assms show ?thesis
    by (simp add: parseHeader_def pop_trailing_empty_def last_flat_pairs_snd printable_kv_def
        parseHeader_loop_flat)
qed



section \<open>The merged list\<close>

lemma kv_map_lookup:
  "distinct (map fst kv) \<Longrightarrow> fmlookup (fold (\<lambda>(k, v) m. fmupd k v m) kv m0) x =
     (case map_of kv x of None \<Rightarrow> fmlookup m0 x | Some v \<Rightarrow> Some v)"
proof (induction kv arbitrary: m0)
  case (Cons kv kvs)
  then show ?case by (cases kv) (simp split: option.split)
qed simp


lemma set_push_keys: "set (fold push_key kv ks) = set ks \<union> fst ` set kv"
  by (induction kv arbitrary: ks) (auto simp: push_key_def)

lemma distinct_push_keys: "distinct ks \<Longrightarrow> distinct (fold push_key kv ks)"
  by (induction kv arbitrary: ks) (auto simp: push_key_def)

lemma key_order_simps [simp]:
  "set (key_order b ours theirs) = fst ` set ours \<union> fst ` set theirs \<union> fst ` set b"
  "distinct (key_order b ours theirs)"
  by (auto simp: key_order_def set_push_keys distinct_push_keys)




section \<open>The merged channels\<close>

lemma merge_records_fold:
  assumes "distinct ids"
  shows "fmlookup (fst (fold (merge_record_step b u t) ids s)) k =
      (if k \<in> set ids then
         (case fst (choose3 (ch_get b k) (ch_get u k) (ch_get t k)) of
            None \<Rightarrow> fmlookup (fst s) k | Some r \<Rightarrow> Some r)
       else fmlookup (fst s) k)"
    and "snd (fold (merge_record_step b u t) ids s) =
      snd s + (\<Sum>k\<leftarrow>ids. snd (choose3 (ch_get b k) (ch_get u k) (ch_get t k)))"
  using assms
  by (induction ids arbitrary: s)
    (auto simp: merge_record_step_def split: prod.splits option.splits)


lemma set_fset_list [simp]: "set (sorted_list_of_fset A) = fset A" "distinct (sorted_list_of_fset A)"
  by (simp_all add: sorted_list_of_fset.rep_eq)

lemma choose3_None [simp]: "choose3 None None None = (None, 0)"
  by (simp add: choose3_def)


lemma merge_channels_conflicts:
  "snd (merge_channels b u t) =
     (if u = t \<or> u = b \<or> t = b then 0
      else (\<Sum>k \<leftarrow> sorted_list_of_fset (ch_ids b |\<union>| ch_ids u |\<union>| ch_ids t).
              snd (choose3 (ch_get b k) (ch_get u k) (ch_get t k))))"
  by (auto simp: merge_channels_def split_beta merge_records_fold(2) [OF set_fset_list(2)])

interpretation channels: three_way "(=)" merge_channels
  by unfold_locales (auto simp: merge_channels_def)

section \<open>Printing channels and reading them back\<close>

fun flat_record :: "(int \<times> string) list \<Rightarrow> string list" where
  "flat_record [] = []"
| "flat_record ((k, v) # r) = int_to_string k # v # flat_record r"

lemma flat_record_Nil [simp]: "flat_record r = [] \<longleftrightarrow> r = []"
  by (cases r) auto

lemma length_flat_record [simp]: "length (flat_record r) = 2 * length r"
  by (induction r rule: flat_record.induct) auto

lemma serializeRecord_loop_join:
  "serializeRecord_loop r firstKv out =
     out @ (if r = [] then [] else (if firstKv then [] else ''_'') @ join_with (CHR ''_'') (flat_record r))"
proof (induction r firstKv out rule: serializeRecord_loop.induct)
  case (2 k v r firstKv out)
  then show ?case by (simp add: join_with_Cons)
qed simp

definition record_text :: "channel_record \<Rightarrow> string" where
  "record_text r = join_with (CHR ''_'') (flat_record (sorted_list_of_fmap r))"

lemma serializeChannels_loop_join:
  "serializeChannels_loop recs firstRecord out =
     out @ (if recs = [] then [] else (if firstRecord then [] else ''|'') @ join_with (CHR ''|'') (map record_text recs))"
proof (induction recs firstRecord out rule: serializeChannels_loop.induct)
  case (2 r recs firstRecord out)
  then show ?case
    by (auto simp: join_with_Cons serializeRecord_loop_join record_text_def)
qed simp

lemma serializeChannels_join:
  "serializeChannels ch = join_with (CHR ''|'') (map record_text (map snd (sorted_list_of_fmap ch)))"
  by (simp add: serializeChannels_def serializeChannels_loop_join)

text \<open>A channel table the text can carry: each record names its own channel under key 6, keys
  are in the range of \<open>int\<close>, values avoid the two separators.\<close>

definition good_record :: "int \<Rightarrow> channel_record \<Rightarrow> bool" where
  "good_record cid r \<longleftrightarrow>
     Option.bind (fmlookup r 6) parseInt = Some cid \<and>
     fmpred (\<lambda>k v. - (2 ^ 31) \<le> k \<and> k < 2 ^ 31 \<and> CHR ''_'' \<notin> set v \<and> CHR ''|'' \<notin> set v) r"

definition good_channels :: "channel_map \<Rightarrow> bool" where
  "good_channels ch \<longleftrightarrow> fmpred good_record ch"

lemma int_to_string_chars:
  "c \<in> set (int_to_string i) \<Longrightarrow> is_digit c \<or> c = CHR 0x2D"
  using nat_to_string_digits by (auto simp: int_to_string_def list_all_iff split: if_splits)

lemma int_to_string_no_sep: "CHR ''_'' \<notin> set (int_to_string i)" "CHR ''|'' \<notin> set (int_to_string i)"
  using int_to_string_chars by (fastforce simp: is_digit_def)+

lemma parseRecord_loop_flat:
  assumes "\<forall>(k, v) \<in> set r. - (2 ^ 31) \<le> k \<and> k < 2 ^ 31"
  shows "parseRecord_loop (flat_record r) flds = Some (fold (\<lambda>(k, v) m. fmupd k v m) r flds)"
  using assms
  by (induction r arbitrary: flds rule: flat_record.induct)
    (auto simp: parseInt_def parse_signed_to_string)

lemma fold_upd_sorted: "fold (\<lambda>(k, v) m. fmupd k v m) (sorted_list_of_fmap r) fmempty = r"
  by (rule fmap_ext) (simp add: kv_map_lookup split: option.split)

lemma record_text_nonempty: "r \<noteq> fmempty \<Longrightarrow> record_text r \<noteq> []"
proof -
  assume "r \<noteq> fmempty"
  then obtain k v rest where kv: "sorted_list_of_fmap r = (k, v) # rest"
    by (cases "sorted_list_of_fmap r") auto
  have "flat_record ((k, v) # rest) = int_to_string k # v # flat_record rest" by simp
  moreover have "int_to_string k \<noteq> []" by (simp add: int_to_string_def)
  ultimately show ?thesis by (simp add: record_text_def kv)
qed

lemma set_flat_record: "set (flat_record r) = int_to_string ` fst ` set r \<union> snd ` set r"
  by (induction r rule: flat_record.induct) auto

lemma good_record_parse:
  assumes "good_record cid r"
  shows "record_text r \<noteq> []" and "CHR ''|'' \<notin> set (record_text r)"
    and "even (length (splitView (record_text r) (CHR ''_'')))"
    and "parseRecord_loop (splitView (record_text r) (CHR ''_'')) fmempty = Some r"
    and "\<exists>idText. fmlookup r 6 = Some idText \<and> parseInt idText = Some cid"
proof -
  show id: "\<exists>idText. fmlookup r 6 = Some idText \<and> parseInt idText = Some cid"
    using assms by (cases "fmlookup r 6") (auto simp: good_record_def)
  then have ne: "r \<noteq> fmempty" by auto
  then show "record_text r \<noteq> []" by (rule record_text_nonempty)
  have range: "\<forall>(k, v) \<in> set (sorted_list_of_fmap r). - (2 ^ 31) \<le> k \<and> k < 2 ^ 31"
    and sep: "\<forall>(k, v) \<in> set (sorted_list_of_fmap r). CHR ''_'' \<notin> set v \<and> CHR ''|'' \<notin> set v"
    using assms by (auto simp: good_record_def set_sorted_list_of_fmap)
  let ?ts = "flat_record (sorted_list_of_fmap r)"
  have toks: "\<forall>t \<in> set ?ts. CHR ''_'' \<notin> set t \<and> CHR ''|'' \<notin> set t"
    using sep by (auto simp: set_flat_record int_to_string_no_sep)
  have "set (record_text r) \<subseteq> insert (CHR ''_'') (\<Union> (set ` set ?ts))"
    unfolding record_text_def by (rule set_join_with)
  with toks show "CHR ''|'' \<notin> set (record_text r)" by auto
  have split: "splitView (record_text r) (CHR ''_'') = ?ts"
    unfolding splitView_eq record_text_def
    by (intro split_join) (use ne toks in \<open>simp_all\<close>)
  then show "even (length (splitView (record_text r) (CHR ''_'')))" by simp
  show "parseRecord_loop (splitView (record_text r) (CHR ''_'')) fmempty = Some r"
    unfolding split by (subst parseRecord_loop_flat) (use range in \<open>auto simp: fold_upd_sorted\<close>)
qed

lemma parseChannels_loop_records:
  assumes "distinct (map fst items)" and "\<forall>(c, r) \<in> set items. good_record c r"
    and "\<forall>c \<in> fst ` set items. fmlookup out c = None"
  shows "parseChannels_loop (map record_text (map snd items)) out = Some (fold (\<lambda>(k, v) m. fmupd k v m) items out)"
  using assms
proof (induction items arbitrary: out)
  case Nil
  then show ?case by simp
next
  case (Cons cr items)
  obtain c r where cr: "cr = (c, r)" by (cases cr)
  with Cons.prems have good: "good_record c r" and out: "fmlookup out c = None" by auto
  obtain idText where id: "fmlookup r 6 = Some idText" "parseInt idText = Some c"
    using good_record_parse(5) [OF good] by blast
  have "emplace c r out = fmupd c r out" by (simp add: emplace_def out)
  moreover have "parseChannels_loop (map record_text (map snd items)) (fmupd c r out) =
      Some (fold (\<lambda>(k, v) m. fmupd k v m) items (fmupd c r out))"
    by (rule Cons.IH) (use Cons.prems cr in auto)
  ultimately show ?case
    using good_record_parse [OF good] id out by (simp add: cr Let_def)
qed

lemma parse_serializeChannels:
  assumes "good_channels ch"
  shows "parseChannels (serializeChannels ch) = Some ch"
proof (cases "ch = fmempty")
  case True
  then have "sorted_list_of_fmap ch = []" by simp
  then have "serializeChannels ch = []" unfolding serializeChannels_join by (simp only:) simp
  with True show ?thesis by (simp add: parseChannels_def)
next
  case False
  let ?items = "sorted_list_of_fmap ch"
  have good: "\<forall>(c, r) \<in> set ?items. good_record c r"
    using assms by (auto simp: good_channels_def set_sorted_list_of_fmap)
  then have "\<forall>t \<in> set (map record_text (map snd ?items)). CHR ''|'' \<notin> set t"
    using good_record_parse(2) by fastforce
  with False have split: "splitView (serializeChannels ch) (CHR ''|'') = map record_text (map snd ?items)"
    unfolding splitView_eq serializeChannels_join by (intro split_join) auto
  obtain c r rest where items: "?items = (c, r) # rest" using False by (cases ?items) auto
  have "record_text r \<noteq> []" using good good_record_parse(1) by (auto simp: items)
  then have "serializeChannels ch \<noteq> []"
    unfolding serializeChannels_join items by (cases rest) auto
  then show ?thesis
    using parseChannels_loop_records [of ?items fmempty] good
    by (simp add: parseChannels_def split fold_upd_sorted)
qed

section \<open>Properties\<close>

text \<open>
  Every colour channel table that the format can express survives printing and parsing.
\<close>

theorem channels_roundtrip:
  assumes "good_channels ch"
  shows "parseChannels (serializeChannels ch) = Some ch"
  by (rule parse_serializeChannels [OF assms])

theorem channels_roundtrip_witness:
  "parseChannels ''1_255_6_7|2_-3_6_12'' =
     Some (fmap_of_list [(7, fmap_of_list [(1, ''255''), (6, ''7'')]), (12, fmap_of_list [(2, ''-3''), (6, ''12'')])])
   \<and> parseChannels (serializeChannels (fmap_of_list [(7, fmap_of_list [(1, ''255''), (6, ''7'')])])) =
       Some (fmap_of_list [(7, fmap_of_list [(1, ''255''), (6, ''7'')])])"
  by (intro conjI channels_roundtrip; code_simp)



text \<open>A value of \<open>kS38\<close> that is not a channel list counts as a conflict even when nobody changed it.\<close>

lemma unparsable_channels_spurious_conflict:
  "mergeHeaders3Way ''kS38,bad'' ''kS38,bad'' ''kS38,bad'' = Some (''kS38,bad'', 1)"
  by code_simp

end
