(* ===== verification/Merge.thy ===== *)
theory Merge
  imports Differ Gd_Header
begin

text \<open>
  \<open>src/service/MergeService.cpp\<close>: the three-way merge of level states used when a history
  file of another author is imported.  \<open>ord\<close> is the order in which the hash table of our
  objects is iterated (the program observes it only through \<open>nextUuid\<close>).
\<close>

section \<open>The code\<close>

definition merge_field_step :: "fieldmap \<Rightarrow> fieldmap \<Rightarrow> fieldmap \<Rightarrow> string \<Rightarrow>
    fieldmap \<times> nat \<Rightarrow> fieldmap \<times> nat" where
  "merge_field_step b ours theirs k s =
     (case s of (target, conflictCount) \<Rightarrow>
        (let vb = get_or_empty b k; vo = get_or_empty ours k; vt = get_or_empty theirs k in
         if vo = vt then (set_or_erase k vo target, conflictCount)
         else if vo = vb then (set_or_erase k vt target, conflictCount)
         else if vt = vb then (set_or_erase k vo target, conflictCount)
         else (target, conflictCount + 1)))"

definition mergeFieldMap :: "fieldmap \<Rightarrow> fieldmap \<Rightarrow> fieldmap \<Rightarrow> fieldmap \<times> nat \<Rightarrow> fieldmap \<times> nat" where
  "mergeFieldMap b ours theirs s =
     fold (merge_field_step b ours theirs)
       (sorted_list_of_fset (fmdom b |\<union>| fmdom ours |\<union>| fmdom theirs)) s"

definition merge_raw :: "string \<Rightarrow> string \<Rightarrow> string \<Rightarrow> nat \<Rightarrow> string \<times> nat" where
  "merge_raw b ours theirs conflictCount =
     (case mergeHeaders3Way b ours theirs of
        Some (structured, headerConflicts) \<Rightarrow> (structured, conflictCount + headerConflicts)
      | None \<Rightarrow>
          (if ours = theirs then (ours, conflictCount)
           else if ours = b then (theirs, conflictCount)
           else if theirs = b then (ours, conflictCount)
           else (ours, conflictCount + 1)))"

definition next_uuid_step :: "object_uuid \<Rightarrow> object_uuid \<Rightarrow> object_uuid" where
  "next_uuid_step oid nextUuid = (if nextUuid \<le> oid then oid + 1 else nextUuid)"

definition next_uuid :: "object_uuid list \<Rightarrow> object_uuid" where
  "next_uuid ord = fold next_uuid_step ord 1"

record merge_acc =
  acc_objects :: object_table
  acc_next :: object_uuid
  acc_conflicts :: nat

definition merge_object_step :: "object_table \<Rightarrow> object_table \<Rightarrow> object_table \<Rightarrow> object_uuid \<Rightarrow>
    merge_acc \<Rightarrow> merge_acc" where
  "merge_object_step base ours theirs oid s =
     (case (fmlookup base oid, fmlookup ours oid, fmlookup theirs oid) of
        (_, None, None) \<Rightarrow> s\<lparr>acc_objects := fmdrop oid (acc_objects s)\<rparr>
      | (None, None, Some t) \<Rightarrow> s\<lparr>acc_objects := fmupd oid t (acc_objects s)\<rparr>
      | (None, Some _, None) \<Rightarrow> s
      | (None, Some u, Some t) \<Rightarrow>
          (if obj_fields u = obj_fields t then s\<lparr>acc_objects := fmupd oid u (acc_objects s)\<rparr>
           else
             s\<lparr>acc_objects := fmupd (acc_next s) (t\<lparr>uuid := acc_next s\<rparr>) (acc_objects s),
               acc_next := acc_next s + 1\<rparr>)
      | (Some b, None, Some t) \<Rightarrow>
          (if obj_fields t = obj_fields b then s\<lparr>acc_objects := fmdrop oid (acc_objects s)\<rparr>
           else s\<lparr>acc_conflicts := acc_conflicts s + 1\<rparr>)
      | (Some b, Some u, None) \<Rightarrow>
          (if obj_fields u = obj_fields b then s\<lparr>acc_objects := fmdrop oid (acc_objects s)\<rparr>
           else s\<lparr>acc_conflicts := acc_conflicts s + 1\<rparr>)
      | (Some b, Some u, Some t) \<Rightarrow>
          (case mergeFieldMap (obj_fields b) (obj_fields u) (obj_fields t) (obj_fields u, acc_conflicts s) of
             (flds, n) \<Rightarrow>
               s\<lparr>acc_objects := fmupd oid (u\<lparr>obj_fields := flds\<rparr>) (acc_objects s), acc_conflicts := n\<rparr>))"

definition merge_ids :: "object_table \<Rightarrow> object_table \<Rightarrow> object_table \<Rightarrow> object_uuid list" where
  "merge_ids base ours theirs = sorted_list_of_fset (fmdom base |\<union>| fmdom ours |\<union>| fmdom theirs)"

definition mergeStates3Way :: "object_uuid list \<Rightarrow> level_state \<Rightarrow> level_state \<Rightarrow> level_state \<Rightarrow>
    (level_state \<times> nat) option" where
  "mergeStates3Way ord base ours theirs =
     (case mergeFieldMap (header base) (header ours) (header theirs) (header ours, 0) of (hdr, n1) \<Rightarrow>
      case merge_raw (rawHeader base) (rawHeader ours) (rawHeader theirs) n1 of (raw, n2) \<Rightarrow>
      let acc = fold (merge_object_step (objects base) (objects ours) (objects theirs))
                  (merge_ids (objects base) (objects ours) (objects theirs))
                  \<lparr>acc_objects = objects ours, acc_next = next_uuid ord, acc_conflicts = n2\<rparr>
      in Some (\<lparr>rawHeader = raw, header = hdr, objects = acc_objects acc\<rparr>, acc_conflicts acc))"

section \<open>Field maps\<close>

lemma merge_fields_fold:
  assumes "distinct ks"
  shows "get_or_empty (fst (fold (merge_field_step b u t) ks s)) k =
      (if k \<in> set ks
       then (let c = choose3 (get_or_empty b k) (get_or_empty u k) (get_or_empty t k) in
             if snd c = 0 then fst c else get_or_empty (fst s) k)
       else get_or_empty (fst s) k)"
    and "snd (fold (merge_field_step b u t) ks s) =
      snd s + (\<Sum>k\<leftarrow>ks. snd (choose3 (get_or_empty b k) (get_or_empty u k) (get_or_empty t k)))"
  using assms
  by (induction ks arbitrary: s)
    (auto simp: merge_field_step_def Let_def choose3_def split: prod.splits)

lemma get_or_empty_notin: "k |\<notin>| fmdom m \<Longrightarrow> get_or_empty m k = []"
  by (simp add: get_or_empty_def fmdom_notD)

definition field_conflicts :: "fieldmap \<Rightarrow> fieldmap \<Rightarrow> fieldmap \<Rightarrow> nat" where
  "field_conflicts b u t =
     (\<Sum>k \<leftarrow> sorted_list_of_fset (fmdom b |\<union>| fmdom u |\<union>| fmdom t).
        snd (choose3 (get_or_empty b k) (get_or_empty u k) (get_or_empty t k)))"

lemma mergeFieldMap_get:
  "get_or_empty (fst (mergeFieldMap b u t (u, n))) k =
     fst (choose3 (get_or_empty b k) (get_or_empty u k) (get_or_empty t k))"
proof (cases "k |\<in>| fmdom b |\<union>| fmdom u |\<union>| fmdom t")
  case True
  then show ?thesis
    unfolding mergeFieldMap_def
    by (subst merge_fields_fold(1)) (auto simp: choose3_def Let_def)
next
  case False
  then have "get_or_empty b k = []" "get_or_empty u k = []" "get_or_empty t k = []"
    by (auto intro: get_or_empty_notin)
  with False show ?thesis
    unfolding mergeFieldMap_def
    by (subst merge_fields_fold(1)) (auto simp: choose3_def)
qed

lemma mergeFieldMap_count: "snd (mergeFieldMap b u t (u, n)) = n + field_conflicts b u t"
  by (simp add: mergeFieldMap_def merge_fields_fold(2) field_conflicts_def)

lemma field_conflicts_zero: "u = t \<or> u = b \<or> t = b \<Longrightarrow> field_conflicts b u t = 0"
  by (auto simp: field_conflicts_def choose3_def)

interpretation field_merge: three_way "\<lambda>a b. norm_fields a = norm_fields b"
  "\<lambda>b u t. mergeFieldMap b u t (u, 0)"
  by unfold_locales
    (simp_all add: norm_fields_eq_iff mergeFieldMap_get mergeFieldMap_count field_conflicts_zero choose3_def)

section \<open>Objects\<close>

text \<open>What becomes of the identifier \<open>oid\<close>; \<open>cur\<close> is its entry in the table being merged.\<close>

definition merge_object_spec :: "lobject option \<Rightarrow> lobject option \<Rightarrow> lobject option \<Rightarrow>
    lobject option \<Rightarrow> lobject option" where
  "merge_object_spec cur b u t =
     (case (b, u, t) of
        (_, None, None) \<Rightarrow> None
      | (None, None, Some t) \<Rightarrow> Some t
      | (None, Some u, None) \<Rightarrow> cur
      | (None, Some u, Some t) \<Rightarrow> if obj_fields u = obj_fields t then Some u else cur
      | (Some b, None, Some t) \<Rightarrow> if obj_fields t = obj_fields b then None else cur
      | (Some b, Some u, None) \<Rightarrow> if obj_fields u = obj_fields b then None else cur
      | (Some b, Some u, Some t) \<Rightarrow>
          Some (u\<lparr>obj_fields := fst (mergeFieldMap (obj_fields b) (obj_fields u) (obj_fields t) (obj_fields u, 0))\<rparr>))"

definition object_conflicts :: "lobject option \<Rightarrow> lobject option \<Rightarrow> lobject option \<Rightarrow> nat" where
  "object_conflicts b u t =
     (case (b, u, t) of
        (Some b, None, Some t) \<Rightarrow> if obj_fields t = obj_fields b then 0 else 1
      | (Some b, Some u, None) \<Rightarrow> if obj_fields u = obj_fields b then 0 else 1
      | (Some b, Some u, Some t) \<Rightarrow> field_conflicts (obj_fields b) (obj_fields u) (obj_fields t)
      | _ \<Rightarrow> 0)"

text \<open>Both sides added an object under the same identifier with different data.\<close>

definition clash :: "object_table \<Rightarrow> object_table \<Rightarrow> object_table \<Rightarrow> object_uuid \<Rightarrow> bool" where
  "clash base ours theirs oid =
     (case (fmlookup base oid, fmlookup ours oid, fmlookup theirs oid) of
        (None, Some u, Some t) \<Rightarrow> obj_fields u \<noteq> obj_fields t
      | _ \<Rightarrow> False)"

text \<open>The identifiers given to the imported objects, in the order of the loop.\<close>

fun imports_of :: "object_table \<Rightarrow> object_table \<Rightarrow> object_table \<Rightarrow> object_uuid list \<Rightarrow> object_uuid \<Rightarrow>
    (object_uuid \<times> object_uuid) list" where
  "imports_of base ours theirs [] nxt = []"
| "imports_of base ours theirs (oid # ids) nxt =
     (if clash base ours theirs oid then (oid, nxt) # imports_of base ours theirs ids (nxt + 1)
      else imports_of base ours theirs ids nxt)"

lemma mergeFieldMap_fst: "fst (mergeFieldMap b u t (m, n)) = fst (mergeFieldMap b u t (m, 0))"
proof -
  have "fst (fold (merge_field_step b u t) ks (m, n)) = fst (fold (merge_field_step b u t) ks (m, n'))" for ks m n n'
  proof (induction ks arbitrary: m n n')
    case (Cons k ks)
    obtain m' n1 where 1: "merge_field_step b u t k (m, n) = (m', n1)" by fastforce
    moreover have "fst (merge_field_step b u t k (m, n')) = fst (merge_field_step b u t k (m, n))"
      by (simp add: merge_field_step_def Let_def)
    ultimately obtain n2 where "merge_field_step b u t k (m, n') = (m', n2)"
      by (metis fst_conv prod.collapse)
    with 1 Cons.IH show ?case by simp
  qed simp
  then show ?thesis unfolding mergeFieldMap_def .
qed

lemma merge_step_lookup:
  "fmlookup (acc_objects (merge_object_step base ours theirs oid s)) x =
     (if clash base ours theirs oid \<and> x = acc_next s
      then map_option (\<lambda>t. t\<lparr>uuid := acc_next s\<rparr>) (fmlookup theirs oid)
      else if x = oid
      then merge_object_spec (fmlookup (acc_objects s) oid) (fmlookup base oid) (fmlookup ours oid) (fmlookup theirs oid)
      else fmlookup (acc_objects s) x)"
  using mergeFieldMap_fst
  by (auto simp: merge_object_step_def merge_object_spec_def clash_def split_beta split: option.splits)

lemma merge_step_next:
  "acc_next (merge_object_step base ours theirs oid s) =
     (if clash base ours theirs oid then acc_next s + 1 else acc_next s)"
  by (auto simp: merge_object_step_def clash_def split_beta split: option.splits)

lemma merge_step_conflicts:
  "acc_conflicts (merge_object_step base ours theirs oid s) =
     acc_conflicts s + object_conflicts (fmlookup base oid) (fmlookup ours oid) (fmlookup theirs oid)"
  by (auto simp: merge_object_step_def object_conflicts_def split_beta mergeFieldMap_count split: option.splits)

lemma merge_fold_conflicts:
  "acc_conflicts (fold (merge_object_step base ours theirs) ids s) =
     acc_conflicts s + (\<Sum>oid\<leftarrow>ids. object_conflicts (fmlookup base oid) (fmlookup ours oid) (fmlookup theirs oid))"
  by (induction ids arbitrary: s) (simp_all add: merge_step_conflicts)

definition import_source :: "(object_uuid \<times> object_uuid) list \<Rightarrow> object_uuid \<Rightarrow> object_uuid option" where
  "import_source imps x = map_of (map (\<lambda>(oid, fresh). (fresh, oid)) imps) x"

lemma import_source_simps [simp]:
  "import_source [] x = None"
  "import_source ((oid, fresh) # imps) x = (if x = fresh then Some oid else import_source imps x)"
  by (simp_all add: import_source_def)

lemma import_source_None: "x \<notin> snd ` set imps \<Longrightarrow> import_source imps x = None"
  by (induction imps) auto

lemma merge_fold_lookup:
  assumes "distinct ids" and "distinct (map snd (imports_of base ours theirs ids (acc_next s)))"
    and "snd ` set (imports_of base ours theirs ids (acc_next s)) \<inter> set ids = {}"
  shows "fmlookup (acc_objects (fold (merge_object_step base ours theirs) ids s)) x =
     (case import_source (imports_of base ours theirs ids (acc_next s)) x of
        Some oid \<Rightarrow> map_option (\<lambda>t. t\<lparr>uuid := x\<rparr>) (fmlookup theirs oid)
      | None \<Rightarrow>
          if x \<in> set ids
          then merge_object_spec (fmlookup (acc_objects s) x) (fmlookup base x) (fmlookup ours x) (fmlookup theirs x)
          else fmlookup (acc_objects s) x)"
  using assms
proof (induction ids arbitrary: s)
  case Nil
  then show ?case by simp
next
  case (Cons y ys)
  let ?s = "merge_object_step base ours theirs y s"
  show ?case
  proof (cases "clash base ours theirs y")
    case True
    let ?imps = "imports_of base ours theirs ys (acc_next s + 1)"
    have nxt: "acc_next ?s = acc_next s + 1" using True by (simp add: merge_step_next)
    have "acc_next s \<notin> snd ` set ?imps" and "y \<noteq> acc_next s" "acc_next s \<notin> set ys"
      using Cons.prems True by auto
    then have none: "import_source ?imps (acc_next s) = None" "acc_next s \<notin> set ys"
      by (simp_all add: import_source_None)
    have "distinct ys" "distinct (map snd (imports_of base ours theirs ys (acc_next ?s)))"
      "snd ` set (imports_of base ours theirs ys (acc_next ?s)) \<inter> set ys = {}"
      using Cons.prems True by (auto simp: nxt)
    note ih = Cons.IH [OF this, unfolded nxt]
    have "y \<notin> snd ` set ?imps" "y \<notin> set ys" using Cons.prems True by auto
    then show ?thesis using none True ih
      by (cases "x = acc_next s"; cases "x = y") (auto simp: merge_step_lookup import_source_None split: option.split)
  next
    case False
    have nxt: "acc_next ?s = acc_next s" using False by (simp add: merge_step_next)
    have "distinct ys" "distinct (map snd (imports_of base ours theirs ys (acc_next ?s)))"
      "snd ` set (imports_of base ours theirs ys (acc_next ?s)) \<inter> set ys = {}"
      using Cons.prems False by (auto simp: nxt)
    note ih = Cons.IH [OF this, unfolded nxt]
    have "y \<notin> snd ` set (imports_of base ours theirs ys (acc_next s))" "y \<notin> set ys"
      using Cons.prems False by auto
    then show ?thesis using False ih
      by (cases "x = y") (auto simp: merge_step_lookup import_source_None split: option.split)
  qed
qed

lemma set_merge_ids: "oid \<in> set (merge_ids a b c) \<longleftrightarrow> oid |\<in>| fmdom a \<or> oid |\<in>| fmdom b \<or> oid |\<in>| fmdom c"
  by (simp add: merge_ids_def)

lemma merge_object_spec_None: "merge_object_spec cur None None None = None"
  by (simp add: merge_object_spec_def)

abbreviation merge_imports :: "object_uuid list \<Rightarrow> level_state \<Rightarrow> level_state \<Rightarrow> level_state \<Rightarrow>
    (object_uuid \<times> object_uuid) list" where
  "merge_imports ord base ours theirs \<equiv>
     imports_of (objects base) (objects ours) (objects theirs)
       (merge_ids (objects base) (objects ours) (objects theirs)) (next_uuid ord)"

text \<open>The identifiers handed out are new: different from each other and from those of the three states.\<close>

definition fresh_imports :: "object_uuid list \<Rightarrow> level_state \<Rightarrow> level_state \<Rightarrow> level_state \<Rightarrow> bool" where
  "fresh_imports ord base ours theirs \<longleftrightarrow>
     distinct (map snd (merge_imports ord base ours theirs)) \<and>
     list_all (\<lambda>(_, f). f \<notin> set (merge_ids (objects base) (objects ours) (objects theirs)))
       (merge_imports ord base ours theirs)"

lemma mergeStates_parts:
  "mergeStates3Way ord base ours theirs = Some (m, n) \<Longrightarrow>
     norm_fields (header m) = norm_fields (fst (mergeFieldMap (header base) (header ours) (header theirs) (header ours, 0)))
     \<and> rawHeader m = fst (merge_raw (rawHeader base) (rawHeader ours) (rawHeader theirs) 0)
     \<and> n = field_conflicts (header base) (header ours) (header theirs)
         + snd (merge_raw (rawHeader base) (rawHeader ours) (rawHeader theirs) 0)
         + (\<Sum>oid \<leftarrow> merge_ids (objects base) (objects ours) (objects theirs).
              object_conflicts (fmlookup (objects base) oid) (fmlookup (objects ours) oid) (fmlookup (objects theirs) oid))"
proof -
  have raw: "merge_raw b u t n = (fst (merge_raw b u t 0), n + snd (merge_raw b u t 0))" for b u t n
    by (simp add: merge_raw_def split: option.splits prod.splits)
  assume "mergeStates3Way ord base ours theirs = Some (m, n)"
  then show ?thesis
    unfolding mergeStates3Way_def split_beta Let_def mergeFieldMap_count
    by (auto simp: merge_fold_conflicts raw [of _ _ _ "0 + field_conflicts _ _ _"] raw [of _ _ _ "field_conflicts _ _ _"])
qed

lemma mergeStates_object:
  assumes "mergeStates3Way ord base ours theirs = Some (m, n)"
    and "fresh_imports ord base ours theirs"
  shows "fmlookup (objects m) x =
     (case import_source (merge_imports ord base ours theirs) x of
        Some oid \<Rightarrow> map_option (\<lambda>t. t\<lparr>uuid := x\<rparr>) (fmlookup (objects theirs) oid)
      | None \<Rightarrow> merge_object_spec (fmlookup (objects ours) x) (fmlookup (objects base) x)
          (fmlookup (objects ours) x) (fmlookup (objects theirs) x))"
proof -
  let ?ids = "merge_ids (objects base) (objects ours) (objects theirs)"
  obtain n2 where m: "objects m = acc_objects (fold (merge_object_step (objects base) (objects ours) (objects theirs)) ?ids
      \<lparr>acc_objects = objects ours, acc_next = next_uuid ord, acc_conflicts = n2\<rparr>)"
    using assms(1) by (auto simp: mergeStates3Way_def split_beta Let_def)
  have d: "distinct ?ids" by (simp add: merge_ids_def)
  have f: "distinct (map snd (merge_imports ord base ours theirs))"
    "snd ` set (merge_imports ord base ours theirs) \<inter> set ?ids = {}"
    using assms(2) by (auto simp: fresh_imports_def list_all_iff)
  have out: "x \<notin> set ?ids \<Longrightarrow> fmlookup (objects ours) x = None \<and> fmlookup (objects base) x = None \<and> fmlookup (objects theirs) x = None"
    by (simp add: set_merge_ids fmdom_notD)
  show ?thesis
    unfolding m
    by (subst merge_fold_lookup) (use d f out in \<open>auto simp: merge_object_spec_None split: option.split\<close>)
qed


section \<open>The contract on whole states\<close>

definition same_content :: "level_state \<Rightarrow> level_state \<Rightarrow> bool" where
  "same_content a b \<longleftrightarrow>
     norm_fields (header a) = norm_fields (header b) \<and>
     (\<forall>x. map_option (norm_fields \<circ> obj_fields) (fmlookup (objects a) x) =
          map_option (norm_fields \<circ> obj_fields) (fmlookup (objects b) x))"

text \<open>The merge with the conflicts of the raw header left out, which have their own contract.\<close>

definition merge_content :: "object_uuid list \<Rightarrow> level_state \<Rightarrow> level_state \<Rightarrow> level_state \<Rightarrow> level_state \<times> nat" where
  "merge_content ord b u t =
     (let r = the (mergeStates3Way ord b u t) in
      (fst r, snd r - snd (merge_raw (rawHeader b) (rawHeader u) (rawHeader t) 0)))"

lemma mergeStates_total: "\<exists>m n. mergeStates3Way ord base ours theirs = Some (m, n)"
  by (auto simp: mergeStates3Way_def split_beta Let_def)

lemma no_clash_imports: "(\<And>oid. \<not> clash base ours theirs oid) \<Longrightarrow> imports_of base ours theirs ids nxt = []"
  by (induction ids arbitrary: nxt) auto

lemma merge_content_parts:
  assumes "\<And>oid. \<not> clash (objects b) (objects u) (objects t) oid"
  shows "norm_fields (header (fst (merge_content ord b u t))) =
      norm_fields (fst (mergeFieldMap (header b) (header u) (header t) (header u, 0)))"
    and "fmlookup (objects (fst (merge_content ord b u t))) x =
      merge_object_spec (fmlookup (objects u) x) (fmlookup (objects b) x) (fmlookup (objects u) x) (fmlookup (objects t) x)"
    and "snd (merge_content ord b u t) = field_conflicts (header b) (header u) (header t) +
      (\<Sum>oid \<leftarrow> merge_ids (objects b) (objects u) (objects t).
         object_conflicts (fmlookup (objects b) oid) (fmlookup (objects u) oid) (fmlookup (objects t) oid))"
proof -
  obtain m n where mn: "mergeStates3Way ord b u t = Some (m, n)" using mergeStates_total by blast
  note none = no_clash_imports [of "objects b" "objects u" "objects t", OF assms]
  have f: "fresh_imports ord b u t" by (simp add: fresh_imports_def none)
  show "norm_fields (header (fst (merge_content ord b u t))) =
      norm_fields (fst (mergeFieldMap (header b) (header u) (header t) (header u, 0)))"
    "snd (merge_content ord b u t) = field_conflicts (header b) (header u) (header t) +
      (\<Sum>oid \<leftarrow> merge_ids (objects b) (objects u) (objects t).
         object_conflicts (fmlookup (objects b) oid) (fmlookup (objects u) oid) (fmlookup (objects t) oid))"
    using mergeStates_parts [OF mn] by (simp_all add: merge_content_def mn)
  show "fmlookup (objects (fst (merge_content ord b u t))) x =
      merge_object_spec (fmlookup (objects u) x) (fmlookup (objects b) x) (fmlookup (objects u) x) (fmlookup (objects t) x)"
    using mergeStates_object [OF mn f, of x] by (simp add: merge_content_def mn none)
qed

lemma no_clash_same: "\<not> clash b x x oid" "\<not> clash b b t oid" "\<not> clash b x b oid"
  by (auto simp: clash_def split: option.splits)

lemma object_conflicts_same [simp]:
  "object_conflicts b x x = 0" "object_conflicts b b t = 0" "object_conflicts b x b = 0"
  by (auto simp: object_conflicts_def field_conflicts_zero split: option.splits)

abbreviation content_of :: "lobject option \<Rightarrow> fieldmap option" where
  "content_of \<equiv> map_option (norm_fields \<circ> obj_fields)"

lemma object_spec_same:
  "content_of (merge_object_spec x b x x) = content_of x"
  "content_of (merge_object_spec b b b t) = content_of t"
  "content_of (merge_object_spec x b x b) = content_of x"
  using field_merge.both(1) field_merge.only_theirs(1) field_merge.only_ours(1)
  by (auto simp: merge_object_spec_def split: option.split)

interpretation content: three_way same_content "merge_content ord" for ord
proof unfold_locales
  fix x b t :: level_state
  show "same_content x x" by (simp add: same_content_def)
  note h = field_merge.both(1) field_merge.only_theirs(1) field_merge.only_ours(1)
  note p = merge_content_parts [OF no_clash_same(1)] merge_content_parts [OF no_clash_same(2)]
    merge_content_parts [OF no_clash_same(3)]
  show "same_content (fst (merge_content ord b x x)) x" "same_content (fst (merge_content ord b b t)) t"
    "same_content (fst (merge_content ord b x b)) x"
    by (simp_all only: same_content_def p h object_spec_same simp_thms)
  show "snd (merge_content ord b x x) = 0" "snd (merge_content ord b b t) = 0" "snd (merge_content ord b x b) = 0"
    by (simp_all add: p field_conflicts_zero)
qed

section \<open>Properties\<close>

text \<open>
  Merging is exact when one side did nothing: if theirs is the common base the merged
  level has our content, if ours is the base it has their content, if both sides are equal
  it has that content, and none of these cases reports a conflict in fields or objects.
\<close>

theorem merge_one_sided:
  "same_content (fst (merge_content ord base ours base)) ours
   \<and> same_content (fst (merge_content ord base base theirs)) theirs
   \<and> same_content (fst (merge_content ord base ours ours)) ours
   \<and> snd (merge_content ord base ours base) = 0
   \<and> snd (merge_content ord base base theirs) = 0
   \<and> snd (merge_content ord base ours ours) = 0"
  by (intro conjI content.only_ours content.only_theirs content.both)


definition mk_object :: "object_uuid \<Rightarrow> (string \<times> string) list \<Rightarrow> lobject" where
  "mk_object u fs = \<lparr>uuid = u, obj_fields = fmap_of_list fs\<rparr>"

definition mk_state :: "lobject list \<Rightarrow> level_state" where
  "mk_state obs = empty_state\<lparr>objects := fmap_of_list (map (\<lambda>ob. (uuid ob, ob)) obs)\<rparr>"


text \<open>
  C29. The new identifiers are taken above ours only, not above theirs: an object of theirs
  can then be stored over one imported earlier in the same loop.  Two objects that theirs
  added are reduced to one, and no conflict is counted.
\<close>

theorem merge_import_can_be_lost:
  "\<exists>base ours theirs m.
     keyed base \<and> keyed ours \<and> keyed theirs
     \<and> mergeStates3Way (sorted_keys (objects ours)) base ours theirs = Some (m, 0)
     \<and> fmlookup (objects theirs) 1 = Some (mk_object 1 [(''1'', ''6'')])
     \<and> fmlookup (objects base) 1 = None
     \<and> fmpred (\<lambda>_ ob. obj_fields ob \<noteq> fmap_of_list [(''1'', ''6'')]) (objects m)"
proof (intro exI conjI)
  let ?b = "empty_state" and ?u = "mk_state [mk_object 1 [(''1'', ''5'')]]"
  let ?t = "mk_state [mk_object 1 [(''1'', ''6'')], mk_object 2 [(''1'', ''7'')]]"
  let ?m = "mk_state [mk_object 1 [(''1'', ''5'')], mk_object 2 [(''1'', ''7'')]]"
  show "keyed ?b" "keyed ?u" "keyed ?t" by code_simp+
  show "mergeStates3Way (sorted_keys (objects ?u)) ?b ?u ?t = Some (?m, 0)" by code_simp
  show "fmlookup (objects ?t) 1 = Some (mk_object 1 [(''1'', ''6'')])" "fmlookup (objects ?b) 1 = None"
    by code_simp+
  show "fmpred (\<lambda>_ ob. obj_fields ob \<noteq> fmap_of_list [(''1'', ''6'')]) (objects ?m)" by code_simp
qed

end
