(* ===== verification/Gdge_Import.thy ===== *)
theory Gdge_Import
  imports Gdge_Package Git_Service Merge
begin

text \<open>
  Exporting a level to a history file and importing history files: \<open>PackageReconstruction.cpp\<close>,
  \<open>GdgeImportPlanner.cpp\<close>, \<open>GdgeImportMerge.cpp\<close> and the corresponding parts of \<open>GitService.cpp\<close>
  under \<open>src/service\<close>, and \<open>src/store/GdgeExport.cpp\<close>.  The operations run on a service and a
  disk; \<open>None\<close> as an outcome means that a reconstruction does not return.
\<close>

section \<open>Reconstruction from a package\<close>

definition by_index :: "package_commit list \<Rightarrow> (int, package_commit) fmap" where
  "by_index cs = fold (\<lambda>c. fmupd (commitIndex c) c) cs fmempty"

text \<open>The walk from the HEAD to the root; an index seen before ends it.\<close>

function walk_package :: "(int, package_commit) fmap \<Rightarrow> int list \<Rightarrow> int option \<Rightarrow> package_commit list \<Rightarrow>
    package_commit list option" where
  "walk_package m seen None chain = Some chain"
| "walk_package m seen (Some cur) chain =
     (case fmlookup m cur of
        None \<Rightarrow> None
      | Some row \<Rightarrow>
          if cur \<in> set seen then None
          else walk_package m (cur # seen) (parentIndex row) (chain @ [row]))"
  by pat_completeness auto
termination
proof (relation "measure (\<lambda>(m, seen, cur, _). card (fmdom' m - set seen) + (if cur = None then 0 else 1))", goal_cases)
  case (2 m seen cur chain row)
  then have "cur \<in> fmdom' m - set seen" by (auto simp: fmdom'I)
  then have "card (fmdom' m - set (cur # seen)) < card (fmdom' m - set seen)"
    by (intro psubset_card_mono) auto
  then show ?case by auto
qed simp

fun replay_package :: "'j json_ops \<Rightarrow> package_commit list \<Rightarrow> level_state \<Rightarrow> level_state option" where
  "replay_package j [] st = Some st"
| "replay_package j (row # rows) st =
     (case parseDelta j (deltaBlob row) of
        None \<Rightarrow> None
      | Some d \<Rightarrow> replay_package j rows (fst (apply_delta st d)))"

definition reconstructPackageHead :: "'j service_env \<Rightarrow> package_data \<Rightarrow> level_state option" where
  "reconstructPackageHead e p =
     (case headIndex (metadata p) of
        None \<Rightarrow> None
      | Some h \<Rightarrow>
          (case walk_package (by_index (package_commits p)) [] (Some h) [] of
             None \<Rightarrow> None
           | Some chain \<Rightarrow> replay_package (e_json e) (rev chain) empty_state))"

section \<open>Export\<close>

text \<open>\<open>indexById.at(head)\<close> throws when the HEAD is not among the rows.\<close>

datatype gdge_error =
    GdgeMsg string
  | GdgeThrew
  | GdgeIndex nat
  | GdgeStore nat store_error

definition index_by_id :: "commit_row list \<Rightarrow> (commit_id, int) fmap" where
  "index_by_id rows = fold (\<lambda>(i, r). fmupd (row_id r) (int i)) (List.enumerate 0 (rev rows)) fmempty"

definition export_reference :: "(commit_id, int) fmap \<Rightarrow> string \<Rightarrow> commit_id option \<Rightarrow> gdge_error + int option" where
  "export_reference ix what r =
     (case r of
        None \<Rightarrow> Inr None
      | Some i \<Rightarrow>
          (case fmlookup ix i of
             None \<Rightarrow> Inl (GdgeMsg (what @ '' reference missing during export''))
           | Some k \<Rightarrow> Inr (Some k)))"

definition export_commit :: "(commit_id, int) fmap \<Rightarrow> nat \<Rightarrow> commit_row \<Rightarrow> gdge_error + package_commit" where
  "export_commit ix i r =
     (case export_reference ix ''parent'' (row_parent r) of
        Inl err \<Rightarrow> Inl err
      | Inr par \<Rightarrow>
          (case export_reference ix ''reverts'' (row_reverts r) of
             Inl err \<Rightarrow> Inl err
           | Inr undone \<Rightarrow>
               Inr \<lparr>commitIndex = int i, parentIndex = par, revertsIndex = undone, commitMessage = row_message r,
                 createdAt = row_created r, deltaBlob = row_delta r\<rparr>))"

fun export_commits :: "(commit_id, int) fmap \<Rightarrow> (nat \<times> commit_row) list \<Rightarrow> gdge_error + package_commit list" where
  "export_commits ix [] = Inr []"
| "export_commits ix ((i, r) # rows) =
     (case export_commit ix i r of
        Inl err \<Rightarrow> Inl err
      | Inr c \<Rightarrow> (case export_commits ix rows of Inl err \<Rightarrow> Inl err | Inr cs \<Rightarrow> Inr (c # cs)))"

definition buildGdgePackageFromCommits :: "level_key \<Rightarrow> commit_id \<Rightarrow> string \<Rightarrow> commit_row list \<Rightarrow>
    gdge_error + package_data" where
  "buildGdgePackageFromCommits lk head hash rows =
     (let ix = index_by_id rows in
      case export_commits ix (List.enumerate 0 (rev rows)) of
        Inl err \<Rightarrow> Inl err
      | Inr cs \<Rightarrow>
          (case fmlookup ix head of
             None \<Rightarrow> Inl GdgeThrew
           | Some h \<Rightarrow>
               Inr \<lparr>metadata = \<lparr>formatVersion = ''1'', rootHash = hash, headIndex = Some h,
                     sourceLevelKey = lk, exportedAt = 0\<rparr>,
                  package_commits = cs\<rparr>))"

definition export_write :: "package_env \<Rightarrow> level_key \<Rightarrow> string \<Rightarrow> commit_id \<Rightarrow> commit_row list \<Rightarrow> level_state \<Rightarrow> disk \<Rightarrow>
    (gdge_error + unit) \<times> disk" where
  "export_write g lk outPath head rows rootState d =
     (case buildGdgePackageFromCommits lk head (hashLevelState rootState) rows of
        Inl err \<Rightarrow> (Inl err, d)
      | Inr p \<Rightarrow>
          (case writeGdgePackage g outPath p d of
             (Inl err, d1) \<Rightarrow> (Inl (GdgeMsg (if err = [] then ''failed to write .gdge package'' else err)), d1)
           | (Inr _, d1) \<Rightarrow> (Inr (), d1)))"

definition exportLevelToGdge :: "'j service_env \<Rightarrow> package_env \<Rightarrow> level_key \<Rightarrow> string \<Rightarrow> service \<Rightarrow> disk \<Rightarrow>
    ((gdge_error + unit) \<times> service \<times> disk) option" where
  "exportLevelToGdge e g lk outPath svc d =
     (case list_rows (e_zlib e) lk (db_conn svc) of (rows, c) \<Rightarrow>
        let svc1 = svc\<lparr>db_conn := c\<rparr> in
        if rows = [] then Some (Inl (GdgeMsg ''no commits to export''), svc1, d)
        else
          (case getHead lk (db_conn svc1) of (head, c2) \<Rightarrow>
             let svc2 = svc1\<lparr>db_conn := c2\<rparr> in
             case head of
               None \<Rightarrow> Some (Inl (GdgeMsg ''missing HEAD''), svc2, d)
             | Some h \<Rightarrow>
                 (case find (\<lambda>r. row_parent r = None) rows of
                    None \<Rightarrow> Some (Inl (GdgeMsg ''failed to reconstruct root''), svc2, d)
                  | Some r \<Rightarrow>
                      after_reconstruct e (row_id r) svc2 (\<lambda>rootState svc3.
                        case rootState of
                          None \<Rightarrow> Some (Inl (GdgeMsg ''failed to reconstruct root''), svc3, d)
                        | Some st \<Rightarrow> (case export_write g lk outPath h rows st d of (res, d1) \<Rightarrow> Some (res, svc3, d1))))))"

section \<open>Planning an import\<close>

record import_plan =
  plan_smart :: "string list"
  plan_sequential :: "string list"
  plan_invalid :: "(string \<times> string) list"
  noLocalCommits :: bool

definition empty_plan :: import_plan where
  "empty_plan = \<lparr>plan_smart = [], plan_sequential = [], plan_invalid = [], noLocalCommits = False\<rparr>"

definition classify_package :: "'j service_env \<Rightarrow> string \<Rightarrow> string \<Rightarrow> string + package_data \<Rightarrow> import_plan \<Rightarrow> import_plan" where
  "classify_package e localRootHash path pkg plan =
     (case pkg of
        Inl err \<Rightarrow> plan\<lparr>plan_invalid := plan_invalid plan @ [(path, err)]\<rparr>
      | Inr p \<Rightarrow>
          (if rootHash (metadata p) = [] then plan\<lparr>plan_invalid := plan_invalid plan @ [(path, ''metadata.rootHash empty'')]\<rparr>
           else if reconstructPackageHead e p = None
           then plan\<lparr>plan_invalid := plan_invalid plan @ [(path, ''package history graph invalid'')]\<rparr>
           else if rootHash (metadata p) = localRootHash then plan\<lparr>plan_smart := plan_smart plan @ [path]\<rparr>
           else plan\<lparr>plan_sequential := plan_sequential plan @ [path]\<rparr>))"

fun classify_paths :: "'j service_env \<Rightarrow> package_env \<Rightarrow> string \<Rightarrow> string list \<Rightarrow> import_plan \<Rightarrow> disk \<Rightarrow> import_plan \<times> disk" where
  "classify_paths e g localRootHash [] plan d = (plan, d)"
| "classify_paths e g localRootHash (path # paths) plan d =
     (case readGdgePackage g path d of (pkg, d1) \<Rightarrow>
        classify_paths e g localRootHash paths (classify_package e localRootHash path pkg plan) d1)"

definition classifyImports :: "'j service_env \<Rightarrow> package_env \<Rightarrow> level_state option \<Rightarrow> string list \<Rightarrow> disk \<Rightarrow>
    import_plan \<times> disk" where
  "classifyImports e g rootState inPaths d =
     (case rootState of
        None \<Rightarrow> (empty_plan\<lparr>plan_invalid := map (\<lambda>p. (p, ''local root reconstruct failed'')) inPaths\<rparr>, d)
      | Some r \<Rightarrow> classify_paths e g (hashLevelState r) inPaths empty_plan d)"

definition after_root :: "'j service_env \<Rightarrow> level_key \<Rightarrow> service \<Rightarrow> (level_state option \<Rightarrow> service \<Rightarrow> 'r option) \<Rightarrow> 'r option" where
  "after_root e lk svc k =
     (case list_rows (e_zlib e) lk (db_conn svc) of (rows, c) \<Rightarrow>
        let svc1 = svc\<lparr>db_conn := c\<rparr> in
        if rows = [] then k (Some empty_state) svc1
        else
          (case find (\<lambda>r. row_parent r = None) rows of
             None \<Rightarrow> k None svc1
           | Some r \<Rightarrow> after_reconstruct e (row_id r) svc1 k))"

definition service_classifyImports :: "'j service_env \<Rightarrow> package_env \<Rightarrow> level_key \<Rightarrow> string list \<Rightarrow> service \<Rightarrow> disk \<Rightarrow>
    (import_plan \<times> service \<times> disk) option" where
  "service_classifyImports e g dest inPaths svc d =
     (case getHead dest (db_conn svc) of (h, c) \<Rightarrow>
        after_root e dest (svc\<lparr>db_conn := c\<rparr>) (\<lambda>rootState svc1.
          case classifyImports e g rootState inPaths d of (plan, d1) \<Rightarrow>
            Some (plan\<lparr>noLocalCommits := (h = None)\<rparr>, svc1, d1)))"

definition planImport :: "'j service_env \<Rightarrow> package_env \<Rightarrow> level_key \<Rightarrow> string list \<Rightarrow> service \<Rightarrow> disk \<Rightarrow>
    (import_plan \<times> service \<times> disk) option" where
  "planImport e g dest inPaths svc d =
     (if inPaths = [] then Some (empty_plan, svc, d) else service_classifyImports e g dest inPaths svc d)"

section \<open>Merging the planned files\<close>

definition loadGdgeHead :: "'j service_env \<Rightarrow> package_env \<Rightarrow> string \<Rightarrow> disk \<Rightarrow> (string + level_state) \<times> disk" where
  "loadGdgeHead e g path d =
     (case readGdgePackage g path d of (pkg, d1) \<Rightarrow>
        (case pkg of
           Inl err \<Rightarrow> Inl (path_filename path @ '': '' @ err)
         | Inr p \<Rightarrow>
             (if package_commits p = [] \<or> headIndex (metadata p) = None
              then Inl (path_filename path @ '': missing commits or head_index'')
              else
                (case reconstructPackageHead e p of
                   None \<Rightarrow> Inl (path_filename path @ '': package history graph invalid'')
                 | Some head \<Rightarrow> Inr head)), d1))"

definition merge_states :: "'j service_env \<Rightarrow> level_state \<Rightarrow> level_state \<Rightarrow> level_state \<Rightarrow> (level_state \<times> nat) option" where
  "merge_states e base ours theirs = mergeStates3Way (e_objects e (objects ours)) base ours theirs"

fun smart_merge :: "'j service_env \<Rightarrow> package_env \<Rightarrow> level_state \<Rightarrow> string list \<Rightarrow> level_state \<Rightarrow> nat \<Rightarrow> disk \<Rightarrow>
    (string + level_state \<times> nat) \<times> disk" where
  "smart_merge e g rootState [] merged conflicts d = (Inr (merged, conflicts), d)"
| "smart_merge e g rootState (path # paths) merged conflicts d =
     (case loadGdgeHead e g path d of
        (Inl err, d1) \<Rightarrow> (Inl err, d1)
      | (Inr loaded, d1) \<Rightarrow>
          (case merge_states e rootState merged loaded of
             None \<Rightarrow> (Inl ''3-way merge failed'', d1)
           | Some (m, n) \<Rightarrow> smart_merge e g rootState paths m (conflicts + n) d1))"

fun preview_names :: "string list \<Rightarrow> bool \<Rightarrow> string \<Rightarrow> string" where
  "preview_names [] later preview = preview"
| "preview_names (n # ns) later preview =
     (let p = (if later then preview @ '', '' else preview) @ n
      in if length p \<ge> 80 then p else preview_names ns True p)"

record import_acc =
  ia_pending :: "pending_head list"
  ia_state :: level_state
  ia_root :: level_state
  ia_error :: string
  ia_merged :: nat
  ia_skipped :: nat
  ia_conflicts :: nat
  ia_smart :: nat
  ia_sequential :: nat

definition first_error :: "string \<Rightarrow> string \<Rightarrow> string" where
  "first_error lastError err = (if lastError = [] then err else lastError)"

definition import_update :: "level_key \<Rightarrow> commit_id option \<Rightarrow> nat option \<Rightarrow> string \<Rightarrow> string \<Rightarrow> pending_head" where
  "import_update dest parent ix msg blob =
     \<lparr>ph_level = dest, ph_parent = parent, ph_parent_ix = ix, ph_reverts = None, ph_message = msg,
      ph_delta = blob, ph_cache = None\<rparr>"

definition smart_message :: "string list \<Rightarrow> string" where
  "smart_message paths =
     shorten (''Smart merge: '' @ nat_to_string (length paths) @ '' imports ('' @
       preview_names (map path_filename paths) False [] @ '')'') 120"

definition smart_phase :: "'j service_env \<Rightarrow> package_env \<Rightarrow> level_key \<Rightarrow> commit_id option \<Rightarrow> string list \<Rightarrow>
    import_acc \<Rightarrow> disk \<Rightarrow> import_acc \<times> disk" where
  "smart_phase e g dest headBefore paths a d =
     (if paths = [] then (a, d)
      else
        (case smart_merge e g (ia_root a) paths (ia_state a) 0 d of
           (Inl err, d1) \<Rightarrow> (a\<lparr>ia_skipped := ia_skipped a + length paths, ia_error := first_error (ia_error a) err\<rparr>, d1)
         | (Inr (merged, n), d1) \<Rightarrow>
             (a\<lparr>ia_pending := ia_pending a @
                  [import_update dest headBefore None (smart_message paths) (dump e (diff_states e (ia_state a) merged))],
                ia_smart := length paths, ia_merged := ia_merged a + length paths,
                ia_conflicts := ia_conflicts a + n, ia_state := merged,
                ia_root := (if headBefore = None then merged else ia_root a)\<rparr>, d1)))"

definition sequential_step :: "'j service_env \<Rightarrow> level_key \<Rightarrow> commit_id option \<Rightarrow> string \<Rightarrow> string + level_state \<Rightarrow>
    import_acc \<Rightarrow> import_acc" where
  "sequential_step e dest headBefore path res a =
     (case res of
        Inl err \<Rightarrow> a\<lparr>ia_skipped := ia_skipped a + 1, ia_error := first_error (ia_error a) err\<rparr>
      | Inr loaded \<Rightarrow>
          (if headBefore = None \<and> ia_pending a = [] then
             a\<lparr>ia_pending := [import_update dest None None (''Import .gdge: '' @ path_filename path)
                   (dump e (diff_states e empty_state loaded))],
               ia_root := loaded, ia_state := loaded,
               ia_sequential := ia_sequential a + 1, ia_merged := ia_merged a + 1\<rparr>
           else
             (case merge_states e (ia_root a) (ia_state a) loaded of
                None \<Rightarrow> a\<lparr>ia_skipped := ia_skipped a + 1,
                    ia_error := first_error (ia_error a) (path_filename path @ '': 3-way merge failed'')\<rparr>
              | Some (merged, n) \<Rightarrow>
                  a\<lparr>ia_pending := ia_pending a @
                       [if ia_pending a \<noteq> []
                        then import_update dest None (Some (length (ia_pending a) - 1))
                          (''Merge import: '' @ path_filename path) (dump e (diff_states e (ia_state a) merged))
                        else import_update dest headBefore None
                          (''Merge import: '' @ path_filename path) (dump e (diff_states e (ia_state a) merged))],
                    ia_conflicts := ia_conflicts a + n, ia_state := merged,
                    ia_sequential := ia_sequential a + 1, ia_merged := ia_merged a + 1\<rparr>)))"

fun sequential_phase :: "'j service_env \<Rightarrow> package_env \<Rightarrow> level_key \<Rightarrow> commit_id option \<Rightarrow> string list \<Rightarrow>
    import_acc \<Rightarrow> disk \<Rightarrow> import_acc \<times> disk" where
  "sequential_phase e g dest headBefore [] a d = (a, d)"
| "sequential_phase e g dest headBefore (path # paths) a d =
     (case loadGdgeHead e g path d of (res, d1) \<Rightarrow>
        sequential_phase e g dest headBefore paths (sequential_step e dest headBefore path res a) d1)"

record import_payload =
  ip_state :: level_state
  ip_merged :: nat
  ip_skipped :: nat
  ip_conflicts :: nat
  ip_smart :: nat
  ip_sequential :: nat

definition import_result :: "import_acc \<Rightarrow> (string + import_payload) \<times> pending_head list" where
  "import_result a =
     (if ia_pending a = []
      then (Inl (if ia_error a = [] then ''none of selected files merged'' else ia_error a), [])
      else
        (Inr \<lparr>ip_state = ia_state a, ip_merged = ia_merged a, ip_skipped = ia_skipped a,
             ip_conflicts = ia_conflicts a, ip_smart = ia_smart a, ip_sequential = ia_sequential a\<rparr>,
         butlast (ia_pending a) @ [(last (ia_pending a))\<lparr>ph_cache := Some (ia_state a)\<rparr>]))"

text \<open>\<open>gdge_import_merge::prepareImportManyFromGdge\<close>.\<close>

definition merge_planned :: "'j service_env \<Rightarrow> package_env \<Rightarrow> level_key \<Rightarrow> import_plan \<Rightarrow> commit_id option \<Rightarrow>
    level_state \<Rightarrow> level_state \<Rightarrow> disk \<Rightarrow> ((string + import_payload) \<times> pending_head list) \<times> disk" where
  "merge_planned e g dest plan headBefore ours rootBefore d =
     (let a = \<lparr>ia_pending = [], ia_state = ours, ia_root = rootBefore, ia_error = [], ia_merged = 0,
                ia_skipped = length (plan_invalid plan), ia_conflicts = 0, ia_smart = 0, ia_sequential = 0\<rparr>
      in case smart_phase e g dest headBefore (plan_smart plan) a d of (a1, d1) \<Rightarrow>
         case sequential_phase e g dest headBefore (plan_sequential plan) a1 d1 of (a2, d2) \<Rightarrow>
           (import_result a2, d2))"

section \<open>Import of many files\<close>

type_synonym prepared_import = "(string + import_payload) \<times> pending_head list"

definition prepareImportManyFromGdge :: "'j service_env \<Rightarrow> package_env \<Rightarrow> level_key \<Rightarrow> string list \<Rightarrow> service \<Rightarrow> disk \<Rightarrow>
    (prepared_import \<times> service \<times> disk) option" where
  "prepareImportManyFromGdge e g dest inPaths svc d =
     (if inPaths = [] then Some ((Inl ''no files selected'', []), svc, d)
      else
        (case service_classifyImports e g dest inPaths svc d of
           None \<Rightarrow> None
         | Some (plan, svc1, d1) \<Rightarrow>
          case getHead dest (db_conn svc1) of (headBefore, c2) \<Rightarrow>
            let svc2 = svc1\<lparr>db_conn := c2\<rparr> in
            case headBefore of
              None \<Rightarrow>
                (case merge_planned e g dest plan None empty_state empty_state d1 of (res, d2) \<Rightarrow> Some (res, svc2, d2))
            | Some h \<Rightarrow>
                after_root e dest svc2 (\<lambda>rootState svc3.
                  case rootState of
                    None \<Rightarrow> Some ((Inl ''failed to reconstruct current root'', []), svc3, d1)
                  | Some rootBefore \<Rightarrow>
                      after_reconstruct e h svc3 (\<lambda>recon svc4.
                        case recon of
                          None \<Rightarrow> Some ((Inl ''failed to reconstruct local state'', []), svc4, d1)
                        | Some ours \<Rightarrow>
                            (case merge_planned e g dest plan (Some h) ours rootBefore d1 of (res, d2) \<Rightarrow>
                               Some (res, svc4, d2))))))"

definition pending_parent :: "commit_id list \<Rightarrow> pending_head \<Rightarrow> commit_id option option" where
  "pending_parent minted p =
     (case ph_parent_ix p of
        None \<Rightarrow> Some (ph_parent p)
      | Some ix \<Rightarrow> if ix \<ge> length minted then None else Some (Some (minted ! ix)))"

fun finalize_pending :: "'j service_env \<Rightarrow> (nat \<Rightarrow> int) \<Rightarrow> pending_head list \<Rightarrow> commit_id list \<Rightarrow> service \<Rightarrow>
    (gdge_error + commit_id list) \<times> service" where
  "finalize_pending e now [] minted svc = (Inr minted, svc)"
| "finalize_pending e now (p # ps) minted svc =
     (case pending_parent minted p of
        None \<Rightarrow> (Inl (GdgeIndex (length minted)), svc)
      | Some parent \<Rightarrow>
          (case insertAndSetHead (e_zlib e) (now (length minted)) (ph_level p) parent (ph_reverts p) (ph_message p)
               (ph_delta p) (db_conn svc) of
             (Inl err, c) \<Rightarrow> (Inl (GdgeStore (length minted) err), svc\<lparr>db_conn := c\<rparr>)
           | (Inr i, c) \<Rightarrow>
               (let svc1 = svc\<lparr>db_conn := c\<rparr> in
                finalize_pending e now ps (minted @ [i])
                  (case ph_cache p of None \<Rightarrow> svc1 | Some st \<Rightarrow> cachePut i st svc1))))"

definition finalizeImportManyFromGdge :: "'j service_env \<Rightarrow> (nat \<Rightarrow> int) \<Rightarrow> pending_head list \<Rightarrow> service \<Rightarrow>
    (gdge_error + commit_id list) \<times> service" where
  "finalizeImportManyFromGdge e now ps svc = (if ps = [] then (Inr [], svc) else finalize_pending e now ps [] svc)"

text \<open>The two halves in a row; the identifiers of the new commits are kept beside the payload.\<close>

definition importManyFromGdge :: "'j service_env \<Rightarrow> package_env \<Rightarrow> (nat \<Rightarrow> int) \<Rightarrow> level_key \<Rightarrow> string list \<Rightarrow> service \<Rightarrow> disk \<Rightarrow>
    ((gdge_error + import_payload \<times> commit_id list) \<times> service \<times> disk) option" where
  "importManyFromGdge e g now dest inPaths svc d =
     (case prepareImportManyFromGdge e g dest inPaths svc d of
        None \<Rightarrow> None
      | Some ((Inl err, _), svc1, d1) \<Rightarrow> Some (Inl (GdgeMsg err), svc1, d1)
      | Some ((Inr v, ps), svc1, d1) \<Rightarrow>
          (case finalizeImportManyFromGdge e now ps svc1 of
             (Inl err, svc2) \<Rightarrow> Some (Inl err, svc2, d1)
           | (Inr ids, svc2) \<Rightarrow> Some (Inr (v, ids), svc2, d1)))"

end
