(* ===== verification/Package_Spec.thy ===== *)
theory Package_Spec
  imports Gdge_Package "HOL-Library.Multiset"
begin

text \<open>
  What \<open>src/store/GdgePackage.cpp\<close> promises: a write that reports success, whatever calls fail
  on the way, leaves a file that reads back as the package, one that reports an error leaves
  the output file as it was, and neither touches anything but its two temporary names.
\<close>

section \<open>Steps\<close>

lemma pk_call_frame:
  "pk_db (snd (pk_call c)) = pk_db c" "pk_saved (snd (pk_call c)) = pk_saved c"
  "pk_valid (snd (pk_call c)) = pk_valid c" "contents (pk_disk (snd (pk_call c))) = contents (pk_disk c)"
  by (simp_all add: pk_call_def split_beta)

lemma pk_call_pair:
  assumes "pk_call c = (ok, c1)"
  shows "pk_db c1 = pk_db c" "pk_saved c1 = pk_saved c" "pk_valid c1 = pk_valid c"
    "contents (pk_disk c1) = contents (pk_disk c)"
  using pk_call_frame [of c] assms by simp_all

text \<open>A step that leaves the files alone.\<close>

definition quiet :: "package_step \<Rightarrow> bool" where
  "quiet s \<longleftrightarrow> (\<forall>c. contents (pk_disk (snd (s c))) = contents (pk_disk c))"

lemma quiet_basic [intro]: "quiet pk_call" "quiet (bindText s)" "quiet (Pair b)"
  by (simp_all add: quiet_def bindText_def split_beta pk_call_frame)

lemma quiet_execSql:
  assumes "\<And>c c'. s c = Some c' \<Longrightarrow> pk_disk c' = pk_disk c"
  shows "quiet (execSql s)"
  unfolding quiet_def
proof
  fix c
  obtain ok c1 where t: "pk_call c = (ok, c1)" by fastforce
  show "contents (pk_disk (snd (execSql s c))) = contents (pk_disk c)"
    using pk_call_pair [OF t] assms [of c1] by (auto simp: execSql_def t split: option.split)
qed

lemma quiet_sql [intro]: "quiet (execSql Some)" "quiet (execSql sql_begin)" "quiet (execSql sql_commit)" "quiet (execSql (on_tables f))"
  by (rule quiet_execSql, force simp: sql_begin_def sql_commit_def on_tables_def split: if_splits)+

lemma quiet_all_steps: "(\<And>s. s \<in> set ss \<Longrightarrow> quiet s) \<Longrightarrow> quiet (all_steps ss)"
proof (induction ss)
  case (Cons s ss)
  then have "quiet s" "quiet (all_steps ss)" by simp_all
  then show ?case by (simp add: quiet_def split_beta)
qed (simp add: quiet_def)

lemma quiet_setMeta [intro]: "quiet (setMeta k v)"
  unfolding setMeta_def by (rule quiet_all_steps) auto

lemma quiet_write_commit [intro]: "quiet (write_commit z c)"
proof -
  let ?rest = "\<lambda>stored ok. all_steps [bindText (commitMessage c), pk_call, Pair ok,
    execSql (on_tables (insert_row (commitIndex c) (row_of c stored)))]"
  have q: "quiet (?rest stored ok)" for stored ok by (rule quiet_all_steps) auto
  have b: "quiet (bindText s)" for s by auto
  show ?thesis
    using q b unfolding quiet_def write_commit_def by (simp add: split_beta split: option.split)
qed

lemma quiet_writer: "quiet (package_writer g p)"
  unfolding package_writer_def by (rule quiet_all_steps) (auto simp: schema_steps_def)

section \<open>What a successful writer has written\<close>

lemma all_steps_append: "all_steps (xs @ ys) c = (case all_steps xs c of (ok, c1) \<Rightarrow> if ok then all_steps ys c1 else (False, c1))"
  by (induction xs arbitrary: c) (auto split: prod.split)

lemma all_steps_True:
  "all_steps (s # ss) c = (True, c') \<longleftrightarrow> (\<exists>c1. s c = (True, c1) \<and> all_steps ss c1 = (True, c'))"
  "all_steps (xs @ ys) c = (True, c') \<longleftrightarrow> (\<exists>c1. all_steps xs c = (True, c1) \<and> all_steps ys c1 = (True, c'))"
  by (auto simp: all_steps_append split: prod.splits if_splits)

text \<open>\<open>does f\<close>: on success the step has turned the tables by \<open>f\<close>, on a database that is valid.\<close>

definition does :: "(package_db \<Rightarrow> package_db option) \<Rightarrow> package_step \<Rightarrow> bool" where
  "does f s \<longleftrightarrow> (\<forall>c c'. s c = (True, c') \<longrightarrow> pk_valid c' = pk_valid c \<and> f (pk_db c) = Some (pk_db c'))"

lemma does_call: "does Some pk_call" "does Some (Pair b)" "does Some (bindText s)"
  using pk_call_pair by (fastforce simp: does_def bindText_def split: prod.splits)+

lemma execSql_True:
  assumes "execSql s c = (True, c')"
  shows "\<exists>c1. s c1 = Some c' \<and> pk_db c1 = pk_db c \<and> pk_saved c1 = pk_saved c \<and> pk_valid c1 \<and> pk_valid c"
proof -
  obtain ok c1 where t: "pk_call c = (ok, c1)" by fastforce
  with assms have "pk_valid c1" "s c1 = Some c'" by (auto simp: execSql_def split: if_splits option.splits)
  then show ?thesis using pk_call_pair [OF t] by auto
qed

lemma does_sql: "does Some (execSql Some)" "does Some (execSql sql_begin)" "does Some (execSql sql_commit)" "does f (execSql (on_tables f))"
  by (auto simp: does_def sql_begin_def sql_commit_def on_tables_def dest!: execSql_True split: if_splits)

lemma doesD: "does f s \<Longrightarrow> s c = (True, c') \<Longrightarrow> pk_valid c' = pk_valid c \<and> f (pk_db c) = Some (pk_db c')"
  by (simp add: does_def)

lemma does_Cons:
  assumes "does f s" and "does h (all_steps ss)"
  shows "does (\<lambda>t. Option.bind (f t) h) (all_steps (s # ss))"
  unfolding does_def
proof (intro allI impI)
  fix c c' assume "all_steps (s # ss) c = (True, c')"
  then obtain c1 where "s c = (True, c1)" "all_steps ss c1 = (True, c')" unfolding all_steps_True(1) by blast
  from doesD [OF assms(1) this(1)] doesD [OF assms(2) this(2)]
  show "pk_valid c' = pk_valid c \<and> Option.bind (f (pk_db c)) h = Some (pk_db c')" by simp
qed

lemma does_Nil: "does Some (all_steps [])"
  by (simp add: does_def)

lemma does_setMeta: "does (upsert_meta k v) (setMeta k v)"
proof -
  have "does (\<lambda>t. Option.bind (Some t) (\<lambda>t. Option.bind (Some t) (\<lambda>t. Option.bind (Some t) (\<lambda>t. Option.bind (upsert_meta k v t) Some)))) (setMeta k v)"
    unfolding setMeta_def by (intro does_Cons does_call does_sql does_Nil)
  then show ?thesis by (simp add: bind_option_cong) 
qed

definition write_row :: "zlib \<Rightarrow> package_commit \<Rightarrow> package_db \<Rightarrow> package_db option" where
  "write_row z c t = Option.bind (compressBlob z (deltaBlob c) (- 1)) (\<lambda>stored. insert_row (commitIndex c) (row_of c stored) t)"

lemma does_write_commit: "does (write_row z c) (write_commit z c)"
proof (cases "compressBlob z (deltaBlob c) (- 1)")
  case (Some stored)
  have r: "does (\<lambda>t. Option.bind (Some t) (\<lambda>t. Option.bind (Some t) (\<lambda>t. Option.bind (Some t)
      (\<lambda>t. Option.bind (insert_row (commitIndex c) (row_of c stored) t) Some))))
    (all_steps [bindText (commitMessage c), pk_call, Pair ok, execSql (on_tables (insert_row (commitIndex c) (row_of c stored)))])" for ok
    by (intro does_Cons does_call does_sql does_Nil)
  show ?thesis unfolding does_def
  proof (intro allI impI)
    fix k k' assume w: "write_commit z c k = (True, k')"
    obtain ok k1 where b: "bindText stored k = (ok, k1)" by fastforce
    have "pk_db k1 = pk_db k" "pk_valid k1 = pk_valid k"
      using b pk_call_pair [of k] by (auto simp: bindText_def split: prod.splits)
    moreover have st: "all_steps [bindText (commitMessage c), pk_call, Pair ok,
        execSql (on_tables (insert_row (commitIndex c) (row_of c stored)))] k1 = (True, k')"
      using w b Some by (simp add: write_commit_def del: all_steps.simps)
    ultimately show "pk_valid k' = pk_valid k \<and> write_row z c (pk_db k) = Some (pk_db k')"
      using doesD [OF r st] Some by (simp add: write_row_def)
  qed
qed (simp add: does_def write_commit_def)

text \<open>The rows of a list of commits, and the tables of a package.\<close>

definition rows_for :: "zlib \<Rightarrow> package_commit list \<Rightarrow> (int, package_row) fmap \<Rightarrow> bool" where
  "rows_for z cs T \<longleftrightarrow> fmdom' T = commitIndex ` set cs \<and> distinct (map commitIndex cs) \<and>
     (\<forall>c \<in> set cs. \<exists>stored. compressBlob z (deltaBlob c) (- 1) = Some stored \<and>
        fmlookup T (commitIndex c) = Some (row_of c stored))"

definition holds_package :: "package_env \<Rightarrow> package_data \<Rightarrow> package_db \<Rightarrow> bool" where
  "holds_package g p t \<longleftrightarrow>
     meta_table t = Some (fold (\<lambda>(k, v). fmupd k v) (meta_pairs (g_now g) (metadata p)) fmempty) \<and>
     (\<exists>T. commit_table t = Some T \<and> rows_for (g_zlib g) (package_commits p) T)"

lemma write_metas:
  assumes "all_steps (map (\<lambda>(k, v). setMeta k v) kvs) c = (True, c')" and "meta_table (pk_db c) = Some m"
  shows "pk_db c' = (pk_db c)\<lparr>meta_table := Some (fold (\<lambda>(k, v). fmupd k v) kvs m)\<rparr>"
  using assms
proof (induction kvs arbitrary: c m)
  case (Cons kv kvs)
  obtain k v where kv: "kv = (k, v)" by fastforce
  with Cons.prems obtain c1 where c1: "setMeta k v c = (True, c1)" "all_steps (map (\<lambda>(k, v). setMeta k v) kvs) c1 = (True, c')"
    unfolding list.map kv by (subst (asm) all_steps_True) auto
  with does_setMeta [of k v] have "upsert_meta k v (pk_db c) = Some (pk_db c1)" by (simp add: does_def)
  with Cons.prems have d: "pk_db c1 = (pk_db c)\<lparr>meta_table := Some (fmupd k v m)\<rparr>" by (auto simp: upsert_meta_def)
  show ?case using Cons.IH [OF c1(2), of "fmupd k v m"] by (simp add: d kv)
qed simp

lemma write_rows:
  assumes "all_steps (map (write_commit z) cs) c = (True, c')" and "commit_table (pk_db c) = Some T0" and "rows_for z cs0 T0"
  shows "\<exists>T. pk_db c' = (pk_db c)\<lparr>commit_table := Some T\<rparr> \<and> rows_for z (cs0 @ cs) T"
  using assms
proof (induction cs arbitrary: c cs0 T0)
  case Nil
  then show ?case by (intro exI [of _ T0]) simp
next
  case (Cons x cs)
  from Cons.prems(1) obtain c1 where c1: "write_commit z x c = (True, c1)" "all_steps (map (write_commit z) cs) c1 = (True, c')"
    unfolding list.map by (subst (asm) all_steps_True) auto
  with does_write_commit [of z x] have w: "write_row z x (pk_db c) = Some (pk_db c1)" by (simp add: does_def)
  with Cons.prems(2) obtain stored where st: "compressBlob z (deltaBlob x) (- 1) = Some stored" "fmlookup T0 (commitIndex x) = None"
    and d: "pk_db c1 = (pk_db c)\<lparr>commit_table := Some (fmupd (commitIndex x) (row_of x stored) T0)\<rparr>"
    by (cases "compressBlob z (deltaBlob x) (- 1)") (auto simp: write_row_def insert_row_def split: if_splits)
  have new: "commitIndex x \<notin> commitIndex ` set cs0" using st(2) Cons.prems(3) by (metis fmdom'_notI rows_for_def)
  have "rows_for z (cs0 @ [x]) (fmupd (commitIndex x) (row_of x stored) T0)"
    using Cons.prems(3) st(1) new by (force simp: rows_for_def)
  from Cons.IH [OF c1(2) _ this] show ?case by (auto simp: d)
qed

lemma writer_True:
  assumes "package_writer g p c = (True, c')"
  shows "holds_package g p (pk_db c') \<and> pk_valid c"
proof -
  have sch: "does (\<lambda>t. Option.bind (Some t) (\<lambda>t. Option.bind (Some t) (\<lambda>t. Option.bind (Some t)
     (\<lambda>t. Option.bind (drop_commits t) (\<lambda>t. Option.bind (drop_meta t) (\<lambda>t. Option.bind (create_meta t)
     (\<lambda>t. Option.bind (create_commits t) Some))))))) (all_steps schema_steps)"
    unfolding schema_steps_def by (intro does_Cons does_sql does_Nil)
  from assms obtain c1 c2 c3 c4 where
    s1: "all_steps schema_steps c = (True, c1)"
    and s2: "all_steps (map (\<lambda>(k, v). setMeta k v) (meta_pairs (g_now g) (metadata p))) c1 = (True, c2)"
    and s3: "pk_call c2 = (True, c3)"
    and s4: "all_steps (map (write_commit (g_zlib g)) (package_commits p)) c3 = (True, c4)"
    and s5: "all_steps [execSql sql_commit] c4 = (True, c')"
    unfolding package_writer_def all_steps_True(2) all_steps_True(1) [of pk_call] by blast
  have d1: "pk_db c1 = \<lparr>meta_table = Some fmempty, commit_table = Some fmempty\<rparr>"
    using doesD [OF sch s1]
    by (cases "pk_db c") (simp add: drop_commits_def drop_meta_def create_meta_def create_commits_def)
  have d2: "pk_db c2 = (pk_db c1)\<lparr>meta_table := Some (fold (\<lambda>(k, v). fmupd k v) (meta_pairs (g_now g) (metadata p)) fmempty)\<rparr>"
    using write_metas [OF s2] d1 by simp
  have d3: "pk_db c3 = pk_db c2" using pk_call_pair [OF s3] by simp
  obtain T where d4: "pk_db c4 = (pk_db c3)\<lparr>commit_table := Some T\<rparr>" "rows_for (g_zlib g) (package_commits p) T"
    using write_rows [OF s4, of fmempty "[]"] d3 d2 d1 by (auto simp: rows_for_def)
  have d5: "pk_db c' = pk_db c4" using s5 does_sql(3) unfolding does_def all_steps_True(1) by simp
  obtain k where "execSql Some c = (True, k)" using s1 unfolding schema_steps_def all_steps_True(1) by blast
  then have "pk_valid c" using execSql_True by blast
  then show ?thesis using d1 d2 d3 d4 d5 by (simp add: holds_package_def)
qed

section \<open>Reading what was written\<close>

definition readable :: "package_env \<Rightarrow> package_data \<Rightarrow> bool" where
  "readable g p \<longleftrightarrow>
     list_all (\<lambda>s. c_str s = s) [formatVersion (metadata p), rootHash (metadata p), sourceLevelKey (metadata p)] \<and>
     list_all (\<lambda>c. c_str (commitMessage c) = commitMessage c) (package_commits p) \<and>
     exportedAt (metadata p) < 2 ^ 63 \<and> 0 \<le> g_now g \<and> g_now g < 2 ^ 63 \<and> int (length (package_commits p)) < 2 ^ 63"

definition as_read :: "package_env \<Rightarrow> package_data \<Rightarrow> package_data" where
  "as_read g p =
     \<lparr>metadata = (metadata p)\<lparr>exportedAt := (if exportedAt (metadata p) > 0 then exportedAt (metadata p) else g_now g)\<rparr>,
      package_commits = sort_key commitIndex (package_commits p)\<rparr>"

lemma contiguous_from_iff: "contiguous_from i xs \<longleftrightarrow> xs = map (\<lambda>k. i + int k) [0..<length xs]"
proof (induction xs arbitrary: i)
  case (Cons x xs)
  have "map (\<lambda>k. i + int k) [0..<length (x # xs)] = i # map (\<lambda>k. (i + 1) + int k) [0..<length xs]"
    by (subst upt_conv_Cons) (simp_all add: map_Suc_upt [symmetric] comp_def del: upt_Suc map_Suc_upt)
  with Cons.IH show ?case by auto
qed simp

lemma reference_reason_empty:
  "reference_reason n cs = [] \<longleftrightarrow> list_all (\<lambda>c. isValidIndex n (parentIndex c) \<and> isValidIndex n (revertsIndex c)) cs"
  by (induction cs) auto

lemma validateData_iff:
  "validateData p \<longleftrightarrow> rootHash (metadata p) \<noteq> [] \<and> sourceLevelKey (metadata p) \<noteq> [] \<and> formatVersion (metadata p) \<noteq> [] \<and>
     sort (map commitIndex (package_commits p)) = map int [0..<length (package_commits p)] \<and>
     list_all (\<lambda>c. isValidIndex (length (package_commits p)) (parentIndex c) \<and>
       isValidIndex (length (package_commits p)) (revertsIndex c)) (package_commits p) \<and>
     isValidIndex (length (package_commits p)) (headIndex (metadata p))"
  by (auto simp: validateData_def validateDataReason_def Let_def reference_reason_empty contiguous_from_iff)

lemma map_sort_key: "map f (sort_key f xs) = sort (map f xs)"
  by (rule properties_for_sort [symmetric]) simp_all

lemma validate_as_read: "validateData (as_read g p) = validateData p"
  by (simp add: validateData_iff as_read_def map_sort_key sorted_sort_id list_all_iff)

lemma pk_call_no_fault [simp]: "io_faults (pk_disk c) = [] \<Longrightarrow> pk_call c = (True, c)"
  by (simp add: pk_call_def)

lemma bindText_no_fault [simp]:
  "io_faults (pk_disk c) = [] \<Longrightarrow> bindText s c = (\<not> isBlobFootprintTooLarge (length s), c)"
  by (simp add: bindText_def)

lemma getMeta_no_fault:
  assumes "io_faults (pk_disk c) = []" and "pk_valid c" and "meta_table (pk_db c) = Some m" and "\<not> isBlobFootprintTooLarge (length k)"
  shows "getMeta k c = (map_option c_str (fmlookup m k), c)"
  using assms by (simp add: getMeta_def)

lemma c_str_decimal [simp]: "c_str (int_to_string i) = int_to_string i"
proof -
  have "c \<in> set (nat_to_string n) \<Longrightarrow> (of_char c :: nat) \<noteq> 0" for c n
    using nat_to_string_digits [of n] by (auto simp: list_all_iff is_digit_def)
  then show ?thesis by (auto simp: c_str_def int_to_string_def takeWhile_eq_all_conv)
qed

lemma read_metadata_written:
  assumes "io_faults (pk_disk c) = []" and "pk_valid c" and "readable g p" and "validateData p"
    and "meta_table (pk_db c) = Some (fold (\<lambda>(k, v). fmupd k v) (meta_pairs (g_now g) (metadata p)) fmempty)"
  shows "read_metadata c = (Inr (metadata (as_read g p)), c)"
proof -
  let ?m = "metadata p" and ?at = "if exportedAt (metadata p) > 0 then exportedAt (metadata p) else g_now g"
  have t: "c_str (formatVersion ?m) = formatVersion ?m" "c_str (rootHash ?m) = rootHash ?m" "c_str (sourceLevelKey ?m) = sourceLevelKey ?m"
    using assms(3) by (simp_all add: readable_def)
  have at: "parseInt64 (int_to_string ?at) = Some ?at"
    unfolding parseInt64_def using assms(3) by (intro parse_signed_to_string) (auto simp: readable_def)
  have h: "parseInt64 (int_to_string i) = Some i" if "headIndex ?m = Some i" for i
    unfolding parseInt64_def using assms(3,4) that
    by (intro parse_signed_to_string) (auto simp: readable_def validateData_iff isValidIndex_def)
  have small: "\<not> isBlobFootprintTooLarge (length ''format_version'')" "\<not> isBlobFootprintTooLarge (length ''root_hash'')"
    "\<not> isBlobFootprintTooLarge (length ''source_level_key'')" "\<not> isBlobFootprintTooLarge (length ''exported_at'')"
    "\<not> isBlobFootprintTooLarge (length ''head_index'')"
    by (simp_all add: isBlobFootprintTooLarge_def kMaxBlobFootprintBytes_def)
  note get = small [THEN getMeta_no_fault [OF assms(1,2,5)]]
  show ?thesis
    using t at h
    by (cases "headIndex ?m")
      (simp_all add: read_metadata_def get meta_pairs_def value_or_def Let_def as_read_def)
qed

lemma read_rows_written:
  assumes "io_faults (pk_disk c) = []" and "zlib_ok (g_zlib g)"
    and "\<And>x. x \<in> set cs \<Longrightarrow> \<exists>stored. compressBlob (g_zlib g) (deltaBlob x) (- 1) = Some stored \<and> row x = row_of x stored"
    and "\<And>x. x \<in> set cs \<Longrightarrow> c_str (commitMessage x) = commitMessage x"
  shows "read_rows g (map (\<lambda>x. (commitIndex x, row x)) cs) c = (Inr cs, c)"
  using assms(3,4)
proof (induction cs)
  case (Cons x cs)
  then obtain stored where st: "compressBlob (g_zlib g) (deltaBlob x) (- 1) = Some stored" "row x = row_of x stored" by auto
  have "commit_of (commitIndex x) (row x) (deltaBlob x) = x"
    using Cons.prems(2) [of x] by (simp add: commit_of_def st(2) row_of_def)
  moreover have "read_rows g (map (\<lambda>x. (commitIndex x, row x)) cs) c = (Inr cs, c)" by (rule Cons.IH) (use Cons.prems in auto)
  ultimately show ?case
    using assms(1) st decompress_compress [OF assms(2) st(1)] compressBlob_nonempty [OF st(1)]
    by (simp add: row_of_def)
qed (simp add: assms(1))

lemma sorted_rows:
  assumes "rows_for z cs T"
  shows "sorted_list_of_fmap T = map (\<lambda>x. (commitIndex x, the (fmlookup T (commitIndex x)))) (sort_key commitIndex cs)"
proof -
  have "sorted_keys T = map commitIndex (sort_key commitIndex cs)"
    using assms by (intro sorted_distinct_set_unique) (auto simp: rows_for_def distinct_map)
  then show ?thesis by (simp add: sorted_list_of_fmap_keys comp_def)
qed

lemma read_package_written:
  assumes "io_faults (pk_disk c) = []" and "pk_valid c" and "readable g p" and "validateData p"
    and "zlib_ok (g_zlib g)" and "holds_package g p (pk_db c)"
  shows "read_package g c = (Inr (as_read g p), c)"
proof -
  from assms(6) obtain T where T: "commit_table (pk_db c) = Some T" "rows_for (g_zlib g) (package_commits p) T"
    by (auto simp: holds_package_def)
  have "read_rows g (sorted_list_of_fmap T) c = (Inr (sort_key commitIndex (package_commits p)), c)"
    unfolding sorted_rows [OF T(2)]
    by (rule read_rows_written [OF assms(1,5)]) (use T(2) assms(3) in \<open>force simp: rows_for_def readable_def list_all_iff\<close>)+
  then have "read_commits g c = (Inr (sort_key commitIndex (package_commits p)), c)"
    using assms(1,2) T(1) by (simp add: read_commits_def)
  moreover have "read_metadata c = (Inr (metadata (as_read g p)), c)"
    using assms(6) by (intro read_metadata_written [OF assms(1-4)]) (simp add: holds_package_def)
  ultimately show ?thesis by (simp add: read_package_def) (simp add: as_read_def)
qed

section \<open>Files\<close>

text \<open>The bytes of a written package, in either form.\<close>

definition package_file :: "package_env \<Rightarrow> package_data \<Rightarrow> string \<Rightarrow> bool" where
  "package_file g p bytes \<longleftrightarrow> validateData p \<and>
     (\<exists>old t. holds_package g p t \<and>
        (bytes = g_image g old t \<or> bytes = zip_pack (g_zip g) [(''package.gdge'', g_image g old t)]))"

lemma read_image:
  assumes "package_env_ok g" and "io_faults d = []" and "readable g p" and "validateData p" and "holds_package g p t"
    and "fmlookup (contents d) path = Some (g_image g old t)"
  shows "readGdgePackageFromSqlitePath g path cleanup d =
    (Inr (as_read g p), if cleanup = [] then d else on_files (fmdrop cleanup) d)"
proof -
  let ?c = "\<lparr>pk_db = t, pk_saved = None, pk_valid = True, pk_disk = d\<rparr>"
  have "open_readonly g path d = (Some ?c, d)"
    using assms by (simp add: open_readonly_def readBinary_def package_env_ok_def)
  moreover have "read_package g ?c = (Inr (as_read g p), ?c)"
    using assms by (intro read_package_written) (simp_all add: package_env_ok_def)
  moreover have "validateDataReason (as_read g p) = []"
    using validate_as_read [of g p] assms(4) by (simp add: validateData_def)
  ultimately show ?thesis using assms(2) by (simp add: readGdgePackageFromSqlitePath_def checked_def remove_file_def)
qed

lemma read_package_file:
  assumes "package_env_ok g" and "io_faults d = []" and "readable g p"
    and "package_file g p bytes" and "fmlookup (contents d) path = Some bytes"
  shows "\<exists>d'. readGdgePackage g path d = (Inr (as_read g p), d') \<and> io_faults d' = [] \<and> keeps_files {extraction_path g path} d d'"
proof -
  from assms(4) obtain old t where v: "validateData p" and h: "holds_package g p t"
    and b: "bytes = g_image g old t \<or> bytes = zip_pack (g_zip g) [(''package.gdge'', g_image g old t)]"
    by (auto simp: package_file_def)
  have ex: "file_exists path d = (True, d)" "readBinary path d = (Some bytes, d)"
    using assms(2,5) by (simp_all add: file_exists_def readBinary_def)
  from b show ?thesis
  proof
    assume img: "bytes = g_image g old t"
    then have "peekDbFileForm path d = (Sqlite, d)"
      using ex assms(1) sniff_sqlite by (simp add: peekDbFileForm_def package_env_ok_def)
    with ex read_image [OF assms(1-3) v h] assms(2,5) img show ?thesis by (simp add: readGdgePackage_def)
  next
    let ?t = "extraction_path g path"
    assume zip: "bytes = zip_pack (g_zip g) [(''package.gdge'', g_image g old t)]"
    have z: "zip_ok (g_zip g)" using assms(1) by (simp add: package_env_ok_def)
    then have "peekDbFileForm path d = (Zip, d)" using ex zip sniff_zip by (simp add: peekDbFileForm_def)
    moreover have "extractZipToFile (g_zip g) path ?t ''package.gdge'' d = (Inr (), on_files (fmupd ?t (g_image g old t)) d)"
      using assms(5) zip by (intro extractZip_no_fault [OF z assms(2)]) simp_all
    moreover have "?t \<noteq> []" by (simp add: extraction_path_def path_join_def)
    ultimately show ?thesis
      using ex read_image [OF assms(1) _ assms(3) v h, of "on_files (fmupd ?t (g_image g old t)) d" ?t old ?t] assms(2)
      by (simp add: readGdgePackage_def Let_def keeps_files_def)
  qed
qed

section \<open>Writing, whatever fails\<close>

lemma writeSqlite_effect:
  assumes "writeGdgePackageSqlite g out p d = (b, d')"
  shows "keeps_files {out} d d' \<and>
    (b \<longrightarrow> validateData p \<and> (\<exists>old t. fmlookup (contents d') out = Some (g_image g old t) \<and> holds_package g p t))"
proof (cases "validateData p")
  case True
  obtain oc d1 where o: "open_package g out d = (oc, d1)" by fastforce
  show ?thesis
  proof (cases oc)
    case None
    with o have "contents d1 = contents d" by (auto simp: open_package_def Let_def split: prod.splits if_splits dest: io_tick_pair)
    with assms True o None show ?thesis by (simp add: writeGdgePackageSqlite_def keeps_files_def)
  next
    case (Some c)
    have c: "contents (pk_disk c) = fmupd out (get_or_empty (contents d) out) (contents d)"
      using o Some by (auto simp: open_package_def Let_def split: prod.splits if_splits dest: io_tick_pair)
    obtain ok c1 where w: "package_writer g p c = (ok, c1)" by fastforce
    have q: "contents (pk_disk c1) = contents (pk_disk c)" using quiet_writer [of g p] w unfolding quiet_def by (metis snd_conv)
    show ?thesis
    proof (cases ok)
      case False
      with assms True o Some w q c show ?thesis
        by (auto simp: writeGdgePackageSqlite_def keeps_files_def split: if_splits)
    next
      case t: True
      with writer_True [of g p c c1] w have "holds_package g p (pk_db c1)" by simp
      moreover from assms True o Some w t have
        "d' = on_files (fmupd out (g_image g (get_or_empty (contents d) out) (pk_db c1))) (pk_disk c1)"
        by (simp add: writeGdgePackageSqlite_def)
      ultimately show ?thesis using True q c by (auto simp: keeps_files_def)
    qed
  qed
qed (use assms in \<open>simp add: writeGdgePackageSqlite_def\<close>)

definition package_names :: "string \<Rightarrow> string set" where
  "package_names out = {out, out @ ''.tmp'', out @ ''.sqlite-tmp''}"

definition wrote_package :: "package_env \<Rightarrow> string \<Rightarrow> package_data \<Rightarrow> disk \<Rightarrow> string + unit \<Rightarrow> disk \<Rightarrow> bool" where
  "wrote_package g out p d res d' \<longleftrightarrow> keeps_files (package_names out) d d' \<and>
     (case res of
        Inl err \<Rightarrow> fmlookup (contents d') out = fmlookup (contents d) out
      | Inr _ \<Rightarrow> \<exists>bytes. fmlookup (contents d') out = Some bytes \<and> package_file g p bytes)"

lemma wrote_error:
  "keeps_files S d d' \<Longrightarrow> S \<subseteq> package_names out - {out} \<Longrightarrow> wrote_package g out p d (Inl err) d'"
  by (auto simp: wrote_package_def keeps_files_def)

lemma write_plain_effect:
  assumes "write_plain g out p d = (res, d')"
  shows "wrote_package g out p d res d'"
proof -
  let ?t = "out @ ''.tmp''" and ?S = "{out @ ''.tmp''}"
  obtain b d1 where w: "writeGdgePackageSqlite g ?t p d = (b, d1)" by fastforce
  obtain b2 d2 where r: "replaceFileAtomic ?t out d1 = (b2, d2)" by fastforce
  note we = writeSqlite_effect [OF w] and re = replaceFile_effect [OF r]
  have rem: "keeps_files ?S d x \<Longrightarrow> keeps_files ?S d (remove_file ?t x)" for x
    using keeps_files_trans keeps_remove by blast
  have sub: "?S \<subseteq> package_names out - {out}" by (simp add: package_names_def)
  consider "\<not> b" | "b" "\<not> b2" | "b" "b2" by blast
  then show ?thesis
  proof cases
    case 1
    then have "\<exists>err. res = Inl err" "d' = remove_file ?t d1" using assms w by (auto simp: write_plain_def Let_def)
    then show ?thesis using wrote_error [OF rem sub] we by auto
  next
    case 2
    then have e: "\<exists>err. res = Inl err" "d' = remove_file ?t d2" using assms w r by (auto simp: write_plain_def Let_def)
    have "keeps_files ?S d d2" using we re 2 by (simp add: keeps_files_def)
    then show ?thesis using wrote_error [OF rem sub] e by auto
  next
    case 3
    then have e: "res = Inr ()" "d' = d2" using assms w r by (simp_all add: write_plain_def Let_def)
    have "keeps_files (package_names out) d d2"
      using keeps_files_trans [OF keeps_files_mono [of ?S d d1] keeps_replace [of ?t _ out d1]] we r by (auto simp: package_names_def)
    moreover have "\<exists>bytes. fmlookup (contents d2) out = Some bytes \<and> package_file g p bytes"
      using we re 3 by (auto simp: package_file_def)
    ultimately show ?thesis using e by (simp add: wrote_package_def)
  qed
qed

lemma write_zipped_effect:
  assumes "write_zipped g out p d = (res, d')"
  shows "wrote_package g out p d res d'"
proof -
  let ?t = "out @ ''.sqlite-tmp''" and ?S = "{out @ ''.sqlite-tmp''}" and ?N = "package_names out"
  obtain b d1 where w: "writeGdgePackageSqlite g ?t p d = (b, d1)" by fastforce
  obtain rb d2 where r: "readBinary ?t d1 = (rb, d2)" by fastforce
  note we = writeSqlite_effect [OF w]
  have k2: "keeps_files ?S d d2" "contents d2 = contents d1"
    using we r keeps_read [of "{}" d1 ?t] by (auto simp: keeps_files_def intro: fmap_ext)
  have rem: "keeps_files T d x \<Longrightarrow> ?t \<in> T \<Longrightarrow> keeps_files T d (remove_file ?t x)" for T x
    using keeps_files_trans keeps_remove by blast
  have sub: "?S \<subseteq> package_names out - {out}" by (simp add: package_names_def)
  consider "\<not> b" | "b" "rb = None" | bytes where "b" "rb = Some bytes" by fast
  then show ?thesis
  proof cases
    case 1
    then have "\<exists>err. res = Inl err" "d' = d1" using assms w by (auto simp: write_zipped_def Let_def)
    then show ?thesis using wrote_error [OF _ sub] we by auto
  next
    case 2
    then have "\<exists>err. res = Inl err" "d' = remove_file ?t d2" using assms w r by (auto simp: write_zipped_def Let_def)
    then show ?thesis using wrote_error [OF rem sub] k2 by auto
  next
    case 3
    obtain z d3 where z: "writeZipAtomic (g_zip g) out ''package.gdge'' bytes d2 = (z, d3)" by fastforce
    note ze = writeZipAtomic_effect [OF z]
    have e: "res = (if z then Inr () else Inl ''failed to write zip package'')" "d' = remove_file ?t d3"
      using assms w r z 3 by (simp_all add: write_zipped_def Let_def)
    have k3: "keeps_files ?N d d3"
      using keeps_files_trans [OF keeps_files_mono [OF k2(1)] keeps_files_mono [OF conjunct1 [OF ze]]] by (auto simp: package_names_def)
    have out: "fmlookup (contents d') out = fmlookup (contents d3) out"
      using keeps_remove [of ?t ?S d3] e(2) by (simp add: keeps_files_def)
    have old: "fmlookup (contents d2) out = fmlookup (contents d) out" using k2(1) by (simp add: keeps_files_def)
    have "fmlookup (contents d1) ?t = Some bytes"
      using r 3 by (auto simp: readBinary_def dest: io_tick_pair split: prod.splits if_splits)
    with we 3 have "package_file g p (zip_pack (g_zip g) [(''package.gdge'', bytes)])" by (auto simp: package_file_def)
    with ze e out old rem [OF k3] show ?thesis by (auto simp: wrote_package_def package_names_def)
  qed
qed

lemma writeGdgePackage_effect: "writeGdgePackage g out p d = (res, d') \<Longrightarrow> wrote_package g out p d res d'"
  using write_plain_effect write_zipped_effect by (simp add: writeGdgePackage_def split: if_splits)

section \<open>Writing when nothing fails\<close>

text \<open>What SQLite and zlib accept.\<close>

definition storable :: "package_env \<Rightarrow> package_data \<Rightarrow> bool" where
  "storable g p \<longleftrightarrow>
     list_all (\<lambda>s. \<not> isBlobFootprintTooLarge (length s)) (map snd (meta_pairs (g_now g) (metadata p))) \<and>
     list_all (\<lambda>c. \<not> isBlobFootprintTooLarge (length (commitMessage c)) \<and>
       (case compressBlob (g_zlib g) (deltaBlob c) (- 1) of None \<Rightarrow> False
        | Some s \<Rightarrow> \<not> isBlobFootprintTooLarge (length s))) (package_commits p)"

lemma execSql_no_fault:
  "io_faults (pk_disk c) = [] \<Longrightarrow> pk_valid c \<Longrightarrow> execSql s c = (case s c of None \<Rightarrow> (False, c) | Some c' \<Rightarrow> (True, c'))"
  by (simp add: execSql_def)

lemma setMeta_no_fault:
  assumes "io_faults (pk_disk c) = []" and "pk_valid c" and "meta_table (pk_db c) = Some m"
    and "\<not> isBlobFootprintTooLarge (length k)" and "\<not> isBlobFootprintTooLarge (length v)"
  shows "setMeta k v c = (True, c\<lparr>pk_db := (pk_db c)\<lparr>meta_table := Some (fmupd k v m)\<rparr>\<rparr>)"
  using assms by (simp add: setMeta_def execSql_no_fault on_tables_def upsert_meta_def)

lemma setMetas_no_fault:
  assumes "io_faults (pk_disk c) = []" and "pk_valid c" and "meta_table (pk_db c) = Some m"
    and "list_all (\<lambda>(k, v). \<not> isBlobFootprintTooLarge (length k) \<and> \<not> isBlobFootprintTooLarge (length v)) kvs"
  shows "\<exists>m'. all_steps (map (\<lambda>(k, v). setMeta k v) kvs) c = (True, c\<lparr>pk_db := (pk_db c)\<lparr>meta_table := Some m'\<rparr>\<rparr>)"
  using assms
proof (induction kvs arbitrary: c m)
  case (Cons kv kvs)
  obtain k v where kv: "kv = (k, v)" by fastforce
  let ?c = "c\<lparr>pk_db := (pk_db c)\<lparr>meta_table := Some (fmupd k v m)\<rparr>\<rparr>"
  have "setMeta k v c = (True, ?c)" using Cons.prems kv by (intro setMeta_no_fault) simp_all
  with Cons.IH [of ?c "fmupd k v m"] Cons.prems kv show ?case by simp
qed (simp, metis package_conn.surjective package_conn.update_convs(1) package_db.surjective package_db.update_convs(1))

lemma write_commits_no_fault:
  assumes "io_faults (pk_disk c) = []" and "pk_valid c" and "commit_table (pk_db c) = Some T"
    and "distinct (map commitIndex cs)" and "fmdom' T \<inter> commitIndex ` set cs = {}"
    and "list_all (\<lambda>c. \<not> isBlobFootprintTooLarge (length (commitMessage c)) \<and>
       (case compressBlob z (deltaBlob c) (- 1) of None \<Rightarrow> False | Some s \<Rightarrow> \<not> isBlobFootprintTooLarge (length s))) cs"
  shows "\<exists>T'. all_steps (map (write_commit z) cs) c = (True, c\<lparr>pk_db := (pk_db c)\<lparr>commit_table := Some T'\<rparr>\<rparr>)"
  using assms
proof (induction cs arbitrary: c T)
  case Nil
  then show ?case by (intro exI [of _ T]) simp
next
  case (Cons x cs)
  from Cons.prems obtain stored where st: "compressBlob z (deltaBlob x) (- 1) = Some stored" "\<not> isBlobFootprintTooLarge (length stored)"
    by (auto split: option.splits)
  have new: "fmlookup T (commitIndex x) = None" using Cons.prems(5) by (auto simp: fmdom'_notD)
  let ?T = "fmupd (commitIndex x) (row_of x stored) T"
  let ?c = "c\<lparr>pk_db := (pk_db c)\<lparr>commit_table := Some ?T\<rparr>\<rparr>"
  have w: "write_commit z x c = (True, ?c)"
    using Cons.prems st new by (simp add: write_commit_def execSql_no_fault on_tables_def insert_row_def)
  have "\<exists>T'. all_steps (map (write_commit z) cs) ?c = (True, ?c\<lparr>pk_db := (pk_db ?c)\<lparr>commit_table := Some T'\<rparr>\<rparr>)"
  proof (rule Cons.IH)
    show "fmdom' (the (commit_table (pk_db ?c))) \<inter> commitIndex ` set cs = {}" using Cons.prems(4,5) by force
  qed (use Cons.prems in auto)
  with w show ?case by simp
qed

lemma writer_no_fault:
  assumes "io_faults (pk_disk c) = []" and "pk_valid c" and "pk_saved c = None" and "validateData p" and "storable g p"
  shows "\<exists>c'. package_writer g p c = (True, c') \<and> io_faults (pk_disk c') = [] \<and> pk_saved c' = None"
proof -
  let ?c1 = "c\<lparr>pk_saved := Some (pk_db c), pk_db := \<lparr>meta_table = Some fmempty, commit_table = Some fmempty\<rparr>\<rparr>"
  let ?kvs = "meta_pairs (g_now g) (metadata p)"
  have s1: "all_steps schema_steps c = (True, ?c1)"
    using assms(1-3) by (cases "pk_db c") (simp add: schema_steps_def execSql_no_fault sql_begin_def on_tables_def drop_commits_def
        drop_meta_def create_meta_def create_commits_def)
  have "list_all (\<lambda>(k, v). \<not> isBlobFootprintTooLarge (length k) \<and> \<not> isBlobFootprintTooLarge (length v)) ?kvs"
    using assms(5) by (auto simp: storable_def meta_pairs_def isBlobFootprintTooLarge_def kMaxBlobFootprintBytes_def split: option.splits)
  from setMetas_no_fault [OF _ _ _ this, of ?c1 fmempty] obtain m where
    s2: "all_steps (map (\<lambda>(k, v). setMeta k v) ?kvs) ?c1 = (True, ?c1\<lparr>pk_db := (pk_db ?c1)\<lparr>meta_table := Some m\<rparr>\<rparr>)"
    using assms(1,2) by auto
  let ?c2 = "?c1\<lparr>pk_db := (pk_db ?c1)\<lparr>meta_table := Some m\<rparr>\<rparr>"
  have "distinct (sort (map commitIndex (package_commits p)))"
    using assms(4) by (simp add: validateData_iff distinct_map inj_on_def del: distinct_sort)
  then have "distinct (map commitIndex (package_commits p))" by simp
  from write_commits_no_fault [OF _ _ _ this, of ?c2 fmempty "g_zlib g"] obtain T where
    s4: "all_steps (map (write_commit (g_zlib g)) (package_commits p)) ?c2 = (True, ?c2\<lparr>pk_db := (pk_db ?c2)\<lparr>commit_table := Some T\<rparr>\<rparr>)"
    using assms(1,2,5) by (auto simp: storable_def)
  let ?c4 = "?c2\<lparr>pk_db := (pk_db ?c2)\<lparr>commit_table := Some T\<rparr>\<rparr>"
  have s5: "all_steps [execSql sql_commit] ?c4 = (True, ?c4\<lparr>pk_saved := None\<rparr>)"
    using assms(1,2) by (simp add: execSql_no_fault sql_commit_def)
  have s3: "pk_call ?c2 = (True, ?c2)" using assms(1) by simp
  have "package_writer g p c = (True, ?c4\<lparr>pk_saved := None\<rparr>)"
    unfolding package_writer_def all_steps_True(2) all_steps_True(1) [of pk_call] using s1 s2 s3 s4 s5 by blast
  then show ?thesis using assms(1) by simp
qed

lemma writeSqlite_no_fault:
  assumes "validateData p" and "storable g p" and "io_faults d = []" and "g_load g (get_or_empty (contents d) out) \<noteq> None"
  shows "\<exists>d'. writeGdgePackageSqlite g out p d = (True, d') \<and> io_faults d' = []"
proof -
  obtain t where t: "g_load g (get_or_empty (contents d) out) = Some t" using assms(4) by blast
  let ?c = "\<lparr>pk_db = t, pk_saved = None, pk_valid = True, pk_disk = on_files (fmupd out (get_or_empty (contents d) out)) d\<rparr>"
  from writer_no_fault [of ?c p g] assms(1-3) obtain c' where "package_writer g p ?c = (True, c')" "io_faults (pk_disk c') = []" by auto
  then show ?thesis using assms(1,3) t by (simp add: writeGdgePackageSqlite_def open_package_def)
qed

lemma write_no_fault:
  assumes "package_env_ok g" and "validateData p" and "storable g p" and "io_faults d = []"
    and "list_all (\<lambda>t. g_load g (get_or_empty (contents d) t) \<noteq> None) [out @ ''.tmp'', out @ ''.sqlite-tmp'']"
  shows "\<exists>d1. writeGdgePackage g out p d = (Inr (), d1) \<and> io_faults d1 = []"
proof (cases "g_compress g")
  case False
  let ?t = "out @ ''.tmp''"
  from writeSqlite_no_fault [OF assms(2,3,4), of ?t] assms(5) obtain d1 where
    w: "writeGdgePackageSqlite g ?t p d = (True, d1)" "io_faults d1 = []" by auto
  from writeSqlite_effect [OF w(1)] obtain b where "fmlookup (contents d1) ?t = Some b" by auto
  with w False show ?thesis by (simp add: writeGdgePackage_def write_plain_def Let_def replaceFileAtomic_def)
next
  case True
  let ?t = "out @ ''.sqlite-tmp''"
  from writeSqlite_no_fault [OF assms(2,3,4), of ?t] assms(5) obtain d1 where
    w: "writeGdgePackageSqlite g ?t p d = (True, d1)" "io_faults d1 = []" by auto
  from writeSqlite_effect [OF w(1)] obtain b where "fmlookup (contents d1) ?t = Some b" by auto
  with w True show ?thesis
    by (simp add: writeGdgePackage_def write_zipped_def Let_def replaceFileAtomic_def readBinary_def writeZipAtomic_def
        writeBinary_def remove_file_def)
qed

end
