(* ===== verification/Package_Graph.thy ===== *)
theory Package_Graph
  imports Gdge_Import Package_Spec Commit_Log
begin

text \<open>
  The commits of a package as a log: \<open>src/service/PackageReconstruction.cpp\<close> computes exactly
  the state that the log gives to the HEAD, and \<open>src/store/GdgeExport.cpp\<close> renumbers a level's
  commits into a package with the same states.
\<close>

section \<open>Walking a package\<close>

definition package_view :: "'j service_env \<Rightarrow> package_data \<Rightarrow> log_view" where
  "package_view e p i =
     (case fmlookup (by_index (package_commits p)) i of
        None \<Rightarrow> None
      | Some c \<Rightarrow> map_option (\<lambda>\<delta>. (parentIndex c, \<delta>)) (parseDelta (e_json e) (deltaBlob c)))"

fun linked :: "(int, package_commit) fmap \<Rightarrow> int option \<Rightarrow> package_commit list \<Rightarrow> bool" where
  "linked m cur [] \<longleftrightarrow> cur = None"
| "linked m cur (r # rs) \<longleftrightarrow>
     cur = Some (commitIndex r) \<and> fmlookup m (commitIndex r) = Some r \<and> linked m (parentIndex r) rs"

lemma by_index_invariant: "fmlookup (by_index cs) i = Some c \<Longrightarrow> commitIndex c = i \<and> c \<in> set cs"
proof -
  have "fmlookup (fold (\<lambda>c. fmupd (commitIndex c) c) cs m) i = Some c \<Longrightarrow>
    (\<And>i c. fmlookup m i = Some c \<Longrightarrow> commitIndex c = i \<and> c \<in> S) \<Longrightarrow> commitIndex c = i \<and> c \<in> S \<union> set cs" for m S
  proof (induction cs arbitrary: m S)
    case (Cons x cs)
    have "commitIndex c = i \<and> c \<in> insert x S \<union> set cs"
      by (rule Cons.IH [of "fmupd (commitIndex x) x m" "insert x S"]) (use Cons.prems in \<open>auto split: if_splits\<close>)
    then show ?case by simp
  qed auto
  from this [of fmempty "{}"] show "fmlookup (by_index cs) i = Some c \<Longrightarrow> ?thesis" by (simp add: by_index_def)
qed

lemma walk_linked:
  "walk_package m seen cur chain = Some out \<Longrightarrow> (\<And>i c. fmlookup m i = Some c \<Longrightarrow> commitIndex c = i) \<Longrightarrow>
     \<exists>path. out = chain @ path \<and> linked m cur path"
proof (induction m seen cur chain rule: walk_package.induct)
  case (2 m seen cur chain)
  then obtain row where row: "fmlookup m cur = Some row" "cur \<notin> set seen"
    "walk_package m (cur # seen) (parentIndex row) (chain @ [row]) = Some out" by (auto split: option.splits if_splits)
  from 2(1) [OF row 2(3)] obtain path where "out = chain @ row # path" "linked m (parentIndex row) path" by auto
  then show ?case using row 2(3) [OF row(1)] by (intro exI [of _ "row # path"]) simp
qed auto

lemma linked_det: "linked m cur p \<Longrightarrow> linked m cur q \<Longrightarrow> p = q"
proof (induction p arbitrary: cur q)
  case Nil
  then show ?case by (cases q) auto
next
  case (Cons r rs)
  then show ?case by (cases q) auto
qed

lemma linked_suffix: "linked m cur (p @ r # q) \<Longrightarrow> linked m (Some (commitIndex r)) (r # q)"
  by (induction p arbitrary: cur) auto

lemma linked_distinct: "linked m cur p \<Longrightarrow> distinct (map commitIndex p)"
proof (induction p arbitrary: cur)
  case (Cons r rs)
  have "commitIndex r \<noteq> commitIndex x" if x: "x \<in> set rs" for x
  proof
    assume same: "commitIndex r = commitIndex x"
    obtain as bs where "rs = as @ x # bs" using split_list [OF x] by blast
    with linked_suffix [of m cur "r # as" x bs] Cons.prems have "linked m (Some (commitIndex r)) (x # bs)" by (simp add: same)
    moreover have "linked m (Some (commitIndex r)) (r # rs)" using Cons.prems by simp
    ultimately have "x # bs = r # rs" by (rule linked_det)
    with \<open>rs = as @ x # bs\<close> show False by (metis append_Cons impossible_Cons length_append not_add_less2 list.sel(3) lessI length_Cons add.commute)
  qed
  with Cons show ?case by auto
qed simp

lemma linked_walk:
  "linked m cur p \<Longrightarrow> commitIndex ` set p \<inter> set seen = {} \<Longrightarrow> distinct (map commitIndex p) \<Longrightarrow>
     walk_package m seen cur chain = Some (chain @ p)"
proof (induction p arbitrary: cur seen chain)
  case (Cons r rs)
  then have "commitIndex ` set rs \<inter> set (commitIndex r # seen) = {}" by auto
  with Cons show ?case by simp
qed simp

lemma walk_package_iff:
  "walk_package (by_index cs) [] cur [] = Some p \<longleftrightarrow> linked (by_index cs) cur p"
proof
  assume "walk_package (by_index cs) [] cur [] = Some p"
  with walk_linked [of "by_index cs"] show "linked (by_index cs) cur p" using by_index_invariant by fastforce
next
  assume "linked (by_index cs) cur p"
  with linked_walk [of "by_index cs" cur p "[]" "[]"] linked_distinct show "walk_package (by_index cs) [] cur [] = Some p" by fastforce
qed

lemma linked_set: "linked (by_index cs) cur p \<Longrightarrow> set p \<subseteq> set cs"
  by (induction p arbitrary: cur) (auto dest: by_index_invariant)

section \<open>Reconstruction is the meaning of the HEAD\<close>

lemma replay_append:
  "replay_package j (xs @ ys) s = Option.bind (replay_package j xs s) (replay_package j ys)"
  by (induction xs arbitrary: s) (auto split: option.split)

lemma linked_history:
  "linked (by_index (package_commits p)) (Some i) path \<Longrightarrow> replay_package (e_json e) (rev path) empty_state = Some s \<Longrightarrow>
     history (package_view e p) i s"
proof (induction path arbitrary: i s)
  case (Cons r rs)
  then obtain b \<delta> where b: "replay_package (e_json e) (rev rs) empty_state = Some b" and d: "parseDelta (e_json e) (deltaBlob r) = Some \<delta>"
    and s: "s = fst (apply_delta b \<delta>)" by (auto simp: replay_append bind_eq_Some_conv split: option.splits)
  have v: "package_view e p i = Some (parentIndex r, \<delta>)" using Cons.prems(1) d by (simp add: package_view_def)
  show ?case
  proof (cases "parentIndex r")
    case None
    then have "rs = []" using Cons.prems(1) by (cases rs) auto
    with b s v None show ?thesis by (auto intro: history.root)
  next
    case (Some q)
    then have "history (package_view e p) q b" using Cons.IH [OF _ b] Cons.prems(1) by simp
    with s v Some show ?thesis by (auto intro: history.child)
  qed
qed simp

lemma view_row:
  "package_view e p i = Some (q, \<delta>) \<Longrightarrow> \<exists>r. fmlookup (by_index (package_commits p)) i = Some r \<and> commitIndex r = i
     \<and> parentIndex r = q \<and> parseDelta (e_json e) (deltaBlob r) = Some \<delta>"
  using by_index_invariant by (fastforce simp: package_view_def split: option.splits)

lemma history_linked:
  "history (package_view e p) i s \<Longrightarrow>
     \<exists>path. linked (by_index (package_commits p)) (Some i) path \<and> replay_package (e_json e) (rev path) empty_state = Some s"
proof (induction rule: history.induct)
  case (root i \<delta>)
  with view_row [OF root] obtain r where "fmlookup (by_index (package_commits p)) i = Some r" "commitIndex r = i"
    "parentIndex r = None" "parseDelta (e_json e) (deltaBlob r) = Some \<delta>" by blast
  then show ?case by (intro exI [of _ "[r]"]) simp
next
  case (child i q \<delta> st)
  from view_row [OF child(1)] obtain r where "fmlookup (by_index (package_commits p)) i = Some r" "commitIndex r = i"
    "parentIndex r = Some q" "parseDelta (e_json e) (deltaBlob r) = Some \<delta>" by blast
  moreover from child obtain path where "linked (by_index (package_commits p)) (Some q) path"
    "replay_package (e_json e) (rev path) empty_state = Some st" by blast
  ultimately show ?case by (intro exI [of _ "r # path"]) (simp add: replay_append)
qed

lemma reconstructPackageHead_iff:
  "reconstructPackageHead e p = Some s \<longleftrightarrow>
     (\<exists>h. headIndex (metadata p) = Some h \<and> history (package_view e p) h s)"
proof
  assume "reconstructPackageHead e p = Some s"
  then show "\<exists>h. headIndex (metadata p) = Some h \<and> history (package_view e p) h s"
    using walk_package_iff linked_history by (fastforce simp: reconstructPackageHead_def split: option.splits)
next
  assume "\<exists>h. headIndex (metadata p) = Some h \<and> history (package_view e p) h s"
  then obtain h path where "headIndex (metadata p) = Some h" "linked (by_index (package_commits p)) (Some h) path"
    "replay_package (e_json e) (rev path) empty_state = Some s" using history_linked by blast
  then show "reconstructPackageHead e p = Some s" by (simp add: reconstructPackageHead_def walk_package_iff [symmetric])
qed

lemma reconstructPackageHead_keyed: "reconstructPackageHead e p = Some s \<Longrightarrow> keyed s"
  using reconstructPackageHead_iff history_keyed by blast

text \<open>A set of commits that no chain of parents leaves and that has no root is never walked to an end.\<close>

lemma closed_not_linked:
  assumes "\<And>i. i \<in> S \<Longrightarrow> \<exists>c q. fmlookup m i = Some c \<and> parentIndex c = Some q \<and> q \<in> S"
  shows "linked m cur p \<Longrightarrow> cur = Some i \<Longrightarrow> i \<notin> S"
proof (induction p arbitrary: cur i)
  case (Cons r rs)
  show ?case
  proof
    assume "i \<in> S"
    with assms obtain q where "parentIndex r = Some q" "q \<in> S" using Cons.prems by fastforce
    with Cons show False by fastforce
  qed
qed simp

section \<open>Export\<close>

lemma index_fold_other:
  "j \<notin> row_id ` set xs \<Longrightarrow> fmlookup (fold (\<lambda>(i, r). fmupd (row_id r) (int i)) (List.enumerate n xs) m) j = fmlookup m j"
  by (induction xs arbitrary: n m) auto

lemma index_fold:
  "distinct (map row_id xs) \<Longrightarrow> k < length xs \<Longrightarrow>
     fmlookup (fold (\<lambda>(i, r). fmupd (row_id r) (int i)) (List.enumerate n xs) m) (row_id (xs ! k)) = Some (int (n + k))"
proof (induction xs arbitrary: n k m)
  case (Cons x xs)
  show ?case
  proof (cases k)
    case 0
    with Cons.prems show ?thesis by (simp add: index_fold_other)
  next
    case (Suc l)
    with Cons.prems Cons.IH [of l "Suc n"] show ?thesis by simp
  qed
qed simp

lemma index_by_id_nth:
  "distinct (map row_id rows) \<Longrightarrow> k < length rows \<Longrightarrow> fmlookup (index_by_id rows) (row_id (rev rows ! k)) = Some (int k)"
  using index_fold [of "rev rows" k 0] by (simp add: index_by_id_def rev_map [symmetric])

lemma index_by_id_Some:
  assumes "distinct (map row_id rows)" and "fmlookup (index_by_id rows) i = Some x"
  shows "\<exists>k < length rows. x = int k \<and> row_id (rev rows ! k) = i"
proof -
  have "i \<in> row_id ` set rows"
    using assms(2) index_fold_other [of i "rev rows" 0 fmempty] by (cases "i \<in> row_id ` set rows") (simp_all add: index_by_id_def)
  then obtain r where "r \<in> set (rev rows)" "row_id r = i" by auto
  then obtain k where "k < length rows" "row_id (rev rows ! k) = i" by (metis in_set_conv_nth length_rev)
  with index_by_id_nth [OF assms(1)] assms(2) show ?thesis by force
qed

lemma export_commits_nth:
  "export_commits ix (List.enumerate n xs) = Inr cs \<Longrightarrow>
     length cs = length xs \<and> (\<forall>k < length xs. export_commit ix (n + k) (xs ! k) = Inr (cs ! k))"
proof (induction xs arbitrary: n cs)
  case (Cons x xs)
  then obtain c ds where c: "export_commit ix n x = Inr c" "export_commits ix (List.enumerate (Suc n) xs) = Inr ds" "cs = c # ds"
    by (auto split: sum.splits)
  from Cons.IH [OF c(2)] c show ?case by (auto simp: nth_Cons split: nat.split)
qed simp

text \<open>What an exported package holds: the rows from the oldest, references renumbered.\<close>

definition exported :: "commit_row list \<Rightarrow> (commit_id, int) fmap \<Rightarrow> package_commit list \<Rightarrow> bool" where
  "exported olds ix cs \<longleftrightarrow> length cs = length olds \<and>
     (\<forall>k < length olds. commitIndex (cs ! k) = int k \<and> deltaBlob (cs ! k) = row_delta (olds ! k) \<and>
        commitMessage (cs ! k) = row_message (olds ! k) \<and>
        export_reference ix ''parent'' (row_parent (olds ! k)) = Inr (parentIndex (cs ! k)) \<and>
        export_reference ix ''reverts'' (row_reverts (olds ! k)) = Inr (revertsIndex (cs ! k)))"

lemma export_reference_Inr:
  "export_reference ix w r = Inr q \<longleftrightarrow> (case r of None \<Rightarrow> q = None | Some i \<Rightarrow> q = fmlookup ix i \<and> q \<noteq> None)"
  by (auto simp: export_reference_def split: option.splits)

lemma build_Inr:
  assumes "buildGdgePackageFromCommits lk head hash rows = Inr p"
  shows "exported (rev rows) (index_by_id rows) (package_commits p) \<and>
    (\<exists>h. fmlookup (index_by_id rows) head = Some h \<and>
       metadata p = \<lparr>formatVersion = ''1'', rootHash = hash, headIndex = Some h, sourceLevelKey = lk, exportedAt = 0\<rparr>)"
proof -
  from assms obtain cs h where cs: "export_commits (index_by_id rows) (List.enumerate 0 (rev rows)) = Inr cs"
    and h: "fmlookup (index_by_id rows) head = Some h"
    and p: "p = \<lparr>metadata = \<lparr>formatVersion = ''1'', rootHash = hash, headIndex = Some h, sourceLevelKey = lk, exportedAt = 0\<rparr>,
      package_commits = cs\<rparr>"
    by (auto simp: buildGdgePackageFromCommits_def Let_def split: sum.splits option.splits)
  have one: "export_commit ix k r = Inr c \<Longrightarrow> commitIndex c = int k \<and> deltaBlob c = row_delta r \<and> commitMessage c = row_message r \<and>
      export_reference ix ''parent'' (row_parent r) = Inr (parentIndex c) \<and>
      export_reference ix ''reverts'' (row_reverts r) = Inr (revertsIndex c)" for ix k r c
    by (auto simp: export_commit_def split: sum.splits)
  have "exported (rev rows) (index_by_id rows) cs"
    unfolding exported_def
  proof (intro conjI allI impI)
    show "length cs = length (rev rows)" using export_commits_nth [OF cs] by simp
    fix k assume "k < length (rev rows)"
    then have "export_commit (index_by_id rows) k (rev rows ! k) = Inr (cs ! k)" using export_commits_nth [OF cs] by simp
    note facts = one [OF this]
    show "commitIndex (cs ! k) = int k" "deltaBlob (cs ! k) = row_delta (rev rows ! k)"
      "commitMessage (cs ! k) = row_message (rev rows ! k)"
      "export_reference (index_by_id rows) ''parent'' (row_parent (rev rows ! k)) = Inr (parentIndex (cs ! k))"
      "export_reference (index_by_id rows) ''reverts'' (row_reverts (rev rows ! k)) = Inr (revertsIndex (cs ! k))"
      using facts by blast+
  qed
  with h p show ?thesis by simp
qed

lemma isValidIndex_reference:
  assumes "distinct (map row_id rows)" and "export_reference (index_by_id rows) w r = Inr q"
  shows "isValidIndex (length rows) q"
  using assms(2) index_by_id_Some [OF assms(1)]
  by (force simp: export_reference_Inr isValidIndex_def split: option.splits)

lemma exported_indexes: "exported olds ix cs \<Longrightarrow> map commitIndex cs = map int [0..<length cs]"
  by (auto simp: exported_def intro: nth_equalityI)

lemma sorted_ints: "sorted (map int [0..<n])"
  by (simp add: sorted_iff_nth_mono)

lemma build_valid:
  assumes "buildGdgePackageFromCommits lk head hash rows = Inr p" and "distinct (map row_id rows)" and "lk \<noteq> []" and "hash \<noteq> []"
  shows "validateData p"
proof -
  from build_Inr [OF assms(1)] obtain h where ex: "exported (rev rows) (index_by_id rows) (package_commits p)"
    and h: "fmlookup (index_by_id rows) head = Some h"
    and m: "metadata p = \<lparr>formatVersion = ''1'', rootHash = hash, headIndex = Some h, sourceLevelKey = lk, exportedAt = 0\<rparr>" by blast
  have len: "length (package_commits p) = length rows" using ex by (simp add: exported_def)
  have "sort (map commitIndex (package_commits p)) = map int [0..<length (package_commits p)]"
    unfolding exported_indexes [OF ex] by (rule sorted_sort_id [OF sorted_ints])
  moreover have "isValidIndex (length rows) (parentIndex c) \<and> isValidIndex (length rows) (revertsIndex c)" if "c \<in> set (package_commits p)" for c
    using ex that isValidIndex_reference [OF assms(2)] by (fastforce simp: exported_def in_set_conv_nth)
  moreover have "isValidIndex (length rows) (Some h)"
    using index_by_id_Some [OF assms(2) h] by (auto simp: isValidIndex_def)
  ultimately show ?thesis using assms(3,4) by (simp add: validateData_iff m len list_all_iff)
qed

lemma by_index_nth:
  assumes "map commitIndex cs = map int [0..<length cs]" and "k < length cs"
  shows "fmlookup (by_index cs) (int k) = Some (cs ! k)"
proof -
  have "k < length cs \<Longrightarrow> map commitIndex cs = map int [0..<length cs] \<Longrightarrow> fmlookup (by_index cs) (int k) = Some (cs ! k)" for cs
  proof (induction cs rule: rev_induct)
    case (snoc x xs)
    have x: "commitIndex x = int (length xs)" "map commitIndex xs = map int [0..<length xs]" using snoc.prems(2) by simp_all
    show ?case
    proof (cases "k = length xs")
      case False
      with snoc x show ?thesis by (simp add: by_index_def nth_append)
    qed (simp add: by_index_def x)
  qed simp
  with assms show ?thesis by blast
qed

text \<open>The rows of a level as the database has them.\<close>

definition rows_from :: "'j service_env \<Rightarrow> db \<Rightarrow> commit_row list \<Rightarrow> bool" where
  "rows_from e d rows \<longleftrightarrow> distinct (map row_id rows) \<and>
     (\<forall>r \<in> set rows. \<exists>row. fmlookup (commits d) (row_id r) = Some row \<and> r = rowFromStatement (e_zlib e) (row_id r, row))"

lemma exported_view:
  assumes "rows_from e d rows" and "exported (rev rows) (index_by_id rows) (package_commits p)"
    and "fmlookup (index_by_id rows) i = Some x" and "db_view e d i = Some (q, \<delta>)"
  shows "\<exists>q'. package_view e p x = Some (q', \<delta>) \<and>
    (case q of None \<Rightarrow> q' = None | Some j \<Rightarrow> q' = fmlookup (index_by_id rows) j \<and> q' \<noteq> None)"
proof -
  from assms(1,3) index_by_id_Some obtain k where k: "k < length rows" "x = int k" "row_id (rev rows ! k) = i"
    unfolding rows_from_def by blast
  let ?r = "rev rows ! k" and ?c = "package_commits p ! k"
  have "?r \<in> set rows" using k(1) by (metis length_rev nth_mem set_rev)
  with assms(1) k(3) obtain row where row: "fmlookup (commits d) i = Some row" "?r = rowFromStatement (e_zlib e) (i, row)"
    unfolding rows_from_def by blast
  from assms(4) row(1) have v: "r_parent row = q" "delta_of e row = Some \<delta>" by (auto simp: db_view_def)
  have c: "deltaBlob ?c = row_delta ?r" "export_reference (index_by_id rows) ''parent'' (row_parent ?r) = Inr (parentIndex ?c)"
    and len: "length (package_commits p) = length rows" using assms(2) k(1) by (auto simp: exported_def)
  have d: "parseDelta (e_json e) (row_delta ?r) = Some \<delta>"
    using v(2) by (simp add: row(2) delta_of_def rowFromStatement_def)
  have "fmlookup (by_index (package_commits p)) x = Some ?c"
    unfolding k(2) by (rule by_index_nth [OF exported_indexes [OF assms(2)]]) (simp add: len k(1))
  moreover have "row_parent ?r = q" using v(1) row(2) by (simp add: rowFromStatement_def)
  ultimately show ?thesis using c d by (auto simp: package_view_def export_reference_Inr split: option.splits)
qed

text \<open>A commit of the level and its copy in the package have the same state.\<close>

lemma exported_history:
  assumes "rows_from e d rows" and "exported (rev rows) (index_by_id rows) (package_commits p)"
  shows "history (db_view e d) i s \<Longrightarrow> fmlookup (index_by_id rows) i = Some x \<Longrightarrow> history (package_view e p) x s"
proof (induction arbitrary: x rule: history.induct)
  case (root i \<delta>)
  from exported_view [OF assms root(2,1)] show ?case by (auto intro: history.root)
next
  case (child i j \<delta> st)
  from exported_view [OF assms child(4,1)] obtain y where "package_view e p x = Some (Some y, \<delta>)" "fmlookup (index_by_id rows) j = Some y"
    by auto
  with child.IH show ?case by (auto intro: history.child)
qed

end
