(* ===== verification/Import_Ops.thy ===== *)
theory Import_Ops
  imports Service_Ops Package_Graph
begin

text \<open>
  Export and import of history files by \<open>src/service/GitService.cpp\<close> and
  \<open>src/service/GdgeImportMerge.cpp\<close> against the meaning of commits, under every schedule of
  failures of SQLite and of the file system.
\<close>

section \<open>Listing rows\<close>

lemma list_rows_ok:
  assumes "list_rows (e_zlib e) lk c = (rows, c')"
  shows "same_db c c' \<and> rows_from e (cdb c) rows \<and>
    (\<forall>r \<in> set rows. row_level r = c_str lk) \<and> length rows \<le> card (fmdom' (commits (cdb c)))"
proof (cases "is_open c")
  case True
  let ?d = "cdb c"
  from list_rows_prefix [OF assms True] obtain n where
    n: "rows = map (rowFromStatement (e_zlib e)) (take n (level_rows ?d lk))" and fr: "same_frame c c'" "cdb c' = ?d" by blast
  have no: "faults c = [] \<longrightarrow> c' = c"
    using assms True by (auto simp: list_rows_def)
  have rows: "rows = map (\<lambda>i. rowFromStatement (e_zlib e) (i, the (fmlookup (commits ?d) i))) (take n (level_ids ?d lk))"
    by (simp add: n level_rows_def take_map comp_def)
  have ids: "map row_id rows = take n (level_ids ?d lk)" by (simp add: rows comp_def)
  have dist: "distinct (take n (level_ids ?d lk))" by (simp add: level_ids_def)
  have one: "\<exists>row. fmlookup (commits ?d) (row_id r) = Some row \<and> r = rowFromStatement (e_zlib e) (row_id r, row) \<and> r_level row = lk"
    if "r \<in> set rows" for r
  proof -
    from that obtain i where "i \<in> set (level_ids ?d lk)" "r = rowFromStatement (e_zlib e) (i, the (fmlookup (commits ?d) i))"
      using in_set_takeD by (fastforce simp: rows)
    then show ?thesis by (auto simp: set_level_ids level_commit_def)
  qed
  have lev: "\<forall>r \<in> set rows. row_level r = c_str lk"
  proof
    fix r assume "r \<in> set rows"
    then obtain row where "r = rowFromStatement (e_zlib e) (row_id r, row)" "r_level row = lk" using one by blast
    then show "row_level r = c_str lk" by (metis row_simps(3))
  qed
  have "length rows = card (set (map row_id rows))" using dist ids by (metis distinct_card length_map)
  also have "\<dots> \<le> card (fmdom' (commits ?d))"
    using one by (intro card_mono) (auto intro: fmdom'I)
  finally have "length rows \<le> card (fmdom' (commits ?d))" .
  moreover have "rows_from e ?d rows" unfolding rows_from_def using one dist ids by metis
  moreover have "same_db c c'" using fr no by (auto simp: same_db_def same_frame_def)
  ultimately show ?thesis using lev by blast
qed (use assms in \<open>simp add: list_rows_def rows_from_def\<close>)

lemma list_rows_step:
  "list_rows (e_zlib e) lk (db_conn svc) = (rows, c) \<Longrightarrow> svc_ok e svc \<Longrightarrow> step_ok e svc (svc\<lparr>db_conn := c\<rparr>)"
  using list_rows_ok step_ok_conn by blast

text \<open>The states the service reconstructs are keyed.\<close>

lemma after_root_Some:
  assumes "after_root e lk svc k = Some r" and "svc_ok e svc"
  shows "\<exists>res svc1. k res svc1 = Some r \<and> step_ok e svc svc1 \<and> (\<forall>s. res = Some s \<longrightarrow> keyed s)"
proof -
  obtain rows c where l: "list_rows (e_zlib e) lk (db_conn svc) = (rows, c)" by fastforce
  let ?svc1 = "svc\<lparr>db_conn := c\<rparr>"
  have s: "step_ok e svc ?svc1" by (rule list_rows_step [OF l assms(2)])
  consider "rows = []" | "rows \<noteq> []" "find (\<lambda>r. row_parent r = None) rows = None"
    | x where "rows \<noteq> []" "find (\<lambda>r. row_parent r = None) rows = Some x" by (cases "find (\<lambda>r. row_parent r = None) rows") auto
  then show ?thesis
  proof cases
    case 1
    with assms(1) l s show ?thesis by (intro exI [of _ "Some empty_state"] exI [of _ ?svc1]) (simp add: after_root_def)
  next
    case 2
    with assms(1) l s show ?thesis by (intro exI [of _ None] exI [of _ ?svc1]) (simp add: after_root_def)
  next
    case 3
    with assms(1) l have "after_reconstruct e (row_id x) ?svc1 k = Some r" by (simp add: after_root_def)
    from after_reconstruct_Some [OF this] s obtain res svc2 where "k res svc2 = Some r" "step_ok e ?svc1 svc2"
      "\<forall>s. res = Some s \<longrightarrow> keyed s" by (auto simp: step_ok_def state_of_def)
    with step_ok_trans [OF s] show ?thesis by blast
  qed
qed

section \<open>Merged states\<close>

lemma merge_object_step_keyed:
  assumes "keyed_table ours" and "keyed_table theirs" and "keyed_table (acc_objects s)"
  shows "keyed_table (acc_objects (merge_object_step base ours theirs oid s))"
  using assms
  by (auto simp: merge_object_step_def keyed_table_def fmpred_iff split: option.split prod.split)

lemma merge_states_keyed:
  assumes "merge_states e base ours theirs = Some (m, n)" and "keyed ours" and "keyed theirs"
  shows "keyed m"
proof -
  have "keyed_table (acc_objects (fold (merge_object_step (objects base) (objects ours) (objects theirs)) ids acc))"
    if "keyed_table (acc_objects acc)" for ids acc
    using that assms(2,3) by (intro fold_invariant [where P = "\<lambda>s. keyed_table (acc_objects s)"] merge_object_step_keyed)
      (simp_all add: keyed_def keyed_table_def)
  then show ?thesis
    using assms(1,2) by (auto simp: merge_states_def mergeStates3Way_def split_beta Let_def keyed_def keyed_table_def)
qed

lemma loadGdgeHead_keyed: "loadGdgeHead e g path d = (Inr s, d') \<Longrightarrow> keyed s"
  using reconstructPackageHead_keyed by (auto simp: loadGdgeHead_def split: prod.splits sum.splits if_splits option.splits)

lemma smart_merge_keyed:
  "smart_merge e g rootState paths m n d = (Inr (m', n'), d') \<Longrightarrow> keyed m \<Longrightarrow> keyed m'"
proof (induction paths arbitrary: m n d)
  case (Cons path paths)
  then obtain loaded d1 m1 n1 where l: "loadGdgeHead e g path d = (Inr loaded, d1)"
    "merge_states e rootState m loaded = Some (m1, n1)" "smart_merge e g rootState paths m1 (n + n1) d1 = (Inr (m', n'), d')"
    by (auto split: prod.splits sum.splits option.splits)
  with Cons merge_states_keyed loadGdgeHead_keyed show ?case by metis
qed simp

section \<open>Chains of pending commits\<close>

text \<open>The pending commits lead from the state \<open>b\<close> of the HEAD \<open>hb\<close> to the state in the last place,
  each on top of the one before.\<close>

inductive update_chain :: "'j service_env \<Rightarrow> level_key \<Rightarrow> commit_id option \<Rightarrow> level_state \<Rightarrow> pending_head list \<Rightarrow>
    level_state \<Rightarrow> bool" for e dest hb b where
  nil: "keyed b \<Longrightarrow> update_chain e dest hb b [] b"
| snoc: "update_chain e dest hb b ps s \<Longrightarrow> keyed t \<Longrightarrow> ph_level p = dest \<Longrightarrow> ph_reverts p = None \<Longrightarrow>
    ph_delta p = dump e (diff_states e s t) \<Longrightarrow>
    (ph_parent_ix p, ph_parent p) = (if ps = [] then (None, hb) else (Some (length ps - 1), None)) \<Longrightarrow>
    ph_cache p = None \<or> ph_cache p = Some t \<Longrightarrow> update_chain e dest hb b (ps @ [p]) t"

inductive_cases update_chain_NilE: "update_chain e dest hb b [] s"

lemma update_chain_keyed: "update_chain e dest hb b ps s \<Longrightarrow> keyed s"
  by (induction rule: update_chain.induct)

lemma update_chain_cache:
  "update_chain e dest hb b ps s \<Longrightarrow> ps \<noteq> [] \<Longrightarrow> update_chain e dest hb b (butlast ps @ [(last ps)\<lparr>ph_cache := Some s\<rparr>]) s"
  by (erule update_chain.cases) (auto intro!: update_chain.snoc)

text \<open>What an import keeps while it goes through the files.\<close>

definition acc_ok :: "'j service_env \<Rightarrow> level_key \<Rightarrow> commit_id option \<Rightarrow> level_state \<Rightarrow> nat \<Rightarrow> import_acc \<Rightarrow> bool" where
  "acc_ok e dest hb b n a \<longleftrightarrow> update_chain e dest hb b (ia_pending a) (ia_state a) \<and> (hb = None \<longrightarrow> b = empty_state) \<and>
     ia_merged a = ia_smart a + ia_sequential a \<and> ia_merged a + ia_skipped a = n"

lemma smart_phase_ok:
  assumes "smart_phase e g dest hb paths a d = (a', d')" and "acc_ok e dest hb b n a" and "ia_pending a = []" and "ia_smart a = 0"
  shows "acc_ok e dest hb b (n + length paths) a'"
proof (cases "paths = []")
  case False
  obtain res d1 where m: "smart_merge e g (ia_root a) paths (ia_state a) 0 d = (res, d1)" by fastforce
  show ?thesis
  proof (cases res)
    case (Inl err)
    with assms False m show ?thesis by (auto simp: smart_phase_def acc_ok_def)
  next
    case (Inr mn)
    obtain t k where mn: "mn = (t, k)" by fastforce
    have u: "update_chain e dest hb b [] (ia_state a)" using assms(2,3) by (simp add: acc_ok_def)
    have kt: "keyed t" using smart_merge_keyed m Inr mn update_chain_keyed [OF u] by blast
    let ?p = "import_update dest hb None (smart_message paths) (dump e (diff_states e (ia_state a) t))"
    have "update_chain e dest hb b ([] @ [?p]) t" by (rule update_chain.snoc [OF u kt]) (simp_all add: import_update_def)
    then show ?thesis using assms False m Inr mn by (auto simp: smart_phase_def acc_ok_def)
  qed
qed (use assms in \<open>simp add: smart_phase_def\<close>)

lemma sequential_step_ok:
  assumes ok: "acc_ok e dest hb b n a" and k: "\<And>s. res = Inr s \<Longrightarrow> keyed s"
  shows "acc_ok e dest hb b (n + 1) (sequential_step e dest hb path res a)"
proof -
  have u: "update_chain e dest hb b (ia_pending a) (ia_state a)" using ok by (simp add: acc_ok_def)
  show ?thesis
  proof (cases res)
    case (Inl err)
    with ok show ?thesis by (simp add: sequential_step_def acc_ok_def)
  next
    case (Inr s)
    show ?thesis
    proof (cases "hb = None \<and> ia_pending a = []")
      case True
      then have "b = empty_state" "update_chain e dest hb b [] (ia_state a)" using ok u by (simp_all add: acc_ok_def)
      moreover from this(2) have "ia_state a = b" by (rule update_chain_NilE)
      ultimately have b: "b = empty_state" "update_chain e dest hb b [] empty_state" by simp_all
      have "update_chain e dest hb b ([] @ [import_update dest None None (''Import .gdge: '' @ path_filename path)
          (dump e (diff_states e empty_state s))]) s"
        by (rule update_chain.snoc [OF b(2) k [OF Inr]]) (simp_all add: import_update_def True)
      then show ?thesis using ok Inr True by (simp add: sequential_step_def acc_ok_def)
    next
      case False
      show ?thesis
      proof (cases "merge_states e (ia_root a) (ia_state a) s")
        case None
        with ok Inr False show ?thesis by (auto simp: sequential_step_def acc_ok_def)
      next
        case (Some mn)
        obtain t c where mn: "mn = (t, c)" by fastforce
        have kt: "keyed t" using merge_states_keyed Some mn update_chain_keyed [OF u] k [OF Inr] by blast
        let ?msg = "''Merge import: '' @ path_filename path" and ?blob = "dump e (diff_states e (ia_state a) t)"
        let ?p = "if ia_pending a \<noteq> [] then import_update dest None (Some (length (ia_pending a) - 1)) ?msg ?blob
          else import_update dest hb None ?msg ?blob"
        have "update_chain e dest hb b (ia_pending a @ [?p]) t"
          by (rule update_chain.snoc [OF u kt]) (simp_all add: import_update_def)
        then show ?thesis using ok Inr Some mn False by (auto simp: sequential_step_def acc_ok_def)
      qed
    qed
  qed
qed

lemma sequential_phase_ok:
  "sequential_phase e g dest hb paths a d = (a', d') \<Longrightarrow> acc_ok e dest hb b n a \<Longrightarrow> acc_ok e dest hb b (n + length paths) a'"
proof (induction paths arbitrary: a d n)
  case (Cons path paths)
  obtain res d1 where l: "loadGdgeHead e g path d = (res, d1)" by fastforce
  have "acc_ok e dest hb b (n + 1) (sequential_step e dest hb path res a)"
    by (rule sequential_step_ok [OF Cons.prems(2)]) (use loadGdgeHead_keyed l in blast)
  from Cons.IH [OF _ this] Cons.prems(1) l show ?case by simp
qed simp

lemma merge_planned_ok:
  assumes "merge_planned e g dest plan hb ours rootBefore d = ((Inr v, ps), d')" and "keyed ours" and "hb = None \<longrightarrow> ours = empty_state"
  shows "update_chain e dest hb ours ps (ip_state v) \<and> ps \<noteq> [] \<and> ip_merged v = ip_smart v + ip_sequential v \<and>
    ip_merged v + ip_skipped v = length (plan_smart plan) + length (plan_sequential plan) + length (plan_invalid plan)"
proof -
  let ?a = "\<lparr>ia_pending = [], ia_state = ours, ia_root = rootBefore, ia_error = [], ia_merged = 0,
    ia_skipped = length (plan_invalid plan), ia_conflicts = 0, ia_smart = 0, ia_sequential = 0\<rparr>"
  obtain a1 d1 where s: "smart_phase e g dest hb (plan_smart plan) ?a d = (a1, d1)" by fastforce
  obtain a2 d2 where q: "sequential_phase e g dest hb (plan_sequential plan) a1 d1 = (a2, d2)" by fastforce
  have "acc_ok e dest hb ours (length (plan_invalid plan)) ?a"
    using assms(2,3) by (simp add: acc_ok_def update_chain.nil)
  from smart_phase_ok [OF s this] have "acc_ok e dest hb ours (length (plan_invalid plan) + length (plan_smart plan)) a1" by simp
  from sequential_phase_ok [OF q this] have ok: "acc_ok e dest hb ours
      (length (plan_invalid plan) + length (plan_smart plan) + length (plan_sequential plan)) a2" .
  have r: "import_result a2 = (Inr v, ps)" using assms(1) s q by (simp add: merge_planned_def)
  then have ne: "ia_pending a2 \<noteq> []" by (auto simp: import_result_def)
  then have "ps = butlast (ia_pending a2) @ [(last (ia_pending a2))\<lparr>ph_cache := Some (ia_state a2)\<rparr>]"
    and "ip_state v = ia_state a2" "ip_merged v = ia_merged a2" "ip_skipped v = ia_skipped a2" "ip_smart v = ia_smart a2"
    "ip_sequential v = ia_sequential a2"
    using r by (auto simp: import_result_def)
  with ok update_chain_cache [OF _ ne] show ?thesis by (auto simp: acc_ok_def)
qed

section \<open>Writing the pending commits\<close>

text \<open>The commits \<open>ids\<close> were added to the database one on top of the other, the first on \<open>hb\<close>.\<close>

definition top_of :: "commit_id option \<Rightarrow> commit_id list \<Rightarrow> commit_id option" where
  "top_of hb ids = (if ids = [] then hb else Some (last ids))"

inductive commits_stacked :: "'j service_env \<Rightarrow> level_key \<Rightarrow> commit_id option \<Rightarrow> db \<Rightarrow> commit_id list \<Rightarrow> db \<Rightarrow> bool"
  for e lk hb d where
  nil: "commits_stacked e lk hb d [] d"
| snoc: "commits_stacked e lk hb d ids d1 \<Longrightarrow> commit_added e d1 lk (top_of hb ids) i s d2 \<Longrightarrow>
    commits_stacked e lk hb d (ids @ [i]) d2"

lemma commits_stacked_keeps:
  "commits_stacked e lk hb d ids d' \<Longrightarrow>
     (\<forall>j t. history (db_view e d) j t \<longrightarrow> history (db_view e d') j t) \<and>
     (\<forall>l. l \<noteq> lk \<longrightarrow> fmlookup (refs d') l = fmlookup (refs d) l) \<and>
     (ids \<noteq> [] \<longrightarrow> fmlookup (refs d') lk = Some (last ids)) \<and> (ids = [] \<longrightarrow> d' = d)"
proof (induction rule: commits_stacked.induct)
  case (snoc ids d1 i s d2)
  then show ?case by (simp add: commit_added_def)
qed simp

lemma finalize_append:
  "finalize_pending e now (ps @ qs) minted svc =
     (case finalize_pending e now ps minted svc of
        (Inl err, svc1) \<Rightarrow> (Inl err, svc1)
      | (Inr m, svc1) \<Rightarrow> finalize_pending e now qs m svc1)"
  by (induction ps arbitrary: minted svc) (auto simp: Let_def split: option.split prod.split sum.split)

lemma finalize_pending_ok:
  assumes e: "env_ok e" and ok: "svc_ok e svc" and base: "starts (db_view e (cdb (db_conn svc))) hb b"
  shows "update_chain e dest hb b ps s \<Longrightarrow> finalize_pending e now ps [] svc = (res, svc') \<Longrightarrow>
    svc_ok e svc' \<and> (\<exists>ids. commits_stacked e dest hb (cdb (db_conn svc)) ids (cdb (db_conn svc')) \<and>
      (case res of
         Inl err \<Rightarrow> length ids < length ps
       | Inr minted \<Rightarrow> minted = ids \<and> length ids = length ps \<and>
           starts (db_view e (cdb (db_conn svc'))) (top_of hb ids) s))"
proof (induction arbitrary: res svc' rule: update_chain.induct)
  case nil
  then show ?case using ok base by (auto simp: top_of_def intro!: exI [of _ "[]"] commits_stacked.nil)
next
  case (snoc ps s t p)
  obtain res1 svc1 where f: "finalize_pending e now ps [] svc = (res1, svc1)" by fastforce
  from snoc.IH [OF f] obtain ids where ok1: "svc_ok e svc1" and st: "commits_stacked e dest hb (cdb (db_conn svc)) ids (cdb (db_conn svc1))"
    and r1: "case res1 of Inl err \<Rightarrow> length ids < length ps
       | Inr minted \<Rightarrow> minted = ids \<and> length ids = length ps \<and> starts (db_view e (cdb (db_conn svc1))) (top_of hb ids) s" by blast
  show ?case
  proof (cases res1)
    case (Inl err)
    then have "res = Inl err" "svc' = svc1" using snoc.prems f by (simp_all add: finalize_append)
    with ok1 st r1 Inl show ?thesis by (auto intro!: exI [of _ ids])
  next
    case (Inr minted)
    with r1 have m: "minted = ids" "length ids = length ps" and s: "starts (db_view e (cdb (db_conn svc1))) (top_of hb ids) s" by simp_all
    have par: "pending_parent ids p = Some (top_of hb ids)"
    proof (cases "ps = []")
      case False
      then have "0 < length ids" using m(2) by simp
      then have "\<not> length ids \<le> length ids - 1" by linarith
      with False snoc.hyps(6) m(2) show ?thesis by (auto simp: pending_parent_def top_of_def last_conv_nth)
    qed (use snoc.hyps(6) m(2) in \<open>simp add: pending_parent_def top_of_def\<close>)
    have "keyed s" using s by (simp add: starts_def)
    then have comb: "norm_state (fst (apply_delta s (diff_states e s t))) = norm_state t"
      using apply_diff_states [OF e] snoc.hyps(2) by blast
    obtain x c where ins: "insertAndSetHead (e_zlib e) (now (length ids)) dest (top_of hb ids) None (ph_message p)
        (dump e (diff_states e s t)) (db_conn svc1) = (x, c)" by fastforce
    have run: "finalize_pending e now [p] ids svc1 = (res, svc')"
      using snoc.prems f Inr m by (simp add: finalize_append)
    show ?thesis
    proof (cases x)
      case (Inl err)
      have "\<exists>err. res = Inl err" "svc' = svc1\<lparr>db_conn := c\<rparr>"
        using run par ins Inl snoc.hyps(3-5) by auto
      with insert_failed [OF ok1 ins [unfolded Inl]] st m show ?thesis by (auto intro!: exI [of _ ids])
    next
      case (Inr i)
      from insert_uncached_ok [OF e ok1 s snoc.hyps(2) comb ins [unfolded Inr]]
      have ok2: "svc_ok e (svc1\<lparr>db_conn := c\<rparr>)" "good_state e (cdb c) i t"
        and ad: "commit_added e (cdb (db_conn svc1)) dest (top_of hb ids) i t (cdb c)" by blast+
      have sv: "res = Inr (ids @ [i])" "svc' = (case ph_cache p of None \<Rightarrow> svc1\<lparr>db_conn := c\<rparr> | Some st \<Rightarrow> cachePut i st (svc1\<lparr>db_conn := c\<rparr>))"
        using run par ins Inr snoc.hyps(3-5) by (auto simp: Let_def)
      have "svc_ok e (cachePut i t (svc1\<lparr>db_conn := c\<rparr>))" using ok2 memo.faithful_put by (simp add: svc_ok_def)
      then have ok3: "svc_ok e svc'" "cdb (db_conn svc') = cdb c" using sv(2) ok2 snoc.hyps(7) by auto
      have "commits_stacked e dest hb (cdb (db_conn svc)) (ids @ [i]) (cdb c)" by (rule commits_stacked.snoc [OF st ad])
      moreover have "starts (db_view e (cdb c)) (Some i) t" using ad snoc.hyps(2) by (simp add: commit_added_def starts_parent)
      ultimately show ?thesis using sv(1) ok3 m by (auto simp: top_of_def intro!: exI [of _ "ids @ [i]"])
    qed
  qed
qed

section \<open>Import of many files\<close>

lemma classify_package_length:
  "length (plan_smart (classify_package e h path pkg plan)) + length (plan_sequential (classify_package e h path pkg plan)) +
     length (plan_invalid (classify_package e h path pkg plan)) =
   Suc (length (plan_smart plan) + length (plan_sequential plan) + length (plan_invalid plan))"
  by (simp add: classify_package_def split: sum.split)

lemma classify_paths_length:
  "classify_paths e g h paths plan d = (plan', d') \<Longrightarrow>
     length (plan_smart plan') + length (plan_sequential plan') + length (plan_invalid plan') =
     length paths + (length (plan_smart plan) + length (plan_sequential plan) + length (plan_invalid plan))"
proof (induction paths arbitrary: plan d)
  case (Cons path paths)
  obtain pkg d1 where "readGdgePackage g path d = (pkg, d1)" by fastforce
  with Cons classify_package_length [of e h path pkg plan] show ?case by simp
qed simp

lemma classifyImports_length:
  "classifyImports e g rootState paths d = (plan, d') \<Longrightarrow>
     length (plan_smart plan) + length (plan_sequential plan) + length (plan_invalid plan) = length paths"
  using classify_paths_length [of e g _ paths empty_plan d plan d']
  by (cases rootState) (auto simp: classifyImports_def empty_plan_def)

lemma service_classify_ok:
  assumes "service_classifyImports e g dest paths svc d = Some (plan, svc', d')" and "svc_ok e svc"
  shows "step_ok e svc svc' \<and> length (plan_smart plan) + length (plan_sequential plan) + length (plan_invalid plan) = length paths"
proof -
  obtain h c where h: "getHead dest (db_conn svc) = (h, c)" by fastforce
  let ?svc1 = "svc\<lparr>db_conn := c\<rparr>"
  have s1: "step_ok e svc ?svc1" by (rule getHead_step [OF h assms(2)])
  let ?k = "\<lambda>rootState svc1. case classifyImports e g rootState paths d of (plan, d1) \<Rightarrow> Some (plan\<lparr>noLocalCommits := (h = None)\<rparr>, svc1, d1)"
  from assms(1) h have "after_root e dest ?svc1 ?k = Some (plan, svc', d')" by (simp add: service_classifyImports_def)
  from after_root_Some [OF this] s1 obtain res svc2 where k: "?k res svc2 = Some (plan, svc', d')" and s2: "step_ok e ?svc1 svc2"
    by (auto simp: step_ok_def)
  obtain pl d1 where c: "classifyImports e g res paths d = (pl, d1)" by fastforce
  from k c have "plan = pl\<lparr>noLocalCommits := (h = None)\<rparr>" "svc' = svc2" by simp_all
  with classifyImports_length [OF c] step_ok_trans [OF s1 s2] show ?thesis by simp
qed

lemma prepareImportMany_ok:
  assumes run: "prepareImportManyFromGdge e g dest paths svc d = Some ((res, ps), svc', d')" and ok: "svc_ok e svc"
  shows "step_ok e svc svc' \<and> (\<forall>v. res = Inr v \<longrightarrow>
    (\<exists>hb b. (hb = None \<or> fmlookup (refs (cdb (db_conn svc))) dest = hb) \<and> starts (db_view e (cdb (db_conn svc))) hb b \<and>
       update_chain e dest hb b ps (ip_state v) \<and> ps \<noteq> [] \<and> ip_merged v = ip_smart v + ip_sequential v \<and>
       ip_merged v + ip_skipped v = length paths))"
proof (cases "paths = []")
  case True
  with run ok show ?thesis by (auto simp: prepareImportManyFromGdge_def step_ok_refl)
next
  case False
  let ?d = "cdb (db_conn svc)"
  from run False obtain plan svc1 d1 where pl: "service_classifyImports e g dest paths svc d = Some (plan, svc1, d1)"
    by (cases "service_classifyImports e g dest paths svc d") (auto simp: prepareImportManyFromGdge_def)
  note cl = service_classify_ok [OF pl ok]
  have s1: "step_ok e svc svc1" using cl by blast
  obtain hb c2 where h: "getHead dest (db_conn svc1) = (hb, c2)" by fastforce
  let ?svc2 = "svc1\<lparr>db_conn := c2\<rparr>"
  have s2: "step_ok e svc ?svc2" using step_ok_trans [OF s1 getHead_step [OF h]] s1 by (simp add: step_ok_def)
  have goal: "step_ok e svc svc' \<and> (\<forall>v. res = Inr v \<longrightarrow>
    (\<exists>hb b. (hb = None \<or> fmlookup (refs ?d) dest = hb) \<and> starts (db_view e ?d) hb b \<and>
       update_chain e dest hb b ps (ip_state v) \<and> ps \<noteq> [] \<and> ip_merged v = ip_smart v + ip_sequential v \<and>
       ip_merged v + ip_skipped v = length paths))"
    if "merge_planned e g dest plan hb ours rootBefore d1 = ((res, ps), d')" and "step_ok e svc svc'"
      and "starts (db_view e ?d) hb ours" and "hb = None \<or> fmlookup (refs ?d) dest = hb" for ours rootBefore
  proof -
    have k: "keyed ours" "hb = None \<longrightarrow> ours = empty_state" using that(3) by (auto simp: starts_def)
    have "\<forall>v. res = Inr v \<longrightarrow> update_chain e dest hb ours ps (ip_state v) \<and> ps \<noteq> [] \<and>
        ip_merged v = ip_smart v + ip_sequential v \<and> ip_merged v + ip_skipped v = length paths"
      using merge_planned_ok [OF _ k] that(1) cl by fastforce
    with that show ?thesis by blast
  qed
  show ?thesis
  proof (cases hb)
    case None
    with run False pl h obtain d2 where "merge_planned e g dest plan None empty_state empty_state d1 = ((res, ps), d2)" "svc' = ?svc2" "d2 = d'"
      by (auto simp: prepareImportManyFromGdge_def split: prod.splits)
    with goal [of empty_state empty_state] s2 None show ?thesis by (simp add: starts_def)
  next
    case (Some hid)
    let ?k2 = "\<lambda>rootBefore recon svc4. case recon of None \<Rightarrow> Some ((Inl ''failed to reconstruct local state'', []), svc4, d1)
      | Some ours \<Rightarrow> (case merge_planned e g dest plan (Some hid) ours rootBefore d1 of (res, d2) \<Rightarrow> Some (res, svc4, d2))"
    let ?k = "\<lambda>rootState svc3. case rootState of None \<Rightarrow> Some ((Inl ''failed to reconstruct current root'', []), svc3, d1)
      | Some rootBefore \<Rightarrow> after_reconstruct e hid svc3 (?k2 rootBefore)"
    have hd: "fmlookup (refs ?d) dest = Some hid" using getHead_Some h Some step_ok_db [OF s1] by fastforce
    from run False pl h Some have "after_root e dest ?svc2 ?k = Some ((res, ps), svc', d')" by (simp add: prepareImportManyFromGdge_def)
    from after_root_Some [OF this] s2 obtain rt svc3 where k: "?k rt svc3 = Some ((res, ps), svc', d')" and s23: "step_ok e ?svc2 svc3"
      by (auto simp: step_ok_def)
    have s3: "step_ok e svc svc3" by (rule step_ok_trans [OF s2 s23])
    show ?thesis
    proof (cases rt)
      case None
      with k s3 show ?thesis by auto
    next
      case (Some rootBefore)
      with k have "after_reconstruct e hid svc3 (?k2 rootBefore) = Some ((res, ps), svc', d')" by simp
      from after_reconstruct_Some [OF this] s3 obtain rc svc4 where k4: "?k2 rootBefore rc svc4 = Some ((res, ps), svc', d')"
        and s34: "step_ok e svc3 svc4" and so: "\<forall>s. rc = Some s \<longrightarrow> state_of e (cdb (db_conn svc3)) hid s" by (auto simp: step_ok_def)
      have s4: "step_ok e svc svc4" by (rule step_ok_trans [OF s3 s34])
      show ?thesis
      proof (cases rc)
        case None
        with k4 s4 show ?thesis by auto
      next
        case (Some ours)
        with k4 obtain d2 where mp: "merge_planned e g dest plan (Some hid) ours rootBefore d1 = ((res, ps), d')" "svc' = svc4"
          by (auto split: prod.splits)
        have "starts (db_view e ?d) (Some hid) ours"
          using so Some step_ok_db [OF s3] head_exists [OF ok hd] by (auto intro: state_of_starts)
        with goal [of ours rootBefore] mp s4 \<open>hb = Some hid\<close> hd show ?thesis by simp
      qed
    qed
  qed
qed

text \<open>What an import promises, and what is left when it stops in the middle.\<close>

lemma importMany_ok:
  assumes e: "env_ok e" and ok: "svc_ok e svc" and run: "importManyFromGdge e g now dest paths svc d = Some (res, svc', d')"
  shows "svc_ok e svc' \<and> (\<exists>hb ids. (hb = None \<or> fmlookup (refs (cdb (db_conn svc))) dest = hb) \<and>
    commits_stacked e dest hb (cdb (db_conn svc)) ids (cdb (db_conn svc')) \<and>
    (\<forall>v minted. res = Inr (v, minted) \<longrightarrow> minted = ids \<and> ids \<noteq> [] \<and> yields (db_view e (cdb (db_conn svc'))) (last ids) (ip_state v) \<and>
       ip_merged v = ip_smart v + ip_sequential v \<and> ip_merged v + ip_skipped v = length paths))"
proof -
  from run obtain r ps svc1 d1 where p: "prepareImportManyFromGdge e g dest paths svc d = Some ((r, ps), svc1, d1)"
    by (cases "prepareImportManyFromGdge e g dest paths svc d") (auto simp: importManyFromGdge_def)
  note pr = prepareImportMany_ok [OF p ok]
  have s1: "svc_ok e svc1" "cdb (db_conn svc1) = cdb (db_conn svc)" using pr step_ok_parts by blast+
  show ?thesis
  proof (cases r)
    case (Inl err)
    with run p have "\<exists>x. res = Inl x" "svc' = svc1" by (auto simp: importManyFromGdge_def)
    with s1 show ?thesis by (auto intro!: exI [of _ None] exI [of _ "[]"] commits_stacked.nil)
  next
    case (Inr v)
    with pr obtain hb b where hb: "hb = None \<or> fmlookup (refs (cdb (db_conn svc))) dest = hb"
      and st: "starts (db_view e (cdb (db_conn svc1))) hb b" and u: "update_chain e dest hb b ps (ip_state v)" "ps \<noteq> []"
      and n: "ip_merged v = ip_smart v + ip_sequential v" "ip_merged v + ip_skipped v = length paths" unfolding s1(2) by blast
    obtain fr svc2 where f: "finalize_pending e now ps [] svc1 = (fr, svc2)" by fastforce
    have res: "svc' = svc2" "\<forall>v' minted. res = Inr (v', minted) \<longrightarrow> v' = v \<and> fr = Inr minted"
      using run p Inr f u(2) by (auto simp: importManyFromGdge_def finalizeImportManyFromGdge_def split: sum.splits)
    from finalize_pending_ok [OF e s1(1) st u(1) f] obtain ids where ids: "svc_ok e svc2"
      "commits_stacked e dest hb (cdb (db_conn svc)) ids (cdb (db_conn svc2))"
      "case fr of Inl err \<Rightarrow> length ids < length ps | Inr minted \<Rightarrow> minted = ids \<and> length ids = length ps \<and>
           starts (db_view e (cdb (db_conn svc2))) (top_of hb ids) (ip_state v)" using s1(2) by auto
    have "minted = ids \<and> ids \<noteq> [] \<and> yields (db_view e (cdb (db_conn svc2))) (last ids) (ip_state v)" if "fr = Inr minted" for minted
    proof -
      from that ids(3) u(2) have "minted = ids" "ids \<noteq> []" "starts (db_view e (cdb (db_conn svc2))) (top_of hb ids) (ip_state v)" by auto
      then show ?thesis by (simp add: top_of_def starts_parent)
    qed
    with res ids(1,2) hb n show ?thesis by (intro conjI exI [of _ hb] exI [of _ ids]) auto
  qed
qed

section \<open>Export\<close>

text \<open>A package made from a level whose HEAD has the state \<open>s\<close>.\<close>

definition package_of :: "'j service_env \<Rightarrow> db \<Rightarrow> level_key \<Rightarrow> level_state \<Rightarrow> package_data \<Rightarrow> bool" where
  "package_of e d lk s p \<longleftrightarrow>
     reconstructPackageHead e p = Some s \<and>
     map commitIndex (package_commits p) = map int [0..<length (package_commits p)] \<and>
     list_all (\<lambda>c. c_str (commitMessage c) = commitMessage c) (package_commits p) \<and>
     length (package_commits p) \<le> card (fmdom' (commits d)) \<and>
     exportedAt (metadata p) = 0 \<and> formatVersion (metadata p) = ''1'' \<and> sourceLevelKey (metadata p) = lk \<and>
     (\<exists>t. keyed t \<and> rootHash (metadata p) = hashLevelState t)"

lemma exportLevel_ok:
  assumes ok: "svc_ok e svc" and run: "exportLevelToGdge e g lk out svc d = Some (res, svc', d')"
  shows "step_ok e svc svc' \<and>
    (case res of
       Inl err \<Rightarrow> fmlookup (contents d') out = fmlookup (contents d) out
     | Inr _ \<Rightarrow> \<exists>h s p bytes. fmlookup (refs (cdb (db_conn svc))) lk = Some h \<and> history (db_view e (cdb (db_conn svc))) h s \<and>
         fmlookup (contents d') out = Some bytes \<and> package_file g p bytes \<and> package_of e (cdb (db_conn svc)) lk s p)"
proof -
  let ?d = "cdb (db_conn svc)"
  obtain rows c where l: "list_rows (e_zlib e) lk (db_conn svc) = (rows, c)" by fastforce
  let ?svc1 = "svc\<lparr>db_conn := c\<rparr>"
  have s1: "step_ok e svc ?svc1" by (rule list_rows_step [OF l ok])
  obtain hd c2 where h: "getHead lk (db_conn ?svc1) = (hd, c2)" by fastforce
  let ?svc2 = "?svc1\<lparr>db_conn := c2\<rparr>"
  have s2: "step_ok e svc ?svc2" using step_ok_trans [OF s1 getHead_step [OF h]] s1 by (simp add: step_ok_def)
  have err: "res = Inl x \<Longrightarrow> step_ok e svc svc' \<Longrightarrow> d' = d \<Longrightarrow> ?thesis" for x by simp
  show ?thesis
  proof (cases "rows = [] \<or> hd = None \<or> find (\<lambda>r. row_parent r = None) rows = None")
    case True
    with run l h s1 s2 show ?thesis
      by (auto simp: exportLevelToGdge_def Let_def split: if_splits option.splits)
  next
    case False
    then obtain hid r where hr: "hd = Some hid" "find (\<lambda>r. row_parent r = None) rows = Some r" "rows \<noteq> []" by auto
    have head: "fmlookup (refs ?d) lk = Some hid" using getHead_Some h hr(1) step_ok_db [OF s1] by fastforce
    let ?k = "\<lambda>rootState svc3. case rootState of None \<Rightarrow> Some (Inl (GdgeMsg ''failed to reconstruct root''), svc3, d)
      | Some st \<Rightarrow> (case export_write g lk out hid rows st d of (res, d1) \<Rightarrow> Some (res, svc3, d1))"
    from run l h hr have "after_reconstruct e (row_id r) ?svc2 ?k = Some (res, svc', d')"
      by (simp add: exportLevelToGdge_def)
    from after_reconstruct_Some [OF this] s2 obtain rt svc3 where k: "?k rt svc3 = Some (res, svc', d')" and s23: "step_ok e ?svc2 svc3"
      and rts: "\<forall>s. rt = Some s \<longrightarrow> state_of e (cdb (db_conn ?svc2)) (row_id r) s" by (auto simp: step_ok_def)
    have s3: "step_ok e svc svc3" by (rule step_ok_trans [OF s2 s23])
    show ?thesis
    proof (cases rt)
      case None
      with k s3 show ?thesis by auto
    next
      case (Some st)
      then have w: "export_write g lk out hid rows st d = (res, d')" "svc' = svc3" and kt: "keyed st"
        using k rts by (auto simp: state_of_def split: prod.splits)
      show ?thesis
      proof (cases "buildGdgePackageFromCommits lk hid (hashLevelState st) rows")
        case (Inl x)
        with w s3 show ?thesis by (auto simp: export_write_def)
      next
        case (Inr p)
        obtain wr d1 where wr: "writeGdgePackage g out p d = (wr, d1)" by fastforce
        note we = writeGdgePackage_effect [OF wr]
        show ?thesis
        proof (cases wr)
          case Inl2: (Inl x)
          with w Inr wr s3 we show ?thesis by (auto simp: export_write_def wrote_package_def)
        next
          case Inr2: (Inr u)
          from we Inr2 obtain bytes where b: "fmlookup (contents d1) out = Some bytes" "package_file g p bytes"
            by (auto simp: wrote_package_def)
          have rs: "res = Inr ()" "d' = d1" using w Inr wr Inr2 by (auto simp: export_write_def)
          note lr = list_rows_ok [OF l]
          from build_Inr [OF Inr] obtain x where ex: "exported (rev rows) (index_by_id rows) (package_commits p)"
            and x: "fmlookup (index_by_id rows) hid = Some x"
            and m: "metadata p = \<lparr>formatVersion = ''1'', rootHash = hashLevelState st, headIndex = Some x, sourceLevelKey = lk, exportedAt = 0\<rparr>"
            by blast
          have "fmlookup (commits ?d) hid \<noteq> None" by (rule head_exists [OF ok head])
          then obtain s where s: "history (db_view e ?d) hid s" using ok by (auto simp: svc_ok_def sound_db_def)
          from exported_history [OF _ ex s x] lr have "reconstructPackageHead e p = Some s"
            by (simp add: reconstructPackageHead_iff m)
          moreover have "list_all (\<lambda>c. c_str (commitMessage c) = commitMessage c) (package_commits p)"
          proof -
            have "c_str (row_message r) = row_message r" if "r \<in> set rows" for r
            proof -
              from lr that obtain row where "r = rowFromStatement (e_zlib e) (row_id r, row)" by (auto simp: rows_from_def)
              then have "row_message r = c_str (r_message row)" by (metis row_simps(4))
              then show ?thesis by (simp add: c_str_def)
            qed
            moreover have "\<exists>r \<in> set rows. commitMessage c = row_message r" if "c \<in> set (package_commits p)" for c
              using ex that by (metis exported_def in_set_conv_nth set_rev)
            ultimately show ?thesis unfolding list_all_iff by metis
          qed
          moreover have "length (package_commits p) \<le> card (fmdom' (commits ?d))" using ex lr by (simp add: exported_def)
          ultimately have "package_of e ?d lk s p" using m kt exported_indexes [OF ex] by (auto simp: package_of_def)
          with s3 w(2) rs head s b show ?thesis by auto
        qed
      qed
    qed
  qed
qed

end
