(* ===== verification/Service_Start.thy ===== *)
theory Service_Start
  imports Commit_Schema Service_Spec
begin

text \<open>
  The life of the program around its store: \<open>sharedCommitStore\<close> and the destructor of
  \<open>src/store/CommitStore.cpp\<close>, \<open>sharedGitService\<close> of \<open>src/service/GitService.cpp\<close>, and what a
  restart of the program makes of a service.
\<close>

section \<open>Opening and closing\<close>

text \<open>The static variables of a process: the store, and whether opening it was tried.\<close>

record process =
  p_store :: conn
  p_tried :: bool

definition new_process :: "db \<Rightarrow> bool list \<Rightarrow> process" where
  "new_process d fs = \<lparr>p_store = \<lparr>is_open = False, cdb = d, saved = None, fk_on = False, faults = fs\<rparr>, p_tried = False\<rparr>"

text \<open>Tried once, after creating the directory (which may fail); a failure is not tried again.\<close>

definition sharedCommitStore :: "bool \<Rightarrow> process \<Rightarrow> process" where
  "sharedCommitStore dirCreated p =
     (if p_tried p then p
      else
        (let p1 = p\<lparr>p_tried := True\<rparr> in
         if \<not> dirCreated then p1 else p1\<lparr>p_store := snd (init_store (p_store p1))\<rparr>))"

definition sharedGitService :: "nat \<Rightarrow> process \<Rightarrow> service" where
  "sharedGitService cacheCapacity p = \<lparr>db_conn = p_store p, state_cache = fmempty, cache_capacity = cacheCapacity\<rparr>"

text \<open>Closing, or a crash: SQLite rolls back what was not committed.\<close>

definition destroy_store :: "conn \<Rightarrow> conn" where
  "destroy_store c =
     (if is_open c then close_db (c\<lparr>cdb := (case saved c of None \<Rightarrow> cdb c | Some d \<Rightarrow> d), saved := None\<rparr>) else c)"

text \<open>The next process on the same file; no call fails while it opens the store, later ones may.\<close>

definition restarted :: "nat \<Rightarrow> bool list \<Rightarrow> service \<Rightarrow> service" where
  "restarted cacheCapacity fs svc =
     (let p = sharedCommitStore True (new_process (cdb (destroy_store (db_conn svc))) []);
          svc1 = sharedGitService cacheCapacity p
      in svc1\<lparr>db_conn := (db_conn svc1)\<lparr>faults := fs\<rparr>\<rparr>)"

section \<open>What a restart keeps\<close>

lemma restarted_value:
  assumes "svc_ok e svc"
  shows "restarted n fs svc = \<lparr>db_conn = \<lparr>is_open = True, cdb = opened_db (cdb (db_conn svc)), saved = None, fk_on = True, faults = fs\<rparr>,
    state_cache = fmempty, cache_capacity = n\<rparr>"
proof -
  have "saved (db_conn svc) = None" "fk_ok (cdb (db_conn svc))" using assms by (simp_all add: svc_ok_def sound_db_def)
  then show ?thesis using init_store_value [of "p_store (new_process (cdb (db_conn svc)) [])"]
    by (simp add: restarted_def sharedCommitStore_def sharedGitService_def destroy_store_def close_db_def new_process_def)
qed

lemma restarted_ok:
  assumes ok: "svc_ok e svc"
  shows "svc_ok e (restarted n fs svc)"
proof -
  let ?d = "cdb (db_conn svc)"
  have sd: "sound_db e ?d" using ok by (simp add: svc_ok_def)
  have "sound_db e (opened_db ?d)"
  proof (cases "kSchemaVersion \<le> schema_version ?d")
    case True
    have "db_view e (?d\<lparr>meta_version := v\<rparr>) = db_view e ?d" for v by (simp add: db_view_def fun_eq_iff)
    with sd True show ?thesis by (simp add: opened_db_def sound_db_def ids_ok_def)
  qed (simp add: opened_db_def sound_db_def ids_ok_def fk_ok_def fmpred_iff)
  then show ?thesis by (simp add: restarted_value [OF ok] svc_ok_def memo.faithful_def cacheGet_def)
qed

lemma restarted_same:
  assumes "svc_ok e svc" and "meta_version (cdb (db_conn svc)) = Some ''5''"
  shows "cdb (db_conn (restarted n fs svc)) = cdb (db_conn svc)"
  using assms by (simp add: restarted_value)

end
