(* ===== verification/Service_Reach.thy ===== *)
theory Service_Reach
  imports Service_Squash Import_Ops Service_Start
begin

text \<open>
  Sequences of calls on the service of \<open>src/service/GitService.cpp\<close>, imports and exports of
  history files, the deletion of a level as \<open>src/ui/LevelBrowserLayer.cpp\<close> does it and
  restarts of the program included, and what holds after any of them.
\<close>

section \<open>The remaining operations\<close>

definition updateCommitMessage :: "commit_id \<Rightarrow> string \<Rightarrow> service \<Rightarrow> bool \<times> service" where
  "updateCommitMessage i msg svc =
     (case updateMessage i msg (db_conn svc) of (ok, c) \<Rightarrow> (ok, svc\<lparr>db_conn := c\<rparr>))"

text \<open>The cache is dropped only when the deletion succeeded.\<close>

definition delete_level :: "level_key \<Rightarrow> service \<Rightarrow> bool \<times> service" where
  "delete_level lk svc =
     (case deleteLevel lk (db_conn svc) of (ok, c) \<Rightarrow>
        let svc1 = svc\<lparr>db_conn := c\<rparr> in (ok, if ok then clearReconstructCache svc1 else svc1))"

lemma submap_history:
  assumes sub: "\<And>j r. fmlookup (commits d') j = Some r \<Longrightarrow> fmlookup (commits d) j = Some r" and fk: "fk_ok d'"
  shows "history (db_view e d) j s \<Longrightarrow> fmlookup (commits d') j \<noteq> None \<Longrightarrow> history (db_view e d') j s"
proof (induction rule: history.induct)
  case (root i \<delta>)
  then obtain r where "fmlookup (commits d') i = Some r" by blast
  with sub [OF this] root(1) have "db_view e d' i = Some (None, \<delta>)" by (simp add: db_view_def)
  then show ?case by (rule history.root)
next
  case (child i p \<delta> st)
  then obtain r where r: "fmlookup (commits d') i = Some r" by blast
  with sub [OF r] child(1) have v: "db_view e d' i = Some (Some p, \<delta>)" by (simp add: db_view_def)
  then have "r_parent r = Some p" using r by (auto simp: db_view_def split: option.splits)
  with fk_parent [OF fk r] child(3) v show ?case by (blast intro: history.child)
qed

lemma delete_level_ok:
  assumes ok: "svc_ok e svc" and run: "delete_level lk svc = (res, svc')"
  shows "svc_ok e svc' \<and>
    (if res then cdb (db_conn svc') = deleted lk (cdb (db_conn svc)) \<and>
       (\<forall>j s. history (db_view e (cdb (db_conn svc))) j s \<longrightarrow> fmlookup (commits (cdb (db_conn svc'))) j \<noteq> None \<longrightarrow>
          history (db_view e (cdb (db_conn svc'))) j s)
     else cdb (db_conn svc') = cdb (db_conn svc))"
proof -
  let ?d = "cdb (db_conn svc)"
  from ok have sv: "saved (db_conn svc) = None" "fk_on (db_conn svc)" "sound_db e ?d" by (simp_all add: svc_ok_def)
  obtain c where del: "deleteLevel lk (db_conn svc) = (res, c)" using run by (auto simp: delete_level_def Let_def split: prod.splits)
  show ?thesis
  proof (cases res)
    case False
    with deleteLevel_False [OF _ sv(1)] del run ok show ?thesis
      by (auto simp: delete_level_def svc_ok_def memo.faithful_def cacheGet_def)
  next
    case True
    from deleteLevel_True [OF del [unfolded eqTrueI [OF True]] sv(1)] sv(2)
    have d: "cdb c = deleted lk ?d" "saved c = None" "fk_on c" "fk_ok (cdb c)" by blast+
    have keep: "history (db_view e ?d) j s \<Longrightarrow> fmlookup (commits (cdb c)) j \<noteq> None \<Longrightarrow> history (db_view e (cdb c)) j s" for j s
      by (rule submap_history [OF _ d(4)]) (auto simp: d(1) deleted_def split: if_splits)
    have "\<exists>s. history (db_view e (cdb c)) j s" if "fmlookup (commits (cdb c)) j = Some r" for j r
    proof -
      from that have "fmlookup (commits ?d) j = Some r" by (auto simp: d(1) deleted_def split: if_splits)
      with sv(3) keep that show ?thesis unfolding sound_db_def by (metis option.distinct(1))
    qed
    then have "sound_db e (cdb c)" using d sv(3) ids_ok_deleted by (simp add: sound_db_def)
    then show ?thesis using True del run d keep by (auto simp: delete_level_def svc_ok_def memo.faithful_clear)
  qed
qed

lemma updateCommitMessage_ok:
  assumes ok: "svc_ok e svc" and run: "updateCommitMessage i msg svc = (res, svc')"
  shows "svc_ok e svc' \<and> db_view e (cdb (db_conn svc')) = db_view e (cdb (db_conn svc)) \<and>
    autoinc (cdb (db_conn svc')) = autoinc (cdb (db_conn svc)) \<and> refs (cdb (db_conn svc')) = refs (cdb (db_conn svc)) \<and>
    meta_version (cdb (db_conn svc')) = meta_version (cdb (db_conn svc)) \<and>
    (\<forall>j. map_option (\<lambda>r. (r_level r, r_parent r)) (fmlookup (commits (cdb (db_conn svc'))) j) =
       map_option (\<lambda>r. (r_level r, r_parent r)) (fmlookup (commits (cdb (db_conn svc))) j))"
proof -
  let ?c = "db_conn svc" and ?d = "cdb (db_conn svc)"
  from ok have sv: "saved ?c = None" "fk_on ?c" "sound_db e ?d" by (simp_all add: svc_ok_def)
  obtain c where upd: "updateMessage i msg ?c = (res, c)" and s': "svc' = svc\<lparr>db_conn := c\<rparr>"
    using run by (auto simp: updateCommitMessage_def split: prod.splits)
  have same: ?thesis if "cdb c = ?d" "saved c = None" "fk_on c"
    using that ok s' by (simp add: svc_ok_def memo.faithful_def cacheGet_def)
  show ?thesis
  proof (cases "is_open ?c")
    case False
    then show ?thesis using upd same sv by (simp add: updateMessage_def)
  next
    case True
    obtain x c1 where ex: "exec (stmt_update_message i msg) ?c = (x, c1)" by fastforce
    note a = exec_auto [OF ex sv(1)]
    have c: "c = c1" using upd True ex by (auto simp: updateMessage_def split: option.splits)
    show ?thesis
    proof (cases "x = None \<or> fmlookup (commits ?d) i = None")
      case True
      then have "cdb c1 = ?d" using a by (auto simp: stmt_update_message_def split: option.splits)
      then show ?thesis using same a c sv by simp
    next
      case False
      then obtain r where r: "fmlookup (commits ?d) i = Some r"
        and d': "cdb c1 = ?d\<lparr>commits := fmupd i (r\<lparr>r_message := msg\<rparr>) (commits ?d)\<rparr>" and fk: "fk_ok (cdb c1)"
        using a sv(2) by (auto simp: stmt_update_message_def)
      have v: "db_view e (cdb c1) = db_view e ?d"
        using r by (auto simp: d' db_view_def delta_of_def rowFromStatement_def fun_eq_iff)
      have dom: "fmlookup (commits (cdb c1)) j = None \<longleftrightarrow> fmlookup (commits ?d) j = None" for j using r by (cases "j = i") (simp_all add: d')
      have ids: "ids_ok (cdb c1)" using sv(3) r by (auto simp: sound_db_def ids_ok_def d' fmpred_iff split: if_splits)
      have "sound_db e (cdb c1)" using sv(3) ids fk dom unfolding sound_db_def v by (metis not_Some_eq)
      moreover have "good_state e (cdb c1) = good_state e ?d" by (simp add: good_state_def fun_eq_iff v dom) (simp add: d')
      ultimately show ?thesis using ok a c s' v d' r by (simp add: svc_ok_def memo.faithful_def cacheGet_def)
    qed
  qed
qed

section \<open>Sequences of calls\<close>

datatype git_call =
    G_Commit int level_key string string "u64 list"
  | G_Checkout int level_key commit_id
  | G_Revert int level_key commit_id
  | G_Squash int level_key "commit_id list" string
  | G_Import level_key level_key
  | G_Delete level_key
  | G_Message commit_id string
  | G_Reconstruct commit_id
  | G_ClearCache
  | G_Export package_env level_key string disk
  | G_ImportMany package_env "nat \<Rightarrow> int" level_key "string list" disk
  | G_Restart nat "bool list"

fun git_step :: "'j service_env \<Rightarrow> git_call \<Rightarrow> service \<Rightarrow> service option" where
  "git_step e (G_Commit now lk msg live ds) svc = map_option snd (git_commit e now lk msg live ds svc)"
| "git_step e (G_Checkout now lk target) svc = map_option snd (checkout e now lk target svc)"
| "git_step e (G_Revert now lk target) svc = map_option snd (revert e now lk target svc)"
| "git_step e (G_Squash now lk ids msg) svc = map_option snd (git_squash e now lk ids msg svc)"
| "git_step e (G_Import dest src) svc = map_option snd (importLevelFrom e dest src svc)"
| "git_step e (G_Delete lk) svc = Some (snd (delete_level lk svc))"
| "git_step e (G_Message i msg) svc = Some (snd (updateCommitMessage i msg svc))"
| "git_step e (G_Reconstruct i) svc = map_option snd (reconstruct e i svc)"
| "git_step e G_ClearCache svc = Some (clearReconstructCache svc)"
| "git_step e (G_Export g lk outPath d) svc = map_option (\<lambda>r. fst (snd r)) (exportLevelToGdge e g lk outPath svc d)"
| "git_step e (G_ImportMany g now dest inPaths d) svc =
     map_option (\<lambda>r. fst (snd r)) (importManyFromGdge e g now dest inPaths svc d)"
| "git_step e (G_Restart cacheCapacity fs) svc = Some (restarted cacheCapacity fs svc)"

text \<open>A service on a new database, with any capacity and any schedule of failures.\<close>

definition new_service :: "nat \<Rightarrow> bool list \<Rightarrow> service" where
  "new_service n fs =
     \<lparr>db_conn = \<lparr>is_open = True, cdb = empty_db\<lparr>meta_version := Some ''5''\<rparr>, saved = None, fk_on = True, faults = fs\<rparr>,
      state_cache = fmempty, cache_capacity = n\<rparr>"

inductive git_reach :: "'j service_env \<Rightarrow> service \<Rightarrow> bool" for e where
  start: "git_reach e (new_service n fs)"
| step: "git_reach e svc \<Longrightarrow> git_step e k svc = Some svc' \<Longrightarrow> git_reach e svc'"

lemma checkout_ok:
  assumes "env_ok e" and "svc_ok e svc" and run: "checkout e now lk target svc = Some (res, svc')"
  shows "svc_ok e svc' \<and>
    (case res of
       Inl err \<Rightarrow> cdb (db_conn svc') = cdb (db_conn svc)
     | Inr (s, None) \<Rightarrow> cdb (db_conn svc') = cdb (db_conn svc) \<and> state_of e (cdb (db_conn svc)) target s
     | Inr (s, Some i) \<Rightarrow> state_of e (cdb (db_conn svc)) target s \<and> (\<exists>h. fmlookup (refs (cdb (db_conn svc))) lk = Some h \<and>
         commit_added e (cdb (db_conn svc)) lk (Some h) i s (cdb (db_conn svc'))))"
proof -
  from run obtain p svc1 where p: "prepareCheckout e lk target svc = Some (p, svc1)"
    by (cases "prepareCheckout e lk target svc") (auto simp: checkout_def run_head_update_def)
  from run_head_update_ok [OF assms(1) prepareCheckout_ok [OF assms(2) p]] run p show ?thesis by (simp add: checkout_def)
qed

lemma revert_ok:
  assumes "env_ok e" and "svc_ok e svc" and run: "revert e now lk target svc = Some (res, svc')"
  shows "svc_ok e svc' \<and>
    (case res of
       Inl err \<Rightarrow> cdb (db_conn svc') = cdb (db_conn svc)
     | Inr (v, None) \<Rightarrow> cdb (db_conn svc') = cdb (db_conn svc) \<and> reverted e svc lk target v
     | Inr (v, Some i) \<Rightarrow> reverted e svc lk target v \<and> (\<exists>h. fmlookup (refs (cdb (db_conn svc))) lk = Some h \<and>
         commit_added e (cdb (db_conn svc)) lk (Some h) i (rp_state v) (cdb (db_conn svc'))))"
proof -
  from run obtain p svc1 where p: "prepareRevert e lk target svc = Some (p, svc1)"
    by (cases "prepareRevert e lk target svc") (auto simp: revert_def run_head_update_def)
  from run_head_update_ok [OF assms(1) prepareRevert_ok [OF assms(2) p]] run p show ?thesis by (simp add: revert_def)
qed

lemma clear_ok: "svc_ok e svc \<Longrightarrow> svc_ok e (clearReconstructCache svc)"
  by (simp add: svc_ok_def memo.faithful_clear)

lemma git_step_ok:
  assumes e: "env_ok e" and ok: "svc_ok e svc" and run: "git_step e k svc = Some svc'"
  shows "svc_ok e svc'"
proof (cases k)
  case (G_Delete lk)
  with run delete_level_ok [OF ok, of lk "fst (delete_level lk svc)" svc'] show ?thesis by (auto simp: prod_eq_iff)
next
  case (G_Message i msg)
  with run updateCommitMessage_ok [OF ok, of i msg "fst (updateCommitMessage i msg svc)" svc'] show ?thesis by (auto simp: prod_eq_iff)
next
  case (G_Reconstruct i)
  with run reconstruct_ok [OF ok, of i] show ?thesis by auto
next
  case (G_Export g lk outPath d)
  with run exportLevel_ok [OF ok] show ?thesis by (fastforce simp: step_ok_def)
next
  case (G_ImportMany g now dest inPaths d)
  with run importMany_ok [OF e ok] show ?thesis by fastforce
qed (use run clear_ok [OF ok] restarted_ok [OF ok] git_commit_ok [OF e ok] checkout_ok [OF e ok] revert_ok [OF e ok] git_squash_ok [OF e ok] importLevelFrom_ok [OF e ok]
  in \<open>auto simp: map_option_case split: option.splits\<close>)

lemma new_service_ok: "svc_ok e (new_service n fs)"
  by (simp add: svc_ok_def new_service_def sound_db_def fk_ok_def ids_ok_def empty_db_def fmpred_iff memo.faithful_def cacheGet_def)

lemma git_reach_ok: "git_reach e svc \<Longrightarrow> env_ok e \<Longrightarrow> svc_ok e svc"
  by (induction rule: git_reach.induct) (auto intro: new_service_ok git_step_ok)

end
