(* ===== verification/Service_Props.thy ===== *)
theory Service_Props
  imports Service_Reach
begin

text \<open>
  The properties of the service (\<open>src/service/GitService.cpp\<close>) over all reachable services
  and all schedules of SQLite failures, with a concrete run for the witnesses.
\<close>

section \<open>A concrete run\<close>

definition sample_env :: "jv service_env" where
  "sample_env = \<lparr>e_zlib = stored_zlib, e_json = jv_json, e_fields = sorted_keys, e_objects = sorted_keys,
     e_rows = sorted_keys, e_oob = (\<lambda>_. 0)\<rparr>"

lemma sample_env_ok: "env_ok sample_env"
  by (simp add: env_ok_def sample_env_def stored_zlib_ok jv_json_ok sorted_keys_fields)

definition sample_git_calls :: "git_call list" where
  "sample_git_calls =
     [G_Commit 10 ''L'' ''first'' ''a;1,1,2,5;'' [7], G_Commit 11 ''L'' ''second'' ''a;1,1,2,6;'' [8]]"

fun git_run :: "'j service_env \<Rightarrow> git_call list \<Rightarrow> service \<Rightarrow> service" where
  "git_run e [] svc = svc"
| "git_run e (k # ks) svc = git_run e ks (case git_step e k svc of None \<Rightarrow> svc | Some svc' \<Rightarrow> svc')"

lemma git_run_reach: "git_reach e svc \<Longrightarrow> git_reach e (git_run e ks svc)"
  by (induction ks arbitrary: svc) (auto split: option.split intro: git_reach.step)

definition sample_svc :: service where
  "sample_svc = git_run sample_env sample_git_calls (new_service 4 [])"

text \<open>The value of the run, computed once and used in every later evaluation.\<close>

lemma sample_svc_value [code]:
  "sample_svc =
    \<lparr>db_conn = \<lparr>is_open = True,
      cdb = \<lparr>commits = fmap_of_list
         [(1, \<lparr>r_level = ''L'', r_parent = None, r_reverts = None, r_message = ''first'', r_created = 10,
            r_blob = (''a'' @ [CHR 0x00, CHR 0x00, CHR 0x00] @ ''o,ch.o.,chcr.o,cb.s.,ca.sca..,c+.a,o,cucucicd.sc7.,cfciceclcdcs.o,c1.sc1.,c2.sc5....,c-.a.,c~.a..'')\<rparr>),
          (2, \<lparr>r_level = ''L'', r_parent = Some 1, r_reverts = None, r_message = ''second'', r_created = 11,
            r_blob = (''Q'' @ [CHR 0x00, CHR 0x00, CHR 0x00] @ ''o,ch.o.,c+.a.,c-.a.,c~.a,o,cucucicd.sc7.,cfciceclcdcs.o,c2.o,cb.sc5.,ca.sc6......'')\<rparr>)],
        refs = fmap_of_list [(''L'', 2)], autoinc = 2, meta_version = Some ''5''\<rparr>, saved = None, fk_on = True, faults = []\<rparr>,
     state_cache = fmap_of_list [(1, \<lparr>rawHeader = ''a'', header = fmap_of_list [], objects = fmap_of_list [(7, \<lparr>uuid = 7, obj_fields = fmap_of_list [(''1'', ''1''), (''2'', ''5'')]\<rparr>)]\<rparr>),
         (2, \<lparr>rawHeader = ''a'', header = fmap_of_list [], objects = fmap_of_list [(7, \<lparr>uuid = 7, obj_fields = fmap_of_list [(''1'', ''1''), (''2'', ''6'')]\<rparr>)]\<rparr>)], cache_capacity = 4\<rparr>"
  by code_simp

lemma sample_reach: "git_reach sample_env sample_svc"
  unfolding sample_svc_def by (intro git_run_reach git_reach.start)

lemma sample_facts:
  "fmlookup (refs (cdb (db_conn sample_svc))) ''L'' = Some 2"
  "fmlookup (commits (cdb (db_conn sample_svc))) 1 \<noteq> None" "fmlookup (commits (cdb (db_conn sample_svc))) 2 \<noteq> None"
  "faults (db_conn sample_svc) = []" "is_open (db_conn sample_svc)"
proof -
  have "(let c = db_conn sample_svc in (fmlookup (refs (cdb c)) ''L'', map_option r_parent (fmlookup (commits (cdb c)) 1),
      map_option r_parent (fmlookup (commits (cdb c)) 2), faults c, is_open c)) = (Some 2, Some None, Some (Some 1), [], True)"
    by code_simp
  then show "fmlookup (refs (cdb (db_conn sample_svc))) ''L'' = Some 2"
    "fmlookup (commits (cdb (db_conn sample_svc))) 1 \<noteq> None" "fmlookup (commits (cdb (db_conn sample_svc))) 2 \<noteq> None"
    "faults (db_conn sample_svc) = []" "is_open (db_conn sample_svc)" by (auto simp: Let_def)
qed

text \<open>The identifier an operation reports, read off its outcome.\<close>

definition new_id :: "((git_error + 't \<times> commit_id option) \<times> service) option \<Rightarrow> commit_id option" where
  "new_id out = (case out of Some (Inr (v, i), _) \<Rightarrow> i | _ \<Rightarrow> None)"

lemma new_id_Some: "new_id out = Some k \<Longrightarrow> \<exists>v svc. out = Some (Inr (v, Some k), svc)"
  by (auto simp: new_id_def split: option.splits prod.splits sum.splits)

section \<open>Properties\<close>

text \<open>
  C1. After any sequence of commits, checkouts, reverts, squashes, imports, deletions and
  message edits, whatever SQLite calls fail: no transaction is open, no reference dangles,
  every commit has a state (its chain of parents ends and every delta on it parses), and
  reconstructing any identifier returns, leaves the database alone and, with or without the
  cache, gives that state; it succeeds for every commit when no call fails.
\<close>

theorem git_invariant:
  assumes "git_reach e svc" and "env_ok e"
  shows "saved (db_conn svc) = None \<and> fk_ok (cdb (db_conn svc))
    \<and> (\<forall>i r. fmlookup (commits (cdb (db_conn svc))) i = Some r \<longrightarrow> (\<exists>s. history (db_view e (cdb (db_conn svc))) i s))
    \<and> (\<forall>i. \<exists>res svc'. reconstruct e i svc = Some (res, svc') \<and> cdb (db_conn svc') = cdb (db_conn svc)
         \<and> (\<forall>s. res = Some s \<longrightarrow> fmlookup (commits (cdb (db_conn svc))) i \<noteq> None \<longrightarrow> yields (db_view e (cdb (db_conn svc))) i s)
         \<and> (faults (db_conn svc) = [] \<and> is_open (db_conn svc) \<and> fmlookup (commits (cdb (db_conn svc))) i \<noteq> None \<longrightarrow> res \<noteq> None))"
proof -
  have ok: "svc_ok e svc" by (rule git_reach_ok [OF assms])
  have "\<exists>res svc'. reconstruct e i svc = Some (res, svc') \<and> cdb (db_conn svc') = cdb (db_conn svc)
         \<and> (\<forall>s. res = Some s \<longrightarrow> fmlookup (commits (cdb (db_conn svc))) i \<noteq> None \<longrightarrow> yields (db_view e (cdb (db_conn svc))) i s)
         \<and> (faults (db_conn svc) = [] \<and> is_open (db_conn svc) \<and> fmlookup (commits (cdb (db_conn svc))) i \<noteq> None \<longrightarrow> res \<noteq> None)" for i
    using reconstruct_ok [OF ok, of i] by (auto simp: same_db_def)
  with ok show ?thesis by (simp add: svc_ok_def sound_db_def)
qed

theorem git_invariant_witness:
  "\<exists>s svc'. reconstruct sample_env 1 sample_svc = Some (Some s, svc') \<and> yields (db_view sample_env (cdb (db_conn sample_svc))) 1 s"
  using git_invariant [OF sample_reach sample_env_ok] sample_facts by blast









text \<open>
  C7. A revert that succeeds applies the change from the target back to its parent to the
  state of the HEAD, reports the conflicts of that application and adds the result as a
  commit on top of the HEAD.  Reverting the HEAD itself has no conflict and gives the state
  of its parent.
\<close>

theorem revert_spec:
  assumes "git_reach e svc" and "env_ok e" and "revert e now lk target svc = Some (res, svc')"
  shows "case res of
       Inl err \<Rightarrow> cdb (db_conn svc') = cdb (db_conn svc)
     | Inr (v, i) \<Rightarrow> reverted e svc lk target v \<and>
         (\<forall>k. i = Some k \<longrightarrow> (\<exists>h. fmlookup (refs (cdb (db_conn svc))) lk = Some h \<and>
            commit_added e (cdb (db_conn svc)) lk (Some h) k (rp_state v) (cdb (db_conn svc')))) \<and>
         (fmlookup (refs (cdb (db_conn svc))) lk = Some target \<longrightarrow> rp_conflicts v = [] \<and>
            (\<exists>r p. fmlookup (commits (cdb (db_conn svc))) target = Some r \<and> r_parent r = Some p \<and>
               yields (db_view e (cdb (db_conn svc))) p (rp_state v)))"
proof -
  let ?d = "cdb (db_conn svc)"
  note rv = revert_ok [OF assms(2) git_reach_ok [OF assms(1,2)] assms(3)]
  have head: "rp_conflicts v = [] \<and> (\<exists>r p. fmlookup (commits ?d) target = Some r \<and> r_parent r = Some p \<and>
      yields (db_view e ?d) p (rp_state v))"
    if v: "reverted e svc lk target v" and h: "fmlookup (refs ?d) lk = Some target" for v
  proof -
    from v h obtain r p ps ts hs where x: "fmlookup (commits ?d) target = Some r" "r_parent r = Some p" "yields (db_view e ?d) p ps"
      "yields (db_view e ?d) target ts" "yields (db_view e ?d) target hs" "keyed ps" "keyed ts" "v = make_revert e ps ts hs"
      unfolding reverted_def by auto
    let ?u = "diff_states e ts ps"
    have n: "norm_state hs = norm_state ts" by (rule yields_det [OF x(5,4)])
    have a: "snd (apply_delta ts ?u) = []" "norm_state (fst (apply_delta ts ?u)) = norm_state ps"
      using apply_diff [OF x(7,6), of "e_objects e (objects ts)" "e_objects e (objects ps)"] assms(2)
      by (simp_all add: diff_states_def env_ok_def hash_order_def)
    then have "rp_conflicts v = []" "norm_state (rp_state v) = norm_state ps"
      using apply_delta_norm_cong [OF n, of ?u] by (simp_all add: x(8) make_revert_def split_beta)
    with x(1-3) show ?thesis unfolding yields_def by metis
  qed
  show ?thesis using rv head by (auto split: sum.splits prod.splits option.splits)
qed

definition sample_revert :: "((git_error + revert_payload \<times> commit_id option) \<times> service) option" where
  "sample_revert = revert sample_env 12 ''L'' 2 sample_svc"

theorem revert_spec_witness:
  "\<exists>v svc'. sample_revert = Some (Inr (v, Some 3), svc') \<and> rp_conflicts v = [] \<and>
     commit_added sample_env (cdb (db_conn sample_svc)) ''L'' (Some 2) 3 (rp_state v) (cdb (db_conn svc'))"
proof -
  have "new_id sample_revert = Some 3" by code_simp
  from new_id_Some [OF this] obtain v svc' where run: "sample_revert = Some (Inr (v, Some 3), svc')" by blast
  from revert_spec [OF sample_reach sample_env_ok this [unfolded sample_revert_def]] run sample_facts(1) show ?thesis by auto
qed

text \<open>
  C5. A squash that reports an error changes nothing; one that succeeds replaces the given
  contiguous commits by one with the state of the newest, and the state of every other
  commit of every level stays what it was; a HEAD among them moves to the new commit.
\<close>

theorem squash_spec:
  assumes "git_reach e svc" and "env_ok e" and "git_squash e now lk ids msg svc = Some (res, svc')"
  shows "case res of
       Inl err \<Rightarrow> cdb (db_conn svc') = cdb (db_conn svc)
     | Inr (t, i) \<Rightarrow> \<exists>k. i = Some k \<and> commits_folded e (cdb (db_conn svc)) lk ids k t (cdb (db_conn svc'))"
  using git_squash_ok [OF assms(2) git_reach_ok [OF assms(1,2)] assms(3)] by blast

definition sample_squash :: "((git_error + level_state \<times> commit_id option) \<times> service) option" where
  "sample_squash = git_squash sample_env 12 ''L'' [1, 2] ''both'' sample_svc"

theorem squash_spec_witness:
  "\<exists>t svc'. sample_squash = Some (Inr (t, Some 3), svc') \<and>
     commits_folded sample_env (cdb (db_conn sample_svc)) ''L'' [1, 2] 3 t (cdb (db_conn svc'))"
proof -
  have "new_id sample_squash = Some 3" by code_simp
  from new_id_Some [OF this] obtain t svc' where run: "sample_squash = Some (Inr (t, Some 3), svc')" by blast
  from squash_spec [OF sample_reach sample_env_ok this [unfolded sample_squash_def]] run show ?thesis by auto
qed

text \<open>
  C9. Taking over the history of another level that reports an error changes nothing; one
  that succeeds gives the destination an isomorphic copy of the source's history in which
  every copied commit has the state of its original, and leaves the states of all other
  levels alone.
\<close>

theorem import_level_spec:
  assumes "git_reach e svc" and "env_ok e" and "importLevelFrom e dest src svc = Some (res, svc')"
  shows "case res of
       Inl err \<Rightarrow> cdb (db_conn svc') = cdb (db_conn svc)
     | Inr s \<Rightarrow> history_copied e (cdb (db_conn svc)) dest src (cdb (db_conn svc'))"
  using importLevelFrom_ok [OF assms(2) git_reach_ok [OF assms(1,2)] assms(3)] by blast

definition sample_import :: "((git_error + level_state) \<times> service) option" where
  "sample_import = importLevelFrom sample_env ''N'' ''L'' sample_svc"

theorem import_level_spec_witness:
  "\<exists>s svc'. sample_import = Some (Inr s, svc') \<and>
     history_copied sample_env (cdb (db_conn sample_svc)) ''N'' ''L'' (cdb (db_conn svc'))"
proof -
  have "map_option (\<lambda>x. isl (fst x)) sample_import = Some False" by code_simp
  then obtain r svc' where "sample_import = Some (r, svc')" "\<not> isl r" by auto
  then obtain s where run: "sample_import = Some (Inr s, svc')" by (cases r) auto
  from import_level_spec [OF sample_reach sample_env_ok this [unfolded sample_import_def]] run show ?thesis by auto
qed

text \<open>
  C25. A defect: when the query for the HEAD fails, \<open>commit\<close> takes the level for one without
  commits and adds a root commit, so the HEAD leaves the existing history although the
  commit reports success.  Here only the first call fails.
\<close>

theorem head_failure_detaches_history:
  "\<exists>svc svc' r. git_reach sample_env svc \<and> fmlookup (refs (cdb (db_conn svc))) ''L'' = Some 1
     \<and> faults (db_conn svc) = [True]
     \<and> git_commit sample_env 11 ''L'' ''second'' ''a;1,1,2,6;'' [8] svc = Some (Inr 2, svc')
     \<and> fmlookup (commits (cdb (db_conn svc'))) 2 = Some r \<and> r_parent r = None
     \<and> fmlookup (refs (cdb (db_conn svc'))) ''L'' = Some 2"
proof -
  define svc where "svc = git_run sample_env [G_Commit 10 ''L'' ''first'' ''a;1,1,2,5;'' [7]] (new_service 4 (replicate 13 False @ [True]))"
  define out where "out = git_commit sample_env 11 ''L'' ''second'' ''a;1,1,2,6;'' [8] svc"
  have reach: "git_reach sample_env svc" unfolding svc_def by (intro git_run_reach git_reach.start)
  have "fmlookup (refs (cdb (db_conn svc))) ''L'' = Some 1 \<and> faults (db_conn svc) = [True]" unfolding svc_def by code_simp
  moreover have "map_option (\<lambda>(r, s). (r, map_option r_parent (fmlookup (commits (cdb (db_conn s))) 2), fmlookup (refs (cdb (db_conn s))) ''L'')) out =
      Some (Inr 2, Some None, Some 2)" unfolding out_def svc_def by code_simp
  ultimately show ?thesis using reach by (auto simp: out_def)
qed

end
