(* ===== verification/Change_Text.thy ===== *)
theory Change_Text
  imports Git_Service
begin

text \<open>
  What the user is told about a commit: the counts of \<open>src/service/CommitSummaryBuilder.cpp\<close>
  and their tags in \<open>src/ui/HistoryCommitRow.cpp\<close>, the description of a delta
  (\<open>src/ui/presentation/DeltaText.cpp\<close>, \<open>DeltaColors.hpp\<close>), and the paged viewer of
  \<open>src/ui/DeltaInfoLayer.cpp\<close> without its drawing.
\<close>

section \<open>Summaries\<close>

record commit_summary =
  cs_id :: commit_id
  cs_message :: string
  cs_created :: int
  headerCount :: int
  addCount :: int
  modifyCount :: int
  removeCount :: int

definition delta_counts :: "delta \<Rightarrow> int \<times> int \<times> int \<times> int" where
  "delta_counts d =
     (int (length (sorted_keys (headerChanges d))) + (case rawHeaderChange d of None \<Rightarrow> 0 | Some _ \<Rightarrow> 1),
      int (length (adds d)), int (length (modifies d)), int (length (removes d)))"

text \<open>A blob that is empty, does not decompress or does not parse leaves all counts zero.\<close>

definition summary_counts :: "'j service_env \<Rightarrow> string \<Rightarrow> int \<times> int \<times> int \<times> int" where
  "summary_counts e blob =
     (if blob = [] then (0, 0, 0, 0)
      else
        (case decompressBlob (e_zlib e) blob of
           None \<Rightarrow> (0, 0, 0, 0)
         | Some json \<Rightarrow> (case parseDelta (e_json e) json of None \<Rightarrow> (0, 0, 0, 0) | Some d \<Rightarrow> delta_counts d)))"

definition commit_summary_of :: "'j service_env \<Rightarrow> summary_row \<Rightarrow> commit_summary" where
  "commit_summary_of e row =
     (case summary_counts e (sum_blob row) of (h, a, m, r) \<Rightarrow>
        \<lparr>cs_id = sum_id row, cs_message = sum_message row, cs_created = sum_created row,
         headerCount = h, addCount = a, modifyCount = m, removeCount = r\<rparr>)"

definition buildCommitSummaries :: "'j service_env \<Rightarrow> summary_row list \<Rightarrow> commit_summary list" where
  "buildCommitSummaries e rows = map (commit_summary_of e) rows"

definition listSummaries :: "'j service_env \<Rightarrow> level_key \<Rightarrow> service \<Rightarrow> commit_summary list \<times> service" where
  "listSummaries e lk svc =
     (case listSummaryRows lk (db_conn svc) of (rows, c) \<Rightarrow> (buildCommitSummaries e rows, svc\<lparr>db_conn := c\<rparr>))"

section \<open>Describing a delta\<close>

datatype line_color = AddColor | ModColor | DelColor | HdrColor | TextColor

definition fieldKeyName :: "string \<Rightarrow> string" where
  "fieldKeyName k =
     (if k = kType then ''type''
      else if k = kX then ''x''
      else if k = kY then ''y''
      else if k = kRotation then ''rotation''
      else if k = kGroups then ''groups''
      else ''field '' @ k)"

definition kMaxField :: nat where
  "kMaxField = 160"

definition change_text :: "field_change \<Rightarrow> string" where
  "change_text ch = shorten (before ch) kMaxField @ '' -> '' @ shorten (after ch) kMaxField"

definition header_lines :: "delta \<Rightarrow> string list" where
  "header_lines d =
     map (\<lambda>k. ''Header '' @ fieldKeyName k @ '': '' @ change_text (the (fmlookup (headerChanges d) k)))
       (sorted_keys (headerChanges d)) @
     (case rawHeaderChange d of None \<Rightarrow> [] | Some ch \<Rightarrow> [''Header raw: '' @ change_text ch])"

definition add_line :: "lobject \<Rightarrow> string" where
  "add_line ob =
     ''+ object '' @ nat_to_string (unat (uuid ob)) @
     (case fmlookup (obj_fields ob) kType of None \<Rightarrow> [] | Some t \<Rightarrow> '' (type='' @ shorten t 40 @ '')'')"

definition remove_line :: "lobject \<Rightarrow> string" where
  "remove_line ob = ''- object '' @ nat_to_string (unat (uuid ob))"

definition modify_lines :: "modify \<Rightarrow> string list" where
  "modify_lines m =
     (''~ object '' @ nat_to_string (unat (m_uuid m))) #
     map (\<lambda>k. ''  '' @ fieldKeyName k @ '': '' @ change_text (the (fmlookup (m_fields m) k))) (sorted_keys (m_fields m))"

definition delta_lines :: "delta \<Rightarrow> string list" where
  "delta_lines d =
     (if headerChanges d = fmempty \<and> rawHeaderChange d = None \<and> adds d = [] \<and> removes d = [] \<and> modifies d = []
      then [''No recorded changes (empty delta).'']
      else header_lines d @ map add_line (adds d) @ map remove_line (removes d) @ concat (map modify_lines (modifies d)))"

definition newline :: char where
  "newline = CHR 0x0A"

definition describeDeltaText :: "delta \<Rightarrow> string" where
  "describeDeltaText d = concat (map (\<lambda>l. l @ [newline]) (delta_lines d))"

definition starts_with :: "string \<Rightarrow> string \<Rightarrow> bool" where
  "starts_with s p \<longleftrightarrow> take (length p) s = p"

definition colorForDeltaLine :: "string \<Rightarrow> line_color" where
  "colorForDeltaLine line =
     (if starts_with line ''Header'' then HdrColor
      else if starts_with line ''+'' then AddColor
      else if starts_with line ''-'' then DelColor
      else if starts_with line ''~'' \<or> starts_with line ''  '' then ModColor
      else TextColor)"

definition describeCommitChanges :: "'j service_env \<Rightarrow> commit_id \<Rightarrow> service \<Rightarrow> (string + string) \<times> service" where
  "describeCommitChanges e i svc =
     (case get_row (e_zlib e) i (db_conn svc) of (row, c) \<Rightarrow>
        ((case row of
            None \<Rightarrow> Inl ''Commit not found.''
          | Some r \<Rightarrow>
              (case parseDelta (e_json e) (row_delta r) of
                 None \<Rightarrow> Inl ''Could not read this commit's delta.''
               | Some d \<Rightarrow> Inr (describeDeltaText d))),
         svc\<lparr>db_conn := c\<rparr>))"

text \<open>The tags beside a commit in the history: only counts above zero are shown.\<close>

definition commit_tags :: "commit_summary \<Rightarrow> (string \<times> line_color) list" where
  "commit_tags c =
     (if headerCount c > 0 then [(''h'' @ int_to_string (headerCount c), HdrColor)] else []) @
     (if addCount c > 0 then [(''+'' @ int_to_string (addCount c), AddColor)] else []) @
     (if modifyCount c > 0 then [(''~'' @ int_to_string (modifyCount c), ModColor)] else []) @
     (if removeCount c > 0 then [(''-'' @ int_to_string (removeCount c), DelColor)] else [])"

section \<open>The viewer\<close>

text \<open>One round of the loop of \<open>splitBodyLines\<close>, on what is left of the text.\<close>

function split_from :: "string \<Rightarrow> string list" where
  "split_from s =
     (let line = takeWhile (\<lambda>c. c \<noteq> newline) s; rest = dropWhile (\<lambda>c. c \<noteq> newline) s;
          out = (if line \<noteq> [] \<or> s \<noteq> [] then [line] else [])
      in if rest = [] then out else out @ split_from (tl rest))"
  by pat_completeness auto

termination
proof (relation "measure length")
  fix s line rest and out :: "string list"
  assume "rest = dropWhile (\<lambda>c. c \<noteq> newline) s" "rest \<noteq> []"
  then have "length (tl rest) < length rest" "length rest \<le> length s"
    by (auto simp: length_dropWhile_le)
  then show "(tl rest, s) \<in> measure length" by simp
qed simp

declare split_from.simps [simp del]

definition splitBodyLines :: "string \<Rightarrow> string list" where
  "splitBodyLines body = (if body = [] then [[]] else split_from body)"

definition kLinesPerBlock :: nat where
  "kLinesPerBlock = 250"

definition blockCountFor :: "nat \<Rightarrow> nat" where
  "blockCountFor lineCount = (if lineCount = 0 then 1 else (lineCount + kLinesPerBlock - 1) div kLinesPerBlock)"

record viewer =
  v_lines :: "string list"
  v_block :: nat
  v_shown :: "(string \<times> line_color) list"
  v_label :: string
  v_prev :: bool
  v_next :: bool

definition showLoading :: "viewer \<Rightarrow> viewer" where
  "showLoading v = v\<lparr>v_shown := [], v_label := ''Loading...'', v_prev := False, v_next := False\<rparr>"

definition new_viewer :: viewer where
  "new_viewer = showLoading \<lparr>v_lines = [], v_block = 0, v_shown = [], v_label = [], v_prev = True, v_next = True\<rparr>"

definition showLoadError :: "string \<Rightarrow> viewer \<Rightarrow> viewer" where
  "showLoadError err v = v\<lparr>v_shown := [(err, TextColor)], v_label := ''Error'', v_prev := False, v_next := False\<rparr>"

definition block_lines :: "string list \<Rightarrow> nat \<Rightarrow> string list" where
  "block_lines ls b = take (min (b * kLinesPerBlock + kLinesPerBlock) (length ls) - b * kLinesPerBlock) (drop (b * kLinesPerBlock) ls)"

definition page_label :: "viewer \<Rightarrow> string" where
  "page_label v =
     (let n = length (v_lines v); lineStart = v_block v * kLinesPerBlock in
      if v_lines v = [] then ''Block 1 / 1''
      else ''Block '' @ nat_to_string (v_block v + 1) @ '' / '' @ nat_to_string (blockCountFor n) @
        ''  (lines '' @ nat_to_string (lineStart + 1) @ ''-'' @ nat_to_string (min (lineStart + kLinesPerBlock) n) @ '')'')"

definition showBlock :: "nat \<Rightarrow> viewer \<Rightarrow> viewer" where
  "showBlock blockIndex v =
     (let blocks = blockCountFor (length (v_lines v));
          v1 = v\<lparr>v_block := min blockIndex (blocks - 1)\<rparr>
      in v1\<lparr>v_shown := map (\<lambda>l. (l, colorForDeltaLine l)) (filter (\<lambda>l. l \<noteq> []) (block_lines (v_lines v1) (v_block v1))),
            v_label := page_label v1, v_prev := (v_block v1 > 0), v_next := (v_block v1 + 1 < blocks)\<rparr>)"

definition applyBody :: "string \<Rightarrow> viewer \<Rightarrow> viewer" where
  "applyBody body v = showBlock 0 (v\<lparr>v_lines := splitBodyLines body\<rparr>)"



text \<open>Opening the viewer on a commit.\<close>

definition load_viewer :: "string + string \<Rightarrow> viewer \<Rightarrow> viewer" where
  "load_viewer res v = (case res of Inl err \<Rightarrow> showLoadError err v | Inr body \<Rightarrow> applyBody body v)"

section \<open>Lines\<close>

lemma split_from_line:
  assumes "newline \<notin> set l"
  shows "split_from (l @ newline # s) = l # split_from s"
proof -
  have "takeWhile (\<lambda>c. c \<noteq> newline) (l @ newline # s) = l" "dropWhile (\<lambda>c. c \<noteq> newline) (l @ newline # s) = newline # s"
    using assms by (auto simp: takeWhile_append dropWhile_append)
  then show ?thesis by (subst split_from.simps) (simp add: Let_def)
qed

lemma split_from_Nil [simp]: "split_from [] = []"
  by (subst split_from.simps) simp

lemma split_from_lines:
  "list_all (\<lambda>l. newline \<notin> set l) ls \<Longrightarrow> split_from (concat (map (\<lambda>l. l @ [newline]) ls)) = ls"
  by (induction ls) (simp_all add: split_from_line)

text \<open>Text without line breaks in what the delta shows.\<close>

definition plain_change :: "string \<times> field_change \<Rightarrow> bool" where
  "plain_change kc \<longleftrightarrow> newline \<notin> set (fst kc) \<and> newline \<notin> set (before (snd kc)) \<and> newline \<notin> set (after (snd kc))"

definition plain_changes :: "(string, field_change) fmap \<Rightarrow> bool" where
  "plain_changes m \<longleftrightarrow> fmpred (\<lambda>k c. plain_change (k, c)) m"

definition plain_delta :: "delta \<Rightarrow> bool" where
  "plain_delta d \<longleftrightarrow> plain_changes (headerChanges d) \<and>
     (case rawHeaderChange d of None \<Rightarrow> True | Some c \<Rightarrow> plain_change ([], c)) \<and>
     list_all (\<lambda>ob. case fmlookup (obj_fields ob) kType of None \<Rightarrow> True | Some t \<Rightarrow> newline \<notin> set t) (adds d) \<and>
     list_all (\<lambda>m. plain_changes (m_fields m)) (modifies d)"

lemma shorten_plain: "newline \<notin> set s \<Longrightarrow> newline \<notin> set (shorten s n)"
  by (auto simp: shorten_def newline_def dest: in_set_takeD)

lemma number_plain [simp]: "newline \<notin> set (nat_to_string n)"
  using nat_to_string_digits [of n] by (fastforce simp: newline_def list_all_iff is_digit_def)

lemma change_text_plain: "plain_change (k, c) \<Longrightarrow> newline \<notin> set (change_text c)"
  using shorten_plain by (auto simp: plain_change_def change_text_def newline_def)

lemma fieldKeyName_plain: "newline \<notin> set k \<Longrightarrow> newline \<notin> set (fieldKeyName k)"
  by (auto simp: fieldKeyName_def newline_def)

lemma plain_changesD:
  assumes "plain_changes m" and "k \<in> set (sorted_keys m)"
  shows "newline \<notin> set (fieldKeyName k)" "newline \<notin> set (change_text (the (fmlookup m k)))"
proof -
  from assms obtain c where c: "fmlookup m k = Some c" "plain_change (k, c)"
    by (auto simp: plain_changes_def fmpred_iff fmlookup_dom'_iff)
  then have "newline \<notin> set k" by (simp add: plain_change_def)
  then show "newline \<notin> set (fieldKeyName k)" by (rule fieldKeyName_plain)
  from c show "newline \<notin> set (change_text (the (fmlookup m k)))" using change_text_plain by simp
qed

lemma delta_lines_plain:
  assumes "plain_delta d"
  shows "list_all (\<lambda>l. newline \<notin> set l) (delta_lines d)"
proof -
  have "newline \<notin> set (add_line ob)" if "ob \<in> set (adds d)" for ob
  proof (cases "fmlookup (obj_fields ob) kType")
    case None
    then show ?thesis by (simp add: add_line_def) (simp add: newline_def)
  next
    case (Some t)
    with assms that have "newline \<notin> set t" by (fastforce simp: plain_delta_def list_all_iff)
    with Some shorten_plain [of t 40] show ?thesis by (simp add: add_line_def) (simp add: newline_def)
  qed
  moreover have "newline \<notin> set (remove_line ob)" for ob
    by (simp add: remove_line_def) (simp add: newline_def)
  moreover have "newline \<notin> set l" if "l \<in> set (header_lines d)" for l
    using that assms plain_changesD [of "headerChanges d"] change_text_plain [of "[]"]
    by (auto simp: header_lines_def plain_delta_def split: option.splits) (simp_all add: newline_def)
  moreover have "newline \<notin> set l" if "m \<in> set (modifies d)" "l \<in> set (modify_lines m)" for m l
  proof -
    have "plain_changes (m_fields m)" using assms that(1) by (simp add: plain_delta_def list_all_iff)
    with that(2) plain_changesD [of "m_fields m"] show ?thesis
      by (auto simp: modify_lines_def) (simp_all add: newline_def)
  qed
  ultimately show ?thesis by (auto simp: delta_lines_def list_all_iff) (auto simp: newline_def)
qed

lemma describe_lines:
  assumes "plain_delta d"
  shows "splitBodyLines (describeDeltaText d) = delta_lines d"
proof -
  have "delta_lines d \<noteq> []"
  proof (cases "headerChanges d = fmempty")
    case False
    then obtain k c where "fmlookup (headerChanges d) k = Some c" by (metis fmap_ext fmempty_lookup not_Some_eq)
    then have "sorted_keys (headerChanges d) \<noteq> []" by (metis set_sorted_keys fmdom'I empty_iff empty_set)
    then show ?thesis by (simp add: delta_lines_def header_lines_def)
  qed (auto simp: delta_lines_def header_lines_def modify_lines_def split: option.splits)
  then have "describeDeltaText d \<noteq> []" by (cases "delta_lines d") (simp_all add: describeDeltaText_def)
  then show ?thesis using split_from_lines [OF delta_lines_plain [OF assms]]
    by (simp add: splitBodyLines_def describeDeltaText_def)
qed

text \<open>The colour of a line says what kind of change it is.\<close>

lemma line_colors [simp]:
  "colorForDeltaLine (''Header '' @ t) = HdrColor" "colorForDeltaLine (''Header raw: '' @ t) = HdrColor"
  "colorForDeltaLine (add_line ob) = AddColor" "colorForDeltaLine (remove_line ob) = DelColor"
  "colorForDeltaLine (''~ object '' @ t) = ModColor" "colorForDeltaLine (''  '' @ t) = ModColor"
  by (simp_all add: colorForDeltaLine_def starts_with_def add_line_def remove_line_def)

definition lines_of :: "line_color \<Rightarrow> string list \<Rightarrow> string list" where
  "lines_of col ls = filter (\<lambda>l. colorForDeltaLine l = col) ls"

lemma lines_of_append [simp]: "lines_of col (xs @ ys) = lines_of col xs @ lines_of col ys"
  by (simp add: lines_of_def)

lemma lines_of_same: "(\<And>l. l \<in> set ls \<Longrightarrow> colorForDeltaLine l = c) \<Longrightarrow> lines_of col ls = (if c = col then ls else [])"
  by (auto simp: lines_of_def filter_id_conv)

lemma header_colors: "l \<in> set (header_lines d) \<Longrightarrow> colorForDeltaLine l = HdrColor"
  by (auto simp: header_lines_def colorForDeltaLine_def starts_with_def split: option.splits)

lemma modify_colors: "l \<in> set (modify_lines m) \<Longrightarrow> colorForDeltaLine l = ModColor"
  by (auto simp: modify_lines_def colorForDeltaLine_def starts_with_def)

lemma modify_heads: "filter (\<lambda>l. starts_with l ''~'') (modify_lines m) = [hd (modify_lines m)]"
  by (simp add: modify_lines_def starts_with_def)

lemma modify_heads_all: "length (filter (\<lambda>l. starts_with l ''~'') (concat (map modify_lines ms))) = length ms"
  by (induction ms) (simp_all add: modify_heads)

lemma description_counts:
  "delta_counts d =
     (int (length (lines_of HdrColor (delta_lines d))), int (length (lines_of AddColor (delta_lines d))),
      int (length (filter (\<lambda>l. starts_with l ''~'') (delta_lines d))), int (length (lines_of DelColor (delta_lines d))))"
proof (cases "headerChanges d = fmempty \<and> rawHeaderChange d = None \<and> adds d = [] \<and> removes d = [] \<and> modifies d = []")
  case True
  then show ?thesis by (simp add: delta_counts_def delta_lines_def lines_of_def colorForDeltaLine_def starts_with_def)
next
  case False
  let ?mods = "concat (map modify_lines (modifies d))"
  have parts: "lines_of col (header_lines d) = (if HdrColor = col then header_lines d else [])"
    "lines_of col (map add_line (adds d)) = (if AddColor = col then map add_line (adds d) else [])"
    "lines_of col (map remove_line (removes d)) = (if DelColor = col then map remove_line (removes d) else [])"
    "lines_of col ?mods = (if ModColor = col then ?mods else [])" for col
    by (rule lines_of_same; auto simp: header_colors modify_colors)+
  have split: "lines_of col (delta_lines d) = lines_of col (header_lines d) @ lines_of col (map add_line (adds d)) @
      lines_of col (map remove_line (removes d)) @ lines_of col ?mods" for col
    using False by (auto simp: delta_lines_def)
  have "length (header_lines d) = length (sorted_keys (headerChanges d)) + (case rawHeaderChange d of None \<Rightarrow> 0 | Some _ \<Rightarrow> 1)"
    by (simp add: header_lines_def split: option.split)
  moreover have "filter (\<lambda>l. starts_with l ''~'') (header_lines d) = []"
    by (auto simp: header_lines_def starts_with_def filter_empty_conv split: option.splits)
  then have "length (filter (\<lambda>l. starts_with l ''~'') (delta_lines d)) = length (modifies d)"
    using False modify_heads_all [of "modifies d"]
    by (auto simp: delta_lines_def filter_map comp_def add_line_def remove_line_def starts_with_def)
  ultimately show ?thesis unfolding split parts by (simp add: delta_counts_def split: option.split)
qed

section \<open>Pages\<close>












section \<open>Properties\<close>


end
