(* ===== verification/Change_Props.thy ===== *)
theory Change_Props
  imports Service_Props Change_Text
begin

text \<open>
  The two accounts of a commit that the user sees, the counts in the history
  (\<open>GitService::listSummaries\<close>) and the description (\<open>GitService::describeCommitChanges\<close>),
  agree.
\<close>

text \<open>
  C37. The counts beside a commit in the history and the description of the same commit agree:
  when no call fails and the delta holds no line breaks, the lines of the description are
  exactly the generated ones and the numbers of header lines, added, modified and removed
  objects among them, told by their colours and first characters, are the counts of the
  summary.
\<close>

theorem summary_matches_description:
  assumes "faults (db_conn svc) = []" and "is_open (db_conn svc)"
    and "c \<in> set (fst (listSummaries e lk svc))"
    and "describeCommitChanges e (cs_id c) svc = (Inr body, svc')"
    and "parseDelta (e_json e) [] = None"
    and "\<And>r d. fmlookup (commits (cdb (db_conn svc))) (cs_id c) = Some r \<Longrightarrow> delta_of e r = Some d \<Longrightarrow> plain_delta d"
  shows "let ls = splitBodyLines body
    in body = concat (map (\<lambda>l. l @ [newline]) ls) \<and>
       headerCount c = int (length (lines_of HdrColor ls)) \<and> addCount c = int (length (lines_of AddColor ls)) \<and>
       modifyCount c = int (length (filter (\<lambda>l. starts_with l ''~'') ls)) \<and> removeCount c = int (length (lines_of DelColor ls))"
proof -
  let ?d = "cdb (db_conn svc)"
  from assms(1-3) obtain i r where c: "c = commit_summary_of e \<lparr>sum_id = i, sum_message = c_str (r_message r), sum_created = r_created r, sum_blob = r_blob r\<rparr>"
    and r: "(i, r) \<in> set (level_rows ?d lk)"
    by (auto simp: listSummaries_def listSummaryRows_def buildCommitSummaries_def)
  have row: "fmlookup (commits ?d) i = Some r" using r by (auto simp: level_rows_def level_ids_def fmlookup_dom'_iff)
  have "cs_id c = i" by (simp add: c commit_summary_of_def split_beta)
  with assms(1,2,4) row obtain d where d: "parseDelta (e_json e) (row_delta (rowFromStatement (e_zlib e) (i, r))) = Some d"
    and b: "body = describeDeltaText d"
    by (auto simp: describeCommitChanges_def get_row_def split: option.splits)
  with assms(5) have "row_delta (rowFromStatement (e_zlib e) (i, r)) \<noteq> []" by auto
  with d have "summary_counts e (r_blob r) = delta_counts d"
    by (auto simp: rowFromStatement_def summary_counts_def split: if_splits option.splits)
  moreover have "plain_delta d"
    using assms(6) [of r d] row d \<open>cs_id c = i\<close> row_delta_any [of "e_zlib e" i r 0] by (simp add: delta_of_def)
  then have "splitBodyLines body = delta_lines d" using describe_lines b by blast
  ultimately show ?thesis using description_counts [of d]
    by (simp add: c commit_summary_of_def b Let_def) (simp add: describeDeltaText_def)
qed

definition sample_shown :: "(string + string) \<times> service" where
  "sample_shown = describeCommitChanges sample_env 2 sample_svc"

theorem summary_matches_description_witness:
  "\<exists>c. c \<in> set (fst (listSummaries sample_env ''L'' sample_svc)) \<and> cs_id c = 2 \<and>
     modifyCount c = int (length (filter (\<lambda>l. starts_with l ''~'') [''~ object 7'', ''  x: 5 -> 6'']))"
proof -
  have s: "map cs_id (fst (listSummaries sample_env ''L'' sample_svc)) = [2, 1]" by code_simp
  have "2 \<in> cs_id ` set (fst (listSummaries sample_env ''L'' sample_svc))" by (simp add: s flip: set_map)
  then obtain c where c: "c \<in> set (fst (listSummaries sample_env ''L'' sample_svc))" "cs_id c = 2" by force
  let ?body = "''~ object 7'' @ newline # ''  x: 5 -> 6'' @ [newline]"
  have b: "fst sample_shown = Inr ?body" by code_simp
  then obtain svc' where sh: "describeCommitChanges sample_env (cs_id c) sample_svc = (Inr ?body, svc')"
    unfolding sample_shown_def c(2) by (cases "describeCommitChanges sample_env 2 sample_svc") simp
  have n: "parseDelta (e_json sample_env) [] = None" by code_simp
  have "(case fmlookup (commits (cdb (db_conn sample_svc))) 2 of None \<Rightarrow> False
      | Some r \<Rightarrow> (case delta_of sample_env r of None \<Rightarrow> False | Some d \<Rightarrow> plain_delta d))" by code_simp
  then have p: "plain_delta d" if "fmlookup (commits (cdb (db_conn sample_svc))) (cs_id c) = Some r" "delta_of sample_env r = Some d" for r d
    using that c(2) by simp
  have "splitBodyLines ?body = [''~ object 7'', ''  x: 5 -> 6'']" by code_simp
  with summary_matches_description [OF sample_facts(4,5) c(1) sh n p] c show ?thesis by (auto simp: Let_def)
qed

end
