(* ===== verification/Service_Late.thy ===== *)
theory Service_Late
  imports Service_Reach
begin

text \<open>
  The second halves of the two-phase operations of \<open>src/service/GitService.cpp\<close> when other
  operations run between the two: what a pending operation relies on stays true whatever the
  service does in the meantime, so a late finalize is refused or does what was prepared.
\<close>

section \<open>Pending operations\<close>

text \<open>The four kinds of \<open>PendingOps.hpp\<close>, and finishing one with the state the editor shows.\<close>

datatype pending_op =
    PendHead pending_head
  | PendSquash pending_squash
  | PendReplace pending_replace
  | PendMerge "pending_head list"

datatype flow_error = FlowGit git_error | FlowGdge gdge_error | FlowMsg string

definition flow_result :: "('a \<Rightarrow> flow_error) \<Rightarrow> ('a + 'b) \<times> service \<Rightarrow> (flow_error + unit) \<times> service" where
  "flow_result wrap r = (case r of (Inl err, svc) \<Rightarrow> (Inl (wrap err), svc) | (Inr _, svc) \<Rightarrow> (Inr (), svc))"

fun finalize_op :: "'j service_env \<Rightarrow> (nat \<Rightarrow> int) \<Rightarrow> pending_op \<Rightarrow> level_state \<Rightarrow> service \<Rightarrow>
    (flow_error + unit) \<times> service" where
  "finalize_op e now (PendHead p) applied svc = flow_result FlowGit (finalizeCheckout e (now 0) p applied svc)"
| "finalize_op e now (PendSquash p) applied svc = flow_result FlowGit (finalizeSquash e (now 0) p applied svc)"
| "finalize_op e now (PendReplace p) applied svc = flow_result FlowGit (finalizeImportLevelFrom e p applied svc)"
| "finalize_op e now (PendMerge ps) applied svc = flow_result FlowGdge (finalizeImportManyFromGdge e now ps svc)"

lemma flow_result_simps [simp]:
  "flow_result w (Inl err, svc) = (Inl (w err), svc)" "flow_result w (Inr v, svc) = (Inr (), svc)"
  by (simp_all add: flow_result_def)

lemma flow_result_eq:
  "flow_result w r = (res, svc') \<longleftrightarrow> (\<exists>r'. r = (r', svc') \<and> (case r' of Inl err \<Rightarrow> res = Inl (w err) | Inr _ \<Rightarrow> res = Inr ()))"
  by (cases r) (auto simp: flow_result_def split: sum.splits)

section \<open>What other operations keep\<close>

text \<open>
  Every level has its commits to itself, and a ranking of commits, fixed for good when a commit
  is made, puts parents before their children: it shows that a squash finished late makes no
  cycle.
\<close>

definition ranked :: "(commit_id \<Rightarrow> nat) \<Rightarrow> db \<Rightarrow> bool" where
  "ranked rk d \<longleftrightarrow> levels_ok d \<and> (\<forall>j r q. fmlookup (commits d) j = Some r \<longrightarrow> r_parent r = Some q \<longrightarrow> rk q < rk j)"

definition closed_db :: "db \<Rightarrow> bool" where
  "closed_db d \<longleftrightarrow> (\<forall>j r. fmlookup (commits d) j = Some r \<longrightarrow>
     j \<le> autoinc d \<and> (\<forall>q. r_parent r = Some q \<longrightarrow> fmlookup (commits d) q \<noteq> None))"

text \<open>From one database to a later one, operations on the level \<open>lk\<close> and deletions in between.\<close>

definition moved :: "'j service_env \<Rightarrow> level_key \<Rightarrow> (commit_id \<Rightarrow> nat) \<Rightarrow> db \<Rightarrow> (commit_id \<Rightarrow> nat) \<Rightarrow> db \<Rightarrow> bool" where
  "moved e lk rk d rk' d' \<longleftrightarrow> grows d d' \<and> ranked rk' d' \<and> (\<forall>j \<le> autoinc d. rk' j = rk j) \<and>
     (\<forall>j s. yields (db_view e d) j s \<longrightarrow> fmlookup (commits d') j \<noteq> None \<longrightarrow> yields (db_view e d') j s) \<and>
     (\<forall>l h. l \<noteq> lk \<longrightarrow> fmlookup (refs d') l = Some h \<longrightarrow> fmlookup (refs d) l = Some h)"

lemma rankedD: "ranked rk d \<Longrightarrow> levels_ok d" "ranked rk d \<Longrightarrow> fmlookup (commits d) j = Some r \<Longrightarrow> r_parent r = Some q \<Longrightarrow> rk q < rk j"
  by (simp_all add: ranked_def)

text \<open>Levels stay apart when the new parents and HEADs do and the old ones are still there.\<close>

lemma levels_step:
  assumes g: "grows d d'" and cl: "closed_db d" and lv: "levels_ok d" and fk: "fk_ok d'"
    and rows: "\<And>j r q. fmlookup (commits d') j = Some r \<Longrightarrow> r_parent r = Some q \<Longrightarrow> at_level d' (r_level r) q \<or>
      (\<exists>k x. fmlookup (commits d) k = Some x \<and> r_parent x = Some q \<and> r_level x = r_level r)"
    and heads: "\<And>l h. fmlookup (refs d') l = Some h \<Longrightarrow> at_level d' l h \<or> fmlookup (refs d) l = Some h"
  shows "levels_ok d'"
proof -
  have old: "at_level d' lk q" if "at_level d lk q" "fmlookup (commits d') q \<noteq> None" for lk q
    using grows_level [OF g _ that] that(1) cl by (fastforce simp: closed_db_def at_level_def)
  have "at_level d' (r_level r) q" if r: "fmlookup (commits d') j = Some r" "r_parent r = Some q" for j r q
    using rows [OF r] levels_okD(1) [OF lv] old [OF _ fk_parent [OF fk r]] by metis
  moreover have "at_level d' l h" if l: "fmlookup (refs d') l = Some h" for l h
  proof -
    have "fmlookup (commits d') h \<noteq> None" using fk l unfolding fk_ok_def fmpred_iff ref_ok_def by fastforce
    with heads [OF l] levels_okD(2) [OF lv] old show ?thesis by blast
  qed
  ultimately show ?thesis by (simp add: levels_ok_def)
qed

lemma sound_closed: "sound_db e d \<Longrightarrow> closed_db d"
  unfolding closed_db_def sound_db_def using fk_parent by (fastforce simp: ids_ok_def fmpred_iff)

lemma moved_refl: "ranked rk d \<Longrightarrow> moved e lk rk d rk d"
  by (simp add: moved_def)

lemma moved_same: "ranked rk d \<Longrightarrow> d' = d \<Longrightarrow> moved e lk rk d rk d'"
  by (simp add: moved_refl)

lemma moved_trans:
  assumes a: "moved e lk rk d rk1 d1" and b: "moved e lk rk1 d1 rk2 d2" and d: "closed_db d"
  shows "moved e lk rk d rk2 d2"
proof -
  have le: "autoinc d \<le> autoinc d1" using a by (simp add: moved_def grows_def)
  have older: "fmlookup (commits d1) j \<noteq> None" if "yields (db_view e d) j s" "fmlookup (commits d2) j \<noteq> None" for j s
  proof -
    from yields_dom [OF that(1)] d have "j \<le> autoinc d1" using le by (fastforce simp: closed_db_def)
    with b that(2) show ?thesis using grows_exists by (auto simp: moved_def)
  qed
  have "yields (db_view e d2) j s" if "yields (db_view e d) j s" "fmlookup (commits d2) j \<noteq> None" for j s
    using older [OF that] that a b unfolding moved_def by blast
  moreover have "rk2 j = rk j" if "j \<le> autoinc d" for j
    using a b that le by (simp add: moved_def)
  moreover have "grows d d2" using a b grows_trans by (auto simp: moved_def)
  moreover have "fmlookup (refs d) l = Some h" if "l \<noteq> lk" "fmlookup (refs d2) l = Some h" for l h
    using a b that by (simp add: moved_def)
  ultimately show ?thesis using b by (simp add: moved_def)
qed

lemma moved_good:
  assumes "moved e lk rk d rk' d'" and "good_state e d j s"
  shows "good_state e d' j s"
proof (rule good_state_mono [OF assms(2)])
  show "autoinc d \<le> autoinc d'" using assms(1) by (simp add: moved_def grows_def)
  show "fmlookup (commits d) k \<noteq> None" if "fmlookup (commits d') k = Some r" "k \<le> autoinc d" for k r
    using assms(1) that grows_exists [of d d' k] by (simp add: moved_def)
  show "yields (db_view e d') k t" if "yields (db_view e d) k t" "fmlookup (commits d') k \<noteq> None" for k t
    using assms(1) that unfolding moved_def by blast
qed

section \<open>What a pending operation relies on\<close>

definition base_good :: "'j service_env \<Rightarrow> db \<Rightarrow> commit_id option \<Rightarrow> level_state \<Rightarrow> bool" where
  "base_good e d p b \<longleftrightarrow> keyed b \<and> (case p of None \<Rightarrow> b = empty_state | Some q \<Rightarrow> good_state e d q b)"

text \<open>The parent (if it still exists) has the state the delta starts from, and is of the level.\<close>

definition owned :: "db \<Rightarrow> level_key \<Rightarrow> commit_id option \<Rightarrow> bool" where
  "owned d lk p \<longleftrightarrow> (\<forall>q. p = Some q \<longrightarrow> q \<le> autoinc d \<and> (fmlookup (commits d) q \<noteq> None \<longrightarrow> at_level d lk q))"

fun pend_ok :: "'j service_env \<Rightarrow> level_key \<Rightarrow> (commit_id \<Rightarrow> nat) \<Rightarrow> db \<Rightarrow> pending_op \<Rightarrow> level_state \<Rightarrow> bool" where
  "pend_ok e lk rk d (PendHead p) s \<longleftrightarrow>
     (\<exists>h b rv msg. p = head_update lk h rv msg (dump e (diff_states e b s)) \<and> base_good e d (Some h) b \<and> owned d lk (Some h) \<and> keyed s)"
| "pend_ok e lk rk d (PendSquash p) s \<longleftrightarrow>
     (\<exists>ids par b msg. p = \<lparr>ps_level = lk, ps_ids = ids, ps_parent = par, ps_message = msg, ps_delta = dump e (diff_states e b s)\<rparr> \<and>
        base_good e d par b \<and> owned d lk par \<and> ids \<noteq> [] \<and> (\<forall>j \<in> set ids. j \<le> autoinc d) \<and> good_state e d (last ids) s \<and>
        (\<forall>q. par = Some q \<longrightarrow> rk q < rk (last ids)))"
| "pend_ok e lk rk d (PendReplace p) s \<longleftrightarrow>
     pr_dest p = lk \<and> pr_src p \<noteq> lk \<and> (\<forall>h. fmlookup (refs d) (pr_src p) = Some h \<longrightarrow> good_state e d h s)"
| "pend_ok e lk rk d (PendMerge ps) s \<longleftrightarrow> ps \<noteq> [] \<and> (\<exists>hb b. update_chain e lk hb b ps s \<and> base_good e d hb b \<and> owned d lk hb)"

lemma base_keyed: "base_good e d p b \<Longrightarrow> keyed b"
  by (simp add: base_good_def)

lemma base_starts: "base_good e d p b \<Longrightarrow> (\<And>q. p = Some q \<Longrightarrow> fmlookup (commits d) q \<noteq> None) \<Longrightarrow> starts (db_view e d) p b"
  by (auto simp: base_good_def starts_def good_state_def split: option.splits)

lemma starts_base: "starts (db_view e d) p b \<Longrightarrow> (\<And>q. p = Some q \<Longrightarrow> q \<le> autoinc d) \<Longrightarrow> base_good e d p b"
  by (auto simp: base_good_def starts_def good_state_def split: option.splits)

lemma base_le: "base_good e d (Some q) b \<Longrightarrow> q \<le> autoinc d"
  by (simp add: base_good_def good_state_def)

lemma moved_base: "moved e lk rk d rk' d' \<Longrightarrow> base_good e d p b \<Longrightarrow> base_good e d' p b"
  using moved_good by (auto simp: base_good_def split: option.splits)

lemma grows_own: "grows d d' \<Longrightarrow> owned d lk p \<Longrightarrow> owned d' lk p"
  unfolding owned_def using grows_exists grows_level by (metis grows_def order_trans)

lemma moved_own: "moved e l rk d rk' d' \<Longrightarrow> owned d lk p \<Longrightarrow> owned d' lk p"
  unfolding moved_def using grows_own by blast

lemma level_own: "p = None \<or> (\<exists>q. p = Some q \<and> at_level d lk q) \<Longrightarrow> closed_db d \<Longrightarrow> owned d lk p"
  by (fastforce simp: owned_def at_level_def closed_db_def)

text \<open>Whatever happens in between, a pending operation stays good.\<close>

lemma moved_pend:
  assumes m: "moved e lk rk d rk' d'" and p: "pend_ok e lk rk d p s"
  shows "pend_ok e lk rk' d' p s"
proof (cases p)
  case (PendHead x)
  from p PendHead obtain h b rv msg where x: "x = head_update lk h rv msg (dump e (diff_states e b s))"
    "base_good e d (Some h) b" "owned d lk (Some h)" "keyed s" by auto
  with PendHead moved_base [OF m x(2)] moved_own [OF m x(3)] show ?thesis by auto
next
  case (PendSquash x)
  with p obtain ids par b msg where x: "x = \<lparr>ps_level = lk, ps_ids = ids, ps_parent = par, ps_message = msg, ps_delta = dump e (diff_states e b s)\<rparr>"
    "base_good e d par b" "ids \<noteq> []" "\<forall>j \<in> set ids. j \<le> autoinc d" "good_state e d (last ids) s" "\<forall>q. par = Some q \<longrightarrow> rk q < rk (last ids)"
    "owned d lk par" by auto
  have le: "autoinc d \<le> autoinc d'" and rk: "\<forall>j \<le> autoinc d. rk' j = rk j" using m by (simp_all add: moved_def grows_def)
  have "rk' q < rk' (last ids)" if "par = Some q" for q
  proof -
    have "base_good e d (Some q) b" "rk q < rk (last ids)" "last ids \<le> autoinc d" using x(2,3,4,6) that by auto
    with rk base_le show ?thesis by metis
  qed
  moreover have "j \<le> autoinc d'" if "j \<in> set ids" for j using x(4) that le by auto
  ultimately show ?thesis using PendSquash x moved_base [OF m x(2)] moved_good [OF m x(5)] moved_own [OF m x(7)] by auto
next
  case (PendReplace x)
  with p m moved_good [OF m] show ?thesis by (auto simp: moved_def)
next
  case (PendMerge ps)
  from p PendMerge obtain hb b where x: "ps \<noteq> []" "update_chain e lk hb b ps s" "base_good e d hb b" "owned d lk hb" by auto
  with PendMerge moved_base [OF m x(3)] moved_own [OF m x(4)] show ?thesis by auto
qed

section \<open>Adding commits late\<close>

lemma svc_facts:
  assumes "svc_ok e svc"
  shows "saved (db_conn svc) = None" "fk_on (db_conn svc)" "sound_db e (cdb (db_conn svc))"
    "fk_ok (cdb (db_conn svc))" "ids_ok (cdb (db_conn svc))" "closed_db (cdb (db_conn svc))"
proof -
  from assms show s: "saved (db_conn svc) = None" "fk_on (db_conn svc)" "sound_db e (cdb (db_conn svc))"
    by (simp_all add: svc_ok_def)
  from s(3) show "fk_ok (cdb (db_conn svc))" "ids_ok (cdb (db_conn svc))" by (simp_all add: sound_db_def)
  from s(3) show "closed_db (cdb (db_conn svc))" by (rule sound_closed)
qed

lemma added_moved:
  assumes ad: "commit_added e d lk p i s d'" and cl: "closed_db d" and p: "\<And>q. p = Some q \<Longrightarrow> at_level d lk q"
    and rk: "ranked rk d"
  shows "(\<exists>rk'. moved e lk rk d rk' d') \<and> closed_db d'"
proof -
  from ad obtain r where i: "autoinc d < i" "autoinc d' = i" and r: "fmlookup (commits d') i = Some r" "r_level r = lk" "r_parent r = p"
    and meta: "meta_version d' = meta_version d" and head: "fmlookup (refs d') lk = Some i"
    and same: "\<And>j. j \<noteq> i \<Longrightarrow> fmlookup (commits d') j = fmlookup (commits d) j"
    and keep: "\<And>j t. history (db_view e d) j t \<Longrightarrow> history (db_view e d') j t"
    and refs: "\<And>l. l \<noteq> lk \<Longrightarrow> fmlookup (refs d') l = fmlookup (refs d) l"
    unfolding commit_added_def by blast
  have old: "j \<noteq> i" if "fmlookup (commits d) j \<noteq> None" for j
    using that cl i(1) by (fastforce simp: closed_db_def)
  let ?rk = "rk(i := (case p of None \<Rightarrow> 0 | Some q \<Rightarrow> Suc (rk q)))"
  have "?rk q < ?rk j" if "fmlookup (commits d') j = Some x" "r_parent x = Some q" for j x q
  proof (cases "j = i")
    case True
    with that r have "p = Some q" by simp
    with p at_level_exists old [of q] True show ?thesis by fastforce
  next
    case False
    with that same have j: "fmlookup (commits d) j = Some x" by simp
    with cl that(2) have "fmlookup (commits d) q \<noteq> None" by (auto simp: closed_db_def)
    with old [of q] False j rk that(2) show ?thesis by (simp add: ranked_def)
  qed
  moreover have keep_level: "at_level d' k j" if "at_level d k j" for k j
    using that same old [of j] by (auto simp: at_level_def)
  have "levels_ok d'" unfolding levels_ok_def
  proof (intro conjI allI impI)
    fix j x q assume j: "fmlookup (commits d') j = Some x" "r_parent x = Some q"
    show "at_level d' (r_level x) q"
    proof (cases "j = i")
      case True
      with j r p keep_level show ?thesis by simp
    next
      case False
      with j same have "fmlookup (commits d) j = Some x" by simp
      from levels_okD(1) [OF rankedD(1) [OF rk] this j(2)] keep_level show ?thesis by blast
    qed
  next
    fix l h assume l: "fmlookup (refs d') l = Some h"
    show "at_level d' l h"
    proof (cases "l = lk")
      case True
      with l head r show ?thesis by (simp add: at_level_def)
    next
      case False
      with l refs have "fmlookup (refs d) l = Some h" by simp
      from levels_okD(2) [OF rankedD(1) [OF rk] this] keep_level show ?thesis by blast
    qed
  qed
  ultimately have "ranked ?rk d'" by (simp add: ranked_def)
  moreover have "grows d d'" using i same meta by (auto simp: grows_def at_level_def)
  moreover have "\<forall>j \<le> autoinc d. ?rk j = rk j" using i by auto
  moreover have "yields (db_view e d') j t" if "yields (db_view e d) j t" for j t
    using that keep unfolding yields_def by blast
  moreover have "closed_db d'" unfolding closed_db_def
  proof (intro allI impI conjI)
    fix j x assume j: "fmlookup (commits d') j = Some x"
    show "j \<le> autoinc d'" using j same [of j] cl i by (cases "j = i") (fastforce simp: closed_db_def)+
    fix q assume q: "r_parent x = Some q"
    have "fmlookup (commits d) q \<noteq> None"
      using j q same [of j] cl at_level_exists [OF p, of q] r by (cases "j = i") (auto simp: closed_db_def)
    with old [of q] same show "fmlookup (commits d') q \<noteq> None" by simp
  qed
  ultimately show ?thesis using refs unfolding moved_def by auto
qed

text \<open>A commit whose parent is gone cannot be inserted.\<close>

lemma insert_needs_parent:
  assumes "insertAndSetHead z now lk (Some q) rv msg blob c = (Inr i, c')" and "saved c = None" and "fk_on c" and "q \<le> autoinc (cdb c)"
  shows "fmlookup (commits (cdb c)) q \<noteq> None"
proof -
  from insertAndSetHead_Inr [OF assms(1,2)] assms(3) obtain stored where
    d': "cdb c' = committed (new_row lk (Some q) rv msg now stored) (cdb c)" and fk: "fk_ok (cdb c')" by blast
  have "fmlookup (commits (cdb c')) (next_id (cdb c)) = Some (new_row lk (Some q) rv msg now stored)"
    by (simp add: d' committed_def inserted_def)
  from fk_parent [OF fk this] have "fmlookup (commits (cdb c')) q \<noteq> None" by (simp add: new_row_def)
  moreover have "q \<noteq> next_id (cdb c)" using assms(4) autoinc_next_id [of "cdb c"] by simp
  ultimately show ?thesis by (simp add: d' committed_def inserted_def)
qed

definition finished :: "'j service_env \<Rightarrow> level_key \<Rightarrow> (commit_id \<Rightarrow> nat) \<Rightarrow> db \<Rightarrow> db \<Rightarrow> level_state \<Rightarrow> bool" where
  "finished e lk rk d d' s \<longleftrightarrow> (\<exists>rk'. moved e lk rk d rk' d') \<and> (\<exists>i. fmlookup (commits d) i = None \<and> yields (db_view e d') i s)"

lemma late_head:
  assumes e: "env_ok e" and ok: "svc_ok e svc" and rk: "ranked rk (cdb (db_conn svc))"
    and p: "pend_ok e lk rk (cdb (db_conn svc)) (PendHead p) s" and fin: "finalizeCheckout e now p s svc = (res, svc')"
  shows "svc_ok e svc' \<and>
    (case res of
       Inl err \<Rightarrow> cdb (db_conn svc') = cdb (db_conn svc)
     | Inr i \<Rightarrow> commit_added e (cdb (db_conn svc)) lk (ph_parent p) i s (cdb (db_conn svc')) \<and>
         finished e lk rk (cdb (db_conn svc)) (cdb (db_conn svc')) s)"
proof -
  let ?d = "cdb (db_conn svc)"
  from p obtain h b rv msg where p': "p = head_update lk h rv msg (dump e (diff_states e b s))" and b: "base_good e ?d (Some h) b"
    and k: "keyed s" and own: "owned ?d lk (Some h)" by auto
  have comb: "norm_state (fst (apply_delta b (diff_states e b s))) = norm_state s"
    using apply_diff_states [OF e base_keyed [OF b] k] .
  obtain x c where ins: "insertAndSetHead (e_zlib e) now lk (Some h) (Some rv) msg (dump e (diff_states e b s)) (db_conn svc) = (x, c)" by fastforce
  show ?thesis
  proof (cases x)
    case (Inl err)
    with insert_failed [OF ok ins [unfolded Inl]] fin ins p' show ?thesis by (auto simp: finalizeCheckout_def head_update_def)
  next
    case (Inr i)
    have ex: "fmlookup (commits ?d) h \<noteq> None"
      by (rule insert_needs_parent [OF ins [unfolded Inr] svc_facts(1,2) [OF ok] base_le [OF b]])
    then have st: "starts (db_view e ?d) (Some h) b" by (intro base_starts [OF b]) simp
    note io = insert_ok [OF e ok st k comb ins [unfolded Inr]]
    have "at_level ?d lk h" using ex own by (simp add: owned_def)
    then have "(\<exists>rk'. moved e lk rk ?d rk' (cdb c))"
      using added_moved [OF _ svc_facts(6) [OF ok] _ rk] io by blast
    with io fin ins Inr p' show ?thesis by (auto simp: finalizeCheckout_def head_update_def finished_def commit_added_def)
  qed
qed

lemma late_squash:
  assumes e: "env_ok e" and ok: "svc_ok e svc" and rk: "ranked rk (cdb (db_conn svc))"
    and p: "pend_ok e lk rk (cdb (db_conn svc)) (PendSquash p) t" and fin: "finalizeSquash e now p t svc = (res, svc')"
  shows "svc_ok e svc' \<and>
    (case res of
       Inl err \<Rightarrow> cdb (db_conn svc') = cdb (db_conn svc)
     | Inr i \<Rightarrow> finished e lk rk (cdb (db_conn svc)) (cdb (db_conn svc')) t)"
proof -
  let ?d = "cdb (db_conn svc)"
  note sv = svc_facts [OF ok]
  from p obtain ids par b msg where p': "p = \<lparr>ps_level = lk, ps_ids = ids, ps_parent = par, ps_message = msg, ps_delta = dump e (diff_states e b t)\<rparr>"
    and b: "base_good e ?d par b" and ids: "ids \<noteq> []" "\<forall>j \<in> set ids. j \<le> autoinc ?d" and top: "good_state e ?d (last ids) t"
    and below: "\<forall>q. par = Some q \<longrightarrow> rk q < rk (last ids)" and own: "owned ?d lk par" by auto
  have kt: "keyed t" using top by (simp add: good_state_def)
  have comb: "norm_state (fst (apply_delta b (diff_states e b t))) = norm_state t"
    using apply_diff_states [OF e base_keyed [OF b] kt] .
  obtain x c where sq: "Commit_Store.squash (e_zlib e) now lk ids par msg (dump e (diff_states e b t)) (db_conn svc) = (x, c)" by fastforce
  show ?thesis
  proof (cases x)
    case None
    from squash_None [OF sq [unfolded None] sv(1)] ok fin sq None p' show ?thesis
      by (auto simp: finalizeSquash_def svc_ok_def memo.faithful_def cacheGet_def)
  next
    case (Some i)
    let ?d' = "cdb c"
    from squash_Some [OF sq [unfolded Some] sv(1)] sv(2) obtain stored where
      st: "compressBlob (e_zlib e) (dump e (diff_states e b t)) (- 1) = Some stored" and i: "i = next_id ?d"
      and d': "?d' = squashed (new_row lk par None msg (squash_time (e_zlib e) now ids (db_conn svc)) stored) ids lk ?d"
      and fr: "saved c = None" "fk_on c" "fk_ok ?d'" by auto
    let ?row = "new_row lk par None msg (squash_time (e_zlib e) now ids (db_conn svc)) stored"
    have new: "autoinc ?d < i" "autoinc ?d' = i" using autoinc_next_id [of ?d] by (simp_all add: i d' squashed_def)
    have fresh: "i \<notin> set ids" using ids(2) new by fastforce
    have row: "fmlookup (commits ?d') i = Some (squashed_row i ids lk i ?row)" using fresh by (simp add: d' squashed_lookup i)
    have par: "fmlookup (commits ?d) q \<noteq> None" if "par = Some q" for q
    proof -
      have "q \<noteq> i" using base_le b that new by fastforce
      from fk_parent [OF fr(3) row, of q] that have "fmlookup (commits ?d') q \<noteq> None" by (simp add: new_row_def)
      with \<open>q \<noteq> i\<close> show ?thesis by (auto simp: d' squashed_lookup i split: if_splits)
    qed
    have base: "starts (db_view e ?d) par b" by (rule base_starts [OF b par])
    have fold: "db_folded e ?d ids par (diff_states e b t) i ?d'"
      unfolding db_folded_def using i fresh ids(1) d' fr(3) delta_of_new [OF e st]
      by (intro exI [of _ ?row]) (auto simp: new_row_def)
    have keep: "yields (db_view e ?d') j s" if "history (db_view e ?d) j s" "j \<notin> set ids" for j s
    proof (rule db_log.fold_keeps_ranked [OF fold _ _ base _ comb that, where rk = rk])
      show "rk q < rk k" if "db_view e ?d k = Some (Some q, \<delta>)" for k q \<delta>
        using that rk by (auto simp: db_view_def ranked_def split: option.splits)
      show "rk q < rk (last ids)" if "par = Some q" for q using below that by simp
      show "norm_state u = norm_state t" if "history (db_view e ?d) (last ids) u" for u
      proof -
        have "fmlookup (commits ?d) (last ids) \<noteq> None" using history_Some [OF that] db_view_dom by blast
        with top have "yields (db_view e ?d) (last ids) t" by (simp add: good_state_def)
        with that show ?thesis using history_det by (auto simp: yields_def)
      qed
    qed
    have y: "yields (db_view e ?d') i t" by (rule db_log.fold_state_from [OF fold base comb keep])
    have "\<exists>s. history (db_view e ?d') j s" if j: "fmlookup (commits ?d') j = Some r" for j r
    proof (cases "j = i")
      case True
      then show ?thesis using y by (auto simp: yields_def)
    next
      case False
      with j obtain r' where r': "j \<notin> set ids" "fmlookup (commits ?d) j = Some r'"
        by (auto simp: d' i squashed_lookup split: if_splits)
      with sv(3) obtain s where "history (db_view e ?d) j s" unfolding sound_db_def by blast
      with keep r'(1) show ?thesis unfolding yields_def by blast
    qed
    then have sound: "sound_db e ?d'" using sv(5) ids_ok_squashed fr(3) by (simp add: sound_db_def d')
    have "good_state e ?d' i t" using y kt new(2) by (simp add: good_state_def)
    then have "memo.faithful (good_state e ?d') (cachePut i t (clearReconstructCache (svc\<lparr>db_conn := c\<rparr>)))"
      by (intro memo.faithful_put memo.faithful_clear)
    then have ok': "svc_ok e (cachePut i t (clearReconstructCache (svc\<lparr>db_conn := c\<rparr>)))" using sound fr by (simp add: svc_ok_def)
    have g: "grows ?d ?d'" unfolding d' by (rule grows_squashed)
    let ?rk = "rk(i := rk (last ids))"
    have old: "k \<noteq> i" if "fmlookup (commits ?d) k \<noteq> None" for k using that by (auto simp: i)
    have "last ids \<noteq> i" using ids fresh by auto
    have "?rk q < ?rk j" if j: "fmlookup (commits ?d') j = Some r" "r_parent r = Some q" for j r q
    proof (cases "j = i")
      case True
      with j row have "r = squashed_row i ids lk i ?row" by simp
      with j(2) have "par = Some q" by (simp add: new_row_def)
      with below par [of q] old [of q] True show ?thesis by simp
    next
      case False
      with j obtain r' where r': "fmlookup (commits ?d) j = Some r'" "r = squashed_row i ids lk j r'"
        by (auto simp: d' i squashed_lookup split: if_splits)
      show ?thesis
      proof (cases "q = i")
        case True
        have "r_parent r' \<noteq> Some i" using sv(6) r'(1) old unfolding closed_db_def by blast
        with r'(2) j(2) True have "r_parent r' = Some (last ids)" by (auto split: if_splits)
        with rk r'(1) True False show ?thesis by (simp add: ranked_def)
      next
        case q: False
        with r'(2) j(2) have "r_parent r' = Some q" by (auto split: if_splits)
        with rk r'(1) q False show ?thesis by (simp add: ranked_def)
      qed
    qed
    moreover have "levels_ok ?d'"
    proof (rule levels_step [OF g sv(6) rankedD(1) [OF rk] fr(3)])
      fix j r q assume j: "fmlookup (commits ?d') j = Some r" "r_parent r = Some q"
      have "at_level ?d' lk i" "r_level ?row = lk" using row by (simp_all add: at_level_def new_row_def)
      moreover have "at_level ?d' lk q" if "par = Some q"
        using own par [OF that] that grows_level [OF g] fk_parent [OF fr(3) j] by (auto simp: owned_def)
      ultimately have here: "at_level ?d' lk i" "par = Some q \<Longrightarrow> at_level ?d' lk q" by blast+
      show "at_level ?d' (r_level r) q \<or> (\<exists>k x. fmlookup (commits ?d) k = Some x \<and> r_parent x = Some q \<and> r_level x = r_level r)"
      proof (cases "j = i")
        case True
        with j row have r: "r = squashed_row i ids lk i ?row" by simp
        with j(2) have "par = Some q" "r_level r = lk" by (simp_all add: new_row_def)
        with here(2) show ?thesis by simp
      next
        case False
        with j obtain x where x: "fmlookup (commits ?d) j = Some x" "r = squashed_row i ids lk j x"
          by (auto simp: d' i squashed_lookup split: if_splits)
        with j(2) False have "r_parent x = Some q \<or> q = i \<and> r_level x = lk" by (auto split: if_splits)
        with x here(1) show ?thesis by auto
      qed
    next
      fix l h assume "fmlookup (refs ?d') l = Some h"
      then show "at_level ?d' l h \<or> fmlookup (refs ?d) l = Some h"
        using row by (auto simp: d' i squashed_def at_level_def new_row_def split: option.splits if_splits)
    qed
    ultimately have "ranked ?rk ?d'" by (simp add: ranked_def)
    moreover have "yields (db_view e ?d') j s" if "yields (db_view e ?d) j s" "fmlookup (commits ?d') j \<noteq> None" for j s
    proof -
      from that(2) have "j \<notin> set ids" by (auto simp: d' squashed_lookup)
      with that(1) obtain u where "history (db_view e ?d) j u" "norm_state u = norm_state s" by (auto simp: yields_def)
      with keep [of j u] \<open>j \<notin> set ids\<close> show ?thesis by (auto simp: yields_def)
    qed
    moreover note g
    moreover have "fmlookup (refs ?d') l = fmlookup (refs ?d) l" if "l \<noteq> lk" for l
      using that by (auto simp: d' squashed_def split: option.split)
    ultimately have "moved e lk rk ?d ?rk ?d'" using new by (auto simp: moved_def)
    then have "finished e lk rk ?d ?d' t" using y by (auto simp: finished_def i intro!: exI [of _ i])
    with ok' fin sq Some p' show ?thesis by (auto simp: finalizeSquash_def)
  qed
qed

text \<open>Taking over a history: the source may have lost its HEAD in the meantime.\<close>

lemma image_new:
  assumes "level_image z dest src d d' f S" and "grows d d'" and "ids_ok d" and "i \<in> S"
  shows "autoinc d < f i"
proof (rule ccontr)
  assume "\<not> autoinc d < f i"
  moreover obtain r where "level_commit d src i r" using level_imageD(1) [OF assms(1,4)] ..
  with level_imageD(2) [OF assms(1,4)] have "fmlookup (commits d') (f i) \<noteq> None" by (fastforce simp: level_commit_def)
  ultimately have "fmlookup (commits d) (f i) \<noteq> None" using grows_exists [OF assms(2)] by simp
  with level_imageD(5) [OF assms(1,3,4)] show False by simp
qed

lemma image_moved:
  assumes im: "level_image (e_zlib e) dest src d d' f S" and g: "grows d d'" and sd: "sound_db e d" and fk: "fk_ok d'" and rk: "ranked rk d"
  shows "\<exists>rk'. moved e dest rk d rk' d'"
proof -
  have ids: "ids_ok d" and cl: "closed_db d" using sd sound_closed by (simp_all add: sound_db_def)
  have inj: "inj_on f S" using im by (simp add: level_image_def)
  let ?rk = "\<lambda>j. if j \<le> autoinc d then rk j else rk (inv_into S f j)"
  have img: "?rk (f i) = rk i" if "i \<in> S" for i
    using image_new [OF im g ids that] inv_into_f_f [OF inj that] by simp
  have "?rk q < ?rk j" if j: "fmlookup (commits d') j = Some r" "r_parent r = Some q" for j r q
  proof (cases "r_level r = dest")
    case True
    with j have lj: "level_commit d' dest j r" by (simp add: level_commit_def)
    from level_imageD(3) [OF im lj] obtain i where i: "i \<in> S" "j = f i" by blast
    from level_imageD(1) [OF im i(1)] obtain ri where ri: "level_commit d src i ri" ..
    note im2 = level_imageD(2) [OF im i(1) ri]
    then obtain r' where "level_commit d' dest (f i) r'" "r_parent r' = map_option f (r_parent ri)" by blast
    with lj i(2) j(2) obtain p where p: "r_parent ri = Some p" "q = f p" by (auto simp: level_commit_def)
    with im2 have "p \<in> S" by blast
    moreover have "rk p < rk i" using rk ri p(1) by (simp add: ranked_def level_commit_def)
    ultimately show ?thesis using img [of p] img [OF i(1)] i(2) p(2) by presburger
  next
    case False
    then have row: "fmlookup (commits d) j = Some r" using other_row [OF im False] j by simp
    with cl j(2) have "j \<le> autoinc d" "fmlookup (commits d) q \<noteq> None" by (auto simp: closed_db_def)
    with cl row rk j(2) show ?thesis by (fastforce simp: closed_db_def ranked_def)
  qed
  moreover have "levels_ok d'"
  proof (rule levels_step [OF g cl rankedD(1) [OF rk] fk])
    fix j r q assume j: "fmlookup (commits d') j = Some r" "r_parent r = Some q"
    show "at_level d' (r_level r) q \<or> (\<exists>k x. fmlookup (commits d) k = Some x \<and> r_parent x = Some q \<and> r_level x = r_level r)"
    proof (cases "r_level r = dest")
      case True
      with j have lj: "level_commit d' dest j r" by (simp add: level_commit_def)
      from level_imageD(3) [OF im lj] obtain i where i: "i \<in> S" "j = f i" by blast
      from level_imageD(1) [OF im i(1)] obtain ri where ri: "level_commit d src i ri" ..
      note im2 = level_imageD(2) [OF im i(1) ri]
      then obtain r' where "level_commit d' dest (f i) r'" "r_parent r' = map_option f (r_parent ri)" by blast
      with lj i(2) j(2) obtain p where "r_parent ri = Some p" "q = f p" by (auto simp: level_commit_def)
      with im2 have p: "p \<in> S" "q = f p" by blast+
      from level_imageD(1) [OF im p(1)] obtain rp where "level_commit d src p rp" ..
      from level_imageD(2) [OF im p(1) this] p(2) True show ?thesis by (auto simp: level_commit_def at_level_def)
    next
      case False
      with other_row [OF im False] j show ?thesis by blast
    qed
  next
    fix l h assume l: "fmlookup (refs d') l = Some h"
    show "at_level d' l h \<or> fmlookup (refs d) l = Some h"
    proof (cases "l = dest")
      case True
      from level_imageD(6) [OF im] obtain k where k: "k \<in> S" "fmlookup (refs d') dest = Some (f k)" by blast
      from level_imageD(1) [OF im k(1)] obtain rk where "level_commit d src k rk" ..
      from level_imageD(2) [OF im k(1) this] k(2) l True show ?thesis by (auto simp: level_commit_def at_level_def)
    next
      case False
      with l level_image_refs(2) [OF im] show ?thesis by simp
    qed
  qed
  ultimately have "ranked ?rk d'" unfolding ranked_def by blast
  moreover have "yields (db_view e d') j s" if y: "yields (db_view e d) j s" and ex: "fmlookup (commits d') j \<noteq> None" for j s
  proof -
    from ex obtain r where r: "fmlookup (commits d') j = Some r" by blast
    from yields_dom [OF y] cl have le: "j \<le> autoinc d" by (fastforce simp: closed_db_def)
    have ne: "r_level r \<noteq> dest"
    proof
      assume "r_level r = dest"
      with r have "level_commit d' dest j r" by (simp add: level_commit_def)
      from level_imageD(3) [OF im this] obtain i where "i \<in> S" "j = f i" by blast
      with image_new [OF im g ids] le show False by fastforce
    qed
    then have "fmlookup (commits d) j = Some r" using other_row [OF im] r by simp
    with other_history [OF im fk ids _ this ne] y show ?thesis unfolding yields_def by blast
  qed
  moreover have "fmlookup (refs d') l = fmlookup (refs d) l" if "l \<noteq> dest" for l
    by (rule level_image_refs(2) [OF im that])
  ultimately show ?thesis using g unfolding moved_def by (intro exI [of _ ?rk]) auto
qed

lemma finalizeImport_db:
  assumes "replaceLevelHistoryFrom (e_zlib e) (e_rows e) (pr_dest p) (pr_src p) (db_conn svc) = (r, c)"
    and "finalizeImportLevelFrom e p s svc = (res, svc')"
  shows "cdb (db_conn svc') = cdb c \<and> ((\<exists>u. res = Inr u) \<longleftrightarrow> r = Replaced)"
proof -
  obtain h c1 where h: "getHead (pr_dest p) c = (h, c1)" by fastforce
  have "cdb c1 = cdb c" using same_db_getHead [of c "pr_dest p"] h by (simp add: same_db_def)
  with assms h show ?thesis
    by (cases r; cases h) (auto simp: finalizeImportLevelFrom_def Let_def)
qed

lemma late_replace:
  assumes e: "env_ok e" and ok: "svc_ok e svc" and rk: "ranked rk (cdb (db_conn svc))"
    and p: "pend_ok e lk rk (cdb (db_conn svc)) (PendReplace p) s" and fin: "finalizeImportLevelFrom e p s svc = (res, svc')"
  shows "svc_ok e svc' \<and>
    (case res of
       Inl err \<Rightarrow> cdb (db_conn svc') = cdb (db_conn svc)
     | Inr _ \<Rightarrow> history_copied e (cdb (db_conn svc)) lk (pr_src p) (cdb (db_conn svc')) \<and>
         finished e lk rk (cdb (db_conn svc)) (cdb (db_conn svc')) s)"
proof -
  let ?d = "cdb (db_conn svc)"
  note sv = svc_facts [OF ok]
  from p have pd: "pr_dest p = lk" and src: "\<And>h. fmlookup (refs ?d) (pr_src p) = Some h \<Longrightarrow> good_state e ?d h s" by auto
  obtain r c where rep: "replaceLevelHistoryFrom (e_zlib e) (e_rows e) (pr_dest p) (pr_src p) (db_conn svc) = (r, c)" by fastforce
  note db = finalizeImport_db [OF rep fin]
  show ?thesis
  proof (cases "r = Replaced")
    case False
    from replace_failed [OF rep False sv(1)] fin rep False ok show ?thesis
      by (cases r) (auto simp: finalizeImportLevelFrom_def svc_ok_def memo.faithful_def cacheGet_def)
  next
    case True
    then obtain u where res: "res = Inr u" using db by blast
    have "hash_order (e_rows e)" "zlib_ok (e_zlib e)" using e by (simp_all add: env_ok_def)
    from replace_image [OF rep [unfolded True] sv(1) this] sv obtain f S where im: "level_image (e_zlib e) lk (pr_src p) ?d (cdb c) f S"
      and fk: "fk_ok (cdb c)" and g: "grows ?d (cdb c)" by (auto simp: pd)
    from level_imageD(6) [OF im] obtain h where h: "h \<in> S" "fmlookup (refs ?d) (pr_src p) = Some h" by blast
    have st: "state_of e ?d h s" using src [OF h(2)] by (simp add: good_state_def state_of_def)
    from finalizeImport_ok [OF e ok h(2) st fin] res have 1: "svc_ok e svc'" "history_copied e ?d lk (pr_src p) (cdb (db_conn svc'))"
      by (simp_all add: pd)
    have "yields (db_view e ?d) h s" using st head_exists [OF ok h(2)] by (simp add: state_of_def)
    then have "yields (db_view e (cdb c)) (f h) s" using image_history [OF im _ h(1)] unfolding yields_def by blast
    with level_imageD(5) [OF im sv(5) h(1)] image_moved [OF im g sv(3) fk rk] db have "finished e lk rk ?d (cdb (db_conn svc')) s"
      unfolding finished_def by auto
    with 1 res show ?thesis by simp
  qed
qed

text \<open>Recording the commits of an import.\<close>

lemma stacked_moved:
  "commits_stacked e lk hb d ids d' \<Longrightarrow> closed_db d \<Longrightarrow> ranked rk d \<Longrightarrow> (\<And>q. hb = Some q \<Longrightarrow> at_level d lk q) \<Longrightarrow>
     (\<exists>rk'. moved e lk rk d rk' d') \<and> closed_db d' \<and> (\<forall>q. top_of hb ids = Some q \<longrightarrow> at_level d' lk q) \<and>
     (ids \<noteq> [] \<longrightarrow> fmlookup (commits d) (last ids) = None)"
proof (induction rule: commits_stacked.induct)
  case nil
  then show ?case by (auto simp: top_of_def intro: moved_refl)
next
  case (snoc ids d1 i s d2)
  then obtain rk1 where m1: "moved e lk rk d rk1 d1" and cl1: "closed_db d1"
    and top: "\<And>q. top_of hb ids = Some q \<Longrightarrow> at_level d1 lk q" by blast
  have "ranked rk1 d1" using m1 by (simp add: moved_def)
  from added_moved [OF snoc.hyps(2) cl1 top this] obtain rk2 where m2: "moved e lk rk1 d1 rk2 d2" and cl2: "closed_db d2" by blast
  have "yields (db_view e d2) i s" "autoinc d1 < i" using snoc.hyps(2) by (simp_all add: commit_added_def)
  then have "at_level d2 lk i" "autoinc d < i" using snoc.hyps(2) m1 by (auto simp: commit_added_def at_level_def moved_def grows_def)
  moreover have "fmlookup (commits d) i = None" using snoc.prems(1) \<open>autoinc d < i\<close>
    by (cases "fmlookup (commits d) i") (fastforce simp: closed_db_def)+
  ultimately show ?case using moved_trans [OF m1 m2 snoc.prems(1)] cl2 by (auto simp: top_of_def)
qed

lemma update_chain_first:
  "update_chain e lk hb b ps s \<Longrightarrow> ps \<noteq> [] \<Longrightarrow> ph_parent_ix (hd ps) = None \<and> ph_parent (hd ps) = hb"
proof (induction rule: update_chain.induct)
  case (snoc ps s t p)
  then show ?case by (cases "ps = []") auto
qed simp

lemma late_merge:
  assumes e: "env_ok e" and ok: "svc_ok e svc" and rk: "ranked rk (cdb (db_conn svc))"
    and p: "pend_ok e lk rk (cdb (db_conn svc)) (PendMerge ps) s" and fin: "finalizeImportManyFromGdge e now ps svc = (res, svc')"
  shows "svc_ok e svc' \<and> (\<exists>rk'. moved e lk rk (cdb (db_conn svc)) rk' (cdb (db_conn svc'))) \<and>
    (\<forall>ids. res = Inr ids \<longrightarrow> finished e lk rk (cdb (db_conn svc)) (cdb (db_conn svc')) s)"
proof -
  let ?d = "cdb (db_conn svc)"
  note sv = svc_facts [OF ok]
  from p obtain hb b where u: "update_chain e lk hb b ps s" and b: "base_good e ?d hb b" and ne: "ps \<noteq> []"
    and own: "owned ?d lk hb" by auto
  from fin ne have f: "finalize_pending e now ps [] svc = (res, svc')" by (simp add: finalizeImportManyFromGdge_def)
  show ?thesis
  proof (cases "\<exists>q. hb = Some q \<and> fmlookup (commits ?d) q = None")
    case True
    then obtain q where q: "hb = Some q" "fmlookup (commits ?d) q = None" by blast
    from ne obtain x xs where ps: "ps = x # xs" by (cases ps) auto
    with update_chain_first [OF u] q have par: "pending_parent [] x = Some (Some q)" by (simp add: pending_parent_def)
    obtain y c where ins: "insertAndSetHead (e_zlib e) (now 0) (ph_level x) (Some q) (ph_reverts x) (ph_message x) (ph_delta x) (db_conn svc) = (y, c)"
      by fastforce
    obtain err where y: "y = Inl err"
      using insert_needs_parent [OF _ sv(1,2) base_le [OF b [unfolded q(1)]]] ins q(2) by (cases y) blast+
    with f par ins have "res = Inl (GdgeStore 0 err)" "svc' = svc\<lparr>db_conn := c\<rparr>" by (simp_all add: ps)
    with insert_failed [OF ok ins [unfolded y]] moved_refl [OF rk] show ?thesis by auto
  next
    case False
    then have ex: "fmlookup (commits ?d) q \<noteq> None" if "hb = Some q" for q using that by simp
    from finalize_pending_ok [OF e ok base_starts [OF b ex] u f] obtain ids where ok': "svc_ok e svc'"
      and st: "commits_stacked e lk hb ?d ids (cdb (db_conn svc'))"
      and r: "case res of Inl err \<Rightarrow> length ids < length ps | Inr minted \<Rightarrow> minted = ids \<and> length ids = length ps \<and>
           starts (db_view e (cdb (db_conn svc'))) (top_of hb ids) s" by blast
    have "at_level ?d lk q" if "hb = Some q" for q using own ex [OF that] that by (simp add: owned_def)
    note m = stacked_moved [OF st sv(6) rk this]
    have "finished e lk rk ?d (cdb (db_conn svc')) s" if "res = Inr x" for x
    proof -
      from r that ne have "ids \<noteq> []" "starts (db_view e (cdb (db_conn svc'))) (top_of hb ids) s" by auto
      with m show ?thesis by (auto simp: finished_def top_of_def starts_parent)
    qed
    with ok' m show ?thesis by blast
  qed
qed

text \<open>
  A pending operation finished late is refused, leaving the database as it is (an import of
  files may leave some of its commits), or makes a commit with exactly the prepared state.
\<close>

lemma finalize_op_ok:
  assumes e: "env_ok e" and ok: "svc_ok e svc" and rk: "ranked rk (cdb (db_conn svc))"
    and p: "pend_ok e lk rk (cdb (db_conn svc)) p s" and fin: "finalize_op e now p s svc = (res, svc')"
  shows "svc_ok e svc' \<and> (\<exists>rk'. moved e lk rk (cdb (db_conn svc)) rk' (cdb (db_conn svc'))) \<and>
    (res = Inr () \<longrightarrow> finished e lk rk (cdb (db_conn svc)) (cdb (db_conn svc')) s) \<and>
    (res \<noteq> Inr () \<longrightarrow> cdb (db_conn svc') = cdb (db_conn svc) \<or> (\<exists>ps. p = PendMerge ps))"
proof -
  have one: ?thesis
    if run: "flow_result w r = (res, svc')" and r: "r = (r1, svc')"
      and a: "svc_ok e svc' \<and> (case r1 of Inl err \<Rightarrow> cdb (db_conn svc') = cdb (db_conn svc)
         | Inr _ \<Rightarrow> finished e lk rk (cdb (db_conn svc)) (cdb (db_conn svc')) s)" for w :: "'b \<Rightarrow> flow_error" and r :: "('b + 'c) \<times> service" and r1
  proof (cases r1)
    case (Inl err)
    with run r have "res = Inl (w err)" by simp
    with a Inl moved_same [OF rk] show ?thesis by auto
  next
    case (Inr v)
    with run r have "res = Inr ()" by simp
    with a Inr show ?thesis by (auto simp: finished_def)
  qed
  show ?thesis
  proof (cases p)
    case (PendHead x)
    with fin have run: "flow_result FlowGit (finalizeCheckout e (now 0) x s svc) = (res, svc')" by simp
    obtain r1 svc1 where f: "finalizeCheckout e (now 0) x s svc = (r1, svc1)" by fastforce
    with run have "svc1 = svc'" by (auto simp: flow_result_eq)
    with late_head [OF e ok rk p [unfolded PendHead] f] f show ?thesis by (intro one [OF run]) (auto split: sum.splits)
  next
    case (PendSquash x)
    with fin have run: "flow_result FlowGit (finalizeSquash e (now 0) x s svc) = (res, svc')" by simp
    obtain r1 svc1 where f: "finalizeSquash e (now 0) x s svc = (r1, svc1)" by fastforce
    with run have "svc1 = svc'" by (auto simp: flow_result_eq)
    with late_squash [OF e ok rk p [unfolded PendSquash] f] f show ?thesis by (intro one [OF run]) (auto split: sum.splits)
  next
    case (PendReplace x)
    with fin have run: "flow_result FlowGit (finalizeImportLevelFrom e x s svc) = (res, svc')" by simp
    obtain r1 svc1 where f: "finalizeImportLevelFrom e x s svc = (r1, svc1)" by fastforce
    with run have "svc1 = svc'" by (auto simp: flow_result_eq)
    with late_replace [OF e ok rk p [unfolded PendReplace] f] f show ?thesis by (intro one [OF run]) (auto split: sum.splits)
  next
    case (PendMerge ps)
    with fin have run: "flow_result FlowGdge (finalizeImportManyFromGdge e now ps svc) = (res, svc')" by simp
    obtain r1 svc1 where f: "finalizeImportManyFromGdge e now ps svc = (r1, svc1)" by fastforce
    with run have "svc1 = svc'" "res = Inr () \<longrightarrow> (\<exists>ids. r1 = Inr ids)" by (auto simp: flow_result_eq split: sum.splits)
    with late_merge [OF e ok rk p [unfolded PendMerge] f] PendMerge show ?thesis by auto
  qed
qed

section \<open>What is prepared is good\<close>

lemma ranked_chain:
  "ranked rk d \<Longrightarrow> chain_from (db_view e d) (Some q) ids \<Longrightarrow> ids \<noteq> [] \<Longrightarrow> rk q < rk (last ids)"
proof (induction ids arbitrary: q)
  case (Cons i ids)
  then have "rk q < rk i" by (auto simp: ranked_def db_view_def split: option.splits)
  with Cons show ?case by (cases "ids = []") (auto intro: less_trans)
qed simp

lemma head_own:
  assumes "svc_ok e svc" and "levels_ok (cdb (db_conn svc))" and "p = None \<or> fmlookup (refs (cdb (db_conn svc))) lk = p"
  shows "owned (cdb (db_conn svc)) lk p"
  using levels_okD(2) [OF assms(2)] assms(3) svc_facts(6) [OF assms(1)] by (cases p) (auto intro: level_own)

lemma leads_pend:
  assumes "svc_ok e svc" and "levels_ok (cdb (db_conn svc))" and "leads_to e svc lk s p"
  shows "pend_ok e lk rk (cdb (db_conn svc)) (PendHead p) s"
proof -
  from assms(3) obtain h b msg rv where p: "p = head_update lk h rv msg (dump e (diff_states e b s))" "keyed s"
    "fmlookup (refs (cdb (db_conn svc))) lk = Some h" "starts (db_view e (cdb (db_conn svc))) (Some h) b" unfolding leads_to_def by blast
  have "h \<le> autoinc (cdb (db_conn svc))" using head_exists [OF assms(1) p(3)] svc_facts(6) [OF assms(1)] by (fastforce simp: closed_db_def)
  with p starts_base [OF p(4)] head_own [OF assms(1,2), of "Some h"] show ?thesis by auto
qed

lemma folds_pend:
  assumes "svc_ok e svc" and "ranked rk (cdb (db_conn svc))" and "folds e (cdb (db_conn svc)) lk ids t p"
  shows "pend_ok e lk rk (cdb (db_conn svc)) (PendSquash p) t"
proof -
  let ?d = "cdb (db_conn svc)"
  note cl = svc_facts(6) [OF assms(1)]
  from assms(3) obtain par b msg where p: "p = \<lparr>ps_level = lk, ps_ids = ids, ps_parent = par, ps_message = msg, ps_delta = dump e (diff_states e b t)\<rparr>"
    "keyed t" "starts (db_view e ?d) par b" "chain_from (db_view e ?d) par ids" "ids \<noteq> []" "yields (db_view e ?d) (last ids) t"
    "\<forall>j \<in> set ids. at_level ?d lk j" unfolding folds_def by blast
  have le: "\<forall>j \<in> set ids. j \<le> autoinc ?d" using p(7) cl by (fastforce simp: closed_db_def at_level_def)
  have "q \<le> autoinc ?d" if "par = Some q" for q
    using p(3) that yields_dom [of e ?d q b] cl by (fastforce simp: starts_def closed_db_def)
  then have "base_good e ?d par b" by (rule starts_base [OF p(3)])
  moreover have "good_state e ?d (last ids) t" using p(2,5,6) le by (simp add: good_state_def)
  moreover have "rk q < rk (last ids)" if "par = Some q" for q using ranked_chain [OF assms(2) _ p(5)] p(4) that by blast
  moreover have "at_level ?d lk q" if "par = Some q" for q
  proof -
    from p(4,5) that obtain i \<delta> where i: "i \<in> set ids" "db_view e ?d i = Some (Some q, \<delta>)" by (cases ids) auto
    then obtain r where r: "fmlookup (commits ?d) i = Some r" "r_parent r = Some q" by (auto simp: db_view_def split: option.splits)
    from levels_okD(1) [OF rankedD(1) [OF assms(2)] r] p(7) i(1) r(1) show ?thesis by (auto simp: at_level_def)
  qed
  then have "owned ?d lk par" using cl by (cases par) (auto intro: level_own)
  ultimately show ?thesis using p(1,5) le by auto
qed

lemma prepareReplace_ok:
  assumes ok: "svc_ok e svc" and run: "prepareImportLevelFrom e dest src svc = Some (p, svc')"
  shows "step_ok e svc svc' \<and> (\<forall>s. outcome p = Inr s \<longrightarrow>
     (\<exists>x. pending p = Some x \<and> pend_ok e dest rk (cdb (db_conn svc)) (PendReplace x) s))"
proof -
  let ?d = "cdb (db_conn svc)"
  obtain hh c where g: "getHead src (db_conn svc) = (hh, c)" by fastforce
  let ?svc1 = "svc\<lparr>db_conn := c\<rparr>"
  have s1: "step_ok e svc ?svc1" by (rule getHead_step [OF g ok])
  show ?thesis
  proof (cases "dest = src \<or> hh = None")
    case True
    with run g s1 step_ok_refl [OF ok] show ?thesis by (auto simp: prepareImportLevelFrom_def refuse_def Let_def split: if_splits)
  next
    case False
    then obtain h where h: "hh = Some h" "dest \<noteq> src" by auto
    let ?k = "\<lambda>r svc2. case r of None \<Rightarrow> refuse ErrReconstruct svc2
        | Some st \<Rightarrow> Some (\<lparr>outcome = Inr st, pending = Some \<lparr>pr_dest = dest, pr_src = src\<rparr>\<rparr>, svc2)"
    from run g h have "after_reconstruct e h ?svc1 ?k = Some (p, svc')" by (simp add: prepareImportLevelFrom_def Let_def)
    from after_reconstruct_Some [OF this] step_ok_parts [OF s1] obtain r svc2 where
      k: "?k r svc2 = Some (p, svc')" and s2: "step_ok e svc svc2" and st: "\<forall>s. r = Some s \<longrightarrow> state_of e ?d h s"
      using step_ok_trans [OF s1] by auto
    have hd: "fmlookup (refs ?d) src = Some h" using getHead_Some g h(1) by fastforce
    have "h \<le> autoinc ?d" using head_exists [OF ok hd] svc_facts(6) [OF ok] by (fastforce simp: closed_db_def)
    then have "good_state e ?d h s" if "r = Some s" for s using st that by (simp add: good_state_def state_of_def)
    with k s2 hd h(2) show ?thesis by (cases r) (auto simp: refuse_def)
  qed
qed

lemma prepareMerge_ok:
  assumes ok: "svc_ok e svc" and lv: "levels_ok (cdb (db_conn svc))" and run: "prepareImportManyFromGdge e g dest paths svc d = Some ((res, ps), svc', d')"
  shows "step_ok e svc svc' \<and> (\<forall>v. res = Inr v \<longrightarrow> pend_ok e dest rk (cdb (db_conn svc)) (PendMerge ps) (ip_state v))"
proof -
  note pr = prepareImportMany_ok [OF run ok]
  have "base_good e (cdb (db_conn svc)) hb b" if "hb = None \<or> fmlookup (refs (cdb (db_conn svc))) dest = hb"
    "starts (db_view e (cdb (db_conn svc))) hb b" for hb b
  proof (rule starts_base [OF that(2)])
    fix q assume "hb = Some q"
    with that(1) head_exists [OF ok, of dest q] svc_facts(6) [OF ok] show "q \<le> autoinc (cdb (db_conn svc))"
      by (fastforce simp: closed_db_def)
  qed
  then have "pend_ok e dest rk (cdb (db_conn svc)) (PendMerge ps) (ip_state v)" if "res = Inr v" for v
    using pr that head_own [OF ok lv] unfolding pend_ok.simps by metis
  with pr show ?thesis by blast
qed

end
