(* ===== verification/Service_Life.thy ===== *)
theory Service_Life
  imports Service_Late
begin

text \<open>
  What every call of the service keeps, over sessions and restarts: the commits that are left
  keep their states and their levels, and the schema stays current.  Then a committed level can
  always be brought back.
\<close>

section \<open>One call\<close>

text \<open>In a sound database every row shows in the view.\<close>

lemma view_dom:
  assumes "svc_ok e svc"
  shows "(fmlookup (commits (cdb (db_conn svc))) j = None) = (db_view e (cdb (db_conn svc)) j = None)"
proof (cases "fmlookup (commits (cdb (db_conn svc))) j")
  case (Some r)
  with svc_facts(3) [OF assms] obtain s where "history (db_view e (cdb (db_conn svc))) j s" unfolding sound_db_def by blast
  then have "db_view e (cdb (db_conn svc)) j \<noteq> None" by (cases rule: history.cases) simp_all
  with Some show ?thesis by simp
qed (simp add: db_view_def)

lemma ranked_view:
  assumes "svc_ok e svc"
  shows "ranked rk (cdb (db_conn svc)) \<longleftrightarrow> levels_ok (cdb (db_conn svc)) \<and> (\<forall>j q \<delta>. db_view e (cdb (db_conn svc)) j = Some (Some q, \<delta>) \<longrightarrow> rk q < rk j)"
proof -
  let ?d = "cdb (db_conn svc)"
  have eq: "(\<exists>r. fmlookup (commits ?d) j = Some r \<and> r_parent r = Some q) = (\<exists>\<delta>. db_view e ?d j = Some (Some q, \<delta>))" for j q
  proof (cases "fmlookup (commits ?d) j")
    case (Some r)
    with view_dom [OF assms, of j] have "delta_of e r \<noteq> None" by (simp add: db_view_def split: option.splits)
    with Some show ?thesis by (auto simp: db_view_def)
  qed (simp add: db_view_def)
  have "ranked rk ?d \<longleftrightarrow> levels_ok ?d \<and> (\<forall>j q. (\<exists>r. fmlookup (commits ?d) j = Some r \<and> r_parent r = Some q) \<longrightarrow> rk q < rk j)"
    by (auto simp: ranked_def)
  also have "\<dots> \<longleftrightarrow> levels_ok ?d \<and> (\<forall>j q \<delta>. db_view e ?d j = Some (Some q, \<delta>) \<longrightarrow> rk q < rk j)" unfolding eq by auto
  finally show ?thesis .
qed

lemma delete_moved:
  assumes ok: "svc_ok e svc" and rk: "ranked rk (cdb (db_conn svc))" and run: "delete_level k svc = (res, svc')"
  shows "svc_ok e svc' \<and> moved e lk rk (cdb (db_conn svc)) rk (cdb (db_conn svc'))"
proof (cases res)
  case True
  let ?d = "cdb (db_conn svc)"
  from delete_level_ok [OF ok run] True have d: "cdb (db_conn svc') = deleted k ?d" and s: "svc_ok e svc'"
    and keep: "\<And>j s. history (db_view e ?d) j s \<Longrightarrow> fmlookup (commits (deleted k ?d)) j \<noteq> None \<Longrightarrow>
      history (db_view e (deleted k ?d)) j s" by auto
  have sub: "fmlookup (commits (deleted k ?d)) j = Some r \<Longrightarrow> fmlookup (commits ?d) j = Some r" for j r
    by (auto simp: deleted_def split: if_splits)
  note g = grows_deleted [of ?d k]
  have "levels_ok (deleted k ?d)"
  proof (rule levels_step [OF g svc_facts(6) [OF ok] rankedD(1) [OF rk]])
    show "fk_ok (deleted k ?d)" using svc_facts(4) [OF s] d by simp
    show "at_level (deleted k ?d) (r_level r) q \<or> (\<exists>k x. fmlookup (commits ?d) k = Some x \<and> r_parent x = Some q \<and> r_level x = r_level r)"
      if "fmlookup (commits (deleted k ?d)) j = Some r" "r_parent r = Some q" for j r q using sub that by blast
    show "at_level (deleted k ?d) l h \<or> fmlookup (refs ?d) l = Some h" if "fmlookup (refs (deleted k ?d)) l = Some h" for l h
      using that by (auto simp: deleted_def split: if_splits)
  qed
  then have "ranked rk (deleted k ?d)" using rk sub by (simp add: ranked_def)
  moreover note g
  moreover have "fmlookup (refs ?d) l = Some h" if "fmlookup (refs (deleted k ?d)) l = Some h" for l h
    using that by (auto simp: deleted_def split: if_splits)
  moreover have "yields (db_view e (deleted k ?d)) j s" if "yields (db_view e ?d) j s" "fmlookup (commits (deleted k ?d)) j \<noteq> None" for j s
    using that keep unfolding yields_def by blast
  ultimately show ?thesis using s unfolding moved_def d by blast
next
  case False
  with delete_level_ok [OF ok run] rk show ?thesis by (simp add: moved_refl)
qed

text \<open>A new message changes neither levels nor parents.\<close>

lemma ranked_cong:
  assumes same: "\<And>j. map_option (\<lambda>r. (r_level r, r_parent r)) (fmlookup (commits d') j) =
      map_option (\<lambda>r. (r_level r, r_parent r)) (fmlookup (commits d) j)" and "refs d' = refs d"
  shows "at_level d' lk j = at_level d lk j" "ranked rk d \<Longrightarrow> ranked rk d'"
proof -
  have row: "\<exists>x. fmlookup (commits d) j = Some x \<and> r_level x = r_level r \<and> r_parent x = r_parent r"
    if "fmlookup (commits d') j = Some r" for j r using same [of j] that by (cases "fmlookup (commits d) j") auto
  have at: "at_level d' lk j = at_level d lk j" for lk j
    using same [of j] by (cases "fmlookup (commits d) j"; cases "fmlookup (commits d') j") (auto simp: at_level_def)
  then show "at_level d' lk j = at_level d lk j" .
  assume rk: "ranked rk d"
  have "at_level d' (r_level r) q \<and> rk q < rk j" if "fmlookup (commits d') j = Some r" "r_parent r = Some q" for j r q
    using row [OF that(1)] that(2) rankedD(2) [OF rk] levels_okD(1) [OF rankedD(1) [OF rk]] at by metis
  with levels_okD(2) [OF rankedD(1) [OF rk]] assms(2) at show "ranked rk d'" by (simp add: ranked_def levels_ok_def)
qed

lemma message_moved:
  assumes "svc_ok e svc" and "ranked rk (cdb (db_conn svc))" and "updateCommitMessage i msg svc = (res, svc')"
  shows "svc_ok e svc' \<and> moved e lk rk (cdb (db_conn svc)) rk (cdb (db_conn svc'))"
proof -
  note u = updateCommitMessage_ok [OF assms(1,3)]
  then have ok: "svc_ok e svc'" by blast
  have same: "map_option (\<lambda>r. (r_level r, r_parent r)) (fmlookup (commits (cdb (db_conn svc'))) j) =
      map_option (\<lambda>r. (r_level r, r_parent r)) (fmlookup (commits (cdb (db_conn svc))) j)" for j using u by blast
  note c = ranked_cong [OF same, simplified u, OF refl]
  have "at_level (cdb (db_conn svc)) (r_level r) j" if "fmlookup (commits (cdb (db_conn svc'))) j = Some r" for j r
    using that c(1) [of "r_level r" j] by (auto simp: at_level_def)
  with u ok c(2) [OF assms(2)] show ?thesis by (simp add: moved_def grows_def)
qed

lemma commit_moved:
  assumes e: "env_ok e" and ok: "svc_ok e svc" and rk: "ranked rk (cdb (db_conn svc))"
    and run: "git_commit e now lk msg live ds svc = Some (res, svc')"
  shows "svc_ok e svc' \<and> (\<exists>rk'. moved e lk rk (cdb (db_conn svc)) rk' (cdb (db_conn svc')))"
proof (cases res)
  case (Inl err)
  with git_commit_ok [OF e ok run] moved_same [OF rk] show ?thesis by auto
next
  case (Inr i)
  with git_commit_ok [OF e ok run] obtain parent incoming where s: "svc_ok e svc'"
    and p: "parent = None \<or> (\<exists>p. parent = Some p \<and> fmlookup (refs (cdb (db_conn svc))) lk = Some p)"
    and ad: "commit_added e (cdb (db_conn svc)) lk parent i incoming (cdb (db_conn svc'))" by auto
  have "at_level (cdb (db_conn svc)) lk q" if "parent = Some q" for q
    using p that levels_okD(2) [OF rankedD(1) [OF rk]] by auto
  with added_moved [OF ad svc_facts(6) [OF ok] _ rk] s show ?thesis by blast
qed

lemma fetch_same_db: "same_db c (snd (fetch xs c))"
proof -
  have "faults c = [] \<Longrightarrow> snd (fetch xs c) = c" by (induction xs) (auto simp: split_beta)
  then show ?thesis by (simp add: same_db_def)
qed

lemma step_svc: "step_ok e svc svc1 \<Longrightarrow> svc_ok e svc1"
  by (simp add: step_ok_def)

lemma step_moved: "step_ok e svc svc' \<Longrightarrow> ranked rk (cdb (db_conn svc)) \<Longrightarrow>
    svc_ok e svc' \<and> moved e lk rk (cdb (db_conn svc)) rk (cdb (db_conn svc'))"
  using moved_refl step_ok_db by (metis step_svc)

lemma svc_ranked:
  assumes "svc_ok e svc" and "levels_ok (cdb (db_conn svc))"
  shows "\<exists>rk. ranked rk (cdb (db_conn svc))"
proof -
  let ?V = "db_view e (cdb (db_conn svc))"
  have "depth ?V q < depth ?V j" if v: "?V j = Some (Some q, \<delta>)" for j q \<delta>
  proof -
    have "fmlookup (commits (cdb (db_conn svc))) j \<noteq> None" using v view_dom [OF assms(1)] by simp
    with svc_facts(3) [OF assms(1)] obtain s where "history ?V j s" unfolding sound_db_def by blast
    with history_descends [of ?V j s] depth_parent [of ?V j q \<delta>] v show ?thesis by blast
  qed
  with ranked_view [OF assms(1)] assms(2) show ?thesis by blast
qed

lemma head_moved:
  assumes ok: "svc_ok e svc" and rk: "ranked rk (cdb (db_conn svc))" and h: "fmlookup (refs (cdb (db_conn svc))) lk = Some h"
    and ad: "commit_added e (cdb (db_conn svc)) lk (Some h) i s d'"
  shows "\<exists>rk'. moved e lk rk (cdb (db_conn svc)) rk' d'"
  using added_moved [OF ad svc_facts(6) [OF ok] _ rk] levels_okD(2) [OF rankedD(1) [OF rk] h] by blast

lemma squash_moved:
  assumes e: "env_ok e" and ok: "svc_ok e svc" and rk: "ranked rk (cdb (db_conn svc))"
    and run: "git_squash e now lk ids msg svc = Some (res, svc')"
  shows "\<exists>rk'. moved e lk rk (cdb (db_conn svc)) rk' (cdb (db_conn svc'))"
proof -
  from run obtain p svc1 where prep: "prepareSquash e lk ids msg svc = Some (p, svc1)"
    by (auto simp: git_squash_def split: option.splits prod.splits)
  from prepareSquash_ok [OF e ok prep] have s1: "svc_ok e svc1" "cdb (db_conn svc1) = cdb (db_conn svc)"
    and pr: "\<And>t. outcome p = Inr t \<Longrightarrow> \<exists>ps. pending p = Some ps \<and> folds e (cdb (db_conn svc)) lk ids t ps"
    using step_ok_parts by blast+
  show ?thesis
  proof (cases "outcome p")
    case (Inl err)
    with run prep have "svc' = svc1" by (simp add: git_squash_def)
    with s1 moved_same [OF rk] show ?thesis by auto
  next
    case (Inr t)
    with pr obtain ps where ps: "pending p = Some ps" "folds e (cdb (db_conn svc)) lk ids t ps" by blast
    obtain r svc2 where f: "finalizeSquash e now ps t svc1 = (r, svc2)" by fastforce
    from run prep Inr ps(1) f have sv: "svc' = svc2" by (auto simp: git_squash_def split: sum.splits)
    note late = late_squash [OF e s1(1) _ _ f, unfolded s1(2), OF rk folds_pend [OF ok rk ps(2)]]
    from late moved_same [OF rk] sv show ?thesis by (auto simp: finished_def split: sum.splits)
  qed
qed

lemma replace_moved:
  assumes e: "env_ok e" and ok: "svc_ok e svc" and rk: "ranked rk (cdb (db_conn svc))"
    and run: "importLevelFrom e dest src svc = Some (res, svc')"
  shows "\<exists>rk'. moved e dest rk (cdb (db_conn svc)) rk' (cdb (db_conn svc'))"
proof -
  from run obtain p svc1 where prep: "prepareImportLevelFrom e dest src svc = Some (p, svc1)"
    by (auto simp: importLevelFrom_def split: option.splits prod.splits)
  from prepareReplace_ok [OF ok prep, of rk] have s1: "svc_ok e svc1" "cdb (db_conn svc1) = cdb (db_conn svc)"
    and pr: "\<And>s. outcome p = Inr s \<Longrightarrow> \<exists>x. pending p = Some x \<and> pend_ok e dest rk (cdb (db_conn svc)) (PendReplace x) s"
    using step_ok_parts by blast+
  show ?thesis
  proof (cases "outcome p")
    case (Inl err)
    with run prep have "svc' = svc1" by (simp add: importLevelFrom_def)
    with s1 moved_same [OF rk] show ?thesis by auto
  next
    case (Inr s)
    with pr obtain x where x: "pending p = Some x" "pend_ok e dest rk (cdb (db_conn svc)) (PendReplace x) s" by blast
    obtain r svc2 where f: "finalizeImportLevelFrom e x s svc1 = (r, svc2)" by fastforce
    from run prep Inr x(1) f have sv: "svc' = svc2" by (auto simp: importLevelFrom_def split: sum.splits)
    note late = late_replace [OF e s1(1) _ _ f, unfolded s1(2), OF rk x(2)]
    from late moved_same [OF rk] sv show ?thesis by (auto simp: finished_def split: sum.splits)
  qed
qed

lemma import_moved:
  assumes e: "env_ok e" and ok: "svc_ok e svc" and rk: "ranked rk (cdb (db_conn svc))"
    and run: "importManyFromGdge e g now dest paths svc d = Some (res, svc', d')"
  shows "\<exists>rk'. moved e dest rk (cdb (db_conn svc)) rk' (cdb (db_conn svc'))"
proof -
  from importMany_ok [OF e ok run] obtain hb ids where hb: "hb = None \<or> fmlookup (refs (cdb (db_conn svc))) dest = hb"
    and st: "commits_stacked e dest hb (cdb (db_conn svc)) ids (cdb (db_conn svc'))" by blast
  from hb levels_okD(2) [OF rankedD(1) [OF rk]] have "at_level (cdb (db_conn svc)) dest q" if "hb = Some q" for q
    using that by auto
  from stacked_moved [OF st svc_facts(6) [OF ok] rk this] show ?thesis by blast
qed

text \<open>Every call of the service works on one level and keeps what it does not delete.\<close>

lemma git_step_moved:
  assumes e: "env_ok e" and ok: "svc_ok e svc" and rk: "ranked rk (cdb (db_conn svc))"
    and mv: "meta_version (cdb (db_conn svc)) = Some ''5''" and run: "git_step e k svc = Some svc'"
  shows "\<exists>lk rk'. moved e lk rk (cdb (db_conn svc)) rk' (cdb (db_conn svc'))"
proof (cases k)
  case (G_Commit now lk msg live ds)
  with run commit_moved [OF e ok rk] show ?thesis by fastforce
next
  case (G_Checkout now lk target)
  with run obtain r where c: "checkout e now lk target svc = Some (r, svc')" by auto
  show ?thesis using checkout_ok [OF e ok c] head_moved [OF ok rk] moved_same [OF rk]
    by (auto split: sum.splits option.splits) blast+
next
  case (G_Revert now lk target)
  with run obtain r where c: "revert e now lk target svc = Some (r, svc')" by auto
  show ?thesis using revert_ok [OF e ok c] head_moved [OF ok rk] moved_same [OF rk]
    by (auto split: sum.splits option.splits) blast+
next
  case (G_Squash now lk ids msg)
  with run squash_moved [OF e ok rk] show ?thesis by fastforce
next
  case (G_Import dest src)
  with run replace_moved [OF e ok rk] show ?thesis by fastforce
next
  case (G_Delete lk)
  with run delete_moved [OF ok rk, of lk "fst (delete_level lk svc)" svc'] show ?thesis by (auto simp: prod_eq_iff)
next
  case (G_Message i msg)
  with run message_moved [OF ok rk, of i msg "fst (updateCommitMessage i msg svc)" svc'] show ?thesis by (auto simp: prod_eq_iff)
next
  case (G_Reconstruct i)
  with run reconstruct_ok [OF ok, of i] have "cdb (db_conn svc') = cdb (db_conn svc)" by (auto simp: same_db_def)
  with moved_same [OF rk] show ?thesis by blast
next
  case (G_Export g lk outPath d)
  with run have "cdb (db_conn svc') = cdb (db_conn svc)" using exportLevel_ok [OF ok] step_ok_parts by fastforce
  with moved_same [OF rk] show ?thesis by blast
next
  case (G_ImportMany g now dest inPaths d)
  with run import_moved [OF e ok rk] show ?thesis by fastforce
next
  case G_ClearCache
  with run have "cdb (db_conn svc') = cdb (db_conn svc)" by auto
  with moved_same [OF rk] show ?thesis by blast
next
  case (G_Restart n fs)
  with run restarted_same [OF ok mv] have "cdb (db_conn svc') = cdb (db_conn svc)" by auto
  with moved_same [OF rk] show ?thesis by blast
qed

section \<open>Whole lives\<close>

text \<open>From one database to a later one, whatever levels were worked on in between.\<close>

definition kept :: "'j service_env \<Rightarrow> db \<Rightarrow> db \<Rightarrow> bool" where
  "kept e d d' \<longleftrightarrow> grows d d' \<and> levels_ok d' \<and>
     (\<forall>j s. yields (db_view e d) j s \<longrightarrow> fmlookup (commits d') j \<noteq> None \<longrightarrow> yields (db_view e d') j s)"

lemma moved_kept: "moved e lk rk d rk' d' \<Longrightarrow> kept e d d'"
  by (simp add: moved_def kept_def ranked_def)

lemma kept_refl: "levels_ok d \<Longrightarrow> kept e d d"
  by (simp add: kept_def)

lemma kept_trans:
  assumes a: "kept e d d1" and b: "kept e d1 d2" and d: "closed_db d"
  shows "kept e d d2"
proof -
  have g: "grows d d1" "grows d1 d2" using a b by (simp_all add: kept_def)
  then have "autoinc d \<le> autoinc d1" by (simp add: grows_def)
  then have "fmlookup (commits d1) j \<noteq> None" if "yields (db_view e d) j s" "fmlookup (commits d2) j \<noteq> None" for j s
    using yields_dom [OF that(1)] d that(2) grows_exists [OF g(2)] by (fastforce simp: closed_db_def)
  with a b grows_trans [OF g] show ?thesis unfolding kept_def by blast
qed

lemma git_step_kept:
  assumes "env_ok e" and "svc_ok e svc" and "levels_ok (cdb (db_conn svc))"
    and "meta_version (cdb (db_conn svc)) = Some ''5''" and "git_step e k svc = Some svc'"
  shows "kept e (cdb (db_conn svc)) (cdb (db_conn svc'))"
  using svc_ranked [OF assms(2,3)] git_step_moved [OF assms(1,2) _ assms(4,5)] moved_kept by blast

lemma kept_meta: "kept e d d' \<Longrightarrow> meta_version d' = meta_version d"
  by (simp add: kept_def grows_def)

fun git_calls :: "'j service_env \<Rightarrow> git_call list \<Rightarrow> service \<Rightarrow> service option" where
  "git_calls e [] svc = Some svc"
| "git_calls e (k # ks) svc = (case git_step e k svc of None \<Rightarrow> None | Some svc1 \<Rightarrow> git_calls e ks svc1)"

text \<open>What a service keeps for its whole life: the invariant, levels apart, and the current schema.\<close>

definition live_svc :: "'j service_env \<Rightarrow> service \<Rightarrow> bool" where
  "live_svc e svc \<longleftrightarrow> svc_ok e svc \<and> levels_ok (cdb (db_conn svc)) \<and> meta_version (cdb (db_conn svc)) = Some ''5''"

lemma git_step_live: "env_ok e \<Longrightarrow> live_svc e svc \<Longrightarrow> git_step e k svc = Some svc' \<Longrightarrow>
    live_svc e svc' \<and> kept e (cdb (db_conn svc)) (cdb (db_conn svc'))"
  using git_step_ok git_step_kept [of e svc k svc'] kept_meta [of e "cdb (db_conn svc)" "cdb (db_conn svc')"]
  by (fastforce simp: live_svc_def kept_def)

lemma new_service_live: "live_svc e (new_service n fs)"
  using new_service_ok [of e n fs] by (simp add: live_svc_def levels_ok_def new_service_def empty_db_def)

lemma git_reach_live: "git_reach e svc \<Longrightarrow> env_ok e \<Longrightarrow> live_svc e svc"
  by (induction rule: git_reach.induct) (auto intro: new_service_live dest: git_step_live)

lemma git_calls_kept:
  "git_calls e ks svc = Some svc' \<Longrightarrow> env_ok e \<Longrightarrow> live_svc e svc \<Longrightarrow>
     live_svc e svc' \<and> kept e (cdb (db_conn svc)) (cdb (db_conn svc'))"
proof (induction ks arbitrary: svc)
  case Nil
  then show ?case by (simp add: live_svc_def kept_refl)
next
  case (Cons k ks)
  then obtain svc1 where k: "git_step e k svc = Some svc1" and ks: "git_calls e ks svc1 = Some svc'" by (auto split: option.splits)
  from git_step_live [OF Cons.prems(2,3) k] have l: "live_svc e svc1" "kept e (cdb (db_conn svc)) (cdb (db_conn svc1))" by blast+
  have "closed_db (cdb (db_conn svc))" using Cons.prems(3) svc_facts(6) by (auto simp: live_svc_def)
  with Cons.IH [OF ks Cons.prems(2) l(1)] kept_trans [OF l(2)] show ?case by blast
qed

end
