(* ===== verification/Editor_Flow.thy ===== *)
theory Editor_Flow
  imports Service_Life Change_Text
begin

text \<open>
  The program around the service: the editor behind \<open>src/editor\<close>, the popups of \<open>src/ui\<close> and
  the pause menu of \<open>src/hooks\<close> as handlers of user events, the worker of
  \<open>src/util/GitWorker.cpp\<close> that runs one posted job at a time, and the main thread that runs
  what finished jobs queue.  Drawing is left out; a popup is its state and what its handlers
  do.  All interleavings of user, worker and main thread are the steps of one relation.
\<close>

section \<open>The editor\<close>

text \<open>The game is not part of the repository: clearing the editor, filling it from a level
  string, and reading back the level string and the number of objects are parameters.\<close>

record 'g game =
  g_clear :: "'g \<Rightarrow> 'g"
  g_setup :: "string \<Rightarrow> 'g \<Rightarrow> 'g"
  g_string :: "'g \<Rightarrow> string"
  g_count :: "'g \<Rightarrow> nat"

definition levelKeyFor :: "int option \<Rightarrow> level_key" where
  "levelKeyFor lv = (case lv of None \<Rightarrow> ''invalid:no-level'' | Some editorId \<Rightarrow> ''id:'' @ int_to_string editorId)"

definition captureLevelString :: "'g game \<Rightarrow> 'g \<Rightarrow> string" where
  "captureLevelString g ed = g_string g ed"

definition applyLevelString :: "'g game \<Rightarrow> string \<Rightarrow> nat \<Rightarrow> 'g \<Rightarrow> bool \<times> 'g" where
  "applyLevelString g levelString expected ed =
     (if levelString = [] then (False, ed)
      else if CHR '';'' \<notin> set levelString then (False, ed)
      else
        (let ed1 = g_setup g levelString (g_clear g ed) in
         if captureLevelString g ed1 = [] then (False, ed1)
         else if expected > 0 \<and> g_count g ed1 < expected then (False, ed1)
         else (True, ed1)))"

definition applyLevelState :: "'g game \<Rightarrow> level_state \<Rightarrow> 'g \<Rightarrow> bool \<times> 'g" where
  "applyLevelState g st ed = applyLevelString g (serializeLevelString st) (length (sorted_keys (objects st))) ed"

section \<open>Messages\<close>

text \<open>A failure has the text around the error.\<close>

datatype notice =
    Info string
  | Warning string
  | Success string
  | ErrorNote string
  | Failure string flow_error string
  | Alert string string

definition applyStateToEditorOrNotify :: "'g game \<Rightarrow> string \<Rightarrow> bool \<Rightarrow> level_state \<Rightarrow> bool \<Rightarrow> 'g \<Rightarrow> bool \<times> 'g \<times> notice list" where
  "applyStateToEditorOrNotify g operation active st hasConflicts ed =
     (if \<not> active then (False, ed, [Warning (operation @ '' ready but editor is no longer active, aborted before DB write'')])
      else
        (case applyLevelState g st ed of (ok, ed1) \<Rightarrow>
           if \<not> ok then (False, ed1, [Warning (operation @ '' ready but editor refused, aborted before DB write'')])
           else (True, ed1, if hasConflicts then [Warning (operation @ '': conflicts merged into editor state'')] else [])))"

definition conflict_line :: "conflict list \<Rightarrow> conflict \<Rightarrow> string \<Rightarrow> string" where
  "conflict_line cs k text =
     (let n = length (filter (\<lambda>c. c = k) cs) in if n = 0 then [] else ''- '' @ nat_to_string n @ text)"

definition showConflictSummary :: "conflict list \<Rightarrow> notice list" where
  "showConflictSummary cs =
     (if cs = [] then []
      else [Alert ''Revert - partial''
        (''Some ops could not be applied cleanly:'' @ [newline] @
         conflict_line cs AddAlreadyExists ('' add(s) already present'' @ [newline]) @
         conflict_line cs Missing ('' missing'' @ [newline]) @
         conflict_line cs ModifyStale '' stale field(s) skipped'')])"

text \<open>The text of a commit message: trimmed (by the framework), not empty, at most 120 characters.\<close>

definition kMaxMessageLen :: nat where
  "kMaxMessageLen = 120"

definition confirm_message :: "(string \<Rightarrow> string) \<Rightarrow> string \<Rightarrow> string option" where
  "confirm_message trim raw =
     (let message = trim raw in
      if message = [] then None
      else Some (if length message > kMaxMessageLen then take kMaxMessageLen message else message))"

text \<open>What a squash starts from: the selection, oldest first, and a message made of theirs.\<close>

definition selectedOldestFirst :: "commit_summary list \<Rightarrow> commit_id list \<Rightarrow> commit_id list" where
  "selectedOldestFirst commitsDesc selected = filter (\<lambda>i. i \<in> set selected) (map cs_id (rev commitsDesc))"

definition message_of :: "commit_summary list \<Rightarrow> commit_id \<Rightarrow> string list" where
  "message_of rows i = (case find (\<lambda>c. cs_id c = i) rows of None \<Rightarrow> [] | Some c \<Rightarrow> [cs_message c])"

fun squash_names :: "string list \<Rightarrow> bool \<Rightarrow> string \<Rightarrow> string" where
  "squash_names [] later acc = acc"
| "squash_names (m # ms) later acc =
     (let acc1 = (if later then acc @ '', '' else acc) @ shorten m 20 in
      if length acc1 > 110 then acc1 @ ''...'' else squash_names ms True acc1)"

definition squash_default :: "string list \<Rightarrow> string" where
  "squash_default messages =
     (let msg = squash_names messages False ''Squash: '' in if length msg > 120 then take 120 msg else msg)"

section \<open>State\<close>

text \<open>The actions that go through \<open>PreparedEditorFlow\<close>, and the questions asked before them.\<close>

datatype flow =
    Flow_Checkout commit_id
  | Flow_Revert commit_id
  | Flow_Squash "commit_id list" string
  | Flow_Load level_key

datatype dialog =
    Ask flow level_key
  | AskSquash "commit_id list" string
  | AskMessage "commit_id list" string
  | AskDelete level_key

text \<open>A popup: \<open>HistoryLayer\<close> or \<open>LevelBrowserLayer\<close>.\<close>

record layer =
  ly_browser :: bool
  ly_level :: level_key
  ly_busy :: bool
  ly_closing :: bool
  ly_serial :: u64
  ly_squash :: bool
  ly_selected :: "commit_id list"
  ly_commits :: "commit_summary list"
  ly_levels :: "level_summary list"
  ly_dialog :: "dialog option"

text \<open>What is posted to the worker, with the popup (its number) that waits for it.\<close>

datatype job =
    Prepare_Job nat flow level_key
  | Finalize_Job nat flow pending_op level_state "conflict list"
  | Delete_Job nat level_key
  | Rename_Job nat commit_id string
  | History_Job nat u64 level_key level_key
  | Levels_Job nat u64
  | Commit_Job level_key string string
  | Export_Job level_key string
  | Plan_Job level_key "string list"
  | Merge_Job level_key "string list"
  | Merge_Finalize_Job "pending_head list" import_payload

text \<open>What a finished job queues for the main thread.\<close>

datatype task =
    Prepared_Task nat flow "git_error + level_state \<times> conflict list" "pending_op option"
  | Finalized_Task nat flow "flow_error + unit" "conflict list"
  | Deleted_Task nat bool
  | Renamed_Task nat bool
  | History_Task nat u64 level_key "commit_summary list"
  | Levels_Task nat u64 "level_summary list"
  | Committed_Task "git_error + commit_id"
  | Exported_Task "gdge_error + unit"
  | Planned_Task level_key "string list" import_plan
  | Merged_Task "string + import_payload" "pending_head list"
  | Merge_Finalized_Task "flow_error + unit" import_payload
  | Close_Task nat

record 'g app =
  a_svc :: service
  a_disk :: disk
  a_editor :: 'g
  a_active :: bool
  a_layers :: "layer list"
  a_plans :: "(level_key \<times> string list \<times> string) list"
  a_jobs :: "job list"
  a_tasks :: "task list"
  a_notes :: "notice list"

text \<open>The environment: the service's, the packages', the game, the level in the editor (its
  identifier is assigned outside the repository) and the framework's trimming of text.\<close>

record ('j, 'g) app_env =
  ae_service :: "'j service_env"
  ae_package :: package_env
  ae_game :: "'g game"
  ae_level :: "int option"
  ae_trim :: "string \<Rightarrow> string"

definition level_of :: "('j, 'g) app_env \<Rightarrow> level_key" where
  "level_of env = levelKeyFor (ae_level env)"

definition layer_at :: "nat \<Rightarrow> 'g app \<Rightarrow> layer" where
  "layer_at pid a = a_layers a ! pid"

definition update_layer :: "nat \<Rightarrow> (layer \<Rightarrow> layer) \<Rightarrow> 'g app \<Rightarrow> 'g app" where
  "update_layer pid f a = a\<lparr>a_layers := (a_layers a)[pid := f (layer_at pid a)]\<rparr>"

definition notify :: "notice list \<Rightarrow> 'g app \<Rightarrow> 'g app" where
  "notify ns a = a\<lparr>a_notes := a_notes a @ ns\<rparr>"

definition post :: "job \<Rightarrow> 'g app \<Rightarrow> 'g app" where
  "post j a = a\<lparr>a_jobs := a_jobs a @ [j]\<rparr>"

definition queue :: "task \<Rightarrow> 'g app \<Rightarrow> 'g app" where
  "queue t a = a\<lparr>a_tasks := a_tasks a @ [t]\<rparr>"

definition finishBusyAction :: "nat \<Rightarrow> 'g app \<Rightarrow> 'g app" where
  "finishBusyAction pid a = update_layer pid (\<lambda>l. l\<lparr>ly_busy := False\<rparr>) a"

definition ask :: "nat \<Rightarrow> dialog option \<Rightarrow> 'g app \<Rightarrow> 'g app" where
  "ask pid d a = update_layer pid (\<lambda>l. l\<lparr>ly_dialog := d\<rparr>) a"

end
