(* ===== verification/Editor_Jobs.thy ===== *)
theory Editor_Jobs
  imports Editor_Flow
begin

text \<open>
  What the worker runs and what its results do on the main thread: the checkout, revert, squash
  and load flows of \<open>src/ui/common/PreparedEditorFlow.hpp\<close> with the handlers of
  \<open>src/ui/HistoryFlows.cpp\<close> and \<open>src/ui/LevelBrowserLayer.cpp\<close>, the lists
  (\<open>src/ui/HistoryList.cpp\<close>, \<open>src/ui/common/ScrollListPopup.cpp\<close>), deletions and renames, and
  the flows of \<open>src/hooks\<close>.
\<close>

section \<open>Preparing\<close>

definition prepared_flow :: "('p \<Rightarrow> pending_op) \<Rightarrow> ('t \<Rightarrow> level_state \<times> conflict list) \<Rightarrow>
    (('t, 'p) prepared \<times> service) option \<Rightarrow>
    (((git_error + level_state \<times> conflict list) \<times> pending_op option) \<times> service) option" where
  "prepared_flow wrap view r =
     (case r of
        None \<Rightarrow> None
      | Some (p, svc) \<Rightarrow>
          Some (((case outcome p of Inl err \<Rightarrow> Inl err | Inr v \<Rightarrow> Inr (view v)), map_option wrap (pending p)), svc))"

definition checkout_prepared :: "'j service_env \<Rightarrow> commit_id \<Rightarrow> level_key \<Rightarrow> service \<Rightarrow>
    (((git_error + level_state \<times> conflict list) \<times> pending_op option) \<times> service) option" where
  "checkout_prepared e commitId lk svc = prepared_flow PendHead (\<lambda>s. (s, [])) (prepareCheckout e lk commitId svc)"

definition revert_prepared :: "'j service_env \<Rightarrow> commit_id \<Rightarrow> level_key \<Rightarrow> service \<Rightarrow>
    (((git_error + level_state \<times> conflict list) \<times> pending_op option) \<times> service) option" where
  "revert_prepared e commitId lk svc =
     prepared_flow PendHead (\<lambda>v. (rp_state v, rp_conflicts v)) (prepareRevert e lk commitId svc)"

definition squash_prepared :: "'j service_env \<Rightarrow> commit_id list \<Rightarrow> string \<Rightarrow> level_key \<Rightarrow> service \<Rightarrow>
    (((git_error + level_state \<times> conflict list) \<times> pending_op option) \<times> service) option" where
  "squash_prepared e ids msg lk svc = prepared_flow PendSquash (\<lambda>s. (s, [])) (prepareSquash e lk ids msg svc)"

definition load_prepared :: "'j service_env \<Rightarrow> level_key \<Rightarrow> level_key \<Rightarrow> service \<Rightarrow>
    (((git_error + level_state \<times> conflict list) \<times> pending_op option) \<times> service) option" where
  "load_prepared e src destKey svc = prepared_flow PendReplace (\<lambda>s. (s, [])) (prepareImportLevelFrom e destKey src svc)"

fun prepare_flow :: "'j service_env \<Rightarrow> flow \<Rightarrow> level_key \<Rightarrow> service \<Rightarrow>
    (((git_error + level_state \<times> conflict list) \<times> pending_op option) \<times> service) option" where
  "prepare_flow e (Flow_Checkout i) lk svc = checkout_prepared e i lk svc"
| "prepare_flow e (Flow_Revert i) lk svc = revert_prepared e i lk svc"
| "prepare_flow e (Flow_Squash ids msg) lk svc = squash_prepared e ids msg lk svc"
| "prepare_flow e (Flow_Load src) lk svc = load_prepared e src lk svc"

declare checkout_prepared_def [simp] revert_prepared_def [simp] squash_prepared_def [simp] load_prepared_def [simp]

section \<open>Lists\<close>

definition loadHistory :: "'j service_env \<Rightarrow> level_key \<Rightarrow> level_key \<Rightarrow> service \<Rightarrow>
    (level_key \<times> commit_summary list) \<times> service" where
  "loadHistory e lk active svc =
     (case listSummaries e lk svc of (cs, svc1) \<Rightarrow>
        if cs = [] \<and> active \<noteq> [] \<and> active \<noteq> lk then
          (case listSummaries e active svc1 of (cs2, svc2) \<Rightarrow>
             if cs2 \<noteq> [] then ((active, cs2), svc2) else ((lk, cs), svc2))
        else ((lk, cs), svc1))"

definition active_key :: "('j, 'g) app_env \<Rightarrow> level_key" where
  "active_key env = (case ae_level env of None \<Rightarrow> [] | Some _ \<Rightarrow> level_of env)"

text \<open>A popup is on screen while it is not closed and the editor has not been left.\<close>

definition node_active :: "nat \<Rightarrow> 'g app \<Rightarrow> bool" where
  "node_active pid a \<longleftrightarrow> \<not> ly_closing (layer_at pid a) \<and> a_active a"

text \<open>Starting to load a list: the number of the load goes up, so older ones are out of date.\<close>

definition beginLoading :: "nat \<Rightarrow> 'g app \<Rightarrow> 'g app" where
  "beginLoading pid a = update_layer pid (\<lambda>l. l\<lparr>ly_serial := ly_serial l + 1\<rparr>) a"

definition loadAsync :: "nat \<Rightarrow> (u64 \<Rightarrow> job) \<Rightarrow> 'g app \<Rightarrow> 'g app" where
  "loadAsync pid loader a =
     (if ly_closing (layer_at pid a) then a
      else (let a1 = beginLoading pid a in post (loader (ly_serial (layer_at pid a1))) a1))"

definition rebuild_history :: "('j, 'g) app_env \<Rightarrow> nat \<Rightarrow> 'g app \<Rightarrow> 'g app" where
  "rebuild_history env pid a =
     loadAsync pid (\<lambda>serial. History_Job pid serial (ly_level (layer_at pid a)) (active_key env)) a"

definition rebuild_levels :: "nat \<Rightarrow> 'g app \<Rightarrow> 'g app" where
  "rebuild_levels pid a = loadAsync pid (Levels_Job pid) a"

definition rebuild_list :: "('j, 'g) app_env \<Rightarrow> nat \<Rightarrow> 'g app \<Rightarrow> 'g app" where
  "rebuild_list env pid a = (if ly_browser (layer_at pid a) then rebuild_levels pid a else rebuild_history env pid a)"

lemmas rebuild_defs = rebuild_list_def rebuild_history_def rebuild_levels_def loadAsync_def beginLoading_def

definition isStaleLoad :: "layer \<Rightarrow> u64 \<Rightarrow> bool" where
  "isStaleLoad l serial \<longleftrightarrow> ly_closing l \<or> serial \<noteq> ly_serial l"

definition preparePopupClose :: "layer \<Rightarrow> layer" where
  "preparePopupClose l = (if ly_closing l then l else l\<lparr>ly_closing := True, ly_serial := ly_serial l + 1\<rparr>)"

definition closeOnce :: "nat \<Rightarrow> 'g app \<Rightarrow> 'g app" where
  "closeOnce pid a = (if node_active pid a then update_layer pid preparePopupClose a else a)"

definition show_commits :: "nat \<Rightarrow> u64 \<Rightarrow> level_key \<Rightarrow> commit_summary list \<Rightarrow> 'g app \<Rightarrow> 'g app" where
  "show_commits pid serial lk cs a =
     (if isStaleLoad (layer_at pid a) serial then a
      else update_layer pid (\<lambda>l. l\<lparr>ly_level := lk, ly_commits := cs\<rparr>) a)"

definition show_levels :: "nat \<Rightarrow> u64 \<Rightarrow> level_summary list \<Rightarrow> 'g app \<Rightarrow> 'g app" where
  "show_levels pid serial ls a =
     (if isStaleLoad (layer_at pid a) serial then a else update_layer pid (\<lambda>l. l\<lparr>ly_levels := ls\<rparr>) a)"

section \<open>The outcome of a flow\<close>

fun flow_name :: "flow \<Rightarrow> string" where
  "flow_name (Flow_Checkout i) = ''Checkout''"
| "flow_name (Flow_Revert i) = ''Revert''"
| "flow_name (Flow_Squash ids msg) = ''Squash''"
| "flow_name (Flow_Load src) = ''Load''"

definition checkout_failed :: "flow_error \<Rightarrow> notice" where
  "checkout_failed err = Failure ''Editor applied but DB write failed: '' err ''. Re-commit to persist.''"

definition revert_failed :: "flow_error \<Rightarrow> notice" where
  "revert_failed err = Failure ''Editor applied but DB write failed: '' err ''. Re-commit to persist.''"

definition squash_failed :: "flow_error \<Rightarrow> notice" where
  "squash_failed err = Failure ''Editor applied but DB squash failed: '' err []"

definition load_failed :: "flow_error \<Rightarrow> notice" where
  "load_failed err = Failure ''Editor applied but history copy failed: '' err []"

fun finalize_failure :: "flow \<Rightarrow> flow_error \<Rightarrow> notice" where
  "finalize_failure (Flow_Checkout i) err = checkout_failed err"
| "finalize_failure (Flow_Revert i) err = revert_failed err"
| "finalize_failure (Flow_Squash ids msg) err = squash_failed err"
| "finalize_failure (Flow_Load src) err = load_failed err"

definition checkout_done :: "nat \<Rightarrow> 'g app \<Rightarrow> 'g app" where
  "checkout_done pid a = queue (Close_Task pid) (notify [Success ''Checked out''] a)"

definition revert_done :: "nat \<Rightarrow> conflict list \<Rightarrow> 'g app \<Rightarrow> 'g app" where
  "revert_done pid cs a = queue (Close_Task pid) (notify (Success ''Reverted'' # showConflictSummary cs) a)"

definition squash_done :: "('j, 'g) app_env \<Rightarrow> nat \<Rightarrow> 'g app \<Rightarrow> 'g app" where
  "squash_done env pid a =
     (let a1 = update_layer pid (\<lambda>l. l\<lparr>ly_squash := False, ly_selected := []\<rparr>) (notify [Success ''Squashed''] a) in
      if node_active pid a1 then rebuild_list env pid a1 else a1)"

definition load_done :: "nat \<Rightarrow> 'g app \<Rightarrow> 'g app" where
  "load_done pid a = queue (Close_Task pid) (notify [Success ''Level loaded''] a)"

fun flow_succeeded :: "('j, 'g) app_env \<Rightarrow> nat \<Rightarrow> conflict list \<Rightarrow> flow \<Rightarrow> 'g app \<Rightarrow> 'g app" where
  "flow_succeeded env pid cs (Flow_Checkout i) a = checkout_done pid a"
| "flow_succeeded env pid cs (Flow_Revert i) a = revert_done pid cs a"
| "flow_succeeded env pid cs (Flow_Load src) a = load_done pid a"
| "flow_succeeded env pid cs (Flow_Squash ids msg) a = squash_done env pid a"

declare checkout_done_def [simp] revert_done_def [simp] load_done_def [simp] squash_done_def [simp]

text \<open>Nothing to record: \<open>onAppliedOnly\<close> if the flow has one (it does nothing), else \<open>onSuccess\<close>.\<close>

fun flow_applied_only :: "('j, 'g) app_env \<Rightarrow> nat \<Rightarrow> conflict list \<Rightarrow> flow \<Rightarrow> 'g app \<Rightarrow> 'g app" where
  "flow_applied_only env pid cs (Flow_Squash ids msg) a = a"
| "flow_applied_only env pid cs (Flow_Load src) a = a"
| "flow_applied_only env pid cs f a = flow_succeeded env pid cs f a"

text \<open>The first callback of \<open>prepared_editor_flow::run\<close>, then the second.\<close>

definition run_prepared :: "('j, 'g) app_env \<Rightarrow> nat \<Rightarrow> flow \<Rightarrow> git_error + level_state \<times> conflict list \<Rightarrow>
    pending_op option \<Rightarrow> 'g app \<Rightarrow> 'g app" where
  "run_prepared env pid f res pend a =
     (if ly_closing (layer_at pid a) then finishBusyAction pid a
      else
        (case res of
           Inl err \<Rightarrow> notify [Failure (flow_name f @ '' failed: '') (FlowGit err) []] (finishBusyAction pid a)
         | Inr (st, cs) \<Rightarrow>
             (case applyStateToEditorOrNotify (ae_game env) (flow_name f) (a_active a) st (cs \<noteq> []) (a_editor a) of
                (ok, ed, ns) \<Rightarrow>
                  let a1 = notify ns (a\<lparr>a_editor := ed\<rparr>) in
                  if \<not> ok then finishBusyAction pid a1
                  else
                    (case pend of
                       None \<Rightarrow> flow_applied_only env pid cs f (finishBusyAction pid a1)
                     | Some p \<Rightarrow> post (Finalize_Job pid f p st cs) a1))))"

definition run_finalized :: "('j, 'g) app_env \<Rightarrow> nat \<Rightarrow> flow \<Rightarrow> flow_error + unit \<Rightarrow> conflict list \<Rightarrow> 'g app \<Rightarrow> 'g app" where
  "run_finalized env pid f res cs a =
     (let a1 = finishBusyAction pid a in
      if ly_closing (layer_at pid a1) then a1
      else
        (case res of
           Inl err \<Rightarrow> notify [finalize_failure f err] a1
         | Inr _ \<Rightarrow> flow_succeeded env pid cs f a1))"

text \<open>Rebuilding the list after a deletion or a new message.\<close>

definition rebuild_if :: "('j, 'g) app_env \<Rightarrow> nat \<Rightarrow> bool \<Rightarrow> string \<Rightarrow> string \<Rightarrow> 'g app \<Rightarrow> 'g app" where
  "rebuild_if env pid ok bad good a =
     (if ly_closing (layer_at pid a) then a
      else if \<not> ok then notify [ErrorNote bad] a
      else (let a1 = notify [Success good] a in if node_active pid a1 then rebuild_list env pid a1 else a1))"

section \<open>The plan of an import\<close>

definition replace_char :: "char \<Rightarrow> string \<Rightarrow> string \<Rightarrow> string" where
  "replace_char c to s = concat (map (\<lambda>x. if x = c then to else [x]) s)"

definition escapePopupText :: "string \<Rightarrow> string" where
  "escapePopupText s =
     (let s1 = replace_char (CHR ''&'') ''&amp;'' s;
          s2 = replace_char (CHR ''<'') ''&lt;'' s1;
          s3 = replace_char (CHR ''>'') ''&gt;'' s2;
          s4 = replace_char (CHR 0x22) ''&quot;'' s3
      in replace_char (CHR 0x27) ''&#39;'' s4)"

definition add_bucket :: "string \<Rightarrow> string list \<Rightarrow> string \<Rightarrow> string" where
  "add_bucket title lines body =
     (if lines = [] then body
      else (if body \<noteq> [] then body @ [newline, newline] else body) @ title @ '':'' @ [newline] @
        concat (map (\<lambda>l. ''- '' @ l @ [newline]) lines))"

definition planBody :: "import_plan \<Rightarrow> string" where
  "planBody plan =
     (let name = (\<lambda>n p. escapePopupText (shorten (path_filename p) n));
          body = (if noLocalCommits plan
                  then ''WARNING: this level has no commits. Import will overwrite level state from selected .gdge file(s).''
                  else []);
          body1 = add_bucket ''Smart merge (shared root)'' (map (name 48) (plan_smart plan)) body;
          body2 = add_bucket ''Sequential fallback (different root)'' (map (name 48) (plan_sequential plan)) body1;
          body3 = add_bucket ''Skipped (unreadable)''
            (map (\<lambda>(p, reason). name 40 p @ '': '' @ escapePopupText (shorten reason 60)) (plan_invalid plan)) body2
      in if body3 \<noteq> [] then body3 @ [newline] @ ''Proceed?'' else body3)"

definition plan_refusal :: "import_plan \<Rightarrow> string" where
  "plan_refusal plan =
     (case plan_invalid plan of
        [] \<Rightarrow> ''No valid .gdge files selected''
      | (p, reason) # others \<Rightarrow>
          ''Invalid .gdge: '' @ shorten (path_filename p) 32 @ '': '' @ shorten reason 80 @
          (if others \<noteq> [] then '' (+'' @ nat_to_string (length others) @ '' more)'' else []))"

definition showImportPlanPopup :: "level_key \<Rightarrow> string list \<Rightarrow> import_plan \<Rightarrow> 'g app \<Rightarrow> 'g app" where
  "showImportPlanPopup lk paths plan a =
     (if plan_smart plan = [] \<and> plan_sequential plan = [] then notify [ErrorNote (plan_refusal plan)] a
      else a\<lparr>a_plans := a_plans a @ [(lk, paths, planBody plan)]\<rparr>)"

definition run_merged :: "('j, 'g) app_env \<Rightarrow> string + import_payload \<Rightarrow> pending_head list \<Rightarrow> 'g app \<Rightarrow> 'g app" where
  "run_merged env res ps a =
     (case res of
        Inl err \<Rightarrow> notify [Failure ''Multi-merge failed: '' (FlowMsg err) []] a
      | Inr v \<Rightarrow>
          (case applyStateToEditorOrNotify (ae_game env) ''Merge'' (a_active a) (ip_state v) (ip_conflicts v > 0) (a_editor a) of
             (ok, ed, ns) \<Rightarrow>
               let a1 = notify ns (a\<lparr>a_editor := ed\<rparr>) in
               if \<not> ok \<or> ps = [] then a1 else post (Merge_Finalize_Job ps v) a1))"

definition notifyImportMergeOutcome :: "flow_error + unit \<Rightarrow> import_payload \<Rightarrow> notice" where
  "notifyImportMergeOutcome fin v =
     (case fin of
        Inl err \<Rightarrow> Failure ''Editor merged but DB write failed: '' err []
      | Inr _ \<Rightarrow> Success (''Merged '' @ nat_to_string (ip_smart v) @ '' smart + '' @ nat_to_string (ip_sequential v) @
          '' sequential, conflicts '' @ nat_to_string (ip_conflicts v) @ '', skipped '' @ nat_to_string (ip_skipped v)))"

definition notifyCommitOutcome :: "git_error + commit_id \<Rightarrow> notice" where
  "notifyCommitOutcome r = (case r of Inr _ \<Rightarrow> Success ''Committed'' | Inl err \<Rightarrow> Failure ''Commit failed: '' (FlowGit err) [])"

definition notifyExportOutcome :: "gdge_error + unit \<Rightarrow> notice" where
  "notifyExportOutcome r = (case r of Inl err \<Rightarrow> Failure ''Export failed: '' (FlowGdge err) [] | Inr _ \<Rightarrow> Success ''Exported .gdge'')"

section \<open>Running jobs and tasks\<close>

definition done_svc :: "('r \<times> service) option \<Rightarrow> ('r \<Rightarrow> task) \<Rightarrow> 'g app \<Rightarrow> 'g app option" where
  "done_svc r t a = (case r of None \<Rightarrow> None | Some (v, svc) \<Rightarrow> Some (queue (t v) (a\<lparr>a_svc := svc\<rparr>)))"

definition done_disk :: "('r \<times> service \<times> disk) option \<Rightarrow> ('r \<Rightarrow> task) \<Rightarrow> 'g app \<Rightarrow> 'g app option" where
  "done_disk r t a =
     (case r of None \<Rightarrow> None | Some (v, svc, d) \<Rightarrow> Some (queue (t v) (a\<lparr>a_svc := svc, a_disk := d\<rparr>)))"

text \<open>The clock and the random numbers that a job draws are arguments.\<close>

fun run_job :: "('j, 'g) app_env \<Rightarrow> (nat \<Rightarrow> int) \<Rightarrow> u64 list \<Rightarrow> job \<Rightarrow> 'g app \<Rightarrow> 'g app option" where
  "run_job env now ds (Prepare_Job pid f lk) a =
     done_svc (prepare_flow (ae_service env) f lk (a_svc a)) (\<lambda>(res, p). Prepared_Task pid f res p) a"
| "run_job env now ds (Finalize_Job pid f p st cs) a =
     done_svc (Some (finalize_op (ae_service env) now p st (a_svc a))) (\<lambda>res. Finalized_Task pid f res cs) a"
| "run_job env now ds (Delete_Job pid lk) a = done_svc (Some (delete_level lk (a_svc a))) (Deleted_Task pid) a"
| "run_job env now ds (Rename_Job pid i msg) a = done_svc (Some (updateCommitMessage i msg (a_svc a))) (Renamed_Task pid) a"
| "run_job env now ds (History_Job pid serial lk active) a =
     done_svc (Some (loadHistory (ae_service env) lk active (a_svc a))) (\<lambda>(lk1, cs). History_Task pid serial lk1 cs) a"
| "run_job env now ds (Levels_Job pid serial) a =
     done_svc (case listLevels (db_conn (a_svc a)) of (ls, c) \<Rightarrow> Some (ls, (a_svc a)\<lparr>db_conn := c\<rparr>)) (Levels_Task pid serial) a"
| "run_job env now ds (Commit_Job lk msg live) a =
     done_svc (git_commit (ae_service env) (now 0) lk msg live ds (a_svc a)) Committed_Task a"
| "run_job env now ds (Export_Job lk path) a =
     done_disk (exportLevelToGdge (ae_service env) (ae_package env) lk path (a_svc a) (a_disk a)) Exported_Task a"
| "run_job env now ds (Plan_Job lk paths) a =
     done_disk (planImport (ae_service env) (ae_package env) lk paths (a_svc a) (a_disk a)) (Planned_Task lk paths) a"
| "run_job env now ds (Merge_Job lk paths) a =
     done_disk (prepareImportManyFromGdge (ae_service env) (ae_package env) lk paths (a_svc a) (a_disk a))
       (\<lambda>(res, ps). Merged_Task res ps) a"
| "run_job env now ds (Merge_Finalize_Job ps v) a =
     done_svc (Some (finalize_op (ae_service env) now (PendMerge ps) (ip_state v) (a_svc a))) (\<lambda>res. Merge_Finalized_Task res v) a"

fun run_task :: "('j, 'g) app_env \<Rightarrow> task \<Rightarrow> 'g app \<Rightarrow> 'g app" where
  "run_task env (Prepared_Task pid f res p) a = run_prepared env pid f res p a"
| "run_task env (Finalized_Task pid f res cs) a = run_finalized env pid f res cs a"
| "run_task env (Deleted_Task pid ok) a =
     rebuild_if env pid ok ''Delete failed'' ''Level history removed'' (finishBusyAction pid a)"
| "run_task env (Renamed_Task pid ok) a = rebuild_if env pid ok ''Rename failed'' ''Renamed commit'' a"
| "run_task env (History_Task pid serial lk cs) a = show_commits pid serial lk cs a"
| "run_task env (Levels_Task pid serial ls) a = show_levels pid serial ls a"
| "run_task env (Committed_Task r) a = notify [notifyCommitOutcome r] a"
| "run_task env (Exported_Task r) a = notify [notifyExportOutcome r] a"
| "run_task env (Planned_Task lk paths plan) a = showImportPlanPopup lk paths plan a"
| "run_task env (Merged_Task res ps) a = run_merged env res ps a"
| "run_task env (Merge_Finalized_Task res v) a = notify [notifyImportMergeOutcome res v] a"
| "run_task env (Close_Task pid) a = closeOnce pid a"

end
