(* ===== verification/Editor_Events.thy ===== *)
theory Editor_Events
  imports Editor_Jobs
begin

text \<open>
  What the user does to the pause menu (\<open>src/hooks/EditorPauseLayerHook.cpp\<close>,
  \<open>ImportGdgeFlow.cpp\<close>), the history (\<open>src/ui/HistoryCommitRow.cpp\<close>, \<open>HistoryList.cpp\<close>,
  \<open>HistoryFlows.cpp\<close>), the level list (\<open>src/ui/LevelBrowserLayer.cpp\<close>) and the message window
  (\<open>src/ui/CommitMessageLayer.cpp\<close>), and the steps of the whole program: a user event, a
  posted job run by the worker, or a finished job's callback run by the main thread.
\<close>

section \<open>Guards\<close>

definition tryBeginBusyAction :: "nat \<Rightarrow> 'g app \<Rightarrow> bool \<times> 'g app" where
  "tryBeginBusyAction pid a =
     (if ly_busy (layer_at pid a) then (False, notify [Info ''Action already running''] a)
      else (True, update_layer pid (\<lambda>l. l\<lparr>ly_busy := True\<rparr>) a))"

definition begin_action :: "nat \<Rightarrow> ('g app \<Rightarrow> 'g app) \<Rightarrow> 'g app \<Rightarrow> 'g app" where
  "begin_action pid k a = (case tryBeginBusyAction pid a of (ok, a1) \<Rightarrow> if ok then k a1 else a1)"

text \<open>A button of an open popup of the right kind; the buttons go when the popup is closed.\<close>

definition press_on :: "bool \<Rightarrow> nat \<Rightarrow> ('g app \<Rightarrow> 'g app) \<Rightarrow> 'g app \<Rightarrow> 'g app" where
  "press_on browser pid k a =
     (if pid < length (a_layers a) \<and> \<not> ly_closing (layer_at pid a) \<and> ly_browser (layer_at pid a) = browser then k a else a)"

definition invalid_key :: "level_key \<Rightarrow> bool" where
  "invalid_key lk \<longleftrightarrow> starts_with lk ''invalid:''"

definition requireValidLevelKey :: "('j, 'g) app_env \<Rightarrow> (level_key \<Rightarrow> 'g app \<Rightarrow> 'g app) \<Rightarrow> 'g app \<Rightarrow> 'g app" where
  "requireValidLevelKey env k a =
     (if invalid_key (level_of env) then notify [ErrorNote ''No valid level context''] a else k (level_of env) a)"

section \<open>Popups\<close>

definition new_layer :: "bool \<Rightarrow> level_key \<Rightarrow> layer" where
  "new_layer browser lk =
     \<lparr>ly_browser = browser, ly_level = lk, ly_busy = False, ly_closing = False, ly_serial = 0, ly_squash = False,
      ly_selected = [], ly_commits = [], ly_levels = [], ly_dialog = None\<rparr>"

definition open_layer :: "('j, 'g) app_env \<Rightarrow> bool \<Rightarrow> level_key \<Rightarrow> 'g app \<Rightarrow> 'g app" where
  "open_layer env browser lk a =
     rebuild_list env (length (a_layers a)) (a\<lparr>a_layers := a_layers a @ [new_layer browser lk]\<rparr>)"

definition onGitHistory :: "('j, 'g) app_env \<Rightarrow> 'g app \<Rightarrow> 'g app" where
  "onGitHistory env a = requireValidLevelKey env (open_layer env False) a"

definition onGitLevels :: "('j, 'g) app_env \<Rightarrow> 'g app \<Rightarrow> 'g app" where
  "onGitLevels env a = open_layer env True [] a"

definition toggle_mode :: "('j, 'g) app_env \<Rightarrow> nat \<Rightarrow> 'g app \<Rightarrow> 'g app" where
  "toggle_mode env pid a =
     (let a1 = update_layer pid (\<lambda>l. l\<lparr>ly_squash := \<not> ly_squash l, ly_selected := []\<rparr>) a in
      if ly_commits (layer_at pid a1) = [] then rebuild_list env pid a1 else a1)"

definition tick_commit :: "commit_id \<Rightarrow> layer \<Rightarrow> layer" where
  "tick_commit i l =
     l\<lparr>ly_selected := (if i \<in> set (ly_selected l) then removeAll i (ly_selected l) else i # ly_selected l)\<rparr>"

section \<open>Actions of a popup\<close>

definition onSquashPressed :: "nat \<Rightarrow> 'g app \<Rightarrow> 'g app" where
  "onSquashPressed pid a =
     (let l = layer_at pid a; ids = selectedOldestFirst (ly_commits l) (ly_selected l) in
      begin_action pid (\<lambda>a1.
        if length (ly_selected l) < 2 then notify [Warning ''Select at least 2 commits''] (finishBusyAction pid a1)
        else if length ids \<noteq> length (ly_selected l) then notify [ErrorNote ''Selection mismatch''] (finishBusyAction pid a1)
        else ask pid (Some (AskSquash ids (squash_default (concat (map (message_of (ly_commits l)) ids))))) a1) a)"

definition startFlow :: "nat \<Rightarrow> flow \<Rightarrow> 'g app \<Rightarrow> 'g app" where
  "startFlow pid f a =
     begin_action pid (ask pid (Some (Ask f (ly_level (layer_at pid a))))) a"

definition load_pressed :: "('j, 'g) app_env \<Rightarrow> nat \<Rightarrow> level_key \<Rightarrow> 'g app \<Rightarrow> 'g app" where
  "load_pressed env pid lk a =
     begin_action pid (\<lambda>a1.
       if lk = level_of env then notify [Info ''Already this level: nothing to load''] (finishBusyAction pid a1)
       else ask pid (Some (Ask (Flow_Load lk) (level_of env))) a1) a"

definition delete_pressed :: "nat \<Rightarrow> level_key \<Rightarrow> 'g app \<Rightarrow> 'g app" where
  "delete_pressed pid lk a = begin_action pid (ask pid (Some (AskDelete lk))) a"

text \<open>The answer to a question; only the one before a squash looks at whether its popup is closed.\<close>

definition answer_flow :: "nat \<Rightarrow> flow \<Rightarrow> level_key \<Rightarrow> bool \<Rightarrow> 'g app \<Rightarrow> 'g app" where
  "answer_flow pid f lk yes a = (if \<not> yes then finishBusyAction pid a else post (Prepare_Job pid f lk) a)"

definition answer_squash :: "nat \<Rightarrow> commit_id list \<Rightarrow> string \<Rightarrow> bool \<Rightarrow> 'g app \<Rightarrow> 'g app" where
  "answer_squash pid ids msg yes a =
     (if ly_closing (layer_at pid a) then finishBusyAction pid a
      else if \<not> yes then finishBusyAction pid a
      else ask pid (Some (AskMessage ids msg)) a)"

definition answer_delete :: "nat \<Rightarrow> level_key \<Rightarrow> bool \<Rightarrow> 'g app \<Rightarrow> 'g app" where
  "answer_delete pid lk yes a = (if \<not> yes then finishBusyAction pid a else post (Delete_Job pid lk) a)"

definition answer :: "nat \<Rightarrow> bool \<Rightarrow> 'g app \<Rightarrow> 'g app" where
  "answer pid yes a =
     (let a1 = ask pid None a in
      case ly_dialog (layer_at pid a) of
        Some (Ask f lk) \<Rightarrow> answer_flow pid f lk yes a1
      | Some (AskSquash ids msg) \<Rightarrow> answer_squash pid ids msg yes a1
      | Some (AskDelete lk) \<Rightarrow> answer_delete pid lk yes a1
      | _ \<Rightarrow> a)"

lemmas answer_defs = answer_def answer_flow_def answer_squash_def answer_delete_def

text \<open>The message window: confirming a text, with what the window was opened for, or closing it.\<close>

definition onConfirmClicked :: "('j, 'g) app_env \<Rightarrow> string \<Rightarrow> (string \<Rightarrow> 'g app \<Rightarrow> 'g app) \<Rightarrow> 'g app \<Rightarrow> 'g app" where
  "onConfirmClicked env raw k a =
     (case confirm_message (ae_trim env) raw of None \<Rightarrow> notify [Warning ''Message required''] a | Some msg \<Rightarrow> k msg a)"

definition runSquash :: "nat \<Rightarrow> commit_id list \<Rightarrow> string \<Rightarrow> 'g app \<Rightarrow> 'g app" where
  "runSquash pid ids msg a =
     (let a1 = ask pid None a in
      if ly_closing (layer_at pid a) then a1
      else post (Prepare_Job pid (Flow_Squash ids msg) (ly_level (layer_at pid a))) a1)"

definition squash_message :: "('j, 'g) app_env \<Rightarrow> nat \<Rightarrow> string option \<Rightarrow> 'g app \<Rightarrow> 'g app" where
  "squash_message env pid text a =
     (case ly_dialog (layer_at pid a) of
        Some (AskMessage ids msg) \<Rightarrow>
          (case text of
             None \<Rightarrow> (let a1 = ask pid None a in if ly_closing (layer_at pid a) then a1 else finishBusyAction pid a1)
           | Some raw \<Rightarrow> onConfirmClicked env raw (runSquash pid ids) a)
      | _ \<Rightarrow> a)"

definition rename_commit :: "('j, 'g) app_env \<Rightarrow> nat \<Rightarrow> commit_id \<Rightarrow> string \<Rightarrow> 'g app \<Rightarrow> 'g app" where
  "rename_commit env pid i raw a = onConfirmClicked env raw (\<lambda>msg. post (Rename_Job pid i msg)) a"

section \<open>The pause menu\<close>

definition onGitCommit :: "('j, 'g) app_env \<Rightarrow> string \<Rightarrow> 'g app \<Rightarrow> 'g app" where
  "onGitCommit env raw a =
     onConfirmClicked env raw (\<lambda>msg. requireValidLevelKey env (\<lambda>lk a1.
       let levelStr = captureLevelString (ae_game env) (a_editor a1) in
       if levelStr = [] then notify [Warning ''Level is empty''] a1 else post (Commit_Job lk msg levelStr) a1)) a"

text \<open>The file picker fails, is closed, or gives what was picked.\<close>

datatype 'a pick = Pick_Failed | Pick_None | Picked 'a

definition onGitExportGdge :: "('j, 'g) app_env \<Rightarrow> string pick \<Rightarrow> 'g app \<Rightarrow> 'g app" where
  "onGitExportGdge env pick a =
     requireValidLevelKey env (\<lambda>lk a1.
       case pick of
         Pick_Failed \<Rightarrow> notify [ErrorNote ''Export picker failed''] a1
       | Pick_None \<Rightarrow> a1
       | Picked path \<Rightarrow> post (Export_Job lk path) a1) a"

definition onGitImportGdge :: "('j, 'g) app_env \<Rightarrow> string list pick \<Rightarrow> 'g app \<Rightarrow> 'g app" where
  "onGitImportGdge env pick a =
     requireValidLevelKey env (\<lambda>lk a1.
       case pick of
         Pick_Failed \<Rightarrow> notify [ErrorNote ''Import picker failed''] a1
       | Pick_None \<Rightarrow> a1
       | Picked paths \<Rightarrow> if paths = [] then a1 else post (Plan_Job lk paths) a1) a"

definition remove_nth :: "nat \<Rightarrow> 'a list \<Rightarrow> 'a list" where
  "remove_nth n xs = take n xs @ drop (Suc n) xs"

definition answer_plan :: "nat \<Rightarrow> bool \<Rightarrow> 'g app \<Rightarrow> 'g app" where
  "answer_plan n yes a =
     (if n < length (a_plans a) then
        (case a_plans a ! n of (lk, paths, body) \<Rightarrow>
           let a1 = a\<lparr>a_plans := remove_nth n (a_plans a)\<rparr> in
           if yes then post (Merge_Job lk paths) a1 else a1)
      else a)"

section \<open>Events\<close>

datatype 'g event =
    Open_History
  | Open_Levels
  | Close_Popup nat
  | Toggle_Mode nat
  | Tick nat commit_id
  | Press_Squash nat
  | Press_Checkout nat commit_id
  | Press_Revert nat commit_id
  | Press_Load nat level_key
  | Press_Delete nat level_key
  | Answer nat bool
  | Squash_Message nat "string option"
  | Rename nat commit_id string
  | Commit string
  | Export "string pick"
  | Import "string list pick"
  | Answer_Plan nat bool
  | Leave_Editor
  | Edit 'g

text \<open>A question or message window belongs to a popup that was opened.\<close>

definition opened :: "nat \<Rightarrow> ('g app \<Rightarrow> 'g app) \<Rightarrow> 'g app \<Rightarrow> 'g app" where
  "opened pid k a = (if pid < length (a_layers a) then k a else a)"

fun handle :: "('j, 'g) app_env \<Rightarrow> 'g event \<Rightarrow> 'g app \<Rightarrow> 'g app" where
  "handle env Open_History a = onGitHistory env a"
| "handle env Open_Levels a = onGitLevels env a"
| "handle env (Close_Popup pid) a = opened pid (update_layer pid preparePopupClose) a"
| "handle env (Toggle_Mode pid) a = press_on False pid (toggle_mode env pid) a"
| "handle env (Tick pid i) a = press_on False pid (update_layer pid (tick_commit i)) a"
| "handle env (Press_Squash pid) a = press_on False pid (onSquashPressed pid) a"
| "handle env (Press_Checkout pid i) a = press_on False pid (startFlow pid (Flow_Checkout i)) a"
| "handle env (Press_Revert pid i) a = press_on False pid (startFlow pid (Flow_Revert i)) a"
| "handle env (Press_Load pid lk) a = press_on True pid (load_pressed env pid lk) a"
| "handle env (Press_Delete pid lk) a = press_on True pid (delete_pressed pid lk) a"
| "handle env (Answer pid yes) a = opened pid (answer pid yes) a"
| "handle env (Squash_Message pid text) a = opened pid (squash_message env pid text) a"
| "handle env (Rename pid i raw) a = opened pid (rename_commit env pid i raw) a"
| "handle env (Commit raw) a = onGitCommit env raw a"
| "handle env (Export pick) a = onGitExportGdge env pick a"
| "handle env (Import pick) a = onGitImportGdge env pick a"
| "handle env (Answer_Plan n yes) a = answer_plan n yes a"
| "handle env Leave_Editor a = a\<lparr>a_active := False\<rparr>"
| "handle env (Edit ed) a = a\<lparr>a_editor := ed\<rparr>"

section \<open>Steps\<close>

text \<open>The worker's lock lets one job run at a time, in any order; so do callbacks.\<close>

inductive internal_step :: "('j, 'g) app_env \<Rightarrow> 'g app \<Rightarrow> 'g app \<Rightarrow> bool" for env where
  worker: "n < length (a_jobs a) \<Longrightarrow>
    run_job env now ds (a_jobs a ! n) (a\<lparr>a_jobs := remove_nth n (a_jobs a)\<rparr>) = Some a' \<Longrightarrow> internal_step env a a'"
| main: "n < length (a_tasks a) \<Longrightarrow>
    internal_step env a (run_task env (a_tasks a ! n) (a\<lparr>a_tasks := remove_nth n (a_tasks a)\<rparr>))"

inductive app_step :: "('j, 'g) app_env \<Rightarrow> 'g app \<Rightarrow> 'g app \<Rightarrow> bool" for env where
  user: "app_step env a (handle env ev a)"
| internal: "internal_step env a a' \<Longrightarrow> app_step env a a'"

inductive_cases internal_stepE: "internal_step env a a'"
inductive_cases app_stepE: "app_step env a a'"

definition app_start :: "service \<Rightarrow> disk \<Rightarrow> 'g \<Rightarrow> 'g app" where
  "app_start svc d ed =
     \<lparr>a_svc = svc, a_disk = d, a_editor = ed, a_active = True, a_layers = [], a_plans = [], a_jobs = [],
      a_tasks = [], a_notes = []\<rparr>"

text \<open>
  The editor is opened on a level over a store with any past.  The program may stop at any
  time (what was posted is lost) and be started again on the same files, with another level.
\<close>

definition app_restart :: "nat \<Rightarrow> bool list \<Rightarrow> 'g app \<Rightarrow> 'g \<Rightarrow> 'g app" where
  "app_restart cacheCapacity fs a ed = app_start (restarted cacheCapacity fs (a_svc a)) (a_disk a) ed"

inductive app_reach :: "('j, 'g) app_env \<Rightarrow> 'g app \<Rightarrow> bool" where
  start: "git_reach (ae_service env) svc \<Longrightarrow> app_reach env (app_start svc d ed)"
| step: "app_reach env a \<Longrightarrow> app_step env a a' \<Longrightarrow> app_reach env a'"
| restart: "app_reach env a \<Longrightarrow> ae_service env' = ae_service env \<Longrightarrow> app_reach env' (app_restart n fs a ed)"

end
