(* ===== verification/Editor_Guard.thy ===== *)
theory Editor_Guard
  imports Editor_Events
begin

text \<open>
  The busy flag of a popup as a token: whoever holds it (an open question, a posted job, a
  queued callback) is the only one, and gives it on or back.  The invariant has a parameter
  for the token held by the code that is running at the moment.
\<close>

section \<open>Who holds the token\<close>

fun job_owner :: "job \<Rightarrow> nat option" where
  "job_owner (Prepare_Job pid f lk) = Some pid"
| "job_owner (Finalize_Job pid f p st cs) = Some pid"
| "job_owner (Delete_Job pid lk) = Some pid"
| "job_owner _ = None"

fun task_owner :: "task \<Rightarrow> nat option" where
  "task_owner (Prepared_Task pid f res p) = Some pid"
| "task_owner (Finalized_Task pid f res cs) = Some pid"
| "task_owner (Deleted_Task pid ok) = Some pid"
| "task_owner _ = None"

fun job_popup :: "job \<Rightarrow> nat option" where
  "job_popup (Rename_Job pid i msg) = Some pid"
| "job_popup (History_Job pid serial lk active) = Some pid"
| "job_popup (Levels_Job pid serial) = Some pid"
| "job_popup j = job_owner j"

fun task_popup :: "task \<Rightarrow> nat option" where
  "task_popup (Renamed_Task pid ok) = Some pid"
| "task_popup (History_Task pid serial lk cs) = Some pid"
| "task_popup (Levels_Task pid serial ls) = Some pid"
| "task_popup (Close_Task pid) = Some pid"
| "task_popup t = task_owner t"

definition count_of :: "('x \<Rightarrow> nat option) \<Rightarrow> nat \<Rightarrow> 'x list \<Rightarrow> nat" where
  "count_of own pid xs = length (filter (\<lambda>x. own x = Some pid) xs)"

definition token :: "nat \<Rightarrow> nat option \<Rightarrow> nat" where
  "token pid h = (if h = Some pid then 1 else 0)"

definition inflight :: "nat \<Rightarrow> 'g app \<Rightarrow> nat" where
  "inflight pid a = count_of job_owner pid (a_jobs a) + count_of task_owner pid (a_tasks a) +
     (if ly_dialog (layer_at pid a) = None then 0 else 1)"

definition guard_ok :: "nat option \<Rightarrow> nat \<Rightarrow> 'g app \<Rightarrow> bool" where
  "guard_ok h pid a \<longleftrightarrow>
     (let n = inflight pid a + token pid h in
      if ly_busy (layer_at pid a) then n \<le> 1 \<and> (\<not> ly_closing (layer_at pid a) \<longrightarrow> n = 1) else n = 0)"

definition in_range :: "nat option \<Rightarrow> 'g app \<Rightarrow> bool" where
  "in_range p a \<longleftrightarrow> (case p of None \<Rightarrow> True | Some pid \<Rightarrow> pid < length (a_layers a))"

definition ctl :: "nat option \<Rightarrow> 'g app \<Rightarrow> bool" where
  "ctl h a \<longleftrightarrow> (\<forall>pid < length (a_layers a). guard_ok h pid a) \<and> in_range h a \<and>
     list_all (\<lambda>j. in_range (job_popup j) a) (a_jobs a) \<and> list_all (\<lambda>t. in_range (task_popup t) a) (a_tasks a)"

section \<open>Building blocks\<close>

lemma token_simps [simp]: "token pid None = 0" "token pid (Some q) = (if q = pid then 1 else 0)"
  by (simp_all add: token_def)

lemma count_simps [simp]:
  "count_of own pid [] = 0" "count_of own pid (xs @ ys) = count_of own pid xs + count_of own pid ys"
  "count_of own pid (x # xs) = (if own x = Some pid then 1 else 0) + count_of own pid xs"
  by (simp_all add: count_of_def)

lemma layer_frame [simp]:
  "layer_at pid (notify ns a) = layer_at pid a" "layer_at pid (post j a) = layer_at pid a"
  "layer_at pid (queue t a) = layer_at pid a" "layer_at pid (a\<lparr>a_editor := ed\<rparr>) = layer_at pid a"
  "layer_at pid (a\<lparr>a_active := b\<rparr>) = layer_at pid a" "layer_at pid (a\<lparr>a_svc := s\<rparr>) = layer_at pid a"
  "layer_at pid (a\<lparr>a_disk := d\<rparr>) = layer_at pid a" "layer_at pid (a\<lparr>a_plans := ps\<rparr>) = layer_at pid a"
  "layer_at pid (a\<lparr>a_jobs := js\<rparr>) = layer_at pid a" "layer_at pid (a\<lparr>a_tasks := ts\<rparr>) = layer_at pid a"
  by (simp_all add: layer_at_def notify_def post_def queue_def)

lemma layer_update [simp]:
  "pid < length (a_layers a) \<Longrightarrow> layer_at q (update_layer pid f a) = (if q = pid then f (layer_at pid a) else layer_at q a)"
  by (simp add: layer_at_def update_layer_def nth_list_update)

lemma fields_frame [simp]:
  "a_layers (notify ns a) = a_layers a" "a_layers (post j a) = a_layers a" "a_layers (queue t a) = a_layers a"
  "length (a_layers (update_layer pid f a)) = length (a_layers a)"
  "a_jobs (notify ns a) = a_jobs a" "a_jobs (post j a) = a_jobs a @ [j]" "a_jobs (queue t a) = a_jobs a"
  "a_jobs (update_layer pid f a) = a_jobs a"
  "a_tasks (notify ns a) = a_tasks a" "a_tasks (post j a) = a_tasks a" "a_tasks (queue t a) = a_tasks a @ [t]"
  "a_tasks (update_layer pid f a) = a_tasks a"
  "a_svc (notify ns a) = a_svc a" "a_svc (post j a) = a_svc a" "a_svc (queue t a) = a_svc a"
  "a_svc (update_layer pid f a) = a_svc a"
  "a_plans (notify ns a) = a_plans a" "a_plans (post j a) = a_plans a" "a_plans (queue t a) = a_plans a"
  "a_plans (update_layer pid f a) = a_plans a"
  "a_active (notify ns a) = a_active a" "a_active (post j a) = a_active a" "a_active (queue t a) = a_active a"
  "a_active (update_layer pid f a) = a_active a"
  "a_editor (notify ns a) = a_editor a" "a_editor (post j a) = a_editor a" "a_editor (queue t a) = a_editor a"
  "a_editor (update_layer pid f a) = a_editor a"
  by (simp_all add: notify_def post_def queue_def update_layer_def)

lemma in_range_None [simp]: "in_range None a" by (simp add: in_range_def)

lemma in_range_same: "length (a_layers a) = length (a_layers b) \<Longrightarrow> in_range p a = in_range p b"
  by (cases p) (simp_all add: in_range_def)

lemma in_range_frame [simp]:
  "in_range p (a\<lparr>a_jobs := js\<rparr>) = in_range p a" "in_range p (a\<lparr>a_tasks := ts\<rparr>) = in_range p a"
  "in_range p (update_layer pid f a) = in_range p a" "in_range p (notify ns a) = in_range p a"
  "in_range p (post j a) = in_range p a" "in_range p (queue t a) = in_range p a"
  by (rule in_range_same; simp)+

lemma guard_cong:
  assumes "layer_at pid b = layer_at pid a" and "inflight pid b + token pid h' = inflight pid a + token pid h"
  shows "guard_ok h' pid b = guard_ok h pid a"
  using assms by (simp add: guard_ok_def)

lemma owner_popup: "job_owner j = Some pid \<Longrightarrow> job_popup j = Some pid" "task_owner t = Some pid \<Longrightarrow> task_popup t = Some pid"
  by (cases j; simp)+ (cases t; simp)+

lemma ctl_cong:
  assumes "length (a_layers a) = length (a_layers b)" and "a_jobs a = a_jobs b" and "a_tasks a = a_tasks b"
    and "\<And>pid. pid < length (a_layers b) \<Longrightarrow> ly_busy (layer_at pid a) = ly_busy (layer_at pid b) \<and>
      ly_closing (layer_at pid a) = ly_closing (layer_at pid b) \<and>
      (ly_dialog (layer_at pid a) = None) = (ly_dialog (layer_at pid b) = None)"
  shows "ctl h a = ctl h b"
  using assms by (simp add: ctl_def guard_ok_def inflight_def in_range_same [OF assms(1)] Let_def)

lemma ctl_frame [simp]:
  "ctl h (notify ns a) = ctl h a" "ctl h (a\<lparr>a_editor := ed\<rparr>) = ctl h a" "ctl h (a\<lparr>a_active := b\<rparr>) = ctl h a"
  "ctl h (a\<lparr>a_plans := ps\<rparr>) = ctl h a" "ctl h (a\<lparr>a_svc := s\<rparr>) = ctl h a" "ctl h (a\<lparr>a_disk := d\<rparr>) = ctl h a"
  by (rule ctl_cong; simp)+

lemma ctl_update:
  assumes "pid < length (a_layers a)" and "ly_busy (f (layer_at pid a)) = ly_busy (layer_at pid a)"
    and "ly_closing (f (layer_at pid a)) = ly_closing (layer_at pid a)" and "ly_dialog (f (layer_at pid a)) = ly_dialog (layer_at pid a)"
  shows "ctl h (update_layer pid f a) = ctl h a"
  using assms by (intro ctl_cong) auto

lemma ctl_layer: "ctl h a \<Longrightarrow> pid < length (a_layers a) \<Longrightarrow> guard_ok h pid a"
  by (simp add: ctl_def)

lemma ctl_holder: "ctl (Some pid) a \<Longrightarrow> pid < length (a_layers a)"
  by (simp add: ctl_def in_range_def)

text \<open>A holder is busy, has no question open and no job or callback under way.\<close>

lemma ctl_held:
  assumes "ctl (Some pid) a"
  shows "ly_busy (layer_at pid a)" "inflight pid a = 0" "ly_dialog (layer_at pid a) = None"
proof -
  have g: "guard_ok (Some pid) pid a" using ctl_layer [OF assms ctl_holder [OF assms]] .
  then show b: "ly_busy (layer_at pid a)" by (auto simp: guard_ok_def Let_def split: if_splits)
  with g show "inflight pid a = 0" by (simp add: guard_ok_def Let_def)
  then show "ly_dialog (layer_at pid a) = None" by (simp add: inflight_def split: if_splits)
qed

section \<open>Passing the token\<close>

lemma ctl_point:
  assumes "ctl h a" and "length (a_layers b) = length (a_layers a)" and "in_range h' b"
    and "list_all (\<lambda>j. in_range (job_popup j) b) (a_jobs b)" and "list_all (\<lambda>t. in_range (task_popup t) b) (a_tasks b)"
    and "\<And>pid. pid < length (a_layers a) \<Longrightarrow> guard_ok h pid a \<Longrightarrow> guard_ok h' pid b"
  shows "ctl h' b"
  using assms by (simp add: ctl_def)

lemma guard_post: "guard_ok None pid (post j a) = guard_ok (job_owner j) pid a"
  by (simp add: guard_ok_def inflight_def token_def)

lemma guard_post_free: "job_owner j = None \<Longrightarrow> guard_ok h pid (post j a) = guard_ok h pid a"
  by (simp add: guard_ok_def inflight_def)

lemma guard_queue: "guard_ok None pid (queue t a) = guard_ok (task_owner t) pid a"
  by (simp add: guard_ok_def inflight_def token_def)

lemma ctl_post:
  assumes "ctl (job_owner j) a" and "in_range (job_popup j) a"
  shows "ctl None (post j a)"
proof -
  have "list_all (\<lambda>j. in_range (job_popup j) a) (a_jobs a)" "list_all (\<lambda>t. in_range (task_popup t) a) (a_tasks a)"
    using assms(1) by (simp_all add: ctl_def)
  with assms show ?thesis
    by (intro ctl_point [OF assms(1)]) (simp_all add: guard_post)
qed

lemma ctl_post_free:
  assumes "ctl h a" and "job_owner j = None" and "in_range (job_popup j) a"
  shows "ctl h (post j a)"
proof -
  have "list_all (\<lambda>j. in_range (job_popup j) a) (a_jobs a)" "list_all (\<lambda>t. in_range (task_popup t) a) (a_tasks a)" "in_range h a"
    using assms(1) by (simp_all add: ctl_def)
  with assms show ?thesis
    by (intro ctl_point [OF assms(1)]) (simp_all add: guard_post_free)
qed

lemma ctl_queue:
  assumes "ctl (task_owner t) a" and "in_range (task_popup t) a"
  shows "ctl None (queue t a)"
proof -
  have "list_all (\<lambda>j. in_range (job_popup j) a) (a_jobs a)" "list_all (\<lambda>t. in_range (task_popup t) a) (a_tasks a)"
    using assms(1) by (simp_all add: ctl_def)
  with assms show ?thesis
    by (intro ctl_point [OF assms(1)]) (simp_all add: guard_queue)
qed

text \<open>An update of one popup: the others keep what they hold.\<close>

lemma ctl_layers:
  assumes c: "ctl h a" and pid: "pid < length (a_layers a)" and h: "\<And>q. q \<noteq> pid \<Longrightarrow> token q h' = token q h" "in_range h' a"
    and g: "guard_ok h pid a \<Longrightarrow> guard_ok h' pid (update_layer pid f a)"
  shows "ctl h' (update_layer pid f a)"
proof -
  have "guard_ok h' q (update_layer pid f a)" if "q < length (a_layers a)" for q
  proof (cases "q = pid")
    case False
    with pid h(1) have "guard_ok h' q (update_layer pid f a) = guard_ok h q a"
      by (intro guard_cong) (simp_all add: inflight_def)
    with ctl_layer [OF c that] show ?thesis by simp
  qed (use g ctl_layer [OF c pid] in simp)
  with c h(2) show ?thesis by (simp add: ctl_def)
qed

lemma in_range_Some [simp]: "in_range (Some pid) a = (pid < length (a_layers a))"
  by (simp add: in_range_def)

lemma ctl_finish:
  assumes "ctl (Some pid) a"
  shows "ctl None (finishBusyAction pid a)"
  unfolding finishBusyAction_def using ctl_held [OF assms] ctl_holder [OF assms]
  by (intro ctl_layers [OF assms]) (auto simp: guard_ok_def inflight_def)

lemma ctl_begin:
  assumes "ctl None a" and "pid < length (a_layers a)" and "\<not> ly_busy (layer_at pid a)"
  shows "ctl (Some pid) (update_layer pid (\<lambda>l. l\<lparr>ly_busy := True\<rparr>) a)"
  using assms by (intro ctl_layers [OF assms(1)]) (auto simp: guard_ok_def inflight_def)

lemma ctl_ask:
  assumes "ctl (Some pid) a"
  shows "ctl None (ask pid (Some q) a)"
  unfolding ask_def using ctl_held [OF assms] ctl_holder [OF assms]
  by (intro ctl_layers [OF assms]) (auto simp: guard_ok_def inflight_def)

lemma ctl_answered:
  assumes "ctl None a" and "pid < length (a_layers a)" and "ly_dialog (layer_at pid a) \<noteq> None"
  shows "ctl (Some pid) (ask pid None a)"
  unfolding ask_def using assms
  by (intro ctl_layers [OF assms(1)]) (auto simp: guard_ok_def inflight_def split: if_splits)

text \<open>A closed popup may keep its flag: nothing looks at it again.\<close>

lemma ctl_drop:
  assumes "ctl (Some pid) a" and "ly_closing (layer_at pid a)"
  shows "ctl None a"
proof -
  have "guard_ok None q a" if "q < length (a_layers a)" for q
    using ctl_layer [OF assms(1) that] assms(2) by (cases "q = pid") (auto simp: guard_ok_def Let_def split: if_splits)
  with assms show ?thesis by (simp add: ctl_def)
qed

lemma ctl_close:
  assumes "ctl h a" and "pid < length (a_layers a)"
  shows "ctl h (update_layer pid preparePopupClose a)"
proof (rule ctl_layers [OF assms])
  show "in_range h a" using assms by (simp add: ctl_def)
  show "guard_ok h pid (update_layer pid preparePopupClose a)" if "guard_ok h pid a"
    using that assms(2) by (auto simp: preparePopupClose_def guard_ok_def inflight_def Let_def split: if_splits)
qed simp

lemma ctl_take_job:
  assumes "ctl None a" and "n < length (a_jobs a)"
  shows "ctl (job_owner (a_jobs a ! n)) (a\<lparr>a_jobs := remove_nth n (a_jobs a)\<rparr>)" "in_range (job_popup (a_jobs a ! n)) a"
proof -
  let ?b = "a\<lparr>a_jobs := remove_nth n (a_jobs a)\<rparr>"
  have split: "a_jobs a = take n (a_jobs a) @ a_jobs a ! n # drop (Suc n) (a_jobs a)"
    using assms(2) by (simp add: id_take_nth_drop)
  have r: "list_all (\<lambda>j. in_range (job_popup j) a) (take n (a_jobs a) @ a_jobs a ! n # drop (Suc n) (a_jobs a))"
    "list_all (\<lambda>t. in_range (task_popup t) a) (a_tasks a)"
    using assms(1) split by (simp_all add: ctl_def)
  then show g: "in_range (job_popup (a_jobs a ! n)) a" by simp
  have "in_range (job_owner (a_jobs a ! n)) a"
    using g owner_popup by (cases "job_owner (a_jobs a ! n)") fastforce+
  moreover have "inflight pid ?b + token pid (job_owner (a_jobs a ! n)) = inflight pid a" for pid
    unfolding inflight_def by (subst (2) split) (simp add: remove_nth_def token_def)
  then have "guard_ok (job_owner (a_jobs a ! n)) pid ?b = guard_ok None pid a" for pid
    by (intro guard_cong) simp_all
  ultimately show "ctl (job_owner (a_jobs a ! n)) ?b" using r
    by (intro ctl_point [OF assms(1)]) (simp_all add: remove_nth_def)
qed

lemma ctl_take_task:
  assumes "ctl None a" and "n < length (a_tasks a)"
  shows "ctl (task_owner (a_tasks a ! n)) (a\<lparr>a_tasks := remove_nth n (a_tasks a)\<rparr>)" "in_range (task_popup (a_tasks a ! n)) a"
proof -
  let ?b = "a\<lparr>a_tasks := remove_nth n (a_tasks a)\<rparr>"
  have split: "a_tasks a = take n (a_tasks a) @ a_tasks a ! n # drop (Suc n) (a_tasks a)"
    using assms(2) by (simp add: id_take_nth_drop)
  have r: "list_all (\<lambda>t. in_range (task_popup t) a) (take n (a_tasks a) @ a_tasks a ! n # drop (Suc n) (a_tasks a))"
    "list_all (\<lambda>j. in_range (job_popup j) a) (a_jobs a)"
    using assms(1) split by (simp_all add: ctl_def)
  then show g: "in_range (task_popup (a_tasks a ! n)) a" by simp
  have "in_range (task_owner (a_tasks a ! n)) a"
    using g owner_popup by (cases "task_owner (a_tasks a ! n)") fastforce+
  moreover have "inflight pid ?b + token pid (task_owner (a_tasks a ! n)) = inflight pid a" for pid
    unfolding inflight_def by (subst (2) split) (simp add: remove_nth_def token_def)
  then have "guard_ok (task_owner (a_tasks a ! n)) pid ?b = guard_ok None pid a" for pid
    by (intro guard_cong) simp_all
  ultimately show "ctl (task_owner (a_tasks a ! n)) ?b" using r
    by (intro ctl_point [OF assms(1)]) (simp_all add: remove_nth_def)
qed

end
