(* ===== verification/Editor_Control.thy ===== *)
theory Editor_Control
  imports Editor_Guard
begin

text \<open>
  Every step of the program keeps the token discipline of \<open>Editor_Guard\<close>, and running posted
  work to its end takes a bounded number of steps.
\<close>

section \<open>Callbacks\<close>

lemma ctl_finished [simp]: "ly_closing (layer_at q (finishBusyAction pid a)) = ly_closing (layer_at q a)" if "pid < length (a_layers a)"
  using that by (simp add: finishBusyAction_def)

lemma finish_frame [simp]:
  "length (a_layers (finishBusyAction pid a)) = length (a_layers a)" "a_jobs (finishBusyAction pid a) = a_jobs a"
  "a_tasks (finishBusyAction pid a) = a_tasks a" "a_svc (finishBusyAction pid a) = a_svc a"
  "a_active (finishBusyAction pid a) = a_active a" "a_editor (finishBusyAction pid a) = a_editor a"
  "a_plans (finishBusyAction pid a) = a_plans a"
  by (simp_all add: finishBusyAction_def)

lemma rebuild_list_ctl: "ctl h a \<Longrightarrow> pid < length (a_layers a) \<Longrightarrow> ctl h (rebuild_list env pid a)"
  by (auto simp: rebuild_defs Let_def ctl_update intro!: ctl_post_free)

lemma rebuild_if_ctl: "ctl h a \<Longrightarrow> pid < length (a_layers a) \<Longrightarrow> ctl h (rebuild_if env pid ok bad good a)"
  by (simp add: rebuild_if_def Let_def rebuild_list_ctl)

lemma flow_succeeded_ctl:
  assumes "ctl None a" and "pid < length (a_layers a)"
  shows "ctl None (flow_succeeded env pid cs f a)"
  using assms by (cases f) (auto simp: Let_def ctl_update intro!: ctl_queue rebuild_list_ctl)

lemma flow_applied_only_ctl:
  assumes "ctl None a" and "pid < length (a_layers a)"
  shows "ctl None (flow_applied_only env pid cs f a)"
proof -
  have "flow_applied_only env pid cs f a = a \<or> flow_applied_only env pid cs f a = flow_succeeded env pid cs f a"
    by (cases f) simp_all
  with assms flow_succeeded_ctl [OF assms] show ?thesis by metis
qed

lemma run_prepared_ctl:
  assumes "ctl (Some pid) a"
  shows "ctl None (run_prepared env pid f res p a)"
proof -
  have pid: "pid < length (a_layers a)" by (rule ctl_holder [OF assms])
  have fin: "ctl None (finishBusyAction pid (notify ns (a\<lparr>a_editor := ed\<rparr>)))" for ns ed
    using assms by (intro ctl_finish) simp
  have post: "ctl None (post (Finalize_Job pid f q st cs) (notify ns (a\<lparr>a_editor := ed\<rparr>)))" for q st cs ns ed
    using assms pid by (intro ctl_post) simp_all
  show ?thesis using ctl_finish [OF assms] fin post flow_applied_only_ctl [OF fin] pid
    by (auto simp: run_prepared_def Let_def split: sum.split prod.split option.split)
qed

lemma run_finalized_ctl:
  assumes "ctl (Some pid) a"
  shows "ctl None (run_finalized env pid f res cs a)"
  using ctl_finish [OF assms] flow_succeeded_ctl [OF ctl_finish [OF assms]] ctl_holder [OF assms]
  by (auto simp: run_finalized_def Let_def split: sum.split)

lemma closeOnce_ctl: "ctl h a \<Longrightarrow> pid < length (a_layers a) \<Longrightarrow> ctl h (closeOnce pid a)"
  by (simp add: closeOnce_def ctl_close)

lemma shown_ctl:
  assumes "ctl h a" and "pid < length (a_layers a)"
  shows "ctl h (show_commits pid serial lk cs a)" "ctl h (show_levels pid serial ls a)"
  using assms by (simp_all add: show_commits_def show_levels_def ctl_update)

lemma run_merged_ctl: "ctl None a \<Longrightarrow> ctl None (run_merged env res ps a)"
  by (auto simp: run_merged_def Let_def split: sum.split prod.split intro!: ctl_post_free)

lemma run_task_ctl:
  assumes "ctl (task_owner t) a" and "in_range (task_popup t) a"
  shows "ctl None (run_task env t a)"
  using assms ctl_holder
  by (cases t) (auto simp: showImportPlanPopup_def intro!: run_prepared_ctl run_finalized_ctl rebuild_if_ctl ctl_finish shown_ctl
    run_merged_ctl closeOnce_ctl)

section \<open>Jobs\<close>

text \<open>How many steps what was posted can still cause, at most.\<close>

fun job_weight :: "job \<Rightarrow> nat" where
  "job_weight (Prepare_Job pid f lk) = 6"
| "job_weight (Finalize_Job pid f p st cs) = 4"
| "job_weight (Delete_Job pid lk) = 4"
| "job_weight (Rename_Job pid i msg) = 4"
| "job_weight (Merge_Job lk paths) = 6"
| "job_weight (Merge_Finalize_Job ps v) = 4"
| "job_weight _ = 2"

fun task_weight :: "task \<Rightarrow> nat" where
  "task_weight (Prepared_Task pid f res p) = 5"
| "task_weight (Finalized_Task pid f res cs) = 3"
| "task_weight (Deleted_Task pid ok) = 3"
| "task_weight (Renamed_Task pid ok) = 3"
| "task_weight (Merged_Task res ps) = 5"
| "task_weight _ = 1"

definition load :: "'g app \<Rightarrow> nat" where
  "load a = sum_list (map job_weight (a_jobs a)) + sum_list (map task_weight (a_tasks a))"

lemma load_simps [simp]:
  "load (notify ns a) = load a" "load (post j a) = load a + job_weight j" "load (queue t a) = load a + task_weight t"
  "load (update_layer pid f a) = load a" "load (finishBusyAction pid a) = load a" "load (a\<lparr>a_editor := ed\<rparr>) = load a"
  "load (a\<lparr>a_svc := s, a_disk := d\<rparr>) = load a" "load (a\<lparr>a_plans := ps\<rparr>) = load a"
  by (simp_all add: load_def)

lemma rebuild_load: "load (rebuild_list env pid a) \<le> load a + 2" "load (rebuild_if env pid ok bad good a) \<le> load a + 2"
  by (simp_all add: rebuild_defs rebuild_if_def Let_def)

lemma succeeded_load: "load (flow_succeeded env pid cs f a) \<le> load a + 2" "load (flow_applied_only env pid cs f a) \<le> load a + 2"
  by (cases f; simp add: Let_def order_trans [OF rebuild_load(1)])+

lemma run_task_load: "load (run_task env t a) < load a + task_weight t"
proof (cases t)
  case (Prepared_Task pid f res p)
  have "load (flow_applied_only env pid cs f b) < load b + 5" for cs b
    using succeeded_load(2) [of env pid cs f b] by linarith
  from this [of _ "finishBusyAction pid (notify _ (a\<lparr>a_editor := _\<rparr>))"] Prepared_Task show ?thesis
    by (auto simp: run_prepared_def Let_def split: sum.split prod.split option.split)
next
  case (Finalized_Task pid f res cs)
  have "load (flow_succeeded env pid cs f b) < load b + 3" for b
    using succeeded_load(1) [of env pid cs f b] by linarith
  from this [of "finishBusyAction pid a"] Finalized_Task show ?thesis
    by (auto simp: run_finalized_def Let_def split: sum.split)
next
  case (Deleted_Task pid ok)
  with rebuild_load(2) [of env pid ok _ _ "finishBusyAction pid a"] show ?thesis by (simp add: le_imp_less_Suc numeral_3_eq_3)
next
  case (Renamed_Task pid ok)
  with rebuild_load(2) [of env pid ok _ _ a] show ?thesis by (simp add: le_imp_less_Suc numeral_3_eq_3)
qed (auto simp: show_commits_def show_levels_def showImportPlanPopup_def run_merged_def closeOnce_def Let_def
  split: sum.split prod.split)

lemma done_svc_eq: "done_svc r t a = Some a' \<longleftrightarrow> (\<exists>v svc. r = Some (v, svc) \<and> a' = queue (t v) (a\<lparr>a_svc := svc\<rparr>))"
  by (auto simp: done_svc_def split: option.split)

lemma done_disk_eq:
  "done_disk r t a = Some a' \<longleftrightarrow> (\<exists>v svc d. r = Some (v, svc, d) \<and> a' = queue (t v) (a\<lparr>a_svc := svc, a_disk := d\<rparr>))"
  by (auto simp: done_disk_def split: option.split)

text \<open>A job queues one callback, for the popup that posted it, and touches nothing else.\<close>

lemma done_shape:
  assumes "\<And>v. task_owner (t v) = ow \<and> task_popup (t v) = pop \<and> task_weight (t v) < w"
  shows "done_svc r t a = Some a' \<Longrightarrow>
      \<exists>t svc d. a' = queue t (a\<lparr>a_svc := svc, a_disk := d\<rparr>) \<and> task_owner t = ow \<and> task_popup t = pop \<and> task_weight t < w"
    "done_disk r' t a = Some a' \<Longrightarrow>
      \<exists>t svc d. a' = queue t (a\<lparr>a_svc := svc, a_disk := d\<rparr>) \<and> task_owner t = ow \<and> task_popup t = pop \<and> task_weight t < w"
proof -
  have d: "a\<lparr>a_svc := s\<rparr> = a\<lparr>a_svc := s, a_disk := a_disk a\<rparr>" for s by simp
  show "done_svc r t a = Some a' \<Longrightarrow>
      \<exists>t svc d. a' = queue t (a\<lparr>a_svc := svc, a_disk := d\<rparr>) \<and> task_owner t = ow \<and> task_popup t = pop \<and> task_weight t < w"
    unfolding done_svc_eq using assms d by metis
  show "done_disk r' t a = Some a' \<Longrightarrow>
      \<exists>t svc d. a' = queue t (a\<lparr>a_svc := svc, a_disk := d\<rparr>) \<and> task_owner t = ow \<and> task_popup t = pop \<and> task_weight t < w"
    unfolding done_disk_eq using assms by metis
qed

lemma run_job_shape:
  assumes "run_job env now ds j a = Some a'"
  shows "\<exists>t svc d. a' = queue t (a\<lparr>a_svc := svc, a_disk := d\<rparr>) \<and> task_owner t = job_owner j \<and>
    task_popup t = job_popup j \<and> task_weight t < job_weight j"
  using assms
  by (cases j) (simp_all only: run_job.simps,
    ((erule done_shape(1) [rotated] | erule done_shape(2) [rotated]), (simp split: prod.split))+)

lemma run_job_ctl:
  assumes "run_job env now ds j a = Some a'" and "ctl (job_owner j) a" and "in_range (job_popup j) a"
  shows "ctl None a'"
proof -
  from run_job_shape [OF assms(1)] obtain t svc d where
    t: "a' = queue t (a\<lparr>a_svc := svc, a_disk := d\<rparr>)" "task_owner t = job_owner j" "task_popup t = job_popup j" by blast
  have "in_range (task_popup t) (a\<lparr>a_svc := svc, a_disk := d\<rparr>)"
    using assms(3) t(3) in_range_same [of "a\<lparr>a_svc := svc, a_disk := d\<rparr>" a] by simp
  with t assms(2) show ?thesis by (simp add: ctl_queue)
qed

lemma sum_remove_nth: "n < length xs \<Longrightarrow> sum_list (map f xs) = sum_list (map f (remove_nth n xs)) + (f (xs ! n) :: nat)"
  by (subst (1) id_take_nth_drop [of n xs]) (simp_all add: remove_nth_def)

lemma internal_load: "internal_step env a a' \<Longrightarrow> load a' < load a"
proof (induction rule: internal_step.induct)
  case (worker n a now ds a')
  have "load a = load (a\<lparr>a_jobs := remove_nth n (a_jobs a)\<rparr>) + job_weight (a_jobs a ! n)"
    using sum_remove_nth [OF worker(1), of job_weight] by (simp add: load_def)
  with run_job_shape [OF worker(2)] show ?case by auto
next
  case (main n a)
  have "load a = load (a\<lparr>a_tasks := remove_nth n (a_tasks a)\<rparr>) + task_weight (a_tasks a ! n)"
    using sum_remove_nth [OF main, of task_weight] by (simp add: load_def)
  with run_task_load show ?case by metis
qed

lemma internal_ctl: "internal_step env a a' \<Longrightarrow> ctl None a \<Longrightarrow> ctl None a'"
proof (induction rule: internal_step.induct)
  case (worker n a now ds a')
  from ctl_take_job [OF worker(3,1)] run_job_ctl [OF worker(2)] show ?case by simp
next
  case (main n a)
  from ctl_take_task [OF main(2,1)] show ?case by (intro run_task_ctl) simp_all
qed

section \<open>Events\<close>

lemma begin_action_ctl:
  assumes "ctl None a" and "pid < length (a_layers a)"
    and "\<And>a1. ctl (Some pid) a1 \<Longrightarrow> ctl None (k a1)"
  shows "ctl None (begin_action pid k a)"
  using assms ctl_begin [OF assms(1,2)] by (simp add: begin_action_def tryBeginBusyAction_def)

lemma press_on_ctl: "ctl None a \<Longrightarrow> (pid < length (a_layers a) \<Longrightarrow> ctl None (k a)) \<Longrightarrow> ctl None (press_on b pid k a)"
  by (simp add: press_on_def)

lemma opened_ctl: "ctl None a \<Longrightarrow> (pid < length (a_layers a) \<Longrightarrow> ctl None (k a)) \<Longrightarrow> ctl None (opened pid k a)"
  by (simp add: opened_def)

lemma open_layer_ctl:
  assumes "ctl None a"
  shows "ctl None (open_layer env browser lk a)"
proof -
  let ?b = "a\<lparr>a_layers := a_layers a @ [new_layer browser lk]\<rparr>"
  have old: "in_range p a \<Longrightarrow> in_range p ?b" for p by (cases p) simp_all
  have same: "layer_at q ?b = layer_at q a" if "q < length (a_layers a)" for q using that by (simp add: layer_at_def nth_append)
  have none: "count_of job_owner (length (a_layers a)) (a_jobs a) = 0" "count_of task_owner (length (a_layers a)) (a_tasks a) = 0"
    using assms owner_popup by (fastforce simp: ctl_def count_of_def list_all_iff filter_empty_conv)+
  have "guard_ok None q ?b" if "q < Suc (length (a_layers a))" for q
  proof (cases "q = length (a_layers a)")
    case True
    have "layer_at q ?b = new_layer browser lk" using True by (simp add: layer_at_def)
    with none True show ?thesis by (simp add: guard_ok_def inflight_def new_layer_def)
  next
    case False
    with that have q: "q < length (a_layers a)" by simp
    with same have "guard_ok None q ?b = guard_ok None q a" by (intro guard_cong) (simp_all add: inflight_def)
    with ctl_layer [OF assms q] show ?thesis by simp
  qed
  moreover have "list_all (\<lambda>j. in_range (job_popup j) ?b) (a_jobs a)" "list_all (\<lambda>t. in_range (task_popup t) ?b) (a_tasks a)"
    using assms old by (simp_all add: ctl_def list_all_iff)
  ultimately have "ctl None ?b" by (simp add: ctl_def)
  then show ?thesis by (simp add: open_layer_def rebuild_list_ctl)
qed

lemma require_ctl: "ctl None a \<Longrightarrow> (\<And>lk. ctl None (k lk a)) \<Longrightarrow> ctl None (requireValidLevelKey env k a)"
  by (simp add: requireValidLevelKey_def)

lemma confirm_ctl: "ctl None a \<Longrightarrow> (\<And>msg. ctl None (k msg a)) \<Longrightarrow> ctl None (onConfirmClicked env raw k a)"
  by (simp add: onConfirmClicked_def split: option.split)

lemma squash_pressed_ctl:
  assumes "ctl None a" and "pid < length (a_layers a)"
  shows "ctl None (onSquashPressed pid a)"
  unfolding onSquashPressed_def Let_def by (rule begin_action_ctl [OF assms]) (auto intro: ctl_finish ctl_ask)

lemma toggle_ctl:
  assumes "ctl None a" and "pid < length (a_layers a)"
  shows "ctl None (toggle_mode env pid a)"
  using assms by (auto simp: toggle_mode_def Let_def ctl_update intro!: rebuild_list_ctl)

lemma answer_ctl:
  assumes "ctl None a" and "pid < length (a_layers a)"
  shows "ctl None (answer pid yes a)"
proof (cases "ly_dialog (layer_at pid a)")
  case (Some d)
  then have t: "ctl (Some pid) (ask pid None a)" by (intro ctl_answered [OF assms]) simp
  from assms(2) have "pid < length (a_layers (ask pid None a))" by (simp add: ask_def)
  with t Some assms(1) show ?thesis
    by (cases d) (auto simp: answer_defs Let_def intro!: ctl_finish ctl_ask ctl_post)
qed (simp add: answer_defs assms)

lemma squash_message_ctl:
  assumes "ctl None a" and "pid < length (a_layers a)"
  shows "ctl None (squash_message env pid text a)"
proof (cases "ly_dialog (layer_at pid a)")
  case (Some d)
  then have t: "ctl (Some pid) (ask pid None a)" by (intro ctl_answered [OF assms]) simp
  from assms(2) have r: "pid < length (a_layers (ask pid None a))" by (simp add: ask_def)
  have c: "ly_closing (layer_at pid (ask pid None a)) = ly_closing (layer_at pid a)" using assms(2) by (simp add: ask_def)
  have "ctl None (runSquash pid ids msg a)" for ids msg
    using t r c ctl_drop [OF t] by (auto simp: runSquash_def Let_def intro: ctl_post)
  with t c Some assms(1) ctl_drop [OF t] show ?thesis
    by (cases d) (auto simp: squash_message_def Let_def split: option.split intro!: ctl_finish confirm_ctl)
qed (simp add: squash_message_def assms)

lemma handle_ctl:
  assumes "ctl None a"
  shows "ctl None (handle env ev a)"
proof (cases ev)
  case (Press_Squash pid)
  then show ?thesis using assms by (auto intro: press_on_ctl squash_pressed_ctl)
next
  case (Press_Checkout pid i)
  then show ?thesis using assms by (auto simp: startFlow_def intro!: press_on_ctl begin_action_ctl ctl_ask)
next
  case (Press_Revert pid i)
  then show ?thesis using assms by (auto simp: startFlow_def intro!: press_on_ctl begin_action_ctl ctl_ask)
next
  case (Press_Load pid lk)
  then show ?thesis using assms
    by (auto simp: load_pressed_def intro!: press_on_ctl begin_action_ctl ctl_ask ctl_finish)
next
  case (Press_Delete pid lk)
  then show ?thesis using assms by (auto simp: delete_pressed_def intro!: press_on_ctl begin_action_ctl ctl_ask)
next
  case (Commit raw)
  then show ?thesis using assms by (auto simp: onGitCommit_def Let_def intro!: confirm_ctl require_ctl ctl_post_free)
next
  case (Export pick)
  then show ?thesis using assms by (auto simp: onGitExportGdge_def intro!: require_ctl ctl_post_free split: pick.split)
next
  case (Import pick)
  then show ?thesis using assms by (auto simp: onGitImportGdge_def intro!: require_ctl ctl_post_free split: pick.split)
next
  case (Answer_Plan n yes)
  then show ?thesis using assms by (auto simp: answer_plan_def Let_def intro!: ctl_post_free split: prod.split)
next
  case (Rename pid i raw)
  then show ?thesis using assms by (auto simp: rename_commit_def intro!: opened_ctl confirm_ctl ctl_post_free)
qed (use assms in \<open>auto simp: onGitHistory_def onGitLevels_def tick_commit_def ctl_update intro!: require_ctl open_layer_ctl opened_ctl
  press_on_ctl toggle_ctl answer_ctl squash_message_ctl ctl_close\<close>)

lemma app_step_ctl: "app_step env a a' \<Longrightarrow> ctl None a \<Longrightarrow> ctl None a'"
  by (erule app_stepE) (auto intro: handle_ctl internal_ctl)

lemma start_ctl: "ctl None (app_start svc d ed)"
  by (simp add: ctl_def app_start_def)

lemma app_reach_ctl: "app_reach env a \<Longrightarrow> ctl None a"
  by (induction rule: app_reach.induct) (auto simp: app_restart_def intro: start_ctl app_step_ctl)

end
