(* ===== verification/Editor_Inv.thy ===== *)
theory Editor_Inv
  imports Editor_Control
begin

text \<open>
  What holds in every state the program reaches: the database and the caches stay sound, and
  whatever has been prepared and not finished yet is still good, however long it waits and
  whatever runs in between.
\<close>

section \<open>Jobs always return\<close>

definition runs :: "'a option \<Rightarrow> bool" where
  "runs r \<longleftrightarrow> r \<noteq> None"

lemma runs_simps [simp]: "runs (Some x)" "runs (refuse err svc)"
  by (simp_all add: runs_def refuse_def)

lemma runsE: "runs r \<Longrightarrow> (\<And>x. r = Some x \<Longrightarrow> P) \<Longrightarrow> P"
  by (auto simp: runs_def)

lemma after_reconstruct_runs:
  assumes "svc_ok e svc" and "\<And>r svc1. svc_ok e svc1 \<Longrightarrow> runs (k r svc1)"
  shows "runs (after_reconstruct e i svc k)"
proof -
  from reconstruct_ok [OF assms(1), of i] obtain r svc1 where
    "reconstruct e i svc = Some (r, svc1)" "svc_ok e svc1" by blast
  with assms(2) [of svc1 r] show ?thesis by (simp add: after_reconstruct_def)
qed

lemma after_root_runs:
  assumes "svc_ok e svc" and "\<And>r svc1. svc_ok e svc1 \<Longrightarrow> runs (k r svc1)"
  shows "runs (after_root e lk svc k)"
proof -
  obtain rows c where l: "list_rows (e_zlib e) lk (db_conn svc) = (rows, c)" by fastforce
  note s = step_svc [OF list_rows_step [OF l assms(1)]]
  from l s assms(2) after_reconstruct_runs [OF s assms(2)] show ?thesis
    by (simp add: after_root_def Let_def split: option.split)
qed

lemma getHead_runs:
  assumes "svc_ok e svc" and "\<And>h c. svc_ok e (svc\<lparr>db_conn := c\<rparr>) \<Longrightarrow> runs (k h c)"
  shows "runs (case getHead lk (db_conn svc) of (h, c) \<Rightarrow> k h c)"
proof -
  obtain h c where g: "getHead lk (db_conn svc) = (h, c)" by fastforce
  with assms(2) step_svc [OF getHead_step [OF g assms(1)]] show ?thesis by simp
qed

lemma get_row_runs:
  assumes "svc_ok e (svc\<lparr>db_conn := c\<rparr>)" and "\<And>h c2. svc_ok e (svc\<lparr>db_conn := c2\<rparr>) \<Longrightarrow> runs (k h c2)"
  shows "runs (case get_row z i c of (h, c2) \<Rightarrow> k h c2)"
  using assms(2) [of "snd (get_row z i c)"] svc_ok_conn [OF assms(1), of "snd (get_row z i c)"] same_db_get_row [of c z i]
  by (simp add: split_beta)

lemma prepareCheckout_runs: "svc_ok e svc \<Longrightarrow> runs (prepareCheckout e lk i svc)"
  unfolding prepareCheckout_def Let_def
  by (rule getHead_runs)
    (auto simp: checkout_plan_def Let_def split: option.split prod.split intro!: after_reconstruct_runs)

lemma prepareRevert_runs: "svc_ok e svc \<Longrightarrow> runs (prepareRevert e lk i svc)"
  unfolding prepareRevert_def Let_def
  by (rule getHead_runs)
    (auto simp: revert_plan_def Let_def split: option.split intro!: after_reconstruct_runs get_row_runs)

lemma prepareSquash_runs:
  assumes "svc_ok e svc"
  shows "runs (prepareSquash e lk ids msg svc)"
proof -
  obtain res c where l: "load_rows (e_zlib e) lk ids (db_conn svc) = (res, c)" by fastforce
  have ok: "svc_ok e (svc\<lparr>db_conn := c\<rparr>)" using load_rows_ok [OF assms l] step_svc [OF step_ok_conn [OF assms]] by blast
  have w: "runs (prepareSquash_with e lk ids msg rows b svc1)" if "svc_ok e svc1" for rows b svc1
    using that by (auto simp: prepareSquash_with_def split: option.split intro!: after_reconstruct_runs)
  with l ok show ?thesis
    by (auto simp: prepareSquash_def Let_def split: sum.split option.split intro!: after_reconstruct_runs)
qed

lemma prepareImport_runs: "svc_ok e svc \<Longrightarrow> runs (prepareImportLevelFrom e dest src svc)"
  unfolding prepareImportLevelFrom_def Let_def
  by (auto split: option.split intro!: getHead_runs after_reconstruct_runs)

lemma prepared_runs: "runs r \<Longrightarrow> runs (prepared_flow wrap view r)"
  by (erule runsE) (simp add: prepared_flow_def split: prod.split)

lemma prepare_flow_runs: "svc_ok e svc \<Longrightarrow> runs (prepare_flow e f lk svc)"
  by (cases f) (simp_all add: prepared_runs prepareCheckout_runs prepareRevert_runs prepareSquash_runs prepareImport_runs)

lemma classify_runs: "svc_ok e svc \<Longrightarrow> runs (service_classifyImports e g dest paths svc d)"
  unfolding service_classifyImports_def by (rule getHead_runs) (auto split: prod.split intro!: after_root_runs)

lemma planImport_runs: "svc_ok e svc \<Longrightarrow> runs (planImport e g dest paths svc d)"
  by (simp add: planImport_def classify_runs)

lemma prepareImportMany_runs:
  assumes "svc_ok e svc"
  shows "runs (prepareImportManyFromGdge e g dest paths svc d)"
proof -
  from classify_runs [OF assms, of g dest paths d] obtain plan svc1 d1 where
    c: "service_classifyImports e g dest paths svc d = Some (plan, svc1, d1)" by (auto simp: runs_def)
  have "svc_ok e svc1" using service_classify_ok [OF c assms] step_svc by blast
  then have "runs (case getHead dest (db_conn svc1) of (headBefore, c2) \<Rightarrow>
            let svc2 = svc1\<lparr>db_conn := c2\<rparr> in
            case headBefore of
              None \<Rightarrow>
                (case merge_planned e g dest plan None empty_state empty_state d1 of (res, d2) \<Rightarrow> Some (res, svc2, d2))
            | Some h \<Rightarrow>
                after_root e dest svc2 (\<lambda>rootState svc3.
                  case rootState of
                    None \<Rightarrow> Some ((Inl ''failed to reconstruct current root'', []), svc3, d1)
                  | Some rootBefore \<Rightarrow>
                      after_reconstruct e h svc3 (\<lambda>recon svc4.
                        case recon of
                          None \<Rightarrow> Some ((Inl ''failed to reconstruct local state'', []), svc4, d1)
                        | Some ours \<Rightarrow>
                            (case merge_planned e g dest plan (Some h) ours rootBefore d1 of (res, d2) \<Rightarrow>
                               Some (res, svc4, d2)))))"
    by (rule getHead_runs) (auto simp: Let_def split: option.split prod.split intro!: after_root_runs after_reconstruct_runs)
  with c show ?thesis by (simp add: prepareImportManyFromGdge_def)
qed

lemma export_runs:
  assumes "svc_ok e svc"
  shows "runs (exportLevelToGdge e g lk out svc d)"
proof -
  obtain rows c where l: "list_rows (e_zlib e) lk (db_conn svc) = (rows, c)" by fastforce
  obtain h c2 where h: "getHead lk c = (h, c2)" by fastforce
  have "svc_ok e (svc\<lparr>db_conn := c2\<rparr>)"
    using step_svc [OF getHead_step [of lk "svc\<lparr>db_conn := c\<rparr>" h c2 e]] h step_svc [OF list_rows_step [OF l assms]] by simp
  with l h show ?thesis
    by (auto simp: exportLevelToGdge_def Let_def split: option.split prod.split intro!: after_reconstruct_runs)
qed

text \<open>A commit draws random numbers until it has an identifier for each new object.\<close>

lemma assign_loop_runs: "length obs \<le> length (filter (\<lambda>v. v \<noteq> 0) (draws s)) \<Longrightarrow> runs (assign_loop oob prev grid obs s)"
proof (induction obs arbitrary: s)
  case (Cons ob obs)
  obtain m s1 where m: "match_fingerprint oob ob s = (m, s1)" by fastforce
  then have d: "draws s1 = draws s" by (auto simp: match_fingerprint_def Let_def split: option.splits prod.splits)
  from Cons.prems have "filter (\<lambda>v. v \<noteq> 0) (draws s) \<noteq> []" by auto
  with freshUuid_total obtain v ds where f: "freshUuid (draws s) = Some (v, ds)" by blast
  from f Cons.prems have "length obs \<le> length (filter (\<lambda>v. v \<noteq> 0) ds)" using freshUuid_Some [OF f] by auto
  with Cons m d f show ?case by (simp add: assign_step_def claim_def Let_def)
qed simp

lemma identify_runs:
  assumes "env_ok e"
  shows "\<exists>ds. \<forall>h. runs (identify e h live ds)"
proof -
  let ?st = "parseLevelString live"
  let ?n = "length (sorted_keys (objects ?st))"
  let ?ds = "replicate ?n (1 :: u64)"
  have n: "length (e_objects e (objects ?st)) = ?n"
    using assms by (intro length_enumerates) (simp add: env_ok_def hash_order_def)
  have len: "length (filter (\<lambda>v. v \<noteq> 0) ?ds) = ?n" by simp
  from assignFresh_loop_total [of "e_objects e (objects ?st)" ?ds "objects ?st" fmempty] n len obtain r where
    r: "assignFresh_loop (e_objects e (objects ?st)) (objects ?st) ?ds fmempty = Some r" by auto
  have "runs (identify e h live ?ds)" for h
  proof (cases h)
    case None
    with r show ?thesis by (simp add: identify_def assignFreshUuids_def split: prod.split)
  next
    case (Some b)
    have "runs (assign_loop (e_oob e) b (build_grid (e_oob e) b) (map (\<lambda>u. the (fmlookup (objects ?st) u)) (sorted_keys (objects ?st)))
      \<lparr>buckets = build_buckets (e_oob e) b, claimed = [], rebuilt = fmempty, draws = ?ds, stats = zero_stats\<rparr>)"
      by (rule assign_loop_runs) simp
    with r Some show ?thesis
      by (auto simp: identify_def assignUuids_def assignFreshUuids_def Let_def elim!: runsE split: prod.split)
  qed
  then show ?thesis by blast
qed

lemma commit_runs:
  assumes "env_ok e" and "svc_ok e svc"
  shows "\<exists>ds. runs (git_commit e now lk msg live ds svc)"
proof -
  from identify_runs [OF assms(1)] obtain ds where ds: "\<And>h. runs (identify e h live ds)" by blast
  then have "\<exists>st ds'. identify e h live ds = Some (st, ds')" for h by (fastforce simp: runs_def)
  then have k: "runs (case identify e h live ds of None \<Rightarrow> None | Some (st, ds') \<Rightarrow> Some (f st))" for h and f :: "level_state \<Rightarrow> 'b"
    by (metis (mono_tags, lifting) case_prod_conv option.simps(5) runs_simps(1))
  have "runs (git_commit e now lk msg live ds svc)" unfolding git_commit_def Let_def
    by (rule getHead_runs [OF assms(2)]) (auto simp: k split: option.split intro!: after_reconstruct_runs)
  then show ?thesis by blast
qed

lemma done_runs [simp]: "runs (done_svc r t a) = runs r" "runs (done_disk r' t' a) = runs r'"
  by (auto simp: done_svc_def done_disk_def runs_def split: option.split prod.split)

lemma run_job_runs:
  assumes "env_ok (ae_service env)" and "svc_ok (ae_service env) (a_svc a)"
  shows "\<exists>now ds. runs (run_job env now ds j a)"
proof (cases j)
  case (Commit_Job lk msg live)
  from commit_runs [OF assms] obtain ds where "runs (git_commit (ae_service env) 0 lk msg live ds (a_svc a))" by blast
  with Commit_Job show ?thesis by (intro exI [of _ "\<lambda>_. 0"] exI [of _ ds]) simp
qed (use assms in \<open>simp_all add: prepare_flow_runs export_runs planImport_runs prepareImportMany_runs split: prod.split\<close>)

section \<open>What waits stays good\<close>

text \<open>The level of the editor is the only one that flows work on.\<close>

fun dialog_good :: "level_key \<Rightarrow> bool \<Rightarrow> dialog \<Rightarrow> bool" where
  "dialog_good k browser (Ask f lk) \<longleftrightarrow> lk = k"
| "dialog_good k browser (AskSquash ids msg) \<longleftrightarrow> \<not> browser"
| "dialog_good k browser (AskMessage ids msg) \<longleftrightarrow> \<not> browser"
| "dialog_good k browser (AskDelete lk) \<longleftrightarrow> True"

definition layer_good :: "level_key \<Rightarrow> layer \<Rightarrow> bool" where
  "layer_good k l \<longleftrightarrow> (\<not> ly_browser l \<longrightarrow> ly_level l = k) \<and>
     (case ly_dialog l of None \<Rightarrow> True | Some d \<Rightarrow> dialog_good k (ly_browser l) d)"

lemma layer_good_frame [simp]:
  "layer_good k (l\<lparr>ly_busy := b\<rparr>) = layer_good k l" "layer_good k (l\<lparr>ly_serial := s\<rparr>) = layer_good k l"
  "layer_good k (l\<lparr>ly_squash := c\<rparr>) = layer_good k l" "layer_good k (l\<lparr>ly_selected := sel\<rparr>) = layer_good k l"
  "layer_good k (l\<lparr>ly_commits := cs\<rparr>) = layer_good k l" "layer_good k (l\<lparr>ly_levels := ls\<rparr>) = layer_good k l"
  "layer_good k (l\<lparr>ly_closing := b\<rparr>) = layer_good k l"
  by (cases "ly_dialog l"; simp add: layer_good_def)+

lemma layer_good_level: "layer_good k l \<Longrightarrow> layer_good k (l\<lparr>ly_level := k\<rparr>)"
  by (cases "ly_dialog l") (simp_all add: layer_good_def)

text \<open>The flows of a popup prepare one of the first three kinds.\<close>

fun flow_pending :: "pending_op \<Rightarrow> bool" where
  "flow_pending (PendMerge ps) \<longleftrightarrow> False"
| "flow_pending p \<longleftrightarrow> True"

text \<open>\<open>P\<close> says what a pending operation with its state has to satisfy.\<close>

fun job_good :: "level_key \<Rightarrow> (pending_op \<Rightarrow> level_state \<Rightarrow> bool) \<Rightarrow> job \<Rightarrow> bool" where
  "job_good k P (Prepare_Job pid f lk) \<longleftrightarrow> lk = k"
| "job_good k P (Finalize_Job pid f p st cs) \<longleftrightarrow> flow_pending p \<and> P p st"
| "job_good k P (History_Job pid serial lk active) \<longleftrightarrow> lk = k \<and> (active = [] \<or> active = k)"
| "job_good k P (Commit_Job lk msg live) \<longleftrightarrow> lk = k"
| "job_good k P (Plan_Job lk paths) \<longleftrightarrow> lk = k"
| "job_good k P (Merge_Job lk paths) \<longleftrightarrow> lk = k"
| "job_good k P (Merge_Finalize_Job ps v) \<longleftrightarrow> P (PendMerge ps) (ip_state v)"
| "job_good k P _ \<longleftrightarrow> True"

fun task_good :: "level_key \<Rightarrow> (pending_op \<Rightarrow> level_state \<Rightarrow> bool) \<Rightarrow> task \<Rightarrow> bool" where
  "task_good k P (Prepared_Task pid f res p) \<longleftrightarrow>
     (\<forall>st cs q. res = Inr (st, cs) \<longrightarrow> p = Some q \<longrightarrow> flow_pending q \<and> P q st)"
| "task_good k P (History_Task pid serial lk cs) \<longleftrightarrow> lk = k"
| "task_good k P (Planned_Task lk paths plan) \<longleftrightarrow> lk = k"
| "task_good k P (Merged_Task res ps) \<longleftrightarrow> (\<forall>v. res = Inr v \<longrightarrow> P (PendMerge ps) (ip_state v))"
| "task_good k P _ \<longleftrightarrow> True"

definition queues_good :: "level_key \<Rightarrow> (pending_op \<Rightarrow> level_state \<Rightarrow> bool) \<Rightarrow> 'g app \<Rightarrow> bool" where
  "queues_good k P a \<longleftrightarrow> list_all (layer_good k) (a_layers a) \<and> list_all (job_good k P) (a_jobs a) \<and>
     list_all (task_good k P) (a_tasks a) \<and> list_all (\<lambda>(lk, paths, body). lk = k) (a_plans a)"

lemma job_good_mono: "job_good k P j \<Longrightarrow> (\<And>p s. P p s \<Longrightarrow> Q p s) \<Longrightarrow> job_good k Q j"
  by (cases j) auto

lemma task_good_mono: "task_good k P t \<Longrightarrow> (\<And>p s. P p s \<Longrightarrow> Q p s) \<Longrightarrow> task_good k Q t"
  by (cases t) auto

lemma queues_mono: "queues_good k P a \<Longrightarrow> (\<And>p s. P p s \<Longrightarrow> Q p s) \<Longrightarrow> queues_good k Q a"
  by (auto simp: queues_good_def elim!: list.pred_mono_strong intro: job_good_mono task_good_mono)

lemma queues_frame [simp]:
  "queues_good k P (notify ns a) = queues_good k P a" "queues_good k P (a\<lparr>a_editor := ed\<rparr>) = queues_good k P a"
  "queues_good k P (a\<lparr>a_svc := s, a_disk := d\<rparr>) = queues_good k P a" "queues_good k P (a\<lparr>a_active := b\<rparr>) = queues_good k P a"
  "queues_good k P (a\<lparr>a_svc := s\<rparr>) = queues_good k P a"
  "queues_good k P (post j a) = (queues_good k P a \<and> job_good k P j)"
  "queues_good k P (queue t a) = (queues_good k P a \<and> task_good k P t)"
  by (auto simp: queues_good_def notify_def post_def queue_def)

lemma queues_layer: "queues_good k P a \<Longrightarrow> pid < length (a_layers a) \<Longrightarrow> layer_good k (layer_at pid a)"
  by (simp add: queues_good_def layer_at_def list_all_length)

lemma queues_update:
  assumes "queues_good k P a" and "pid < length (a_layers a)" and "layer_good k (layer_at pid a) \<Longrightarrow> layer_good k (f (layer_at pid a))"
  shows "queues_good k P (update_layer pid f a)"
  using assms queues_layer [OF assms(1,2)]
  by (auto simp: queues_good_def update_layer_def list_all_length nth_list_update)

lemma finish_good: "queues_good k P a \<Longrightarrow> pid < length (a_layers a) \<Longrightarrow> queues_good k P (finishBusyAction pid a)"
  unfolding finishBusyAction_def by (erule queues_update) simp_all

lemma rebuild_good:
  assumes "queues_good (level_of env) P a" and "pid < length (a_layers a)"
  shows "queues_good (level_of env) P (rebuild_list env pid a)"
proof -
  have "queues_good (level_of env) P (update_layer pid (\<lambda>l. l\<lparr>ly_serial := s l\<rparr>) a)" for s
    using assms by (elim queues_update) simp_all
  with assms(1) queues_layer [OF assms] show ?thesis
    by (simp add: rebuild_defs Let_def active_key_def layer_good_def split: option.split)
qed

lemma rebuild_if_good:
  assumes "queues_good (level_of env) P a" and "pid < length (a_layers a)"
  shows "queues_good (level_of env) P (rebuild_if env pid ok bad good a)"
  using assms rebuild_good [of env P "notify [Success good] a" pid] by (simp add: rebuild_if_def Let_def)

lemma succeeded_good:
  assumes "queues_good (level_of env) P a" and "pid < length (a_layers a)"
  shows "queues_good (level_of env) P (flow_succeeded env pid cs f a)"
proof -
  have "queues_good (level_of env) P (update_layer pid (\<lambda>l. l\<lparr>ly_squash := False, ly_selected := []\<rparr>) (notify ns a))" for ns
    using assms by (intro queues_update) simp_all
  with assms show ?thesis by (cases f) (simp_all add: Let_def rebuild_good)
qed

lemma applied_only_good:
  assumes "queues_good (level_of env) P a" and "pid < length (a_layers a)"
  shows "queues_good (level_of env) P (flow_applied_only env pid cs f a)"
proof -
  have "flow_applied_only env pid cs f a = a \<or> flow_applied_only env pid cs f a = flow_succeeded env pid cs f a"
    by (cases f) simp_all
  with assms succeeded_good [OF assms] show ?thesis by metis
qed

lemma run_task_good:
  assumes q: "queues_good (level_of env) P a" and t: "task_good (level_of env) P t" and r: "in_range (task_popup t) a"
  shows "queues_good (level_of env) P (run_task env t a)"
proof (cases t)
  case (Prepared_Task pid f res p)
  with r have pid: "pid < length (a_layers a)" by simp
  have "queues_good (level_of env) P (finishBusyAction pid (notify ns (a\<lparr>a_editor := ed\<rparr>)))" for ns ed
    using q pid by (intro finish_good) simp_all
  with Prepared_Task t q pid finish_good [OF q pid] applied_only_good [of env P "finishBusyAction pid (notify _ (a\<lparr>a_editor := _\<rparr>))" pid]
  show ?thesis by (auto simp: run_prepared_def Let_def split: sum.split prod.split option.split)
next
  case (Finalized_Task pid f res cs)
  with r have pid: "pid < length (a_layers a)" by simp
  with Finalized_Task finish_good [OF q pid] succeeded_good [OF finish_good [OF q pid]] show ?thesis
    by (auto simp: run_finalized_def Let_def split: sum.split)
next
  case (Deleted_Task pid ok)
  with r have pid: "pid < length (a_layers a)" by simp
  with Deleted_Task finish_good [OF q pid] show ?thesis by (simp add: rebuild_if_good)
next
  case (Renamed_Task pid ok)
  with q r show ?thesis by (simp add: rebuild_if_good)
next
  case (History_Task pid serial lk cs)
  with r have pid: "pid < length (a_layers a)" by simp
  show ?thesis using History_Task t q pid queues_layer [OF q pid]
    by (auto simp: show_commits_def layer_good_level intro!: queues_update)
next
  case (Levels_Task pid serial ls)
  then show ?thesis using q r by (auto simp: show_levels_def intro!: queues_update)
next
  case (Close_Task pid)
  then show ?thesis using q r by (auto simp: closeOnce_def preparePopupClose_def intro!: queues_update)
next
  case (Merged_Task res ps)
  with q t show ?thesis by (auto simp: run_merged_def Let_def split: sum.split prod.split)
next
  case (Planned_Task lk paths plan)
  with q t show ?thesis by (auto simp: showImportPlanPopup_def queues_good_def notify_def)
qed (use q in simp_all)

section \<open>Events\<close>

lemma ask_good:
  assumes "queues_good k P a" and "pid < length (a_layers a)"
    and "case d of None \<Rightarrow> True | Some q \<Rightarrow> dialog_good k (ly_browser (layer_at pid a)) q"
  shows "queues_good k P (ask pid d a)"
  unfolding ask_def using assms by (intro queues_update) (simp_all add: layer_good_def split: option.splits)

lemma begin_good:
  assumes "queues_good k P a" and "pid < length (a_layers a)"
    and "\<And>a1. queues_good k P a1 \<Longrightarrow> length (a_layers a1) = length (a_layers a) \<Longrightarrow>
      ly_browser (layer_at pid a1) = ly_browser (layer_at pid a) \<Longrightarrow> queues_good k P (r a1)"
  shows "queues_good k P (begin_action pid r a)"
proof (cases "ly_busy (layer_at pid a)")
  case False
  have "queues_good k P (update_layer pid (\<lambda>l. l\<lparr>ly_busy := True\<rparr>) a)" using assms(1,2) by (intro queues_update) simp_all
  with assms(2,3) False show ?thesis by (simp add: begin_action_def tryBeginBusyAction_def)
qed (use assms(1) in \<open>simp add: begin_action_def tryBeginBusyAction_def\<close>)

lemma press_good:
  assumes "queues_good k P a" and "pid < length (a_layers a) \<Longrightarrow> ly_browser (layer_at pid a) = b \<Longrightarrow> queues_good k P (r a)"
  shows "queues_good k P (press_on b pid r a)"
  using assms by (simp add: press_on_def)

lemma require_good:
  "queues_good (level_of env) P a \<Longrightarrow> queues_good (level_of env) P (r (level_of env) a) \<Longrightarrow>
   queues_good (level_of env) P (requireValidLevelKey env r a)"
  by (simp add: requireValidLevelKey_def)

lemma confirm_good:
  "queues_good k P a \<Longrightarrow> (\<And>msg. queues_good k P (r msg a)) \<Longrightarrow> queues_good k P (onConfirmClicked env raw r a)"
  by (simp add: onConfirmClicked_def split: option.split)

lemma open_layer_good:
  assumes "queues_good (level_of env) P a" and "browser \<or> lk = level_of env"
  shows "queues_good (level_of env) P (open_layer env browser lk a)"
proof -
  have "queues_good (level_of env) P (a\<lparr>a_layers := a_layers a @ [new_layer browser lk]\<rparr>)"
    using assms by (auto simp: queues_good_def layer_good_def new_layer_def)
  then show ?thesis by (simp add: open_layer_def rebuild_good)
qed

lemma answer_good:
  assumes q: "queues_good k P a" and pid: "pid < length (a_layers a)"
  shows "queues_good k P (answer pid yes a)"
proof (cases "ly_dialog (layer_at pid a)")
  case (Some d)
  then have d: "dialog_good k (ly_browser (layer_at pid a)) d" using queues_layer [OF q pid] by (simp add: layer_good_def)
  have n: "queues_good k P (ask pid None a)" by (rule ask_good [OF q pid]) simp
  have len: "pid < length (a_layers (ask pid None a))" "ly_browser (layer_at pid (ask pid None a)) = ly_browser (layer_at pid a)"
    using pid by (simp_all add: ask_def)
  from d n len Some q show ?thesis
    by (cases d) (auto simp: answer_defs Let_def finish_good intro!: ask_good)
qed (simp add: answer_defs q)

lemma squash_message_good:
  assumes q: "queues_good k P a" and pid: "pid < length (a_layers a)"
  shows "queues_good k P (squash_message env pid text a)"
proof (cases "ly_dialog (layer_at pid a)")
  case (Some d)
  note l = queues_layer [OF q pid]
  have n: "queues_good k P (ask pid None a)" by (rule ask_good [OF q pid]) simp
  moreover have "queues_good k P (finishBusyAction pid (ask pid None a))"
    using pid by (intro finish_good [OF n]) (simp add: ask_def)
  moreover have "queues_good k P (runSquash pid ids msg a)" if "d = AskMessage ids t" for ids msg t
    using that l n Some by (simp add: runSquash_def Let_def layer_good_def)
  ultimately show ?thesis using Some q
    by (cases d) (auto simp: squash_message_def Let_def split: option.split intro: confirm_good)
qed (simp add: squash_message_def q)

lemma handle_good:
  assumes q: "queues_good (level_of env) P a"
  shows "queues_good (level_of env) P (handle env ev a)"
proof (cases ev)
  case (Press_Squash pid)
  show ?thesis unfolding Press_Squash handle.simps onSquashPressed_def Let_def
    using q by (intro press_good begin_good) (auto intro!: finish_good ask_good)
next
  case (Press_Checkout pid i)
  then show ?thesis using q queues_layer [OF q]
    by (auto simp: startFlow_def layer_good_def intro!: press_good begin_good ask_good)
next
  case (Press_Revert pid i)
  then show ?thesis using q queues_layer [OF q]
    by (auto simp: startFlow_def layer_good_def intro!: press_good begin_good ask_good)
next
  case (Press_Load pid lk)
  then show ?thesis using q by (auto simp: load_pressed_def intro!: press_good begin_good ask_good finish_good)
next
  case (Press_Delete pid lk)
  then show ?thesis using q by (auto simp: delete_pressed_def intro!: press_good begin_good ask_good)
next
  case (Toggle_Mode pid)
  then show ?thesis using q by (auto simp: toggle_mode_def Let_def intro!: press_good rebuild_good queues_update)
next
  case (Tick pid i)
  then show ?thesis using q by (auto simp: tick_commit_def intro!: press_good queues_update)
next
  case (Close_Popup pid)
  then show ?thesis using q by (auto simp: opened_def preparePopupClose_def intro!: queues_update)
next
  case (Commit raw)
  then show ?thesis using q by (auto simp: onGitCommit_def Let_def intro!: confirm_good require_good)
next
  case (Export pick)
  then show ?thesis using q by (auto simp: onGitExportGdge_def intro!: require_good split: pick.split)
next
  case (Import pick)
  then show ?thesis using q by (auto simp: onGitImportGdge_def intro!: require_good split: pick.split)
next
  case (Answer_Plan n yes)
  have sub: "set (remove_nth n (a_plans a)) \<subseteq> set (a_plans a)"
    by (auto simp: remove_nth_def dest: in_set_takeD in_set_dropD)
  have p: "list_all (\<lambda>(lk, paths, body). lk = level_of env) (a_plans a)" using q by (simp add: queues_good_def)
  have one: "lk = level_of env" if "n < length (a_plans a)" "a_plans a ! n = (lk, paths, body)" for lk paths body
    using p that by (auto simp: list_all_length)
  have "list_all (\<lambda>(lk, paths, body). lk = level_of env) (remove_nth n (a_plans a))"
    using p sub by (auto simp: list_all_iff)
  with q have "queues_good (level_of env) P (a\<lparr>a_plans := remove_nth n (a_plans a)\<rparr>)" by (simp add: queues_good_def)
  with Answer_Plan q one show ?thesis by (auto simp: answer_plan_def Let_def split: prod.split)
next
  case (Rename pid i raw)
  then show ?thesis using q by (auto simp: rename_commit_def opened_def intro!: confirm_good)
next
  case (Squash_Message pid txt1)
  then show ?thesis using q by (auto simp: opened_def intro: squash_message_good)
next
  case (Answer pid yes)
  then show ?thesis using q by (auto simp: opened_def intro: answer_good)
next
  case Open_History
  then show ?thesis using q by (auto simp: onGitHistory_def intro!: require_good open_layer_good)
next
  case Open_Levels
  then show ?thesis using q by (auto simp: onGitLevels_def intro!: open_layer_good)
qed (use q in simp_all)

section \<open>What a job does to the database\<close>

abbreviation app_db :: "'g app \<Rightarrow> db" where
  "app_db a \<equiv> cdb (db_conn (a_svc a))"

lemma listSummaries_step: "svc_ok e svc \<Longrightarrow> step_ok e svc (snd (listSummaries e lk svc))"
  using fetch_same_db step_ok_refl by (auto simp: listSummaries_def listSummaryRows_def split_beta intro!: step_ok_conn)

lemma listLevels_step: "svc_ok e svc \<Longrightarrow> listLevels (db_conn svc) = (ls, c) \<Longrightarrow> step_ok e svc (svc\<lparr>db_conn := c\<rparr>)"
  using fetch_same_db by (auto simp: listLevels_def split_beta split: if_splits intro!: step_ok_conn)

lemma loadHistory_ok:
  assumes ok: "svc_ok e svc" and run: "loadHistory e lk active svc = ((lk1, cs), svc')"
  shows "step_ok e svc svc'" "lk1 = lk \<or> active \<noteq> [] \<and> lk1 = active"
proof -
  note s1 = listSummaries_step [OF ok, of lk]
  note s2 = step_ok_trans [OF s1 listSummaries_step [OF step_svc [OF s1], of active]]
  from run s1 s2 show "step_ok e svc svc'" by (auto simp: loadHistory_def split_beta Let_def split: if_splits)
  from run show "lk1 = lk \<or> active \<noteq> [] \<and> lk1 = active" by (auto simp: loadHistory_def split_beta Let_def split: if_splits)
qed

end
