(* ===== verification/Editor_Reach.thy ===== *)
theory Editor_Reach
  imports Editor_Inv
begin

text \<open>
  The invariant of the whole program, and how posted work drains: once the user stops, worker
  and main thread come to rest after a bounded number of steps.
\<close>

section \<open>Jobs keep the invariant\<close>

definition prepared_good :: "level_key \<Rightarrow> (pending_op \<Rightarrow> level_state \<Rightarrow> bool) \<Rightarrow>
    (git_error + level_state \<times> conflict list) \<times> pending_op option \<Rightarrow> bool" where
  "prepared_good k P r \<longleftrightarrow> (\<forall>st cs q. fst r = Inr (st, cs) \<longrightarrow> snd r = Some q \<longrightarrow> flow_pending q \<and> P q st)"

lemma prepared_flow_good:
  assumes "prepared_flow wrap view (Some (p, svc1)) = Some (r, svc')"
    and "\<And>v x. outcome p = Inr v \<Longrightarrow> pending p = Some x \<Longrightarrow> P (wrap x) (fst (view v))"
    and "\<And>x. flow_pending (wrap x)"
  shows "svc' = svc1 \<and> prepared_good k P r"
  using assms by (auto simp: prepared_flow_def prepared_good_def split: sum.splits) (metis fst_conv)

lemma prepare_flow_good:
  assumes e: "env_ok e" and ok: "svc_ok e svc" and rk: "ranked rk (cdb (db_conn svc))"
    and run: "prepare_flow e f lk svc = Some (r, svc')"
  shows "step_ok e svc svc' \<and> prepared_good lk (pend_ok e lk rk (cdb (db_conn svc))) r"
proof (cases f)
  case (Flow_Checkout i)
  obtain p svc1 where p: "prepareCheckout e lk i svc = Some (p, svc1)" using prepareCheckout_runs [OF ok, of lk i] by (auto simp: runs_def)
  note pr = prepareCheckout_ok [OF ok p, unfolded prepares_def]
  have "pend_ok e lk rk (cdb (db_conn svc)) (PendHead x) v" if "outcome p = Inr v" "pending p = Some x" for v x
    using leads_pend [of e svc1 lk v x rk] rankedD(1) [OF rk] pr that step_ok_db [of e svc svc1] step_svc [of e svc svc1] by simp
  with run p pr Flow_Checkout show ?thesis
    using prepared_flow_good [of PendHead "\<lambda>s. (s, [])" p svc1 r svc' "pend_ok e lk rk (cdb (db_conn svc))" lk] by auto
next
  case (Flow_Revert i)
  obtain p svc1 where p: "prepareRevert e lk i svc = Some (p, svc1)" using prepareRevert_runs [OF ok, of lk i] by (auto simp: runs_def)
  note pr = prepareRevert_ok [OF ok p, unfolded prepares_def]
  have "pend_ok e lk rk (cdb (db_conn svc)) (PendHead x) (rp_state v)" if "outcome p = Inr v" "pending p = Some x" for v x
    using leads_pend [of e svc1 lk "rp_state v" x rk] rankedD(1) [OF rk] pr that step_ok_db [of e svc svc1] step_svc [of e svc svc1] by simp
  with run p pr Flow_Revert show ?thesis
    using prepared_flow_good [of PendHead "\<lambda>v. (rp_state v, rp_conflicts v)" p svc1 r svc' "pend_ok e lk rk (cdb (db_conn svc))" lk] by auto
next
  case (Flow_Squash ids msg)
  obtain p svc1 where p: "prepareSquash e lk ids msg svc = Some (p, svc1)" using prepareSquash_runs [OF ok, of lk ids msg] by (auto simp: runs_def)
  note pr = prepareSquash_ok [OF e ok p]
  have "pend_ok e lk rk (cdb (db_conn svc)) (PendSquash x) t" if "outcome p = Inr t" "pending p = Some x" for t x
    using folds_pend [OF ok rk, of lk ids t x] pr that by fastforce
  with run p pr Flow_Squash show ?thesis
    using prepared_flow_good [of PendSquash "\<lambda>s. (s, [])" p svc1 r svc' "pend_ok e lk rk (cdb (db_conn svc))" lk] by auto
next
  case (Flow_Load src)
  obtain p svc1 where p: "prepareImportLevelFrom e lk src svc = Some (p, svc1)" using prepareImport_runs [OF ok, of lk src] by (auto simp: runs_def)
  note pr = prepareReplace_ok [OF ok p, of rk]
  have "pend_ok e lk rk (cdb (db_conn svc)) (PendReplace x) t" if "outcome p = Inr t" "pending p = Some x" for t x
    using pr that by fastforce
  with run p pr Flow_Load show ?thesis
    using prepared_flow_good [of PendReplace "\<lambda>s. (s, [])" p svc1 r svc' "pend_ok e lk rk (cdb (db_conn svc))" lk] by auto
qed

text \<open>A job changes the database only forward, and what it queues is good there.\<close>

definition job_effect :: "('j, 'g) app_env \<Rightarrow> (commit_id \<Rightarrow> nat) \<Rightarrow> 'g app \<Rightarrow> 'g app \<Rightarrow> bool" where
  "job_effect env rk a a' \<longleftrightarrow> (\<exists>t svc d rk'. a' = queue t (a\<lparr>a_svc := svc, a_disk := d\<rparr>) \<and>
     svc_ok (ae_service env) svc \<and> moved (ae_service env) (level_of env) rk (app_db a) rk' (cdb (db_conn svc)) \<and>
     task_good (level_of env) (pend_ok (ae_service env) (level_of env) rk' (cdb (db_conn svc))) t)"

lemma effectI:
  assumes "a' = queue t (a\<lparr>a_svc := svc\<rparr>) \<or> a' = queue t (a\<lparr>a_svc := svc, a_disk := d\<rparr>)"
    and "svc_ok (ae_service env) svc \<and> moved (ae_service env) (level_of env) rk (app_db a) rk' (cdb (db_conn svc))"
    and "task_good (level_of env) (pend_ok (ae_service env) (level_of env) rk' (cdb (db_conn svc))) t"
  shows "job_effect env rk a a'"
proof -
  have "a\<lparr>a_svc := svc\<rparr> = a\<lparr>a_svc := svc, a_disk := a_disk a\<rparr>" by simp
  with assms show ?thesis unfolding job_effect_def by metis
qed

lemma run_job_effect:
  assumes e: "env_ok (ae_service env)" and ok: "svc_ok (ae_service env) (a_svc a)" and rk: "ranked rk (app_db a)"
    and good: "job_good (level_of env) (pend_ok (ae_service env) (level_of env) rk (app_db a)) j"
    and run: "run_job env now ds j a = Some a'"
  shows "job_effect env rk a a'"
proof (cases j)
  case (Prepare_Job pid f lk)
  with run obtain r svc' where r: "prepare_flow (ae_service env) f lk (a_svc a) = Some (r, svc')"
    and a': "a' = queue (Prepared_Task pid f (fst r) (snd r)) (a\<lparr>a_svc := svc'\<rparr>)" by (auto simp: done_svc_eq)
  have p: "step_ok (ae_service env) (a_svc a) svc'" "prepared_good lk (pend_ok (ae_service env) lk rk (app_db a)) r"
    using prepare_flow_good [OF e ok rk r] by blast+
  from p step_moved [OF p(1) rk] step_ok_db [OF p(1)] good Prepare_Job
  show ?thesis by (intro effectI [OF disjI1 [OF a'], of env rk rk]) (auto simp: prepared_good_def)
next
  case (Finalize_Job pid f p st cs)
  with run obtain r svc' where r: "finalize_op (ae_service env) now p st (a_svc a) = (r, svc')"
    and a': "a' = queue (Finalized_Task pid f r cs) (a\<lparr>a_svc := svc'\<rparr>)" by (auto simp: done_svc_eq)
  from finalize_op_ok [OF e ok rk _ r, of "level_of env"] good Finalize_Job obtain rk' where
    "svc_ok (ae_service env) svc'" "moved (ae_service env) (level_of env) rk (app_db a) rk' (cdb (db_conn svc'))" by auto
  then show ?thesis by (intro effectI [OF disjI1 [OF a'], of env rk rk']) simp_all
next
  case (Merge_Finalize_Job ps v)
  with run obtain r svc' where r: "finalize_op (ae_service env) now (PendMerge ps) (ip_state v) (a_svc a) = (r, svc')"
    and a': "a' = queue (Merge_Finalized_Task r v) (a\<lparr>a_svc := svc'\<rparr>)" by (auto simp: done_svc_eq simp del: finalize_op.simps)
  from finalize_op_ok [OF e ok rk _ r, of "level_of env"] good Merge_Finalize_Job obtain rk' where
    "svc_ok (ae_service env) svc'" "moved (ae_service env) (level_of env) rk (app_db a) rk' (cdb (db_conn svc'))" by auto
  then show ?thesis by (intro effectI [OF disjI1 [OF a'], of env rk rk']) simp_all
next
  case (Delete_Job pid lk)
  with run obtain r svc' where r: "delete_level lk (a_svc a) = (r, svc')"
    and a': "a' = queue (Deleted_Task pid r) (a\<lparr>a_svc := svc'\<rparr>)" by (auto simp: done_svc_eq)
  from delete_moved [OF ok rk r] show ?thesis by (intro effectI [OF disjI1 [OF a'], of env rk rk]) simp_all
next
  case (Rename_Job pid i msg)
  with run obtain r svc' where r: "updateCommitMessage i msg (a_svc a) = (r, svc')"
    and a': "a' = queue (Renamed_Task pid r) (a\<lparr>a_svc := svc'\<rparr>)" by (auto simp: done_svc_eq)
  from message_moved [OF ok rk r] show ?thesis by (intro effectI [OF disjI1 [OF a'], of env rk rk]) simp_all
next
  case (History_Job pid serial lk active)
  with run obtain lk1 cs svc' where r: "loadHistory (ae_service env) lk active (a_svc a) = ((lk1, cs), svc')"
    and a': "a' = queue (History_Task pid serial lk1 cs) (a\<lparr>a_svc := svc'\<rparr>)" by (auto simp: done_svc_eq)
  from loadHistory_ok [OF ok r] step_moved [OF _ rk] good History_Job show ?thesis
    by (intro effectI [OF disjI1 [OF a'], of env rk rk]) auto
next
  case (Levels_Job pid serial)
  obtain ls c where l: "listLevels (db_conn (a_svc a)) = (ls, c)" by fastforce
  with run Levels_Job have a': "a' = queue (Levels_Task pid serial ls) (a\<lparr>a_svc := (a_svc a)\<lparr>db_conn := c\<rparr>\<rparr>)"
    by (auto simp: done_svc_eq)
  from step_moved [OF listLevels_step [OF ok l] rk] show ?thesis
    by (intro effectI [OF disjI1 [OF a'], of env rk rk]) auto
next
  case (Commit_Job lk msg live)
  with run obtain r svc' where r: "git_commit (ae_service env) (now 0) lk msg live ds (a_svc a) = Some (r, svc')"
    and a': "a' = queue (Committed_Task r) (a\<lparr>a_svc := svc'\<rparr>)" by (auto simp: done_svc_eq)
  from commit_moved [OF e ok rk r] good Commit_Job obtain rk' where
    "svc_ok (ae_service env) svc'" "moved (ae_service env) (level_of env) rk (app_db a) rk' (cdb (db_conn svc'))" by auto
  then show ?thesis by (intro effectI [OF disjI1 [OF a'], of env rk rk']) simp_all
next
  case (Export_Job lk path)
  with run obtain r svc' d where r: "exportLevelToGdge (ae_service env) (ae_package env) lk path (a_svc a) (a_disk a) = Some (r, svc', d)"
    and a': "a' = queue (Exported_Task r) (a\<lparr>a_svc := svc', a_disk := d\<rparr>)" by (auto simp: done_disk_eq)
  from exportLevel_ok [OF ok r] step_moved [OF _ rk] show ?thesis
    by (intro effectI [OF disjI2 [OF a'], of env rk rk]) auto
next
  case (Plan_Job lk paths)
  with run obtain r svc' d where r: "planImport (ae_service env) (ae_package env) lk paths (a_svc a) (a_disk a) = Some (r, svc', d)"
    and a': "a' = queue (Planned_Task lk paths r) (a\<lparr>a_svc := svc', a_disk := d\<rparr>)" by (auto simp: done_disk_eq)
  have "step_ok (ae_service env) (a_svc a) svc'"
    using r service_classify_ok [OF _ ok] step_ok_refl [OF ok] by (auto simp: planImport_def split: if_splits)
  from step_moved [OF this rk] good Plan_Job show ?thesis
    by (intro effectI [OF disjI2 [OF a'], of env rk rk]) auto
next
  case (Merge_Job lk paths)
  with run obtain res ps svc' d where
    r: "prepareImportManyFromGdge (ae_service env) (ae_package env) lk paths (a_svc a) (a_disk a) = Some ((res, ps), svc', d)"
    and a': "a' = queue (Merged_Task res ps) (a\<lparr>a_svc := svc', a_disk := d\<rparr>)" by (auto simp: done_disk_eq)
  from prepareMerge_ok [OF ok rankedD(1) [OF rk] r, of rk] have s: "step_ok (ae_service env) (a_svc a) svc'"
    and g: "\<forall>v. res = Inr v \<longrightarrow> pend_ok (ae_service env) lk rk (app_db a) (PendMerge ps) (ip_state v)" by blast+
  show ?thesis using step_moved [OF s rk] g good Merge_Job step_ok_db [OF s]
    by (intro effectI [OF disjI2 [OF a'], of env rk rk]) (auto simp del: pend_ok.simps)
qed

section \<open>The invariant\<close>

definition app_ok :: "('j, 'g) app_env \<Rightarrow> 'g app \<Rightarrow> bool" where
  "app_ok env a \<longleftrightarrow> ctl None a \<and> svc_ok (ae_service env) (a_svc a) \<and> meta_version (app_db a) = Some ''5'' \<and>
     (\<exists>rk. ranked rk (app_db a) \<and> queues_good (level_of env) (pend_ok (ae_service env) (level_of env) rk (app_db a)) a)"

lemma sub_queues:
  "queues_good k P a \<Longrightarrow> queues_good k P (a\<lparr>a_jobs := remove_nth n (a_jobs a)\<rparr>)"
  "queues_good k P a \<Longrightarrow> queues_good k P (a\<lparr>a_tasks := remove_nth n (a_tasks a)\<rparr>)"
  by (auto simp: queues_good_def remove_nth_def list_all_iff dest: in_set_takeD in_set_dropD)

lemma queues_nth:
  "queues_good k P a \<Longrightarrow> n < length (a_jobs a) \<Longrightarrow> job_good k P (a_jobs a ! n)"
  "queues_good k P a \<Longrightarrow> n < length (a_tasks a) \<Longrightarrow> task_good k P (a_tasks a ! n)"
  by (auto simp: queues_good_def list_all_length)

lemma begin_svc: "(\<And>a1. a_svc (r a1) = a_svc a1) \<Longrightarrow> a_svc (begin_action pid r a) = a_svc a"
  by (simp add: begin_action_def tryBeginBusyAction_def)

lemma rebuild_svc [simp]: "a_svc (rebuild_list env pid a) = a_svc a"
  by (simp add: rebuild_defs Let_def)

lemma ask_svc [simp]: "a_svc (ask pid d a) = a_svc a"
  by (simp add: ask_def)

text \<open>No event touches the database: only jobs do.\<close>

lemma handle_svc: "a_svc (handle env ev a) = a_svc a"
  by (cases ev) (auto simp: onGitHistory_def onGitLevels_def open_layer_def requireValidLevelKey_def opened_def press_on_def
      toggle_mode_def onSquashPressed_def startFlow_def load_pressed_def delete_pressed_def answer_defs squash_message_def runSquash_def
      rename_commit_def onGitCommit_def onGitExportGdge_def onGitImportGdge_def onConfirmClicked_def answer_plan_def Let_def begin_svc
      split: option.split dialog.split pick.split prod.split)

lemma succeeded_svc [simp]: "a_svc (flow_succeeded env pid cs f a) = a_svc a" "a_svc (flow_applied_only env pid cs f a) = a_svc a"
  by (cases f; simp add: Let_def)+

lemma run_task_svc: "a_svc (run_task env t a) = a_svc a"
  by (cases t) (auto simp: run_prepared_def run_finalized_def rebuild_if_def show_commits_def show_levels_def showImportPlanPopup_def
      run_merged_def closeOnce_def Let_def split: sum.split prod.split option.split)

lemma internal_ok:
  assumes e: "env_ok (ae_service env)" and st: "internal_step env a a'" and ok: "app_ok env a"
  shows "app_ok env a' \<and> (\<exists>rk rk'. moved (ae_service env) (level_of env) rk (app_db a) rk' (app_db a'))"
proof -
  from ok obtain rk0 where o: "ctl None a" "svc_ok (ae_service env) (a_svc a)" "ranked rk0 (app_db a)"
    "queues_good (level_of env) (pend_ok (ae_service env) (level_of env) rk0 (app_db a)) a"
    "meta_version (app_db a) = Some ''5''" unfolding app_ok_def by blast
  have c: "ctl None a'" by (rule internal_ctl [OF st o(1)])
  show ?thesis using st
  proof cases
    case (worker n now ds)
    let ?b = "a\<lparr>a_jobs := remove_nth n (a_jobs a)\<rparr>"
    have "job_effect env rk0 ?b a'"
      using o queues_nth(1) [OF o(4) worker(1)] by (intro run_job_effect [OF e _ _ _ worker(2)]) simp_all
    then obtain t svc d rk' where
      t: "a' = queue t (?b\<lparr>a_svc := svc, a_disk := d\<rparr>)" and s: "svc_ok (ae_service env) svc"
      and m: "moved (ae_service env) (level_of env) rk0 (app_db a) rk' (cdb (db_conn svc))"
      and g: "task_good (level_of env) (pend_ok (ae_service env) (level_of env) rk' (cdb (db_conn svc))) t"
      unfolding job_effect_def by auto
    have "queues_good (level_of env) (pend_ok (ae_service env) (level_of env) rk' (cdb (db_conn svc))) ?b"
      by (rule queues_mono [OF sub_queues(1) [OF o(4)] moved_pend [OF m]])
    with t g have "queues_good (level_of env) (pend_ok (ae_service env) (level_of env) rk' (cdb (db_conn svc))) a'" by simp
    moreover have "ranked rk' (cdb (db_conn svc))" "meta_version (cdb (db_conn svc)) = Some ''5''"
      using m o(5) by (simp_all add: moved_def grows_def)
    ultimately have "app_ok env a'" using c s t unfolding app_ok_def by auto
    with m t show ?thesis by auto
  next
    case (main n)
    have d: "a_svc a' = a_svc a" by (simp add: main(1) run_task_svc)
    have "queues_good (level_of env) (pend_ok (ae_service env) (level_of env) rk0 (app_db a)) a'"
      unfolding main(1) using ctl_take_task [OF o(1) main(2)]
      by (intro run_task_good sub_queues(2) o(4) queues_nth(2) [OF o(4) main(2)]) simp
    with c d o have "app_ok env a'" unfolding app_ok_def by auto
    with d moved_refl [OF o(3)] show ?thesis by auto
  qed
qed


lemma app_step_ok:
  assumes e: "env_ok (ae_service env)" and st: "app_step env a a'" and ok: "app_ok env a"
  shows "app_ok env a' \<and> (\<exists>rk rk'. moved (ae_service env) (level_of env) rk (app_db a) rk' (app_db a'))"
  using st
proof cases
  case (user ev)
  from ok obtain rk where o: "ctl None a" "svc_ok (ae_service env) (a_svc a)" "ranked rk (app_db a)"
    "queues_good (level_of env) (pend_ok (ae_service env) (level_of env) rk (app_db a)) a"
    "meta_version (app_db a) = Some ''5''" unfolding app_ok_def by blast
  from handle_good [OF o(4), of ev] handle_ctl [OF o(1), of env ev] o have "app_ok env a'"
    unfolding app_ok_def user handle_svc by blast
  with moved_refl [OF o(3)] user handle_svc show ?thesis by metis
qed (use internal_ok [OF e _ ok] in blast)

lemma start_ok: "live_svc (ae_service env) svc \<Longrightarrow> app_ok env (app_start svc d ed)"
  using svc_ranked [of "ae_service env" svc] start_ctl
  by (fastforce simp: app_ok_def app_start_def queues_good_def live_svc_def)

lemma app_ok_live: "app_ok env a \<Longrightarrow> live_svc (ae_service env) (a_svc a)"
  using rankedD(1) by (auto simp: app_ok_def live_svc_def)

lemma restart_ok:
  assumes "app_ok env a" and "ae_service env' = ae_service env"
  shows "app_ok env' (app_restart n fs a ed) \<and> app_db (app_restart n fs a ed) = app_db a"
proof -
  from app_ok_live [OF assms(1)] have l: "live_svc (ae_service env) (a_svc a)" .
  then have d: "cdb (db_conn (restarted n fs (a_svc a))) = app_db a" using restarted_same by (auto simp: live_svc_def)
  with l have "live_svc (ae_service env') (restarted n fs (a_svc a))"
    using restarted_ok [of "ae_service env" "a_svc a"] assms(2) by (simp add: live_svc_def)
  with d start_ok [of env'] show ?thesis by (simp add: app_restart_def app_start_def)
qed

lemma app_reach_ok: "app_reach env a \<Longrightarrow> env_ok (ae_service env) \<Longrightarrow> app_ok env a"
proof (induction rule: app_reach.induct)
  case (start env svc d ed)
  then show ?case by (intro start_ok git_reach_live)
next
  case (step env a a')
  then show ?case using app_step_ok by blast
next
  case (restart env a env' n fs ed)
  then show ?case using restart_ok [of env a env'] by simp
qed

section \<open>Coming to rest\<close>

text \<open>
  Work that drains: under an invariant every step uses up some of a finite load, and while
  there is load left some step is possible.
\<close>

locale draining =
  fixes inv :: "'s \<Rightarrow> bool" and step :: "'s \<Rightarrow> 's \<Rightarrow> bool" and rest_load :: "'s \<Rightarrow> nat"
  assumes keeps: "inv s \<Longrightarrow> step s t \<Longrightarrow> inv t"
    and shrinks: "inv s \<Longrightarrow> step s t \<Longrightarrow> rest_load t < rest_load s"
    and moves: "inv s \<Longrightarrow> 0 < rest_load s \<Longrightarrow> \<exists>t. step s t"
begin

lemma bounded: "inv s \<Longrightarrow> (step ^^ n) s t \<Longrightarrow> inv t \<and> n + rest_load t \<le> rest_load s"
proof (induction n arbitrary: t)
  case (Suc n)
  then obtain u where u: "(step ^^ n) s u" "step u t" by auto
  with Suc.IH [OF Suc.prems(1) u(1)] keeps [of u t] shrinks [of u t] show ?case by auto
qed simp

lemma rests: "inv s \<Longrightarrow> (step ^^ n) s t \<Longrightarrow> \<nexists>u. step t u \<Longrightarrow> rest_load t = 0"
  using bounded moves by blast

lemma drains: "inv s \<Longrightarrow> \<exists>n t. (step ^^ n) s t \<and> rest_load t = 0"
proof (induction "rest_load s" arbitrary: s rule: less_induct)
  case less
  show ?case
  proof (cases "rest_load s = 0")
    case True
    then show ?thesis by (intro exI [of _ 0] exI [of _ s]) simp
  next
    case False
    with moves [OF less.prems] obtain t where t: "step s t" by auto
    from less.hyps [OF shrinks [OF less.prems t] keeps [OF less.prems t]] obtain n u where
      "(step ^^ n) t u" "rest_load u = 0" by blast
    with t have "(step ^^ Suc n) s u" by (metis relpowp_Suc_I2)
    with \<open>rest_load u = 0\<close> show ?thesis by blast
  qed
qed

end

lemma load_pos: "0 < load a \<Longrightarrow> a_jobs a \<noteq> [] \<or> a_tasks a \<noteq> []"
  by (auto simp: load_def)

lemma load_zero: "load a = 0 \<longleftrightarrow> a_jobs a = [] \<and> a_tasks a = []"
proof -
  have "0 < job_weight j" "0 < task_weight t" for j t by (cases j; simp) (cases t; simp)
  then have "job_weight j \<noteq> 0" "task_weight t \<noteq> 0" for j t by (metis less_numeral_extra(3))+
  then show ?thesis by (cases "a_jobs a"; cases "a_tasks a") (auto simp: load_def)
qed

lemma internal_possible:
  assumes "env_ok (ae_service env)" and "svc_ok (ae_service env) (a_svc a)" and "0 < load a"
  shows "\<exists>b. internal_step env a b"
proof (cases "a_tasks a")
  case Nil
  with load_pos [OF assms(3)] have "0 < length (a_jobs a)" by simp
  moreover obtain now ds b where "run_job env now ds (a_jobs a ! 0) (a\<lparr>a_jobs := remove_nth 0 (a_jobs a)\<rparr>) = Some b"
    using run_job_runs [of env "a\<lparr>a_jobs := remove_nth 0 (a_jobs a)\<rparr>"] assms(1,2) by (fastforce simp: runs_def)
  ultimately show ?thesis using internal_step.worker by blast
next
  case (Cons t ts)
  then have "0 < length (a_tasks a)" by simp
  then show ?thesis using internal_step.main by blast
qed

interpretation work: draining "\<lambda>a. env_ok (ae_service env) \<and> app_ok env a" "internal_step env" load for env
proof
  fix s t assume "env_ok (ae_service env) \<and> app_ok env s"
  then have i: "env_ok (ae_service env)" "app_ok env s" by simp_all
  show "internal_step env s t \<Longrightarrow> env_ok (ae_service env) \<and> app_ok env t" using internal_ok [OF i(1) _ i(2)] i(1) by blast
  show "internal_step env s t \<Longrightarrow> load t < load s" by (rule internal_load)
  show "0 < load s \<Longrightarrow> \<exists>t. internal_step env s t" using internal_possible [OF i(1)] i(2) by (simp add: app_ok_def)
qed

lemma load_bound: "load a \<le> 6 * length (a_jobs a) + 5 * length (a_tasks a)"
proof -
  have j: "job_weight j \<le> 6" and t: "task_weight t \<le> 5" for j t by (cases j; simp) (cases t; simp)
  have "sum_list (map job_weight js) \<le> 6 * length js" for js using j by (induction js) (auto simp: add_mono)
  moreover have "sum_list (map task_weight ts) \<le> 5 * length ts" for ts using t by (induction ts) (auto simp: add_mono)
  ultimately show ?thesis by (simp add: load_def add_mono)
qed

end
