(* ===== verification/Package_Props.thy ===== *)
theory Package_Props
  imports Package_Spec Delta_Json
begin

text \<open>
  The properties of history files (\<open>src/store/GdgePackage.cpp\<close>, \<open>src/util/io/DbZip.cpp\<close>) and an
  instance of their parameters: a file format made of the value encoding of \<open>Delta_Json\<close>.
\<close>

section \<open>An instance of the file formats\<close>

definition int_value :: "int \<Rightarrow> jv" where
  "int_value i = JStr (int_to_string i)"

definition option_value :: "('a \<Rightarrow> jv) \<Rightarrow> 'a option \<Rightarrow> jv" where
  "option_value f x = JArr (case x of None \<Rightarrow> [] | Some y \<Rightarrow> [f y])"

definition row_value :: "int \<times> package_row \<Rightarrow> jv" where
  "row_value ir = (case ir of (i, r) \<Rightarrow>
     JArr [int_value i, option_value int_value (pk_parent r), option_value int_value (pk_reverts r),
       JStr (pk_message r), int_value (pk_created r), JStr (pk_blob r)])"

definition db_value :: "package_db \<Rightarrow> jv" where
  "db_value t =
     JArr [option_value (\<lambda>m. JObj (map (\<lambda>(k, v). (k, JStr v)) (sorted_list_of_fmap m))) (meta_table t),
       option_value (\<lambda>m. JArr (map row_value (sorted_list_of_fmap m))) (commit_table t)]"

definition value_int :: "jv \<Rightarrow> int" where
  "value_int v = (case v of JStr s \<Rightarrow>
     (case s of [] \<Rightarrow> 0 | c # cs \<Rightarrow> if c = CHR ''-'' then - int (digits_val cs) else int (digits_val s)) | _ \<Rightarrow> 0)"

definition value_option :: "(jv \<Rightarrow> 'a) \<Rightarrow> jv \<Rightarrow> 'a option" where
  "value_option f v = (case v of JArr [x] \<Rightarrow> Some (f x) | _ \<Rightarrow> None)"

definition value_text :: "jv \<Rightarrow> string" where
  "value_text v = (case v of JStr s \<Rightarrow> s | _ \<Rightarrow> [])"

definition value_row :: "jv \<Rightarrow> int \<times> package_row" where
  "value_row v =
     (case v of
        JArr [i, p, r, m, c, b] \<Rightarrow>
          (value_int i, \<lparr>pk_parent = value_option value_int p, pk_reverts = value_option value_int r,
             pk_message = value_text m, pk_created = value_int c, pk_blob = value_text b\<rparr>)
      | _ \<Rightarrow> undefined)"

definition value_meta :: "jv \<Rightarrow> (string, string) fmap" where
  "value_meta v = (case v of JObj es \<Rightarrow> fmap_of_list (map (\<lambda>(k, x). (k, value_text x)) es) | _ \<Rightarrow> fmempty)"

definition value_rows :: "jv \<Rightarrow> (int, package_row) fmap" where
  "value_rows v = (case v of JArr vs \<Rightarrow> fmap_of_list (map value_row vs) | _ \<Rightarrow> fmempty)"

definition value_db :: "jv \<Rightarrow> package_db option" where
  "value_db v =
     (case v of JArr [m, c] \<Rightarrow> Some \<lparr>meta_table = value_option value_meta m, commit_table = value_option value_rows c\<rparr>
      | _ \<Rightarrow> None)"

definition text_load :: "string \<Rightarrow> package_db option" where
  "text_load bytes =
     (if bytes = [] then Some empty_package_db
      else if take 16 bytes = kSqliteMagic
      then (case jv_dec (length (drop 16 bytes)) (drop 16 bytes) of Some (v, _) \<Rightarrow> value_db v | None \<Rightarrow> None)
      else None)"

definition text_zip :: zip_lib where
  "text_zip = \<lparr>zip_pack = (\<lambda>es. kZipMagic @ jv_enc (JObj (map (\<lambda>(n, b). (n, JStr b)) es))),
     zip_entries = (\<lambda>bytes. case jv_dec (length (drop 4 bytes)) (drop 4 bytes) of
         Some (JObj es, _) \<Rightarrow> Some (map (\<lambda>(n, v). (n, value_text v)) es) | _ \<Rightarrow> None),
     zip_error = ''bad archive''\<rparr>"

definition sample_genv :: "bool \<Rightarrow> package_env" where
  "sample_genv zipped = \<lparr>g_zip = text_zip, g_zlib = stored_zlib, g_image = (\<lambda>_ t. kSqliteMagic @ jv_enc (db_value t)),
     g_load = text_load, g_errmsg = ''disk I/O error'', g_temp = ''/tmp'', g_compress = zipped, g_now = 99\<rparr>"

lemma value_int_int [simp]: "value_int (int_value i) = i"
proof (cases "i < 0")
  case False
  obtain c cs where n: "nat_to_string (nat i) = c # cs" using nat_to_string_nonempty by (meson neq_Nil_conv)
  with nat_to_string_digits [of "nat i"] have "c \<noteq> CHR ''-''" by (auto simp: is_digit_def)
  with n digits_val_nat_to_string [of "nat i"] False show ?thesis by (simp add: value_int_def int_value_def int_to_string_def)
qed (simp add: value_int_def int_value_def int_to_string_def digits_val_nat_to_string)

lemma value_option_option [simp]: "(\<And>x. g (f x) = x) \<Longrightarrow> value_option g (option_value f v) = v"
  by (cases v) (simp_all add: value_option_def option_value_def)

lemma value_row_row [simp]: "value_row (row_value ir) = ir"
  by (cases ir) (simp add: row_value_def value_row_def value_text_def)

lemma value_db_db [simp]: "value_db (db_value t) = Some t"
  by (simp add: db_value_def value_db_def value_meta_def value_rows_def comp_def split_beta value_text_def)

lemma jv_dec_enc: "jv_dec (length (jv_enc v)) (jv_enc v) = Some (v, [])"
  using dec_enc(1) [of v "length (jv_enc v)" "[]"] by simp

lemma sample_genv_ok: "package_env_ok (sample_genv b)"
proof -
  have z: "zip_ok text_zip"
    by (simp add: zip_ok_def text_zip_def value_text_def jv_dec_enc del: jv_enc.simps)
  have "length kSqliteMagic = 16" by (simp add: kSqliteMagic_def)
  then have "text_load (kSqliteMagic @ jv_enc (db_value t)) = Some t" for t
    by (simp add: text_load_def jv_dec_enc) (simp add: kSqliteMagic_def)
  with z \<open>length kSqliteMagic = 16\<close> show ?thesis
    by (simp add: package_env_ok_def sample_genv_def stored_zlib_ok) (simp add: text_load_def)
qed

definition sample_package :: package_data where
  "sample_package =
     \<lparr>metadata = \<lparr>formatVersion = ''1'', rootHash = ''00ff'', headIndex = Some 1, sourceLevelKey = ''L'', exportedAt = 0\<rparr>,
      package_commits =
        [\<lparr>commitIndex = 1, parentIndex = Some 0, revertsIndex = None, commitMessage = ''b'', createdAt = 11, deltaBlob = ''d1''\<rparr>,
         \<lparr>commitIndex = 0, parentIndex = None, revertsIndex = None, commitMessage = ''a'', createdAt = 10, deltaBlob = ''d0''\<rparr>]\<rparr>"

definition sample_disk :: "nat option list \<Rightarrow> disk" where
  "sample_disk fs = \<lparr>contents = fmupd ''/x.gdge'' ''old'' fmempty, io_faults = fs\<rparr>"

lemma sample_package_facts:
  "validateData sample_package" "readable (sample_genv False) sample_package" "storable (sample_genv False) sample_package"
  by code_simp+

section \<open>Properties\<close>




text \<open>
  C22. A valid package survives its file, in both forms: when nothing fails, writing it
  succeeds and reading the file gives it back with its commits ordered by index and the date
  of the export filled in, and reading leaves every file but the extracted copy alone.
\<close>

theorem package_roundtrip:
  assumes "package_env_ok g" and "validateData p" and "storable g p" and "readable g p" and "io_faults d = []"
    and "list_all (\<lambda>t. g_load g (get_or_empty (contents d) t) \<noteq> None) [out @ ''.tmp'', out @ ''.sqlite-tmp'']"
  shows "\<exists>d1 d2. writeGdgePackage g out p d = (Inr (), d1) \<and> readGdgePackage g out d1 = (Inr (as_read g p), d2)
    \<and> keeps_files {extraction_path g out} d1 d2"
proof -
  have "\<exists>d1. writeGdgePackage g out p d = (Inr (), d1) \<and> io_faults d1 = []"
    using write_no_fault [OF assms(1-3,5,6)] .
  then obtain d1 where w: "writeGdgePackage g out p d = (Inr (), d1)" "io_faults d1 = []" by blast
  from writeGdgePackage_effect [OF w(1)] obtain bytes where "fmlookup (contents d1) out = Some bytes" "package_file g p bytes"
    by (auto simp: wrote_package_def)
  with read_package_file [OF assms(1) w(2) assms(4)] w(1) show ?thesis by blast
qed

theorem package_roundtrip_witness:
  "\<exists>d1 d2. writeGdgePackage (sample_genv False) ''/x.gdge'' sample_package (sample_disk []) = (Inr (), d1)
    \<and> readGdgePackage (sample_genv False) ''/x.gdge'' d1 = (Inr (as_read (sample_genv False) sample_package), d2)"
  using package_roundtrip [OF sample_genv_ok sample_package_facts(1,3,2), of "sample_disk []" "''/x.gdge''"]
  by (auto simp: sample_disk_def sample_genv_def text_load_def get_or_empty_def)

end
