(* ===== verification/Import_Props.thy ===== *)
theory Import_Props
  imports Service_Props Package_Props
begin

text \<open>
  The properties of exports and imports of history files: \<open>GitService.cpp\<close>,
  \<open>PackageReconstruction.cpp\<close>, \<open>GdgeImportMerge.cpp\<close> under \<open>src/service\<close> and \<open>src/store/GdgeExport.cpp\<close>.
\<close>

section \<open>Reading an exported file\<close>








section \<open>Properties\<close>













text \<open>
  C23. Rebuilding the HEAD of a package is exactly the meaning of its commits: a state comes
  out if and only if the package names a HEAD whose chain of parents ends at a root with
  every delta on it readable, and then it is the replay of those deltas.
\<close>

theorem package_head_meaning:
  "reconstructPackageHead e p = Some s \<longleftrightarrow>
     (\<exists>h. headIndex (metadata p) = Some h \<and> history (package_view e p) h s)"
  by (rule reconstructPackageHead_iff)

text \<open>
  C24. The walk over a package ends on every input, cyclic ones included: it returns the
  chain of parents from the HEAD to a root when there is one, visiting no index twice, and
  otherwise reports that there is none.
\<close>

theorem package_walk_decides:
  "case walk_package (by_index cs) [] (Some h) [] of
     Some path \<Rightarrow> linked (by_index cs) (Some h) path \<and> distinct (map commitIndex path) \<and> length path \<le> length cs
   | None \<Rightarrow> \<nexists>path. linked (by_index cs) (Some h) path"
proof (cases "walk_package (by_index cs) [] (Some h) []")
  case None
  then show ?thesis using walk_package_iff [of cs "Some h"] by auto
next
  case (Some path)
  then have l: "linked (by_index cs) (Some h) path" using walk_package_iff by blast
  have d: "distinct (map commitIndex path)" by (rule linked_distinct [OF l])
  then have "length path = card (set path)" by (metis distinct_card distinct_map)
  also have "\<dots> \<le> card (set cs)" using linked_set [OF l] by (intro card_mono) simp_all
  also have "\<dots> \<le> length cs" by (rule card_length)
  finally show ?thesis using Some l d by simp
qed

end
