(* ===== verification/Editor_Props.thy ===== *)
theory Editor_Props
  imports Editor_Reach Import_Props
begin

text \<open>
  The properties of the whole program: what holds in every state that user, worker and main
  thread can reach together, and a run in which a commit is lost from the HEAD's history.
\<close>

section \<open>Which jobs write, and what they write\<close>

fun writing :: "job \<Rightarrow> bool" where
  "writing (Finalize_Job pid f p st cs) \<longleftrightarrow> True"
| "writing (Merge_Finalize_Job ps v) \<longleftrightarrow> True"
| "writing (Delete_Job pid lk) \<longleftrightarrow> True"
| "writing (Rename_Job pid i msg) \<longleftrightarrow> True"
| "writing (Commit_Job lk msg live) \<longleftrightarrow> True"
| "writing _ \<longleftrightarrow> False"

text \<open>The state that a job records as the one in the editor.\<close>

fun shown :: "job \<Rightarrow> level_state option" where
  "shown (Finalize_Job pid f p st cs) = Some st"
| "shown (Merge_Finalize_Job ps v) = Some (ip_state v)"
| "shown _ = None"

lemma quiet_job:
  assumes e: "env_ok (ae_service env)" and ok: "svc_ok (ae_service env) (a_svc a)" and q: "\<not> writing j"
    and rk: "ranked rk (app_db a)" and run: "run_job env now ds j a = Some a'"
  shows "app_db a' = app_db a"
proof -
  have "step_ok (ae_service env) (a_svc a) (a_svc a')"
  proof (cases j)
    case (Prepare_Job pid f lk)
    with run prepare_flow_good [OF e ok rk] show ?thesis by (auto simp: done_svc_eq)
  next
    case (History_Job pid serial lk active)
    with run loadHistory_ok(1) [OF ok] show ?thesis by (auto simp: done_svc_eq)
  next
    case (Levels_Job pid serial)
    with run listLevels_step [OF ok] show ?thesis by (auto simp: done_svc_eq split: prod.splits)
  next
    case (Export_Job lk path)
    with run exportLevel_ok [OF ok] show ?thesis by (fastforce simp: done_disk_eq)
  next
    case (Plan_Job lk paths)
    with run service_classify_ok [OF _ ok] step_ok_refl [OF ok] show ?thesis
      by (fastforce simp: done_disk_eq planImport_def split: if_splits)
  next
    case (Merge_Job lk paths)
    with run prepareMerge_ok [OF ok rankedD(1) [OF rk], of _ _ _ _ _ _ _ _ rk] show ?thesis by (fastforce simp: done_disk_eq)
  qed (use q in simp_all)
  then show ?thesis by (rule step_ok_db)
qed

lemma begin_jobs:
  assumes "\<And>a1. a_jobs a1 = a_jobs a \<Longrightarrow> j \<in> set (a_jobs (r a1)) \<Longrightarrow> j \<in> set (a_jobs a)"
  shows "j \<in> set (a_jobs (begin_action pid r a)) \<Longrightarrow> j \<in> set (a_jobs a)"
  using assms [of "update_layer pid (\<lambda>l. l\<lparr>ly_busy := True\<rparr>) a"]
  by (auto simp: begin_action_def tryBeginBusyAction_def split: if_splits)

lemma ask_jobs [simp]: "a_jobs (ask pid d a) = a_jobs a"
  by (simp add: ask_def)

lemma rebuild_jobs: "j \<in> set (a_jobs (rebuild_list env pid a)) \<Longrightarrow> j \<in> set (a_jobs a) \<or> shown j = None"
  by (auto simp: rebuild_defs Let_def split: if_splits)

lemma handle_jobs: "j \<in> set (a_jobs (handle env ev a)) \<Longrightarrow> j \<in> set (a_jobs a) \<or> shown j = None"
proof (cases ev)
  case (Press_Squash pid)
  then show "j \<in> set (a_jobs (handle env ev a)) \<Longrightarrow> ?thesis"
    by (auto simp: press_on_def onSquashPressed_def Let_def split: if_splits dest!: begin_jobs [rotated])
qed (auto simp: onGitHistory_def onGitLevels_def open_layer_def requireValidLevelKey_def opened_def press_on_def
      toggle_mode_def startFlow_def load_pressed_def delete_pressed_def answer_defs squash_message_def runSquash_def
      rename_commit_def onGitCommit_def onGitExportGdge_def onGitImportGdge_def onConfirmClicked_def answer_plan_def Let_def
      split: option.splits dialog.splits pick.splits prod.splits if_splits dest!: rebuild_jobs begin_jobs [rotated])

lemma succeeded_jobs:
  "j \<in> set (a_jobs (flow_succeeded env pid cs f a)) \<Longrightarrow> j \<in> set (a_jobs a) \<or> shown j = None"
  "j \<in> set (a_jobs (flow_applied_only env pid cs f a)) \<Longrightarrow> j \<in> set (a_jobs a) \<or> shown j = None"
  by (cases f; auto simp: Let_def split: if_splits dest!: rebuild_jobs)+

lemma rebuild_if_jobs:
  "j \<in> set (a_jobs (rebuild_if env pid ok bad good a)) \<Longrightarrow> j \<in> set (a_jobs a) \<or> shown j = None"
  by (auto simp: rebuild_if_def Let_def split: if_splits dest!: rebuild_jobs)

lemma applied_True:
  "applyStateToEditorOrNotify g name active st confl ed = (True, ed1, ns) \<Longrightarrow> active \<and> applyLevelState g st ed = (True, ed1)"
  by (auto simp: applyStateToEditorOrNotify_def split: if_splits prod.splits)

lemma run_task_jobs:
  assumes "j \<in> set (a_jobs (run_task env t a))" and "j \<notin> set (a_jobs a)" and "shown j = Some st"
  shows "a_active a \<and> applyLevelState (ae_game env) st (a_editor a) = (True, a_editor (run_task env t a))"
  using assms
proof (cases t)
  case (Prepared_Task pid f res p)
  with assms show ?thesis
    by (auto simp: run_prepared_def Let_def split: if_splits sum.splits prod.splits option.splits dest!: succeeded_jobs(2) dest: applied_True)
next
  case (Merged_Task res ps)
  with assms show ?thesis
    by (auto simp: run_merged_def Let_def split: if_splits sum.splits prod.splits dest: applied_True)
qed (auto simp: run_finalized_def show_commits_def show_levels_def showImportPlanPopup_def closeOnce_def Let_def
  split: if_splits sum.splits dest!: succeeded_jobs(1) rebuild_if_jobs)

section \<open>Runs as scripts\<close>

text \<open>A chosen step: an event, a job with its clock and random numbers, or a callback.\<close>

datatype 'g action = User "'g event" | Work nat int "u64 list" | Main nat

definition act_once :: "('j, 'g) app_env \<Rightarrow> 'g action \<Rightarrow> 'g app \<Rightarrow> 'g app option" where
  "act_once env x a =
     (case x of
        User ev \<Rightarrow> Some (handle env ev a)
      | Work n now ds \<Rightarrow>
          if n < length (a_jobs a)
          then run_job env (\<lambda>_. now) ds (a_jobs a ! n) (a\<lparr>a_jobs := remove_nth n (a_jobs a)\<rparr>) else None
      | Main n \<Rightarrow>
          if n < length (a_tasks a)
          then Some (run_task env (a_tasks a ! n) (a\<lparr>a_tasks := remove_nth n (a_tasks a)\<rparr>)) else None)"

fun act_all :: "('j, 'g) app_env \<Rightarrow> 'g action list \<Rightarrow> 'g app \<Rightarrow> 'g app option" where
  "act_all env [] a = Some a"
| "act_all env (x # xs) a = (case act_once env x a of None \<Rightarrow> None | Some b \<Rightarrow> act_all env xs b)"

lemma act_once_step: "act_once env x a = Some b \<Longrightarrow> app_step env a b"
  by (auto simp: act_once_def split: action.splits if_splits intro: app_step.intros internal_step.intros)

lemma act_all_reach: "app_reach env a \<Longrightarrow> act_all env xs a = Some b \<Longrightarrow> app_reach env b"
proof (induction xs arbitrary: a)
  case (Cons x xs)
  then obtain c where "act_once env x a = Some c" "act_all env xs c = Some b" by (auto split: option.splits)
  with Cons app_reach.step [OF Cons.prems(1) act_once_step] show ?case by blast
qed simp

text \<open>A game that shows any level string as it is, and a level with the identifier 5.\<close>

definition sample_game :: "string game" where
  "sample_game = \<lparr>g_clear = (\<lambda>_. []), g_setup = (\<lambda>s _. s), g_string = (\<lambda>ed. ed),
     g_count = (\<lambda>ed. length (sorted_keys (objects (parseLevelString ed))))\<rparr>"

definition sample_app_env :: "(jv, string) app_env" where
  "sample_app_env = \<lparr>ae_service = sample_env, ae_package = sample_genv False, ae_game = sample_game, ae_level = Some 5,
     ae_trim = (\<lambda>s. s)\<rparr>"

definition sample_app :: "string app" where
  "sample_app = app_start (new_service 4 []) (sample_disk []) ''a;1,1,2,5;''"

definition committed_twice :: "string action list" where
  "committed_twice =
     [User (Commit ''first''), Work 0 10 [7], Main 0, User (Edit ''a;1,1,2,6;''), User (Commit ''second''), Work 0 11 [8], Main 0,
      User Open_History, Work 0 0 [], Main 0]"

lemma sample_env_fields [simp]:
  "ae_service sample_app_env = sample_env" "ae_level sample_app_env = Some 5" "level_of sample_app_env = ''id:5''"
proof -
  show "level_of sample_app_env = ''id:5''" by code_simp
qed (simp_all add: sample_app_env_def)

lemma sample_app_reach: "app_reach sample_app_env sample_app"
  unfolding sample_app_def by (rule app_reach.start) (simp add: git_reach.start)

text \<open>After two commits and with the history open; the value is computed once.\<close>

definition sample_committed :: "string app" where
  "sample_committed = (case act_all sample_app_env committed_twice sample_app of None \<Rightarrow> sample_app | Some a \<Rightarrow> a)"

lemma sample_committed_value [code]:
  "sample_committed =
    \<lparr>a_svc = \<lparr>db_conn = \<lparr>is_open = True,
      cdb = \<lparr>commits = fmap_of_list
         [(1, \<lparr>r_level = ''id:5'', r_parent = None, r_reverts = None, r_message = ''first'', r_created = 10,
            r_blob = (''a'' @ [CHR 0x00, CHR 0x00, CHR 0x00] @ ''o,ch.o.,chcr.o,cb.s.,ca.sca..,c+.a,o,cucucicd.sc7.,cfciceclcdcs.o,c1.sc1.,c2.sc5....,c-.a.,c~.a..'')\<rparr>),
          (2, \<lparr>r_level = ''id:5'', r_parent = Some 1, r_reverts = None, r_message = ''second'', r_created = 11,
            r_blob = (''Q'' @ [CHR 0x00, CHR 0x00, CHR 0x00] @ ''o,ch.o.,c+.a.,c-.a.,c~.a,o,cucucicd.sc7.,cfciceclcdcs.o,c2.o,cb.sc5.,ca.sc6......'')\<rparr>)],
        refs = fmap_of_list [(''id:5'', 2)], autoinc = 2, meta_version = Some ''5''\<rparr>, saved = None, fk_on = True, faults = []\<rparr>,
     state_cache = fmap_of_list [(1, \<lparr>rawHeader = ''a'', header = fmap_of_list [], objects = fmap_of_list [(7, \<lparr>uuid = 7, obj_fields = fmap_of_list [(''1'', ''1''), (''2'', ''5'')]\<rparr>)]\<rparr>),
         (2, \<lparr>rawHeader = ''a'', header = fmap_of_list [], objects = fmap_of_list [(7, \<lparr>uuid = 7, obj_fields = fmap_of_list [(''1'', ''1''), (''2'', ''6'')]\<rparr>)]\<rparr>)], cache_capacity = 4\<rparr>,
     a_disk = \<lparr>contents = fmap_of_list [(''/x.gdge'', ''old'')], io_faults = []\<rparr>,
     a_editor = ''a;1,1,2,6;'', a_active = True,
     a_layers =
       [\<lparr>ly_browser = False, ly_level = ''id:5'', ly_busy = False, ly_closing = False, ly_serial = 1, ly_squash = False,
         ly_selected = [],
         ly_commits =
           [\<lparr>cs_id = 2, cs_message = ''second'', cs_created = 11, headerCount = 0, addCount = 0, modifyCount = 1, removeCount = 0\<rparr>,
            \<lparr>cs_id = 1, cs_message = ''first'', cs_created = 10, headerCount = 1, addCount = 1, modifyCount = 0, removeCount = 0\<rparr>],
         ly_levels = [], ly_dialog = None\<rparr>],
     a_plans = [], a_jobs = [], a_tasks = [], a_notes = [Success ''Committed'', Success ''Committed'']\<rparr>"
  by code_simp

lemma sample_committed_reach: "app_reach sample_app_env sample_committed"
  using act_all_reach [OF sample_app_reach, of committed_twice] sample_app_reach
  by (auto simp: sample_committed_def split: option.split)

definition script_end :: "string action list \<Rightarrow> string app" where
  "script_end xs = (case act_all sample_app_env xs sample_committed of None \<Rightarrow> sample_committed | Some a \<Rightarrow> a)"

lemma script_reach: "app_reach sample_app_env (script_end xs)"
  using act_all_reach [OF sample_committed_reach, of xs] sample_committed_reach by (auto simp: script_end_def split: option.split)

lemma act_all_append: "act_all env (xs @ ys) a = (case act_all env xs a of None \<Rightarrow> None | Some b \<Rightarrow> act_all env ys b)"
  by (induction xs arbitrary: a) (auto split: option.split)

definition goes :: "string action list \<Rightarrow> bool" where
  "goes xs = (case act_all sample_app_env xs sample_committed of None \<Rightarrow> False | Some a \<Rightarrow> True)"

lemma script_step: "goes (xs @ [x]) \<Longrightarrow> app_step sample_app_env (script_end xs) (script_end (xs @ [x]))"
  by (auto simp: goes_def script_end_def act_all_append intro: act_once_step split: option.splits)

text \<open>A checkout is under way, then waits for its second half.\<close>

definition checkout_asked :: "string action list" where
  "checkout_asked = [User (Press_Checkout 0 1), User (Answer 0 True)]"

definition checkout_waits :: "string action list" where
  "checkout_waits = checkout_asked @ [Work 0 0 [], Main 0]"

text \<open>A commit is posted before a checkout is prepared and runs after it.\<close>

definition detaching :: "string action list" where
  "detaching = [User (Edit ''a;1,1,2,7;''), User (Commit ''third'')] @ checkout_asked @
     [Work 1 0 [], Work 0 12 [9], Main 0, Work 0 13 [], Main 0, Main 0, Main 0]"

section \<open>Properties\<close>

text \<open>
  C2. In every state that user, worker and main thread can reach, in any order and under any
  SQLite and file failures: no transaction is open and nothing dangles, every commit has a
  state, and of every popup at most one question, posted job or pending callback of a flow or
  a deletion is under way, its busy flag is set exactly then as long as the popup is open, and
  what such a job belongs to is a popup that exists.
\<close>

theorem app_invariant:
  assumes "app_reach env a" and "env_ok (ae_service env)"
  shows "saved (db_conn (a_svc a)) = None \<and> fk_ok (app_db a)
    \<and> (\<forall>i r. fmlookup (commits (app_db a)) i = Some r \<longrightarrow> (\<exists>s. history (db_view (ae_service env) (app_db a)) i s))
    \<and> (\<forall>pid < length (a_layers a). inflight pid a \<le> 1 \<and> (inflight pid a = 1 \<longrightarrow> ly_busy (layer_at pid a)) \<and>
         (\<not> ly_closing (layer_at pid a) \<longrightarrow> ly_busy (layer_at pid a) = (inflight pid a = 1)))
    \<and> (\<forall>pid j. j \<in> set (a_jobs a) \<longrightarrow> job_owner j = Some pid \<longrightarrow> pid < length (a_layers a))"
proof -
  have ok: "app_ok env a" by (rule app_reach_ok [OF assms])
  have "svc_ok (ae_service env) (a_svc a)" using ok by (simp add: app_ok_def)
  then have db: "saved (db_conn (a_svc a)) = None" "fk_ok (app_db a)"
    "\<forall>i r. fmlookup (commits (app_db a)) i = Some r \<longrightarrow> (\<exists>s. history (db_view (ae_service env) (app_db a)) i s)"
    by (simp_all add: svc_ok_def sound_db_def)
  have c: "ctl None a" by (rule app_reach_ctl [OF assms(1)])
  have "inflight pid a \<le> 1 \<and> (inflight pid a = 1 \<longrightarrow> ly_busy (layer_at pid a)) \<and>
         (\<not> ly_closing (layer_at pid a) \<longrightarrow> ly_busy (layer_at pid a) = (inflight pid a = 1))" if "pid < length (a_layers a)" for pid
    using ctl_layer [OF c that] by (auto simp: guard_ok_def Let_def split: if_splits)
  moreover have "pid < length (a_layers a)" if "j \<in> set (a_jobs a)" "job_owner j = Some pid" for pid j
    using c that owner_popup(1) by (fastforce simp: ctl_def list_all_iff)
  ultimately show ?thesis using db by blast
qed

theorem app_invariant_witness:
  "inflight 0 (script_end checkout_asked) = 1
   \<and> ly_busy (layer_at 0 (script_end checkout_asked))"
proof -
  let ?a = "script_end checkout_asked"
  have "length (a_layers ?a) = 1 \<and> inflight 0 ?a = 1" by code_simp
  with app_invariant [OF script_reach, of checkout_asked] sample_env_ok
  show ?thesis by simp
qed





text \<open>
  C11. The database changes only in the jobs that are meant to write (finishing a flow or an
  import, deleting, renaming, committing), never while an event is handled or a callback runs;
  and the second half of a flow or an import is posted only in a callback that has just put
  exactly its state into the editor, with the editor still open and accepting it.
\<close>

theorem editor_gate:
  assumes "app_reach env a" and "env_ok (ae_service env)" and "app_step env a b"
  shows "(app_db b \<noteq> app_db a \<longrightarrow> (\<exists>j. j \<in> set (a_jobs a) \<and> writing j))
    \<and> (\<forall>j st. j \<in> set (a_jobs b) - set (a_jobs a) \<longrightarrow> shown j = Some st \<longrightarrow>
         a_active a \<and> applyLevelState (ae_game env) st (a_editor a) = (True, a_editor b))"
proof -
  obtain rk where ok: "svc_ok (ae_service env) (a_svc a)" and rk: "ranked rk (app_db a)"
    using app_reach_ok [OF assms(1,2)] unfolding app_ok_def by blast
  show ?thesis using assms(3)
  proof cases
    case (user ev)
    have "shown j = None" if "j \<in> set (a_jobs b) - set (a_jobs a)" for j using handle_jobs [of j env ev a] that user by blast
    with user handle_svc [of env ev a] show ?thesis by auto
  next
    case internal
    then show ?thesis
    proof cases
      case (worker n now ds)
      let ?j = "a_jobs a ! n" and ?c = "a\<lparr>a_jobs := remove_nth n (a_jobs a)\<rparr>"
      have "app_db b = app_db a" if "\<not> writing ?j"
        using quiet_job [OF assms(2) _ that _ worker(2)] ok rk by simp
      moreover have "?j \<in> set (a_jobs a)" using worker(1) by simp
      moreover have "set (a_jobs b) \<subseteq> set (a_jobs a)"
        using run_job_shape [OF worker(2)] by (auto simp: remove_nth_def dest: in_set_takeD in_set_dropD)
      ultimately show ?thesis by blast
    next
      case (main n)
      let ?c = "a\<lparr>a_tasks := remove_nth n (a_tasks a)\<rparr>"
      have "a_active a \<and> applyLevelState (ae_game env) st (a_editor a) = (True, a_editor b)"
        if "j \<in> set (a_jobs b) - set (a_jobs a)" "shown j = Some st" for j st
        using run_task_jobs [of j env "a_tasks a ! n" ?c st] that main(1) by simp
      moreover have "app_db b = app_db a" by (simp add: main(1) run_task_svc)
      ultimately show ?thesis by blast
    qed
  qed
qed

text \<open>The state of the first second half that waits.\<close>

definition first_shown :: "'g app \<Rightarrow> level_state option" where
  "first_shown a = (case a_jobs a of [] \<Rightarrow> None | j # js \<Rightarrow> shown j)"

theorem editor_gate_witness:
  "\<exists>st. first_shown (script_end checkout_waits) = Some st \<and>
     applyLevelState sample_game st ''a;1,1,2,6;'' = (True, a_editor (script_end checkout_waits))"
proof -
  let ?a = "script_end (checkout_asked @ [Work 0 0 []])" and ?b = "script_end ((checkout_asked @ [Work 0 0 []]) @ [Main 0])"
  have b: "?b = script_end checkout_waits" by (simp add: checkout_waits_def)
  have a: "a_jobs ?a = [] \<and> a_editor ?a = ''a;1,1,2,6;''" by code_simp
  have st: "app_step sample_app_env ?a ?b" by (rule script_step) code_simp
  have "map_option (\<lambda>_. True) (first_shown (script_end checkout_waits)) = Some True" by code_simp
  then obtain st j js where j: "a_jobs ?b = j # js" "shown j = Some st" "first_shown ?b = Some st"
    unfolding b by (auto simp: first_shown_def split: list.splits)
  have "applyLevelState (ae_game sample_app_env) st (a_editor ?a) = (True, a_editor ?b)"
    using editor_gate [OF script_reach _ st] a j sample_env_ok by simp
  with a b j(3) show ?thesis by (simp add: sample_app_env_def)
qed

text \<open>
  C12. Once the user stops, the program comes to rest: every run of worker and main thread is
  at most as long as six steps for each posted job and five for each pending callback, one
  that cannot go on has emptied both queues, some run gets there, and then every open popup is
  busy exactly when it still asks something.
\<close>

theorem work_drains:
  assumes "app_reach env a" and "env_ok (ae_service env)"
  shows "(\<exists>n b. (internal_step env ^^ n) a b \<and> a_jobs b = [] \<and> a_tasks b = [])
    \<and> (\<forall>n b. (internal_step env ^^ n) a b \<longrightarrow> n \<le> 6 * length (a_jobs a) + 5 * length (a_tasks a) \<and>
         ((\<nexists>c. internal_step env b c) \<longrightarrow> a_jobs b = [] \<and> a_tasks b = [] \<and>
            (\<forall>pid < length (a_layers b). \<not> ly_closing (layer_at pid b) \<longrightarrow>
               ly_busy (layer_at pid b) = (ly_dialog (layer_at pid b) \<noteq> None))))"
proof -
  have inv: "env_ok (ae_service env) \<and> app_ok env a" using assms app_reach_ok by blast
  have "ly_busy (layer_at pid b) = (ly_dialog (layer_at pid b) \<noteq> None)"
    if "(internal_step env ^^ n) a b" "a_jobs b = []" "a_tasks b = []" "pid < length (a_layers b)" "\<not> ly_closing (layer_at pid b)" for n b pid
  proof -
    from work.bounded [OF inv that(1)] have "ctl None b" by (simp add: app_ok_def)
    with ctl_layer [OF this that(4)] that show ?thesis by (auto simp: guard_ok_def inflight_def split: if_splits)
  qed
  moreover have "n \<le> 6 * length (a_jobs a) + 5 * length (a_tasks a)" if "(internal_step env ^^ n) a b" for n b
    using work.bounded [OF inv that] load_bound [of a] by linarith
  moreover have "\<exists>n b. (internal_step env ^^ n) a b \<and> a_jobs b = [] \<and> a_tasks b = []"
    using work.drains [OF inv] load_zero by blast
  moreover have "a_jobs b = [] \<and> a_tasks b = []" if "(internal_step env ^^ n) a b" "\<nexists>c. internal_step env b c" for n b
    using work.rests [OF inv that] load_zero by blast
  ultimately show ?thesis by blast
qed

theorem work_drains_witness:
  "\<exists>n b. (internal_step sample_app_env ^^ n) (script_end checkout_asked) b \<and> a_jobs b = [] \<and> a_tasks b = [] \<and> n \<le> 6"
proof -
  have l: "length (a_jobs (script_end checkout_asked)) = 1 \<and> a_tasks (script_end checkout_asked) = []" by code_simp
  have "env_ok (ae_service sample_app_env)" by (simp add: sample_env_ok)
  from work_drains [OF script_reach this, of checkout_asked] l show ?thesis by fastforce
qed

text \<open>
  C13. Histories only move forward: in any step of the program every commit that is left keeps
  its state, no identifier is used again, and the HEADs of levels other than the one in the
  editor stay or go with their level.
\<close>

theorem history_moves_forward:
  assumes "app_reach env a" and "env_ok (ae_service env)" and "app_step env a b"
  shows "(\<forall>i s. yields (db_view (ae_service env) (app_db a)) i s \<longrightarrow> fmlookup (commits (app_db b)) i \<noteq> None \<longrightarrow>
       yields (db_view (ae_service env) (app_db b)) i s)
    \<and> autoinc (app_db a) \<le> autoinc (app_db b)
    \<and> (\<forall>i \<le> autoinc (app_db a). fmlookup (commits (app_db b)) i \<noteq> None \<longrightarrow> fmlookup (commits (app_db a)) i \<noteq> None)
    \<and> (\<forall>l h. l \<noteq> level_of env \<longrightarrow> fmlookup (refs (app_db b)) l = Some h \<longrightarrow> fmlookup (refs (app_db a)) l = Some h)"
  using app_step_ok [OF assms(2,3) app_reach_ok [OF assms(1,2)]] grows_exists unfolding moved_def grows_def by blast

theorem history_moves_forward_witness:
  "\<exists>s. yields (db_view sample_env (app_db (script_end (checkout_waits @ [Work 0 12 []])))) 2 s \<and>
     fmlookup (refs (app_db (script_end (checkout_waits @ [Work 0 12 []])))) ''id:5'' = Some 3"
proof -
  let ?a = "script_end checkout_waits" and ?b = "script_end (checkout_waits @ [Work 0 12 []])"
  have st: "app_step sample_app_env ?a ?b" by (rule script_step) code_simp
  have d: "(let a = app_db ?a; b = app_db ?b in
      (map_option (\<lambda>_. ()) (fmlookup (commits a) 2), map_option (\<lambda>_. ()) (fmlookup (commits b) 2), fmlookup (refs b) ''id:5'')) =
    (Some (), Some (), Some 3)" by code_simp
  have e: "env_ok (ae_service sample_app_env)" by (simp add: sample_env_ok)
  have "svc_ok sample_env (a_svc ?a)" using app_reach_ok [OF script_reach e, of checkout_waits] by (simp add: app_ok_def)
  then obtain s where "history (db_view sample_env (app_db ?a)) 2 s" using svc_facts(3) d unfolding sound_db_def
    by (fastforce simp: Let_def)
  then have "yields (db_view sample_env (app_db ?a)) 2 s" by (auto simp: yields_def)
  with history_moves_forward [OF script_reach e st] d show ?thesis by (auto simp: Let_def)
qed

text \<open>
  C14. A defect: finishing a flow does not look at the HEAD again.  Here a commit is posted and
  then a checkout; the worker, whose lock admits posted jobs in any order, prepares the
  checkout first.  Everything reports success, but the checkout is put on the old HEAD and the
  new commit is left outside the history of the level.
\<close>

theorem commit_outside_history:
  "\<exists>a. app_reach sample_app_env a \<and> a_jobs a = [] \<and> a_tasks a = []
     \<and> a_notes a = [Success ''Committed'', Success ''Committed'', Success ''Committed'', Success ''Checked out'']
     \<and> fmlookup (refs (app_db a)) ''id:5'' = Some 4
     \<and> map_option r_parent (fmlookup (commits (app_db a)) 4) = Some (Some 2)
     \<and> map_option r_parent (fmlookup (commits (app_db a)) 2) = Some (Some 1)
     \<and> map_option r_parent (fmlookup (commits (app_db a)) 1) = Some None
     \<and> map_option (\<lambda>r. (r_message r, r_parent r)) (fmlookup (commits (app_db a)) 3) = Some (''third'', Some 2)"
proof (intro exI [of _ "script_end detaching"] conjI script_reach)
  have "(let a = script_end detaching in (a_jobs a, a_tasks a, a_notes a, fmlookup (refs (app_db a)) ''id:5'',
      map_option r_parent (fmlookup (commits (app_db a)) 4), map_option r_parent (fmlookup (commits (app_db a)) 2),
      map_option r_parent (fmlookup (commits (app_db a)) 1),
      map_option (\<lambda>r. (r_message r, r_parent r)) (fmlookup (commits (app_db a)) 3))) =
    ([], [], [Success ''Committed'', Success ''Committed'', Success ''Committed'', Success ''Checked out''], Some 4,
      Some (Some 2), Some (Some 1), Some None, Some (''third'', Some 2))" by code_simp
  then show "a_jobs (script_end detaching) = []" "a_tasks (script_end detaching) = []"
    "a_notes (script_end detaching) = [Success ''Committed'', Success ''Committed'', Success ''Committed'', Success ''Checked out'']"
    "fmlookup (refs (app_db (script_end detaching))) ''id:5'' = Some 4"
    "map_option r_parent (fmlookup (commits (app_db (script_end detaching))) 4) = Some (Some 2)"
    "map_option r_parent (fmlookup (commits (app_db (script_end detaching))) 2) = Some (Some 1)"
    "map_option r_parent (fmlookup (commits (app_db (script_end detaching))) 1) = Some None"
    "map_option (\<lambda>r. (r_message r, r_parent r)) (fmlookup (commits (app_db (script_end detaching))) 3) = Some (''third'', Some 2)"
    by (simp_all add: Let_def)
qed

end
