(* ===== verification/Screen.thy ===== *)
theory Screen
  imports Editor_Events
begin

text \<open>
  What the popups and the pause menu show and which event each of their buttons is:
  \<open>HistoryCommitRow.cpp\<close>, \<open>HistoryList.cpp\<close>, \<open>LevelBrowserLayer.cpp\<close>, \<open>UiText.cpp\<close> and
  \<open>EditorPauseLayerHook.cpp\<close>, without positions, sizes, fonts and colours of buttons.
\<close>

section \<open>Sizes\<close>

text \<open>
  \<open>formatBytes\<close>.  The byte count becomes a double; dividing a double by 1024 is exact.  How the
  formatting library prints a double with some decimals is the parameter.
\<close>

definition formatBytes :: "(nat \<Rightarrow> rat \<Rightarrow> string) \<Rightarrow> int \<Rightarrow> string" where
  "formatBytes fixed bytes =
     (if bytes < 1024 then int_to_string bytes @ '' B''
      else
        (let kb = the (round64 (of_int bytes)) / 1024 in
         if kb < 1024 then fixed 0 kb @ '' KB''
         else
           (let mb = kb / 1024 in
            if mb < 1024 then fixed 1 mb @ '' MB'' else fixed 2 (mb / 1024) @ '' GB'')))"

section \<open>Controls\<close>

text \<open>
  A control: a button with its event, a tick box with its state, the button that opens the
  viewer of a commit, one that asks for a text first, one that asks for a file or files.
\<close>

datatype 'g control =
    Button string "'g event"
  | Ticks bool "'g event"
  | Shows string string commit_id
  | Asks string string string string "string \<Rightarrow> 'g event"
  | Picks string "string pick \<Rightarrow> 'g event"
  | PicksMany string "string list pick \<Rightarrow> 'g event"

record 'g row_view =
  rw_labels :: "string list"
  rw_controls :: "'g control list"

datatype 'g list_view = Centered string | Listed "'g row_view list"

text \<open>The time of a commit in words needs the clock of the C library: \<open>formatTimestamp\<close> is a parameter.\<close>

definition what_changed_title :: "string \<Rightarrow> string" where
  "what_changed_title msg = ''What changed'' @ (if msg \<noteq> [] then '' - '' @ shorten msg 24 else [])"

definition commit_controls :: "nat \<Rightarrow> bool \<Rightarrow> bool \<Rightarrow> commit_summary \<Rightarrow> 'g control list" where
  "commit_controls pid squashMode selected c =
     (if squashMode then [Ticks selected (Tick pid (cs_id c))]
      else
        [Shows ''?'' (what_changed_title (cs_message c)) (cs_id c),
         Asks ''Rename'' ''Rename Commit'' ''Save'' (cs_message c) (Rename pid (cs_id c)),
         Button ''Checkout'' (Press_Checkout pid (cs_id c)),
         Button ''Revert'' (Press_Revert pid (cs_id c))])"

definition createCommitRow :: "(int \<Rightarrow> string) \<Rightarrow> nat \<Rightarrow> bool \<Rightarrow> bool \<Rightarrow> commit_summary \<Rightarrow> 'g row_view" where
  "createCommitRow clock pid squashMode selected c =
     \<lparr>rw_labels = clock (cs_created c) # map fst (commit_tags c) @ [shorten (cs_message c) 34],
      rw_controls = commit_controls pid squashMode selected c\<rparr>"

definition history_list :: "(int \<Rightarrow> string) \<Rightarrow> nat \<Rightarrow> layer \<Rightarrow> 'g list_view" where
  "history_list clock pid l =
     (if ly_commits l = [] then Centered ''No commits yet.''
      else Listed (map (\<lambda>c. createCommitRow clock pid (ly_squash l) (ly_squash l \<and> cs_id c \<in> set (ly_selected l)) c) (ly_commits l)))"

definition rebuildHeader :: "nat \<Rightarrow> layer \<Rightarrow> 'g control list" where
  "rebuildHeader pid l =
     Button (if ly_squash l then ''Exit Squash'' else ''Squash Mode'') (Toggle_Mode pid) #
     (if ly_squash l \<and> length (ly_selected l) \<ge> 2
      then [Button (''Squash '' @ nat_to_string (length (ly_selected l))) (Press_Squash pid)] else [])"

section \<open>The list of levels\<close>

definition load_warning :: "nat \<Rightarrow> level_key \<Rightarrow> string" where
  "load_warning n lk =
     ''This will PERMANENTLY DELETE all objects and the commit history for your current level, '' @
     ''and overwrite it with the commit history from the selected level.'' @ [CHR 0x0A] @
     ''Make sure you'' @ [CHR 0x27] @ ''re on an EMPTY level before doing this.'' @ [CHR 0x0A] @ ''This CANNOT be undone.'' @ [CHR 0x0A] @
     ''Selected history: '' @ nat_to_string n @ '' commit(s) from '' @ [CHR 0x22] @ shorten lk 32 @ [CHR 0x22] @ ''.''"

definition delete_warning :: "nat \<Rightarrow> level_key \<Rightarrow> string" where
  "delete_warning n lk =
     ''PERMANENTLY DELETE all '' @ nat_to_string n @ '' commits for '' @ [CHR 0x22] @ shorten lk 48 @ [CHR 0x22] @ ''?'' @ [CHR 0x0A] @
     ''This CANNOT be undone.''"

definition level_subtitle :: "(nat \<Rightarrow> rat \<Rightarrow> string) \<Rightarrow> (int \<Rightarrow> string) \<Rightarrow> level_summary \<Rightarrow> string" where
  "level_subtitle fixed clock lv =
     nat_to_string (ls_count lv) @ '' commits - '' @ clock (ls_last lv) @ '' - ~'' @ formatBytes fixed (int (ls_bytes lv))"

definition level_row :: "(nat \<Rightarrow> rat \<Rightarrow> string) \<Rightarrow> (int \<Rightarrow> string) \<Rightarrow> nat \<Rightarrow> level_summary \<Rightarrow> 'g row_view" where
  "level_row fixed clock pid lv =
     \<lparr>rw_labels = [shorten (ls_key lv) 32, level_subtitle fixed clock lv],
      rw_controls = [Button ''Load'' (Press_Load pid (ls_key lv)), Button ''Delete'' (Press_Delete pid (ls_key lv))]\<rparr>"

text \<open>Without an editor the list stays as it was cleared: empty.\<close>

definition level_list :: "(nat \<Rightarrow> rat \<Rightarrow> string) \<Rightarrow> (int \<Rightarrow> string) \<Rightarrow> nat \<Rightarrow> bool \<Rightarrow> layer \<Rightarrow> 'g list_view" where
  "level_list fixed clock pid editorThere l =
     (if ly_levels l = [] then Centered ''No levels with commits.''
      else if \<not> editorThere then Listed []
      else Listed (map (level_row fixed clock pid) (ly_levels l)))"

definition total_label :: "(nat \<Rightarrow> rat \<Rightarrow> string) \<Rightarrow> int option \<Rightarrow> string" where
  "total_label fixed fileSize = ''Total: '' @ formatBytes fixed (case fileSize of None \<Rightarrow> 0 | Some sz \<Rightarrow> sz)"

section \<open>The pause menu\<close>

text \<open>Two rows, put in once.\<close>

definition installTopMenu :: "bool \<Rightarrow> 'g control list list" where
  "installTopMenu alreadyThere =
     (if alreadyThere then []
      else
        [[Asks ''Commit'' ''New Commit'' ''Commit'' [] Commit, Button ''History'' Open_History, Button ''Levels'' Open_Levels],
         [PicksMany ''Import .gdge'' Import, Picks ''Export .gdge'' Export]])"

section \<open>The screen and the state\<close>

text \<open>The commits whose tick box is set.\<close>

definition ticked :: "layer \<Rightarrow> commit_id set" where
  "ticked l = {cs_id c |c. c \<in> set (ly_commits l) \<and> ly_squash l \<and> cs_id c \<in> set (ly_selected l)}"

lemma box_ticked:
  "c \<in> set (ly_commits l) \<Longrightarrow> ly_squash l \<Longrightarrow>
   rw_controls (createCommitRow clock pid (ly_squash l) (ly_squash l \<and> cs_id c \<in> set (ly_selected l)) c) =
     [Ticks (cs_id c \<in> ticked l) (Tick pid (cs_id c))]"
  by (auto simp: createCommitRow_def commit_controls_def ticked_def)

text \<open>A press on a tick box of the list flips that box and leaves the others.\<close>

lemma tick_flips_one_box:
  assumes "pid < length (a_layers a)" "\<not> ly_closing (layer_at pid a)" "\<not> ly_browser (layer_at pid a)"
    and "c \<in> set (ly_commits (layer_at pid a))" and "ly_squash (layer_at pid a)"
  shows "ticked (layer_at pid (handle env (Tick pid (cs_id c)) a)) =
    (if cs_id c \<in> ticked (layer_at pid a) then ticked (layer_at pid a) - {cs_id c} else insert (cs_id c) (ticked (layer_at pid a)))"
  using assms by (auto simp: press_on_def update_layer_def layer_at_def tick_commit_def ticked_def)

text \<open>The squash button is there only when it has something to squash, and a press then never meets that warning.\<close>

lemma squash_button_has_selection:
  assumes "Button label (Press_Squash pid) \<in> set (rebuildHeader pid (layer_at pid a))"
  shows "a_notes (handle env (Press_Squash pid) a) \<noteq> a_notes a @ [Warning ''Select at least 2 commits'']"
proof -
  from assms have "\<not> length (ly_selected (layer_at pid a)) < 2" by (auto simp: rebuildHeader_def split: if_splits)
  then show ?thesis
    by (auto simp: press_on_def onSquashPressed_def begin_action_def tryBeginBusyAction_def Let_def ask_def notify_def
        update_layer_def finishBusyAction_def split: prod.splits)
qed

end
