(* ===== verification/Service_Frame.thy ===== *)
theory Service_Frame
  imports Service_Life
begin

text \<open>
  Levels are isolated from each other: what an operation of \<open>src/service/GitService.cpp\<close> or
  \<open>src/store/CommitStore.cpp\<close> on one level does to the others is nothing, in any database,
  sound or damaged, and wherever SQLite fails.
\<close>

section \<open>The rest of the database\<close>

text \<open>
  HEADs and commits outside some levels.  The mark that a commit reverts another one is left
  out: a squash clears it when the other one goes.
\<close>

definition bare :: "crow \<Rightarrow> crow" where
  "bare r = r\<lparr>r_reverts := None\<rparr>"

definition inside :: "level_key set \<Rightarrow> level_key \<Rightarrow> bool" where
  "inside K lk \<longleftrightarrow> c_str lk \<in> c_str ` K"

definition outside :: "level_key set \<Rightarrow> db \<Rightarrow> (level_key \<Rightarrow> commit_id option) \<times> (commit_id \<Rightarrow> crow option)" where
  "outside K d =
     (\<lambda>l. if inside K l then None else fmlookup (refs d) l,
      \<lambda>i. case fmlookup (commits d) i of
        None \<Rightarrow> None
      | Some r \<Rightarrow> if inside K (r_level r) then None else Some (bare r))"

lemma bare_simps [simp]: "r_level (bare r) = r_level r" "r_parent (bare r) = r_parent r" "r_blob (bare r) = r_blob r"
    "r_message (bare r) = r_message r" "r_created (bare r) = r_created r"
  by (simp_all add: bare_def)

lemma inside_mono: "K \<subseteq> K' \<Longrightarrow> inside K l \<Longrightarrow> inside K' l"
  by (auto simp: inside_def)

lemma inside_key [simp]: "l \<in> K \<Longrightarrow> inside K l"
  by (simp add: inside_def)

lemma inside_str: "c_str a = c_str b \<Longrightarrow> inside K a = inside K b"
  by (simp add: inside_def)

lemma outside_mono:
  assumes "K \<subseteq> K'" and eq: "outside K d' = outside K d"
  shows "outside K' d' = outside K' d"
proof -
  have shrink: "outside K' x = (\<lambda>l. if inside K' l then None else fst (outside K x) l,
      \<lambda>i. case snd (outside K x) i of None \<Rightarrow> None | Some r \<Rightarrow> if inside K' (r_level r) then None else Some r)" for x
    using inside_mono [OF assms(1)] by (auto simp: outside_def fun_eq_iff split: option.splits)
  show ?thesis by (simp only: shrink [of d'] shrink [of d] eq)
qed

lemma outsideI:
  assumes "\<And>l. \<not> inside K l \<Longrightarrow> fmlookup (refs d') l = fmlookup (refs d) l"
    and "\<And>i r. fmlookup (commits d) i = Some r \<Longrightarrow> \<not> inside K (r_level r) \<Longrightarrow>
      \<exists>r'. fmlookup (commits d') i = Some r' \<and> bare r' = bare r"
    and "\<And>i r'. fmlookup (commits d') i = Some r' \<Longrightarrow> \<not> inside K (r_level r') \<Longrightarrow>
      \<exists>r. fmlookup (commits d) i = Some r \<and> bare r = bare r'"
  shows "outside K d' = outside K d"
proof -
  have "snd (outside K d') i = snd (outside K d) i" for i
  proof (cases "snd (outside K d) i")
    case (Some x)
    then obtain r where r: "fmlookup (commits d) i = Some r" "\<not> inside K (r_level r)" "x = bare r"
      by (auto simp: outside_def split: option.splits if_splits)
    from assms(2) [OF r(1,2)] obtain r' where "fmlookup (commits d') i = Some r'" "bare r' = bare r" by blast
    moreover from this(2) have "r_level r' = r_level r" using bare_simps(1) by metis
    ultimately show ?thesis using r by (simp add: outside_def)
  next
    case none: None
    have "snd (outside K d') i \<noteq> Some x" for x
    proof
      assume "snd (outside K d') i = Some x"
      then obtain r' where r': "fmlookup (commits d') i = Some r'" "\<not> inside K (r_level r')"
        by (auto simp: outside_def split: option.splits if_splits)
      from assms(3) [OF this] obtain r where "fmlookup (commits d) i = Some r" "bare r = bare r'" by blast
      moreover from this(2) have "r_level r = r_level r'" using bare_simps(1) by metis
      ultimately show False using none r' by (simp add: outside_def)
    qed
    then have "snd (outside K d') i = None" by (metis not_None_eq)
    with none show ?thesis by simp
  qed
  moreover have "fst (outside K d') = fst (outside K d)" using assms(1) by (simp add: outside_def fun_eq_iff)
  ultimately show ?thesis by (simp add: prod_eq_iff fun_eq_iff)
qed

lemma outside_ref: "outside K d' = outside K d \<Longrightarrow> \<not> inside K l \<Longrightarrow> fmlookup (refs d') l = fmlookup (refs d) l"
  by (simp add: outside_def fun_eq_iff) metis

lemma outside_row:
  assumes "outside K d' = outside K d" and "fmlookup (commits d) i = Some r" and "\<not> inside K (r_level r)"
  shows "\<exists>r'. fmlookup (commits d') i = Some r' \<and> bare r' = bare r"
proof -
  have "snd (outside K d') i = Some (bare r)" using assms by (simp add: outside_def)
  then show ?thesis by (auto simp: outside_def split: option.splits if_splits)
qed

section \<open>Calls that keep it\<close>

text \<open>From any connection with no transaction open: still none, and the other levels untouched.\<close>

definition framed :: "level_key set \<Rightarrow> conn \<Rightarrow> conn \<Rightarrow> bool" where
  "framed K c c' \<longleftrightarrow> (saved c = None \<longrightarrow> fk_on c \<longrightarrow>
     saved c' = None \<and> fk_on c' \<and> outside K (cdb c') = outside K (cdb c))"

lemma framed_refl [simp, intro]: "framed K c c"
  by (simp add: framed_def)

lemma framed_trans [trans]: "framed K a b \<Longrightarrow> framed K b c \<Longrightarrow> framed K a c"
  by (simp add: framed_def)

lemma framed_mono: "framed K c c' \<Longrightarrow> K \<subseteq> K' \<Longrightarrow> framed K' c c'"
  using outside_mono unfolding framed_def by blast

lemma framed_same: "same_db c c' \<Longrightarrow> framed K c c'"
  by (simp add: framed_def same_db_def)

lemma framed_unchanged: "saved c = None \<Longrightarrow> cdb c' = cdb c \<and> saved c' = None \<and> P \<and> fk_on c' = fk_on c \<Longrightarrow> framed K c c'"
  by (simp add: framed_def)

lemma framedI: "(saved c = None \<Longrightarrow> fk_on c \<Longrightarrow> framed K c c') \<Longrightarrow> framed K c c'"
  by (auto simp: framed_def)

lemma same_db_list_rows: "same_db c (snd (list_rows z lk c))"
  by (simp add: list_rows_def split_beta fetch_same_db)

lemma same_db_summaries: "same_db c (snd (listSummaryRows lk c))"
  by (simp add: listSummaryRows_def split_beta fetch_same_db)

lemma same_db_levels: "same_db c (snd (listLevels c))"
  by (simp add: listLevels_def split_beta fetch_same_db)

lemma insert_framed: "insertAndSetHead z now lk p rv msg b c = (res, c') \<Longrightarrow> framed {lk} c c'"
proof (rule framedI)
  assume run: "insertAndSetHead z now lk p rv msg b c = (res, c')" and s: "saved c = None" "fk_on c"
  show "framed {lk} c c'"
  proof (cases res)
    case (Inl err)
    with insertAndSetHead_Inl [OF run [unfolded Inl] s(1)] s show ?thesis by (intro framed_unchanged) auto
  next
    case (Inr i)
    from insertAndSetHead_Inr [OF run [unfolded Inr] s(1)] obtain stored where
      d: "cdb c' = committed (new_row lk p rv msg now stored) (cdb c)" and c: "saved c' = None" "fk_on c' = fk_on c" by blast
    have new: "fmlookup (commits (cdb c)) (next_id (cdb c)) = None" by simp
    have "outside {lk} (cdb c') = outside {lk} (cdb c)"
      by (rule outsideI) (auto simp: d committed_def inserted_def new_row_def new split: if_splits)
    with c s show ?thesis by (simp add: framed_def)
  qed
qed

lemma delete_framed: "deleteLevel lk c = (res, c') \<Longrightarrow> framed {lk} c c'"
proof (rule framedI)
  assume run: "deleteLevel lk c = (res, c')" and s: "saved c = None" "fk_on c"
  show "framed {lk} c c'"
  proof (cases res)
    case True
    from deleteLevel_True [OF run [unfolded eqTrueI [OF True]] s(1)] have d: "cdb c' = deleted lk (cdb c)"
      and c: "saved c' = None" "fk_on c' = fk_on c" by blast+
    have "outside {lk} (cdb c') = outside {lk} (cdb c)"
      by (rule outsideI) (auto simp: d deleted_def split: if_splits)
    with c s show ?thesis by (simp add: framed_def)
  next
    case False
    with deleteLevel_False [OF _ s(1)] run s show ?thesis by (intro framed_unchanged) auto
  qed
qed

lemma message_framed:
  assumes "updateMessage i msg c = (res, c')" and "\<And>r. fmlookup (commits (cdb c)) i = Some r \<Longrightarrow> inside K (r_level r)"
  shows "framed K c c'"
proof (rule framedI)
  assume s: "saved c = None" "fk_on c"
  show "framed K c c'"
  proof (cases "is_open c")
    case True
    obtain x c1 where ex: "exec (stmt_update_message i msg) c = (x, c1)" by fastforce
    note a = exec_auto [OF ex s(1)]
    have c: "c' = c1" using assms(1) True ex by (auto simp: updateMessage_def split: option.splits)
    have "outside K (cdb c1) = outside K (cdb c)"
    proof (cases "x = None \<or> fmlookup (commits (cdb c)) i = None")
      case True
      then have "cdb c1 = cdb c" using a by (auto simp: stmt_update_message_def split: option.splits)
      then show ?thesis by simp
    next
      case False
      then obtain r where r: "fmlookup (commits (cdb c)) i = Some r"
        and d: "cdb c1 = (cdb c)\<lparr>commits := fmupd i (r\<lparr>r_message := msg\<rparr>) (commits (cdb c))\<rparr>"
        using a by (auto simp: stmt_update_message_def)
      show ?thesis by (rule outsideI) (use assms(2) [OF r] r in \<open>auto simp: d split: if_splits\<close>)
    qed
    with a c s show ?thesis by (auto simp: framed_def)
  qed (use assms(1) in \<open>auto simp: updateMessage_def\<close>)
qed

lemma squash_framed:
  assumes "Commit_Store.squash z now lk ids p msg b c = (res, c')"
    and ids: "\<And>j r. j \<in> set ids \<Longrightarrow> fmlookup (commits (cdb c)) j = Some r \<Longrightarrow> c_str (r_level r) = c_str lk"
  shows "framed {lk} c c'"
proof (rule framedI)
  assume s: "saved c = None" "fk_on c"
  show "framed {lk} c c'"
  proof (cases res)
    case None
    with squash_None [OF assms(1) [unfolded None] s(1)] s show ?thesis by (intro framed_unchanged) auto
  next
    case (Some n)
    from squash_Some [OF assms(1) [unfolded Some] s(1)] obtain stored t where
      d: "cdb c' = squashed (new_row lk p None msg t stored) ids lk (cdb c)" and c: "saved c' = None" "fk_on c' = fk_on c" by blast
    let ?n = "next_id (cdb c)"
    have new: "fmlookup (commits (cdb c)) ?n = None" by simp
    have b: "bare (squashed_row ?n ids lk j r) = bare r" if "\<not> inside {lk} (r_level r)" for j r
      using that by (auto simp: squashed_row_def clear_row_def reparent_row_def bare_def split: option.split)
    have "outside {lk} (cdb c') = outside {lk} (cdb c)"
    proof (rule outsideI)
      show "fmlookup (refs (cdb c')) l = fmlookup (refs (cdb c)) l" if "\<not> inside {lk} l" for l
        using that by (auto simp: d squashed_def split: option.splits if_splits)
      show "\<exists>r'. fmlookup (commits (cdb c')) i = Some r' \<and> bare r' = bare r"
        if "fmlookup (commits (cdb c)) i = Some r" "\<not> inside {lk} (r_level r)" for i r
        using that ids [OF _ that(1)] new b by (fastforce simp: d squashed_lookup inside_def)
      show "\<exists>r. fmlookup (commits (cdb c)) i = Some r \<and> bare r = bare r'"
        if "fmlookup (commits (cdb c')) i = Some r'" "\<not> inside {lk} (r_level r')" for i r'
        using that b by (fastforce simp: d squashed_lookup new_row_def split: if_splits)
    qed
    with c s show ?thesis by (simp add: framed_def)
  qed
qed

lemma replace_framed:
  assumes run: "replaceLevelHistoryFrom z ord dest src c = (res, c')" and z: "hash_order ord" "zlib_ok z"
  shows "framed {dest} c c'"
proof (rule framedI)
  assume s: "saved c = None" "fk_on c"
  show "framed {dest} c c'"
  proof (cases "res = Replaced")
    case False
    with replace_failed [OF run _ s(1)] s show ?thesis by (simp add: framed_def)
  next
    case True
    from replace_image [OF run [unfolded True] s(1) z] obtain f S where im: "level_image z dest src (cdb c) (cdb c') f S"
      and c: "saved c' = None" "fk_on c' = fk_on c" by blast
    have ne: "l \<noteq> dest" if "\<not> inside {dest} l" for l using that by auto
    have "outside {dest} (cdb c') = outside {dest} (cdb c)"
    proof (rule outsideI)
      show "fmlookup (refs (cdb c')) l = fmlookup (refs (cdb c)) l" if "\<not> inside {dest} l" for l
        using level_image_refs(2) [OF im ne [OF that]] .
      show "\<exists>r'. fmlookup (commits (cdb c')) i = Some r' \<and> bare r' = bare r"
        if "fmlookup (commits (cdb c)) i = Some r" "\<not> inside {dest} (r_level r)" for i r
        using level_imageD(4) [OF im ne [OF that(2)], of i r] that(1) by (auto simp: level_commit_def)
      show "\<exists>r. fmlookup (commits (cdb c)) i = Some r \<and> bare r = bare r'"
        if "fmlookup (commits (cdb c')) i = Some r'" "\<not> inside {dest} (r_level r')" for i r'
        using level_imageD(4) [OF im ne [OF that(2)], of i r'] that(1) by (auto simp: level_commit_def)
    qed
    with c s show ?thesis by (simp add: framed_def)
  qed
qed

section \<open>Reading the store\<close>

definition leaves :: "('a \<Rightarrow> bool) \<Rightarrow> 'a option \<Rightarrow> bool" where
  "leaves P r \<longleftrightarrow> (\<forall>x. r = Some x \<longrightarrow> P x)"

lemma leaves_simps [simp]: "leaves P None" "leaves P (Some x) = P x"
  by (simp_all add: leaves_def)

lemma leaves_refuse [simp]: "leaves P (refuse err svc) = P (\<lparr>outcome = Inl err, pending = None\<rparr>, svc)"
  by (simp add: refuse_def)

lemma leavesD: "leaves P r \<Longrightarrow> r = Some x \<Longrightarrow> P x"
  by (simp add: leaves_def)

lemma leaves_case: "leaves P a \<Longrightarrow> (\<And>x. h = Some x \<Longrightarrow> leaves P (f x)) \<Longrightarrow> leaves P (case h of None \<Rightarrow> a | Some x \<Rightarrow> f x)"
  by (cases h) simp_all

lemma leaves_if: "(b \<Longrightarrow> leaves P x) \<Longrightarrow> (\<not> b \<Longrightarrow> leaves P y) \<Longrightarrow> leaves P (if b then x else y)"
  by simp

abbreviation same_svc :: "service \<Rightarrow> service \<Rightarrow> bool" where
  "same_svc svc svc' \<equiv> same_db (db_conn svc) (db_conn svc')"

lemma replay_conn [simp]: "db_conn (snd (replay e rows st svc)) = db_conn svc"
  by (induction rows arbitrary: st svc) (simp_all add: Let_def split: option.split)

lemma walk_chain_same:
  assumes run: "walk_chain z cch cur chain c = Some res"
  shows "same_db c (snd res)"
proof (rule walk_chain.raw_induct [where P = "\<lambda>z cch cur chain c res. same_db c (snd res)", OF _ run])
  fix walk z cch cur chain c res
  assume ih: "\<And>z cch cur chain c res. walk z cch cur chain c = Some res \<Longrightarrow> same_db c (snd res)"
    and step: "(case fmlookup cch cur of
      None \<Rightarrow> (case get_row z cur c of (None, c1) \<Rightarrow> Some (None, c1)
        | (Some r, c1) \<Rightarrow> (case row_parent r of
            None \<Rightarrow> Some (Some (chain @ [r], empty_state), c1)
          | Some p \<Rightarrow> walk z cch p (chain @ [r]) c1))
    | Some hit \<Rightarrow> Some (Some (chain, hit), c)) = Some res"
  obtain row c1 where g: "get_row z cur c = (row, c1)" by fastforce
  have s: "same_db c c1" using same_db_get_row [of c z cur] g by simp
  show "same_db c (snd res)"
  proof (cases "fmlookup cch cur = None \<and> row \<noteq> None \<and> row_parent (the row) \<noteq> None")
    case True
    then obtain r p where "row = Some r" "row_parent r = Some p" by auto
    with True step g have "walk z cch p (chain @ [r]) c1 = Some res" by simp
    from same_db_trans [OF s ih [OF this]] show ?thesis .
  next
    case False
    with step g s show ?thesis by (auto split: option.splits)
  qed
qed

lemma reconstruct_same: "reconstruct e i svc = Some (r, svc') \<Longrightarrow> same_svc svc svc'"
proof (cases "cacheGet i svc")
  case None
  assume "reconstruct e i svc = Some (r, svc')"
  with None obtain res c where w: "walk_chain (e_zlib e) (state_cache svc) i [] (db_conn svc) = Some (res, c)"
    and r: "res = None \<and> svc' = svc\<lparr>db_conn := c\<rparr> \<or> (\<exists>chain st. res = Some (chain, st) \<and>
      (r, svc') = replay e (rev chain) st (svc\<lparr>db_conn := c\<rparr>))"
    by (auto simp: reconstruct_def split: option.splits)
  have "db_conn svc' = c" using r replay_conn by (auto simp: prod_eq_iff)
  with walk_chain_same [OF w] show ?thesis by simp
qed (simp add: reconstruct_def)

lemma after_reconstruct_leaves:
  assumes "\<And>r svc1. same_svc svc svc1 \<Longrightarrow> leaves P (k r svc1)"
  shows "leaves P (after_reconstruct e i svc k)"
proof (cases "reconstruct e i svc")
  case (Some x)
  then obtain r svc1 where "reconstruct e i svc = Some (r, svc1)" by (cases x) simp
  with assms [OF reconstruct_same] show ?thesis by (simp add: after_reconstruct_def)
qed (simp add: after_reconstruct_def)

lemma getHead_leaves:
  assumes "\<And>h c. same_db (db_conn svc) c \<Longrightarrow> leaves P (k h c)"
  shows "leaves P (case getHead lk (db_conn svc) of (h, c) \<Rightarrow> k h c)"
  using assms [of "snd (getHead lk (db_conn svc))"] same_db_getHead by (simp add: split_beta)

lemma get_row_leaves:
  assumes "\<And>r c1. same_db c c1 \<Longrightarrow> leaves P (k r c1)"
  shows "leaves P (case get_row z i c of (r, c1) \<Rightarrow> k r c1)"
  using assms [of "snd (get_row z i c)"] same_db_get_row by (simp add: split_beta)

lemma after_root_leaves:
  assumes "\<And>r svc1. same_svc svc svc1 \<Longrightarrow> leaves P (k r svc1)"
  shows "leaves P (after_root e lk svc k)"
proof -
  obtain rows c where l: "list_rows (e_zlib e) lk (db_conn svc) = (rows, c)" by fastforce
  have s: "same_db (db_conn svc) c" using same_db_list_rows [of "db_conn svc" "e_zlib e" lk] l by simp
  have "leaves P (after_reconstruct e i (svc\<lparr>db_conn := c\<rparr>) k)" for i
    by (rule after_reconstruct_leaves) (use same_db_trans [OF s] assms in auto)
  with l s assms show ?thesis by (auto simp: after_root_def Let_def split: option.split)
qed

section \<open>What is prepared belongs to the level\<close>

definition for_head :: "level_key \<Rightarrow> service \<Rightarrow> ('t, pending_head) prepared \<times> service \<Rightarrow> bool" where
  "for_head lk svc r \<longleftrightarrow> same_svc svc (snd r) \<and> (\<forall>ph. pending (fst r) = Some ph \<longrightarrow> ph_level ph = lk)"

lemma checkout_plan_for: "same_svc svc svc1 \<Longrightarrow> leaves (for_head lk svc) (checkout_plan e lk hid i hs ts svc1)"
proof -
  assume s: "same_svc svc svc1"
  obtain row c2 where g: "get_row (e_zlib e) i (db_conn svc1) = (row, c2)" by fastforce
  have "same_db (db_conn svc) c2" using same_db_trans [OF s] same_db_get_row [of "db_conn svc1" "e_zlib e" i] g by simp
  with s g show ?thesis by (auto simp: checkout_plan_def for_head_def head_update_def Let_def split: option.split)
qed

lemma prepareCheckout_for: "leaves (for_head lk svc) (prepareCheckout e lk i svc)"
  unfolding prepareCheckout_def Let_def
  apply (rule getHead_leaves)
  apply (rule leaves_case)
   apply (simp add: for_head_def)
  apply (rule leaves_if; rule after_reconstruct_leaves)
   apply (rule leaves_case)
    apply (force simp: for_head_def intro: same_db_trans)
   apply (force simp: for_head_def intro: same_db_trans)
  apply (rule after_reconstruct_leaves)
  apply (rule checkout_plan_for)
  apply (force intro: same_db_trans)
  done

lemma revert_plan_for: "same_svc svc svc1 \<Longrightarrow> leaves (for_head lk svc) (revert_plan e lk hid i msg ps ts hs svc1)"
  by (auto simp: revert_plan_def for_head_def head_update_def Let_def split: option.split)

lemma prepareRevert_for: "leaves (for_head lk svc) (prepareRevert e lk i svc)"
  unfolding prepareRevert_def Let_def
  apply (rule getHead_leaves)
  apply (rule leaves_case)
   apply (simp add: for_head_def)
  apply (rule get_row_leaves)
  apply (rule leaves_case)
   apply (force simp: for_head_def intro: same_db_trans)
  apply (rule leaves_if)
   apply (force simp: for_head_def intro: same_db_trans)
  apply (rule leaves_case)
   apply (force simp: for_head_def intro: same_db_trans)
  apply (rule after_reconstruct_leaves)+
  apply (rule revert_plan_for)
  apply (simp, meson same_db_trans)
  done

definition of_level :: "db \<Rightarrow> level_key \<Rightarrow> commit_id list \<Rightarrow> bool" where
  "of_level d lk ids \<longleftrightarrow> (\<forall>j r. j \<in> set ids \<longrightarrow> fmlookup (commits d) j = Some r \<longrightarrow> c_str (r_level r) = c_str lk)"

lemma load_rows_level:
  "load_rows z lk ids c = (res, c') \<Longrightarrow> same_db c c' \<and> (\<forall>rows. res = Inr rows \<longrightarrow> of_level (cdb c) lk ids)"
proof (induction ids arbitrary: res c c')
  case (Cons i ids)
  obtain row c1 where g: "get_row z i c = (row, c1)" by fastforce
  have s1: "same_db c c1" using same_db_get_row [of c z i] g by simp
  show ?case
  proof (cases "row = None \<or> row_level (the row) \<noteq> lk")
    case True
    then show ?thesis using Cons.prems g s1 by (cases row) auto
  next
    case False
    then obtain r where r: "row = Some r" "row_level r = lk" by auto
    obtain res1 c2 where l: "load_rows z lk ids c1 = (res1, c2)" by fastforce
    from Cons.IH [OF this] have ih: "same_db c1 c2" "\<And>rows. res1 = Inr rows \<Longrightarrow> of_level (cdb c1) lk ids" by auto
    obtain rw where rw: "fmlookup (commits (cdb c)) i = Some rw" "r = rowFromStatement z (i, rw)" using get_row_Some g r(1) by blast
    then have "c_str (r_level rw) = c_str lk" using r(2) c_str_again by auto
    moreover have "cdb c1 = cdb c" using s1 by (simp add: same_db_def)
    ultimately show ?thesis using Cons.prems g r l ih same_db_trans [OF s1 ih(1)] rw(1)
      by (cases res1) (auto simp: of_level_def)
  qed
qed (simp add: of_level_def)

definition for_squash :: "level_key \<Rightarrow> service \<Rightarrow> ('t, pending_squash) prepared \<times> service \<Rightarrow> bool" where
  "for_squash lk svc r \<longleftrightarrow> same_svc svc (snd r) \<and>
     (\<forall>p. pending (fst r) = Some p \<longrightarrow> ps_level p = lk \<and> of_level (cdb (db_conn svc)) lk (ps_ids p))"

lemma prepareSquash_for: "leaves (for_squash lk svc) (prepareSquash e lk ids msg svc)"
proof -
  obtain res c where l: "load_rows (e_zlib e) lk ids (db_conn svc) = (res, c)" by fastforce
  note lr = load_rows_level [OF l]
  have w: "leaves (for_squash lk svc) (prepareSquash_with e lk ids msg rows b svc1)"
    if "same_svc svc svc1" "of_level (cdb (db_conn svc)) lk ids" for rows b svc1
    unfolding prepareSquash_with_def
    apply (rule leaves_case)
     apply (use that in \<open>simp add: for_squash_def\<close>)
    apply (rule after_reconstruct_leaves)
    apply (use same_db_trans [OF that(1)] that(2) in \<open>auto simp: for_squash_def split: option.split\<close>)
    done
  show ?thesis
  proof (cases res)
    case (Inl err)
    with l lr show ?thesis by (simp add: prepareSquash_def for_squash_def)
  next
    case (Inr rows)
    with lr have s: "same_db (db_conn svc) c" and o: "of_level (cdb (db_conn svc)) lk ids" by auto
    have "leaves (for_squash lk svc) (after_reconstruct e p (svc\<lparr>db_conn := c\<rparr>) (\<lambda>base svc2. prepareSquash_with e lk ids msg rows base svc2))" for p
      by (rule after_reconstruct_leaves) (use w o same_db_trans [OF s] in auto)
    with l Inr s o w [of "svc\<lparr>db_conn := c\<rparr>"] show ?thesis
      by (auto simp: prepareSquash_def for_squash_def Let_def split: option.split)
  qed
qed

lemma prepareReplace_for:
  "leaves (\<lambda>r. same_svc svc (snd r) \<and> (\<forall>p. pending (fst r) = Some p \<longrightarrow> pr_dest p = dest)) (prepareImportLevelFrom e dest src svc)"
  unfolding prepareImportLevelFrom_def Let_def
  apply (rule leaves_if)
   apply simp
  apply (rule getHead_leaves)
  apply (rule leaves_case)
   apply simp
  apply (rule after_reconstruct_leaves)
  apply (rule leaves_case)
   apply (simp, meson same_db_trans)
  apply (simp, meson same_db_trans)
  done

definition all_for :: "level_key \<Rightarrow> pending_head list \<Rightarrow> bool" where
  "all_for lk ps \<longleftrightarrow> (\<forall>p \<in> set ps. ph_level p = lk)"

lemma all_for_simps [simp]: "all_for lk []" "all_for lk (ps @ qs) \<longleftrightarrow> all_for lk ps \<and> all_for lk qs"
    "all_for lk (p # ps) \<longleftrightarrow> ph_level p = lk \<and> all_for lk ps" "ph_level (import_update lk par ix msg b) = lk"
  by (auto simp: all_for_def import_update_def)

lemma smart_phase_for: "smart_phase e g dest h paths a d = (a', d') \<Longrightarrow> all_for dest (ia_pending a) \<Longrightarrow> all_for dest (ia_pending a')"
  by (auto simp: smart_phase_def split: if_splits prod.splits sum.splits)

lemma sequential_step_for: "all_for dest (ia_pending a) \<Longrightarrow> all_for dest (ia_pending (sequential_step e dest h path res a))"
  by (auto simp: sequential_step_def split: sum.split option.split)

lemma sequential_phase_for:
  "sequential_phase e g dest h paths a d = (a', d') \<Longrightarrow> all_for dest (ia_pending a) \<Longrightarrow> all_for dest (ia_pending a')"
proof (induction paths arbitrary: a d)
  case (Cons p ps)
  then show ?case using sequential_step_for [of dest a e h p] by (auto split: prod.splits)
qed simp

lemma import_result_for: "import_result a = (res, ps) \<Longrightarrow> all_for dest (ia_pending a) \<Longrightarrow> all_for dest ps"
proof -
  have "ph_level p = dest" if "all_for dest (ia_pending a)" "p \<in> set (butlast (ia_pending a))" for p
    using that(1) in_set_butlastD [OF that(2)] by (simp add: all_for_def)
  then show "import_result a = (res, ps) \<Longrightarrow> all_for dest (ia_pending a) \<Longrightarrow> all_for dest ps"
    by (auto simp: import_result_def all_for_def split: if_splits)
qed

lemma merge_planned_for: "merge_planned e g dest plan h ours base d = ((res, ps), d') \<Longrightarrow> all_for dest ps"
  using smart_phase_for sequential_phase_for import_result_for
  by (fastforce simp: merge_planned_def Let_def split: prod.splits)

type_synonym import_prep = "prepared_import \<times> service \<times> disk"

definition for_import :: "level_key \<Rightarrow> service \<Rightarrow> import_prep \<Rightarrow> bool" where
  "for_import lk svc r \<longleftrightarrow> (case r of ((res, ps), svc', d) \<Rightarrow> same_svc svc svc' \<and> all_for lk ps)"

lemma classify_leaves: "leaves (\<lambda>r. same_svc svc (fst (snd r))) (service_classifyImports e g dest paths svc d)"
  unfolding service_classifyImports_def
  apply (rule getHead_leaves)
  apply (rule after_root_leaves)
  apply (simp add: split_beta, meson same_db_trans)
  done

lemma planImport_leaves: "leaves (\<lambda>r. same_svc svc (fst (snd r))) (planImport e g dest paths svc d)"
  by (simp add: planImport_def classify_leaves)

lemma merged_for: "same_svc svc svc1 \<Longrightarrow>
    leaves (for_import dest svc) (case merge_planned e g dest plan h ours base d of (res, d2) \<Rightarrow> Some (res, svc1, d2))"
  using merge_planned_for [of e g dest plan h ours base d] by (auto simp: for_import_def split: prod.split)

lemma prepareMerge_for: "leaves (for_import dest svc) (prepareImportManyFromGdge e g dest paths svc d)"
proof (cases "paths = [] \<or> service_classifyImports e g dest paths svc d = None")
  case True
  then show ?thesis by (auto simp: prepareImportManyFromGdge_def for_import_def)
next
  case False
  then obtain plan svc1 d1 where c: "service_classifyImports e g dest paths svc d = Some (plan, svc1, d1)" by auto
  with leavesD [OF classify_leaves c] have s1: "same_svc svc svc1" by simp
  have "leaves (for_import dest svc) (case getHead dest (db_conn svc1) of (headBefore, c2) \<Rightarrow>
        (case headBefore of
          None \<Rightarrow> (case merge_planned e g dest plan None empty_state empty_state d1 of (res, d2) \<Rightarrow> Some (res, svc1\<lparr>db_conn := c2\<rparr>, d2))
        | Some h \<Rightarrow> after_root e dest (svc1\<lparr>db_conn := c2\<rparr>) (\<lambda>rootState svc3.
            case rootState of
              None \<Rightarrow> Some ((Inl ''failed to reconstruct current root'', []), svc3, d1)
            | Some rootBefore \<Rightarrow> after_reconstruct e h svc3 (\<lambda>recon svc4.
                case recon of
                  None \<Rightarrow> Some ((Inl ''failed to reconstruct local state'', []), svc4, d1)
                | Some ours \<Rightarrow> (case merge_planned e g dest plan (Some h) ours rootBefore d1 of (res, d2) \<Rightarrow> Some (res, svc4, d2))))))"
    apply (rule getHead_leaves)
    apply (rule leaves_case)
     apply (rule merged_for)
     apply (simp, meson s1 same_db_trans)
    apply (rule after_root_leaves)
    apply (rule leaves_case)
     apply (simp add: for_import_def, meson s1 same_db_trans)
    apply (rule after_reconstruct_leaves)
    apply (rule leaves_case)
     apply (simp add: for_import_def, meson s1 same_db_trans)
    apply (rule merged_for)
    apply (simp, meson s1 same_db_trans)
    done
  with c False show ?thesis by (simp add: prepareImportManyFromGdge_def Let_def)
qed

section \<open>Whole operations\<close>

lemma framed_after: "same_svc svc svc1 \<Longrightarrow> framed K (db_conn svc1) c \<Longrightarrow> framed K (db_conn svc) c"
  using framed_trans [OF framed_same] by blast

lemma record_framed: "framed {lk} (db_conn svc) (db_conn (snd (record_commit e now lk msg par h inc svc)))"
proof -
  obtain res c where "insertAndSetHead (e_zlib e) now lk par None msg
      (dump e (diff_states e (case h of None \<Rightarrow> empty_state | Some h \<Rightarrow> h) inc)) (db_conn svc) = (res, c)" by fastforce
  from this insert_framed [OF this] show ?thesis by (simp add: record_commit_def Let_def split: sum.split)
qed

definition svc_framed :: "level_key set \<Rightarrow> service \<Rightarrow> 'r \<times> service \<Rightarrow> bool" where
  "svc_framed K svc r \<longleftrightarrow> framed K (db_conn svc) (db_conn (snd r))"

lemma commit_framed: "leaves (svc_framed {lk} svc) (git_commit e now lk msg live ds svc)"
proof -
  have rec: "leaves (svc_framed {lk} svc) (case x of None \<Rightarrow> None | Some (inc, ds') \<Rightarrow> Some (record_commit e now lk msg par h inc svc1))"
    if "same_svc svc svc1" for x par h svc1
    using framed_after [OF that record_framed] by (auto simp: svc_framed_def split: option.split)
  show ?thesis unfolding git_commit_def Let_def
    apply (rule getHead_leaves)
    apply (rule leaves_case)
     apply (rule rec, simp)
    apply (rule after_reconstruct_leaves)
    apply (rule leaves_case)
     apply (simp add: svc_framed_def, meson framed_same same_db_trans)
    apply (rule rec, simp, meson same_db_trans)
    done
qed

lemma finalizeCheckout_framed: "finalizeCheckout e now p st svc = (r, svc') \<Longrightarrow> framed {ph_level p} (db_conn svc) (db_conn svc')"
  using insert_framed [of "e_zlib e" now "ph_level p" "ph_parent p" "ph_reverts p" "ph_message p" "ph_delta p" "db_conn svc"]
  by (auto simp: finalizeCheckout_def split: prod.splits sum.splits)

lemma run_head_framed:
  assumes "leaves (for_head lk svc) prep"
  shows "leaves (svc_framed {lk} svc) (run_head_update e now f prep)"
proof (cases prep)
  case (Some x)
  obtain p svc1 where x: "x = (p, svc1)" by fastforce
  with Some assms have s: "same_svc svc svc1" and l: "\<And>ph. pending p = Some ph \<Longrightarrow> ph_level ph = lk"
    by (simp_all add: for_head_def)
  show ?thesis
  proof (cases "outcome p")
    case (Inl err)
    with Some x s show ?thesis by (simp add: run_head_update_def svc_framed_def framed_same)
  next
    case (Inr v)
    show ?thesis
    proof (cases "pending p")
      case None
      with Some x Inr s show ?thesis by (simp add: run_head_update_def svc_framed_def framed_same)
    next
      case ph: (Some ph)
      obtain r svc2 where f: "finalizeCheckout e now ph (f v) svc1 = (r, svc2)" by fastforce
      from framed_after [OF s finalizeCheckout_framed [OF f]] l [OF ph] have "framed {lk} (db_conn svc) (db_conn svc2)" by simp
      with Some x Inr ph f show ?thesis by (cases r) (simp_all add: run_head_update_def svc_framed_def)
    qed
  qed
qed (simp add: run_head_update_def)

lemma checkout_framed: "leaves (svc_framed {lk} svc) (checkout e now lk i svc)"
  unfolding checkout_def by (rule run_head_framed [OF prepareCheckout_for])

lemma revert_framed: "leaves (svc_framed {lk} svc) (revert e now lk i svc)"
  unfolding revert_def by (rule run_head_framed [OF prepareRevert_for])

lemma finalizeSquash_framed:
  assumes "finalizeSquash e now p st svc = (r, svc')" and "of_level (cdb (db_conn svc)) (ps_level p) (ps_ids p)"
  shows "framed {ps_level p} (db_conn svc) (db_conn svc')"
proof -
  obtain res c where q: "Commit_Store.squash (e_zlib e) now (ps_level p) (ps_ids p) (ps_parent p) (ps_message p) (ps_delta p) (db_conn svc) = (res, c)"
    by fastforce
  have "framed {ps_level p} (db_conn svc) c" by (rule squash_framed [OF q]) (use assms(2) in \<open>simp add: of_level_def\<close>)
  with assms(1) q show ?thesis by (auto simp: finalizeSquash_def split: option.splits)
qed

lemma git_squash_framed: "leaves (svc_framed {lk} svc) (git_squash e now lk ids msg svc)"
proof (cases "prepareSquash e lk ids msg svc")
  case (Some x)
  obtain p svc1 where x: "x = (p, svc1)" by fastforce
  with leavesD [OF prepareSquash_for Some] have s: "same_svc svc svc1"
    and l: "\<And>q. pending p = Some q \<Longrightarrow> ps_level q = lk \<and> of_level (cdb (db_conn svc)) lk (ps_ids q)" by (simp_all add: for_squash_def)
  show ?thesis
  proof (cases "\<exists>t q. outcome p = Inr t \<and> pending p = Some q")
    case True
    then obtain t q where q: "outcome p = Inr t" "pending p = Some q" by blast
    obtain r svc2 where f: "finalizeSquash e now q t svc1 = (r, svc2)" by fastforce
    have "of_level (cdb (db_conn svc1)) (ps_level q) (ps_ids q)" using l [OF q(2)] s by (simp add: same_db_def)
    from framed_after [OF s finalizeSquash_framed [OF f this]] l [OF q(2)] have "framed {lk} (db_conn svc) (db_conn svc2)" by simp
    with Some x q f show ?thesis by (cases r) (simp_all add: git_squash_def svc_framed_def)
  next
    case False
    then have "leaves (svc_framed {lk} svc) (git_squash e now lk ids msg svc) = framed {lk} (db_conn svc) (db_conn svc1)"
      using Some x by (cases "outcome p"; cases "pending p") (auto simp: git_squash_def svc_framed_def)
    with s show ?thesis by (simp add: framed_same)
  qed
qed (simp add: git_squash_def)

lemma finalizeReplace_framed:
  assumes "env_ok e" and "finalizeImportLevelFrom e p st svc = (r, svc')"
  shows "framed {pr_dest p} (db_conn svc) (db_conn svc')"
proof -
  obtain res c where q: "replaceLevelHistoryFrom (e_zlib e) (e_rows e) (pr_dest p) (pr_src p) (db_conn svc) = (res, c)" by fastforce
  have f: "framed {pr_dest p} (db_conn svc) c" by (rule replace_framed [OF q]) (use assms(1) in \<open>simp_all add: env_ok_def\<close>)
  obtain h c1 where g: "getHead (pr_dest p) c = (h, c1)" by fastforce
  have "framed {pr_dest p} c c1" using framed_same [OF same_db_getHead [of c "pr_dest p"]] g by simp
  with framed_trans [OF f this] f assms(2) q g show ?thesis
    by (auto simp: finalizeImportLevelFrom_def Let_def split: copy_result.splits option.splits)
qed

lemma importLevel_framed: "env_ok e \<Longrightarrow> leaves (svc_framed {dest} svc) (importLevelFrom e dest src svc)"
proof (cases "prepareImportLevelFrom e dest src svc")
  case (Some x)
  assume e: "env_ok e"
  obtain p svc1 where x: "x = (p, svc1)" by fastforce
  with leavesD [OF prepareReplace_for Some] have s: "same_svc svc svc1"
    and l: "\<And>q. pending p = Some q \<Longrightarrow> pr_dest q = dest" by simp_all
  show ?thesis
  proof (cases "\<exists>t q. outcome p = Inr t \<and> pending p = Some q")
    case True
    then obtain t q where q: "outcome p = Inr t" "pending p = Some q" by blast
    obtain r svc2 where f: "finalizeImportLevelFrom e q t svc1 = (r, svc2)" by fastforce
    from framed_after [OF s finalizeReplace_framed [OF e f]] l [OF q(2)] have "framed {dest} (db_conn svc) (db_conn svc2)" by simp
    with Some x q f show ?thesis by (cases r) (simp_all add: importLevelFrom_def svc_framed_def)
  next
    case False
    then have "leaves (svc_framed {dest} svc) (importLevelFrom e dest src svc) = framed {dest} (db_conn svc) (db_conn svc1)"
      using Some x by (cases "outcome p"; cases "pending p") (auto simp: importLevelFrom_def svc_framed_def)
    with s show ?thesis by (simp add: framed_same)
  qed
qed (simp add: importLevelFrom_def)

lemma finalize_pending_framed:
  "finalize_pending e now ps minted svc = (r, svc') \<Longrightarrow> all_for lk ps \<Longrightarrow> framed {lk} (db_conn svc) (db_conn svc')"
proof (induction ps arbitrary: minted svc)
  case (Cons p ps)
  show ?case
  proof (cases "pending_parent minted p")
    case None
    with Cons.prems(1) show ?thesis by auto
  next
    case (Some par)
    obtain y c where ins: "insertAndSetHead (e_zlib e) (now (length minted)) (ph_level p) par (ph_reverts p) (ph_message p)
        (ph_delta p) (db_conn svc) = (y, c)" by fastforce
    have f: "framed {lk} (db_conn svc) c" using insert_framed [OF ins] Cons.prems(2) by simp
    show ?thesis
    proof (cases y)
      case (Inl err)
      with Cons.prems(1) Some ins f show ?thesis by auto
    next
      case (Inr i)
      let ?svc1 = "case ph_cache p of None \<Rightarrow> svc\<lparr>db_conn := c\<rparr> | Some st \<Rightarrow> cachePut i st (svc\<lparr>db_conn := c\<rparr>)"
      have c: "db_conn ?svc1 = c" by (simp split: option.split)
      have "finalize_pending e now ps (minted @ [i]) ?svc1 = (r, svc')" using Cons.prems(1) Some ins Inr by (simp add: Let_def)
      from framed_trans [OF f Cons.IH [OF this, unfolded c]] Cons.prems(2) show ?thesis by simp
    qed
  qed
qed auto

lemma finalizeMerge_framed:
  "finalizeImportManyFromGdge e now ps svc = (r, svc') \<Longrightarrow> all_for lk ps \<Longrightarrow> framed {lk} (db_conn svc) (db_conn svc')"
  using finalize_pending_framed by (auto simp: finalizeImportManyFromGdge_def split: if_splits)

lemma importMany_framed:
  "leaves (\<lambda>r. framed {dest} (db_conn svc) (db_conn (fst (snd r)))) (importManyFromGdge e g now dest paths svc d)"
proof (cases "prepareImportManyFromGdge e g dest paths svc d")
  case (Some x)
  obtain res ps svc1 d1 where x: "x = ((res, ps), svc1, d1)" by (cases x) auto
  with leavesD [OF prepareMerge_for Some] have s: "same_svc svc svc1" and l: "all_for dest ps" by (simp_all add: for_import_def)
  show ?thesis
  proof (cases res)
    case (Inl err)
    with Some x s show ?thesis by (simp add: importManyFromGdge_def framed_same)
  next
    case (Inr v)
    obtain r svc2 where f: "finalizeImportManyFromGdge e now ps svc1 = (r, svc2)" by fastforce
    from framed_after [OF s finalizeMerge_framed [OF f l]] Some x Inr f show ?thesis
      by (cases r) (simp_all add: importManyFromGdge_def)
  qed
qed (simp add: importManyFromGdge_def)

lemma export_leaves: "leaves (\<lambda>r. same_svc svc (fst (snd r))) (exportLevelToGdge e g lk out svc d)"
proof -
  obtain rows c where l: "list_rows (e_zlib e) lk (db_conn svc) = (rows, c)" by fastforce
  have s: "same_db (db_conn svc) c" using same_db_list_rows [of "db_conn svc" "e_zlib e" lk] l by simp
  show ?thesis unfolding exportLevelToGdge_def l Let_def prod.case
    apply (rule leaves_if)
     apply (simp add: s)
    apply (rule getHead_leaves)
    apply (rule leaves_case)
     apply (simp, meson s same_db_trans)
    apply (rule leaves_case)
     apply (simp, meson s same_db_trans)
    apply (rule after_reconstruct_leaves)
    apply (rule leaves_case)
     apply (simp, meson s same_db_trans)
    apply (simp add: split_beta, meson s same_db_trans)
    done
qed

section \<open>Any call of the service\<close>

text \<open>The levels a call works on; a new message works on the level of its commit.\<close>

fun call_levels :: "git_call \<Rightarrow> db \<Rightarrow> level_key set" where
  "call_levels (G_Commit now lk msg live ds) d = {lk}"
| "call_levels (G_Checkout now lk i) d = {lk}"
| "call_levels (G_Revert now lk i) d = {lk}"
| "call_levels (G_Squash now lk ids msg) d = {lk}"
| "call_levels (G_Import dest src) d = {dest}"
| "call_levels (G_Delete lk) d = {lk}"
| "call_levels (G_Message i msg) d = (case fmlookup (commits d) i of None \<Rightarrow> {} | Some r \<Rightarrow> {r_level r})"
| "call_levels (G_ImportMany g now dest paths fs) d = {dest}"
| "call_levels _ d = {}"

lemma svc_leaves: "leaves (svc_framed K svc) r \<Longrightarrow> map_option snd r = Some svc' \<Longrightarrow> framed K (db_conn svc) (db_conn svc')"
  by (cases r) (auto simp: svc_framed_def)

lemma git_step_framed:
  assumes e: "env_ok e" and live: "live_svc e svc" and run: "git_step e k svc = Some svc'"
  shows "framed (call_levels k (cdb (db_conn svc))) (db_conn svc) (db_conn svc')"
proof (cases k)
  case (G_Delete lk)
  obtain r c where "deleteLevel lk (db_conn svc) = (r, c)" by fastforce
  from this delete_framed [OF this] run G_Delete show ?thesis by (auto simp: delete_level_def Let_def)
next
  case (G_Message i msg)
  obtain r c where u: "updateMessage i msg (db_conn svc) = (r, c)" by fastforce
  from message_framed [OF u, of "call_levels k (cdb (db_conn svc))"] u run G_Message show ?thesis
    by (auto simp: updateCommitMessage_def)
next
  case (G_Reconstruct i)
  with run reconstruct_same framed_same show ?thesis by fastforce
next
  case (G_Export g lk outPath d)
  with run obtain r d' where "exportLevelToGdge e g lk outPath svc d = Some (r, svc', d')" by auto
  from leavesD [OF export_leaves this] show ?thesis by (simp add: framed_same)
next
  case (G_ImportMany g now dest inPaths d)
  with run obtain r d' where "importManyFromGdge e g now dest inPaths svc d = Some (r, svc', d')" by auto
  from leavesD [OF importMany_framed this] G_ImportMany show ?thesis by simp
next
  case (G_Restart n fs)
  from live have ok: "svc_ok e svc" and m: "meta_version (cdb (db_conn svc)) = Some ''5''" by (simp_all add: live_svc_def)
  from run G_Restart restarted_value [OF ok] restarted_same [OF ok m] show ?thesis by (auto simp: framed_def)
next
  case (G_Commit now lk msg live ds)
  with run svc_leaves [OF commit_framed] show ?thesis by (metis git_step.simps(1) call_levels.simps(1))
next
  case (G_Checkout now lk i)
  with run svc_leaves [OF checkout_framed] show ?thesis by (metis git_step.simps(2) call_levels.simps(2))
next
  case (G_Revert now lk i)
  with run svc_leaves [OF revert_framed] show ?thesis by (metis git_step.simps(3) call_levels.simps(3))
next
  case (G_Squash now lk ids msg)
  with run svc_leaves [OF git_squash_framed] show ?thesis by (metis git_step.simps(4) call_levels.simps(4))
next
  case (G_Import dest src)
  with run svc_leaves [OF importLevel_framed [OF e]] show ?thesis by (metis git_step.simps(5) call_levels.simps(5))
next
  case G_ClearCache
  with run show ?thesis by auto
qed

text \<open>The history of a level as the user sees it: HEAD, and its commits with all they hold.\<close>

definition level_history :: "db \<Rightarrow> level_key \<Rightarrow> commit_id option \<times> (commit_id \<Rightarrow> (commit_id option \<times> string \<times> int \<times> string) option)" where
  "level_history d lk =
     (fmlookup (refs d) lk,
      \<lambda>i. case fmlookup (commits d) i of
        None \<Rightarrow> None
      | Some r \<Rightarrow> if c_str (r_level r) = c_str lk then Some (r_parent r, r_message r, r_created r, r_blob r) else None)"

lemma outside_history:
  assumes "outside K d' = outside K d" and "\<not> inside K lk"
  shows "level_history d' lk = level_history d lk"
proof -
  have shrink: "level_history x lk = (fst (outside K x) lk, \<lambda>i. case snd (outside K x) i of
      None \<Rightarrow> None | Some r \<Rightarrow> if c_str (r_level r) = c_str lk then Some (r_parent r, r_message r, r_created r, r_blob r) else None)" for x
  proof -
    have key: "\<not> inside K (r_level r)" if "c_str (r_level r) = c_str lk" for r using inside_str [OF that] assms(2) by blast
    show ?thesis using assms(2) key by (auto simp: level_history_def outside_def fun_eq_iff split: option.split)
  qed
  show ?thesis by (simp only: shrink [of d'] shrink [of d] assms(1))
qed

lemma framed_history:
  assumes "framed K c c'" and "saved c = None" and "fk_on c" and "\<not> inside K lk"
  shows "level_history (cdb c') lk = level_history (cdb c) lk"
proof -
  have "outside K (cdb c') = outside K (cdb c)" using assms(1-3) by (simp add: framed_def)
  from outside_history [OF this assms(4)] show ?thesis .
qed

lemma history_at_level: "level_history d' lk = level_history d lk \<Longrightarrow> at_level d' lk i = at_level d lk i"
proof -
  assume h: "level_history d' lk = level_history d lk"
  have "at_level x lk i = (snd (level_history x lk) i \<noteq> None)" for x
    by (auto simp: level_history_def at_level_def split: option.splits)
  with h show ?thesis by simp
qed

end
