(* ===== verification/Life_Props.thy ===== *)
theory Life_Props
  imports Service_Frame Service_Props
begin

text \<open>
  Properties of whole program lives (\<open>src/service/GitService.cpp\<close>, \<open>src/store/CommitStore.cpp\<close>):
  what was committed can be brought back, over any operations and restarts in between.
\<close>

section \<open>A committed level comes back\<close>

lemma identify_renames:
  assumes e: "env_ok e" and run: "identify e h live ds = Some (st, ds')" and fresh: "fresh_draws ds {}"
    and prev: "\<And>s. h = Some s \<Longrightarrow> fresh_draws ds (prev_ids s)"
  shows "\<exists>f. renames f (objects (parseLevelString live)) (objects st) \<and>
    header st = header (parseLevelString live) \<and> rawHeader st = rawHeader (parseLevelString live)"
proof -
  let ?in = "parseLevelString live"
  have ord: "enumerates (e_objects e (objects ?in)) (objects ?in)" using e by (simp add: env_ok_def hash_order_def)
  show ?thesis
  proof (cases h)
    case None
    with run have "assignFreshUuids (e_objects e (objects ?in)) ?in ds = Some (st, ds')" by (simp add: identify_def Let_def)
    from assignFresh_renames [OF this ord fresh] show ?thesis by blast
  next
    case (Some s)
    with run obtain sts where "assignUuids (e_oob e) (e_objects e (objects ?in)) s ?in ds = Some (st, ds', sts)"
      by (auto simp: identify_def Let_def split: option.splits)
    from assignUuids_renames [OF this ord prev [OF Some]] show ?thesis by blast
  qed
qed

text \<open>
  C4. What was committed comes back: when a commit of an editor's level succeeded (and the
  random numbers it drew were new), then after any number of further calls on the service,
  with SQLite failing at any point, and any restarts of the program, as long as the commit is
  still in the history, a checkout of it that succeeds gives a level with exactly the header
  and the objects of the committed level string (every object once, under a new identifier,
  and up to empty field values).
\<close>

theorem committed_level_restored:
  assumes "git_reach e svc" and "env_ok e"
    and "git_commit e now lk msg live ds svc = Some (Inr i, svc1)"
    and "fresh_draws ds {}"
    and "\<And>h s. fmlookup (refs (cdb (db_conn svc))) lk = Some h \<Longrightarrow> yields (db_view e (cdb (db_conn svc))) h s \<Longrightarrow>
      fresh_draws ds (prev_ids s)"
    and "git_calls e ks svc1 = Some svc2"
    and "fmlookup (commits (cdb (db_conn svc2))) i \<noteq> None"
    and "prepareCheckout e lk' i svc2 = Some (p, svc3)" and "outcome p = Inr st"
  shows "\<exists>f t. renames f (objects (parseLevelString live)) (objects t) \<and>
    header t = header (parseLevelString live) \<and> rawHeader t = rawHeader (parseLevelString live) \<and>
    norm_state st = norm_state t"
proof -
  have live: "live_svc e svc" by (rule git_reach_live [OF assms(1,2)])
  then have ok: "svc_ok e svc" by (simp add: live_svc_def)
  from git_commit_ok [OF assms(2) ok assms(3)] obtain parent h incoming ds' where
    id: "identify e h live ds = Some (incoming, ds')"
    and h: "parent = None \<and> h = None \<or> (\<exists>p s. parent = Some p \<and> h = Some s \<and>
      fmlookup (refs (cdb (db_conn svc))) lk = Some p \<and> yields (db_view e (cdb (db_conn svc))) p s)"
    and ad: "commit_added e (cdb (db_conn svc)) lk parent i incoming (cdb (db_conn svc1))" by auto
  have "fresh_draws ds (prev_ids s)" if "h = Some s" for s using h that assms(5) by auto
  from identify_renames [OF assms(2) id assms(4) this] obtain f where f: "renames f (objects (parseLevelString live)) (objects incoming)"
    "header incoming = header (parseLevelString live)" "rawHeader incoming = rawHeader (parseLevelString live)" by blast
  have y: "yields (db_view e (cdb (db_conn svc1))) i incoming" using ad by (simp add: commit_added_def)
  have "git_step e (G_Commit now lk msg live ds) svc = Some svc1" using assms(3) by simp
  with git_step_live [OF assms(2) live] have "live_svc e svc1" by blast
  from git_calls_kept [OF assms(6,2) this] have ok2: "svc_ok e svc2"
    and kept: "kept e (cdb (db_conn svc1)) (cdb (db_conn svc2))" by (simp_all add: live_svc_def)
  have "yields (db_view e (cdb (db_conn svc2))) i incoming" using kept y assms(7) unfolding kept_def by blast
  moreover have "yields (db_view e (cdb (db_conn svc2))) i st"
    using prepareCheckout_ok [OF ok2 assms(8)] assms(7,9) by (simp add: prepares_def state_of_def)
  ultimately have "norm_state st = norm_state incoming" by (blast dest: yields_det)
  with f show ?thesis by blast
qed

text \<open>The first commit of a level, brought back after a second one, a restart and a new message.\<close>

definition first_commit :: git_call where
  "first_commit = G_Commit 10 ''L'' ''first'' ''a;1,1,2,5;'' [7]"

definition later_calls :: "git_call list" where
  "later_calls = [G_Commit 11 ''L'' ''second'' ''a;1,1,2,6;'' [8], G_Restart 4 [], G_Message 1 ''renamed'']"

theorem committed_level_restored_witness:
  "\<exists>svc1 svc2 p svc3 st f t. git_commit sample_env 10 ''L'' ''first'' ''a;1,1,2,5;'' [7] (new_service 4 []) = Some (Inr 1, svc1) \<and>
     git_calls sample_env later_calls svc1 = Some svc2 \<and> prepareCheckout sample_env ''L'' 1 svc2 = Some (p, svc3) \<and>
     outcome p = Inr st \<and> renames f (objects (parseLevelString ''a;1,1,2,5;'')) (objects t) \<and>
     header t = header (parseLevelString ''a;1,1,2,5;'') \<and> rawHeader t = rawHeader (parseLevelString ''a;1,1,2,5;'') \<and>
     norm_state st = norm_state t"
proof -
  have run: "case git_commit sample_env 10 ''L'' ''first'' ''a;1,1,2,5;'' [7] (new_service 4 []) of
      None \<Rightarrow> False
    | Some (r, svc1) \<Rightarrow> r = Inr 1 \<and> (case git_calls sample_env later_calls svc1 of
          None \<Rightarrow> False
        | Some svc2 \<Rightarrow> fmlookup (commits (cdb (db_conn svc2))) 1 \<noteq> None \<and> (case prepareCheckout sample_env ''L'' 1 svc2 of
            None \<Rightarrow> False | Some (p, svc3) \<Rightarrow> (case outcome p of Inl err \<Rightarrow> False | Inr st \<Rightarrow> True)))" by code_simp
  then obtain svc1 where c: "git_commit sample_env 10 ''L'' ''first'' ''a;1,1,2,5;'' [7] (new_service 4 []) = Some (Inr 1, svc1)"
    by (cases "git_commit sample_env 10 ''L'' ''first'' ''a;1,1,2,5;'' [7] (new_service 4 [])") auto
  with run obtain svc2 where k: "git_calls sample_env later_calls svc1 = Some svc2" by (cases "git_calls sample_env later_calls svc1") auto
  with run c have i: "fmlookup (commits (cdb (db_conn svc2))) 1 \<noteq> None" by simp
  from run c k obtain p svc3 where p: "prepareCheckout sample_env ''L'' 1 svc2 = Some (p, svc3)"
    by (cases "prepareCheckout sample_env ''L'' 1 svc2") auto
  with run c k obtain st where st: "outcome p = Inr st" by (cases "outcome p") auto
  have "fmlookup (refs (cdb (db_conn (new_service 4 [])))) ''L'' = None" by code_simp
  then show ?thesis
    using committed_level_restored [OF git_reach.start sample_env_ok c _ _ k i p st] c k p st by (fastforce simp: fresh_draws_def)
qed

section \<open>Levels stay apart\<close>

text \<open>
  C15. The typing of the history graph: in every state the service reaches, over SQLite failing
  at any point and any restarts, the HEAD of a level is a commit of that level, the parent of
  a commit is a commit of the same level (levels are compared as the C strings SQLite
  compares), no commit is its own ancestor, the database is marked with the current schema,
  and every state in the cache has its objects filed under their own identifiers.
\<close>

theorem history_well_typed:
  assumes "git_reach e svc" and "env_ok e"
  defines "d \<equiv> cdb (db_conn svc)"
  shows "(\<forall>lk h. fmlookup (refs d) lk = Some h \<longrightarrow> at_level d lk h) \<and>
    (\<forall>i r p. fmlookup (commits d) i = Some r \<longrightarrow> r_parent r = Some p \<longrightarrow> at_level d (r_level r) p) \<and>
    acyclic {(p, i). \<exists>r. fmlookup (commits d) i = Some r \<and> r_parent r = Some p} \<and>
    meta_version d = Some ''5'' \<and>
    (\<forall>i s. cacheGet i svc = Some s \<longrightarrow> keyed s)"
proof -
  from git_reach_live [OF assms(1,2)] have l: "svc_ok e svc" "levels_ok d" "meta_version d = Some ''5''"
    by (simp_all add: live_svc_def d_def)
  from svc_ranked [OF l(1)] l(2) obtain rk where "ranked rk d" by (auto simp: d_def)
  then have "{(p, i). \<exists>r. fmlookup (commits d) i = Some r \<and> r_parent r = Some p} \<subseteq> measure rk" by (auto simp: ranked_def)
  then have "acyclic {(p, i). \<exists>r. fmlookup (commits d) i = Some r \<and> r_parent r = Some p}" by (rule wf_acyclic [OF wf_subset [OF wf_measure]])
  moreover have "keyed s" if "cacheGet i svc = Some s" for i s
    using l(1) that memo.faithful_get [of "good_state e (cdb (db_conn svc))" svc i s] by (simp add: svc_ok_def good_state_def)
  ultimately show ?thesis using l(2,3) unfolding levels_ok_def by blast
qed

theorem history_well_typed_witness:
  "at_level (cdb (db_conn sample_svc)) ''L'' 2"
  using history_well_typed [OF sample_reach sample_env_ok] sample_facts(1) by blast

section \<open>Levels are isolated\<close>



end
