(* ===== verification/Auto_Harness.thy ===== *)
theory Auto_Harness
  imports Service_Frame Change_Text
begin

text \<open>
  The automated tests the program ships and runs on the user's own store: the report and the
  helpers of \<open>src/test/AutomatedTestHarness.cpp\<close> and \<open>AutomatedTestRunner.hpp\<close>, as actions on
  a service, a disk and a report.
\<close>

section \<open>The report\<close>

text \<open>
  An error stands for its text in the report; \<open>OrFailed\<close> for the text or, if that is empty, the
  word put in by \<open>failDetail\<close>.
\<close>

datatype test_detail = Plain string | OfError flow_error | OrFailed flow_error

definition failDetail :: "string \<Rightarrow> string" where
  "failDetail text = (if text = [] then ''failed'' else text)"

record test_row =
  tr_suite :: string
  tr_name :: string
  tr_status :: string
  tr_detail :: test_detail
  elapsedMs :: string

record test_summary =
  passCount :: int
  failCount :: int
  skipCount :: int
  reportText :: string
  actionLog :: "string list"
  test_rows :: "test_row list"

definition empty_summary :: test_summary where
  "empty_summary = \<lparr>passCount = 0, failCount = 0, skipCount = 0, reportText = [], actionLog = [], test_rows = []\<rparr>"

definition log_action :: "string \<Rightarrow> string \<Rightarrow> test_summary \<Rightarrow> test_summary" where
  "log_action suite text out = out\<lparr>actionLog := actionLog out @ [''['' @ suite @ ''] '' @ text]\<rparr>"

definition push_row :: "string \<Rightarrow> string \<Rightarrow> string \<Rightarrow> test_detail \<Rightarrow> string \<Rightarrow> test_summary \<Rightarrow> test_summary" where
  "push_row suite name status detail ms out =
     out\<lparr>test_rows := test_rows out @ [\<lparr>tr_suite = suite, tr_name = name, tr_status = status, tr_detail = detail, elapsedMs = ms\<rparr>]\<rparr>"

definition row_pass :: "string \<Rightarrow> string \<Rightarrow> test_detail \<Rightarrow> string \<Rightarrow> test_summary \<Rightarrow> test_summary" where
  "row_pass suite name detail ms out =
     (let out1 = push_row suite name ''PASS'' detail ms out in out1\<lparr>passCount := passCount out1 + 1\<rparr>)"

definition row_fail :: "string \<Rightarrow> string \<Rightarrow> test_detail \<Rightarrow> string \<Rightarrow> test_summary \<Rightarrow> test_summary" where
  "row_fail suite name detail ms out =
     (let out1 = push_row suite name ''FAIL'' detail ms out in out1\<lparr>failCount := failCount out1 + 1\<rparr>)"

definition row_skip :: "string \<Rightarrow> string \<Rightarrow> test_detail \<Rightarrow> string \<Rightarrow> test_summary \<Rightarrow> test_summary" where
  "row_skip suite name detail ms out =
     (let out1 = push_row suite name ''SKIP'' detail ms out in out1\<lparr>skipCount := skipCount out1 + 1\<rparr>)"

text \<open>\<open>formatReport\<close>: a heading, the log, the rows with a title before each run of a suite.\<close>

fun report_rows :: "(flow_error \<Rightarrow> string) \<Rightarrow> string \<Rightarrow> test_row list \<Rightarrow> string" where
  "report_rows err lastSuite [] = []"
| "report_rows err lastSuite (r # rs) =
     (if tr_suite r \<noteq> lastSuite then ''--- '' @ tr_suite r @ '' ---'' @ [CHR 0x0A] else []) @
     tr_status r @ '' | '' @ tr_name r @ '' | '' @ elapsedMs r @ '' ms'' @
     (let d = (case tr_detail r of Plain t \<Rightarrow> t | OfError x \<Rightarrow> err x | OrFailed x \<Rightarrow> failDetail (err x)) in if d = [] then [] else '' | '' @ d) @ [CHR 0x0A] @
     report_rows err (tr_suite r) rs"

definition formatReport :: "(flow_error \<Rightarrow> string) \<Rightarrow> int \<Rightarrow> string \<Rightarrow> string \<Rightarrow> test_summary \<Rightarrow> test_summary" where
  "formatReport err unixTs saveDir modId s =
     s\<lparr>reportText :=
        ''=== Git Editor automated test ==='' @ [CHR 0x0A] @
        ''timestamp_unix: '' @ int_to_string unixTs @ [CHR 0x0A] @
        ''save_dir: '' @ saveDir @ [CHR 0x0A] @
        (if modId = [] then [] else ''mod_id: '' @ modId @ [CHR 0x0A]) @
        ''summary: PASS '' @ int_to_string (passCount s) @ '' FAIL '' @ int_to_string (failCount s) @
        '' SKIP '' @ int_to_string (skipCount s) @ [CHR 0x0A, CHR 0x0A] @
        ''actions:'' @ [CHR 0x0A] @
        (if actionLog s = [] then ''(none)'' @ [CHR 0x0A] else concat (map (\<lambda>l. l @ [CHR 0x0A]) (actionLog s))) @ [CHR 0x0A] @
        report_rows err [] (test_rows s)\<rparr>"

section \<open>Actions\<close>

text \<open>
  What a run gets from outside: the parameters of service and packages, the random numbers and
  the clock at each call, the texts of the measured times and of the errors, and whether the
  setting for compressed exports can be reached.
\<close>

record 'j test_env =
  te_service :: "'j service_env"
  te_package :: package_env
  te_settings :: bool
  te_draws :: "nat \<Rightarrow> u64 list"
  te_now :: "nat \<Rightarrow> int"
  te_ms :: "nat \<Rightarrow> string"
  te_error :: "flow_error \<Rightarrow> string"
  te_unix :: int
  te_saveDir :: string
  te_modId :: string
  te_dbPath :: string
  te_dbExists :: bool
  te_mkdir :: "string \<Rightarrow> string option"
  te_seedText :: string
  te_seedMs :: rat
  te_hotMs :: rat

record tstate =
  t_svc :: service
  t_disk :: disk
  t_report :: test_summary
  t_calls :: nat
  t_compress :: bool

text \<open>
  An action gives a value, or ends the suite by an early \<open>return\<close> (an inner \<open>None\<close>), or never
  returns (an outer \<open>None\<close>).
\<close>

type_synonym 'a test = "tstate \<Rightarrow> ('a option \<times> tstate) option"

definition t_return :: "'a \<Rightarrow> 'a test" where
  "t_return x s = Some (Some x, s)"

definition t_stop :: "'a test" where
  "t_stop s = Some (None, s)"

definition t_bind :: "'a test \<Rightarrow> ('a \<Rightarrow> 'b test) \<Rightarrow> 'b test" where
  "t_bind m k s = (case m s of None \<Rightarrow> None | Some (None, s1) \<Rightarrow> Some (None, s1) | Some (Some x, s1) \<Rightarrow> k x s1)"

definition t_then :: "unit test \<Rightarrow> 'a test \<Rightarrow> 'a test" where
  "t_then m k = t_bind m (\<lambda>_. k)"

definition t_do :: "unit test list \<Rightarrow> 'a test \<Rightarrow> 'a test" where
  "t_do ms k = foldr t_then ms k"

text \<open>Checks that record a failure and leave the suite.\<close>

definition t_check :: "bool \<Rightarrow> unit test \<Rightarrow> 'a test \<Rightarrow> 'a test" where
  "t_check b failing k = (if b then k else t_then failing t_stop)"

definition t_some :: "'x option \<Rightarrow> unit test \<Rightarrow> ('x \<Rightarrow> 'a test) \<Rightarrow> 'a test" where
  "t_some r failing k = (case r of None \<Rightarrow> t_then failing t_stop | Some x \<Rightarrow> k x)"

definition t_right :: "'e + 'x \<Rightarrow> ('e \<Rightarrow> unit test) \<Rightarrow> ('x \<Rightarrow> 'a test) \<Rightarrow> 'a test" where
  "t_right r failing k = (case r of Inl err \<Rightarrow> t_then (failing err) t_stop | Inr x \<Rightarrow> k x)"

text \<open>A suite ends where its function returns; the runner goes on after it.\<close>

definition t_suite :: "unit test \<Rightarrow> unit test" where
  "t_suite m s = (case m s of None \<Rightarrow> None | Some (_, s1) \<Rightarrow> Some (Some (), s1))"

section \<open>Reporting\<close>

definition t_report_with :: "(test_summary \<Rightarrow> test_summary) \<Rightarrow> unit test" where
  "t_report_with f s = Some (Some (), s\<lparr>t_report := f (t_report s)\<rparr>)"

definition addAction :: "string \<Rightarrow> string \<Rightarrow> unit test" where
  "addAction suite text = t_report_with (log_action suite text)"

definition addPass :: "'j test_env \<Rightarrow> string \<Rightarrow> string \<Rightarrow> string \<Rightarrow> unit test" where
  "addPass te suite name detail = t_report_with (\<lambda>out. row_pass suite name (Plain detail) (te_ms te (length (test_rows out))) out)"

definition addFail :: "'j test_env \<Rightarrow> string \<Rightarrow> string \<Rightarrow> test_detail \<Rightarrow> unit test" where
  "addFail te suite name detail = t_report_with (\<lambda>out. row_fail suite name detail (te_ms te (length (test_rows out))) out)"

definition addSkip :: "'j test_env \<Rightarrow> string \<Rightarrow> string \<Rightarrow> test_detail \<Rightarrow> unit test" where
  "addSkip te suite name detail = t_report_with (\<lambda>out. row_skip suite name detail (te_ms te (length (test_rows out))) out)"

definition failText :: "'j test_env \<Rightarrow> string \<Rightarrow> string \<Rightarrow> string \<Rightarrow> unit test" where
  "failText te suite name text = addFail te suite name (Plain text)"

definition failGit :: "'j test_env \<Rightarrow> string \<Rightarrow> string \<Rightarrow> git_error \<Rightarrow> unit test" where
  "failGit te suite name err = addFail te suite name (OfError (FlowGit err))"

section \<open>Calls of the store\<close>

text \<open>The tests call the store directly as well, past the cache of the service.\<close>

definition t_store :: "(conn \<Rightarrow> 'r \<times> conn) \<Rightarrow> 'r test" where
  "t_store f s = (case f (db_conn (t_svc s)) of (r, c) \<Rightarrow> Some (Some r, s\<lparr>t_svc := (t_svc s)\<lparr>db_conn := c\<rparr>\<rparr>))"

definition t_delete :: "level_key \<Rightarrow> unit test" where
  "t_delete lk = t_bind (t_store (deleteLevel lk)) (\<lambda>_. t_return ())"

definition t_head :: "level_key \<Rightarrow> commit_id option test" where
  "t_head lk = t_store (getHead lk)"

definition t_list :: "'j test_env \<Rightarrow> level_key \<Rightarrow> commit_row list test" where
  "t_list te lk = t_store (list_rows (e_zlib (te_service te)) lk)"

section \<open>Calls of the service\<close>

text \<open>Each call has its own random numbers and its own reading of the clock.\<close>

definition t_call :: "(nat \<Rightarrow> service \<Rightarrow> ('r \<times> service) option) \<Rightarrow> 'r test" where
  "t_call f s =
     (case f (t_calls s) (t_svc s) of
        None \<Rightarrow> None
      | Some (r, svc) \<Rightarrow> Some (Some r, s\<lparr>t_svc := svc, t_calls := Suc (t_calls s)\<rparr>))"

definition t_commit :: "'j test_env \<Rightarrow> level_key \<Rightarrow> string \<Rightarrow> string \<Rightarrow> (git_error + commit_id) test" where
  "t_commit te lk msg live = t_call (\<lambda>n. git_commit (te_service te) (te_now te n) lk msg live (te_draws te n))"

definition t_reconstruct :: "'j test_env \<Rightarrow> commit_id \<Rightarrow> level_state option test" where
  "t_reconstruct te i = t_call (\<lambda>n. reconstruct (te_service te) i)"

text \<open>The files are written in the form the setting asks for.\<close>

definition packages :: "'j test_env \<Rightarrow> tstate \<Rightarrow> package_env" where
  "packages te s = (te_package te)\<lparr>g_compress := t_compress s\<rparr>"

definition t_files :: "'j test_env \<Rightarrow> (package_env \<Rightarrow> nat \<Rightarrow> service \<Rightarrow> disk \<Rightarrow> ('r \<times> service \<times> disk) option) \<Rightarrow> 'r test" where
  "t_files te f s =
     (case f (packages te s) (t_calls s) (t_svc s) (t_disk s) of
        None \<Rightarrow> None
      | Some (r, svc, d) \<Rightarrow> Some (Some r, s\<lparr>t_svc := svc, t_disk := d, t_calls := Suc (t_calls s)\<rparr>))"

definition t_export :: "'j test_env \<Rightarrow> level_key \<Rightarrow> string \<Rightarrow> (gdge_error + unit) test" where
  "t_export te lk out = t_files te (\<lambda>g n. exportLevelToGdge (te_service te) g lk out)"

definition t_importMany :: "'j test_env \<Rightarrow> level_key \<Rightarrow> string list \<Rightarrow> (gdge_error + import_payload \<times> commit_id list) test" where
  "t_importMany te dest paths =
     t_files te (\<lambda>g n. importManyFromGdge (te_service te) g (\<lambda>i. te_now te (n + i)) dest paths)"

definition t_plan :: "'j test_env \<Rightarrow> level_key \<Rightarrow> string list \<Rightarrow> import_plan test" where
  "t_plan te dest paths = t_files te (\<lambda>g n. planImport (te_service te) g dest paths)"

definition t_disk_with :: "(disk \<Rightarrow> 'r \<times> disk) \<Rightarrow> 'r test" where
  "t_disk_with f s = (case f (t_disk s) of (r, d) \<Rightarrow> Some (Some r, s\<lparr>t_disk := d\<rparr>))"

section \<open>Helpers\<close>

text \<open>The setting for compressed exports, which may not be there.\<close>

definition setCompress :: "'j test_env \<Rightarrow> bool \<Rightarrow> bool test" where
  "setCompress te v s = Some (Some (te_settings te), if te_settings te then s\<lparr>t_compress := v\<rparr> else s)"

text \<open>\<open>CompressExportGuard\<close> puts the setting back at every exit of its scope.\<close>

definition with_compress_guard :: "'j test_env \<Rightarrow> (bool \<Rightarrow> bool \<Rightarrow> unit test) \<Rightarrow> unit test" where
  "with_compress_guard te body s =
     (let armed = te_settings te; prev = (if armed then t_compress s else True);
          s1 = (if armed then s\<lparr>t_compress := True\<rparr> else s)
      in case body armed prev s1 of
           None \<Rightarrow> None
         | Some (r, s2) \<Rightarrow> Some (r, if armed then s2\<lparr>t_compress := prev\<rparr> else s2))"

definition levelAt :: "int \<Rightarrow> string" where
  "levelAt x = '';1,1,2,'' @ int_to_string x @ '',3,0''"

definition levelAtFixedX :: "int \<Rightarrow> string" where
  "levelAtFixedX y = '';1,1,2,10,3,'' @ int_to_string y"

definition allTestKeys :: "level_key list" where
  "allTestKeys = map (\<lambda>k. ''__git_editor_at_'' @ k)
     [''checkout'', ''revert'', ''squash'', ''export_raw'', ''export_zip'', ''import_mix'', ''hist_src'', ''hist_dst'',
      ''collab_base'', ''collab_layout'', ''dec_a'', ''dec_b'', ''other_root'', ''adv_collab_base'', ''adv_collab_integrator'',
      ''adv_collab_alice'', ''adv_collab_bob'', ''adv_collab_scratch'', ''adv_collab_cara'', ''adv_collab_legacy'',
      ''two_phase'', ''perf'']"

definition wipeTestLevels :: "unit test" where
  "wipeTestLevels = t_do (map t_delete allTestKeys) (t_return ())"

text \<open>From the HEAD along the parents; the walk ends at a row that is missing or has none.\<close>

partial_function (option) parent_walk :: "(commit_id, commit_row) fmap \<Rightarrow> commit_id \<Rightarrow> commit_id list \<Rightarrow> commit_id list option" where
  "parent_walk byId cur newestFirst =
     (case Option.bind (fmlookup byId cur) row_parent of
        None \<Rightarrow> Some (newestFirst @ [cur])
      | Some p \<Rightarrow> parent_walk byId p (newestFirst @ [cur]))"

declare parent_walk.simps [code]

definition chainOldestToNewest :: "'j test_env \<Rightarrow> level_key \<Rightarrow> commit_id list test" where
  "chainOldestToNewest te lk =
     t_bind (t_list te lk) (\<lambda>rows.
     t_bind (t_head lk) (\<lambda>head.
       case head of
         None \<Rightarrow> t_return []
       | Some h \<Rightarrow>
           if rows = [] then t_return []
           else (\<lambda>s. case parent_walk (by_id rows) h [] of None \<Rightarrow> None | Some ids \<Rightarrow> Some (Some (rev ids), s))))"

definition readFirstBytes :: "string \<Rightarrow> nat \<Rightarrow> string test" where
  "readFirstBytes p n =
     t_bind (t_disk_with (readBinary p)) (\<lambda>r. t_return (case r of None \<Rightarrow> [] | Some bytes \<Rightarrow> take n bytes))"

definition startsWithSqlite :: "string \<Rightarrow> bool" where
  "startsWithSqlite p \<longleftrightarrow> length p \<ge> 15 \<and> take 15 p = ''SQLite format 3''"

definition startsWithPk :: "string \<Rightarrow> bool" where
  "startsWithPk p \<longleftrightarrow> length p \<ge> 2 \<and> p ! 0 = CHR 0x50 \<and> p ! 1 = CHR 0x4B"

definition addActionIf :: "string \<Rightarrow> string \<Rightarrow> unit test" where
  "addActionIf suite text = (if text = [] then t_return () else addAction suite text)"

text \<open>These record the failure of a call and end the suite, as every caller does with them.\<close>

definition requireCommit :: "'j test_env \<Rightarrow> string \<Rightarrow> string \<Rightarrow> level_key \<Rightarrow> string \<Rightarrow> string \<Rightarrow> string \<Rightarrow> unit test" where
  "requireCommit te suite failName lk msg levelData actionText =
     t_then (addActionIf suite actionText) (
     t_bind (t_commit te lk msg levelData) (\<lambda>r.
     t_right r (\<lambda>err. addFail te suite failName (OrFailed (FlowGit err))) (\<lambda>_. t_return ())))"

definition requireExport :: "'j test_env \<Rightarrow> string \<Rightarrow> string \<Rightarrow> level_key \<Rightarrow> string \<Rightarrow> string \<Rightarrow> unit test" where
  "requireExport te suite failName lk outPath actionText =
     t_then (addActionIf suite actionText) (
     t_bind (t_export te lk outPath) (\<lambda>r.
     t_right r (\<lambda>err. addFail te suite failName (OfError (FlowGdge err))) (\<lambda>_. t_return ())))"

definition requireImportMany :: "'j test_env \<Rightarrow> string \<Rightarrow> string \<Rightarrow> level_key \<Rightarrow> string list \<Rightarrow> string \<Rightarrow> import_payload test" where
  "requireImportMany te suite failName dest paths actionText =
     t_then (addActionIf suite actionText) (
     t_bind (t_importMany te dest paths) (\<lambda>r.
     t_right r (\<lambda>err. addFail te suite failName (OfError (FlowGdge err))) (\<lambda>v. t_return (fst v))))"

definition forkExport :: "'j test_env \<Rightarrow> string \<Rightarrow> level_key \<Rightarrow> string \<Rightarrow> string \<Rightarrow> int \<Rightarrow> string \<Rightarrow> unit test" where
  "forkExport te suite lk basePath outPath xField label =
     t_bind (requireImportMany te suite (label @ ''_import'') lk [basePath]
       (''importMany '' @ label @ ''<-base '' @ basePath)) (\<lambda>_.
     t_then (requireCommit te suite (label @ ''_commit'') lk (label @ ''_edit'') (levelAt xField) []) (
     requireExport te suite (label @ ''_export'') lk outPath (''export '' @ label @ '' '' @ outPath)))"

text \<open>A condition of the form \<open>!commit(..) || !commit(..)\<close>: the first failure ends it.\<close>

fun t_commits :: "'j test_env \<Rightarrow> level_key \<Rightarrow> (string \<times> string) list \<Rightarrow> bool test" where
  "t_commits te lk [] = t_return True"
| "t_commits te lk ((msg, live) # rest) =
     t_bind (t_commit te lk msg live) (\<lambda>r. case r of Inl _ \<Rightarrow> t_return False | Inr _ \<Rightarrow> t_commits te lk rest)"

text \<open>The state of the HEAD, as most suites look at it.\<close>

definition t_head_state :: "'j test_env \<Rightarrow> level_key \<Rightarrow> level_state option test" where
  "t_head_state te lk =
     t_bind (t_head lk) (\<lambda>h. case h of None \<Rightarrow> t_return None | Some i \<Rightarrow> t_reconstruct te i)"

end
