(* ===== verification/Auto_Suites.thy ===== *)
theory Auto_Suites
  imports Auto_Harness
begin

text \<open>
  The suites of \<open>src/test\<close> that work on the store alone: \<open>CheckoutTests.cpp\<close>,
  \<open>RevertTests.cpp\<close>, \<open>SquashTests.cpp\<close>, \<open>HistoryTests.cpp\<close>, \<open>CommitPerfTests.cpp\<close>,
  \<open>ManualChecklistTests.cpp\<close>, and \<open>TwoPhaseTests.cpp\<close>, which also exports and imports a file.
\<close>

section \<open>Names\<close>

definition kCheckout :: level_key where "kCheckout = ''__git_editor_at_checkout''"
definition kRevert :: level_key where "kRevert = ''__git_editor_at_revert''"
definition kSquash :: level_key where "kSquash = ''__git_editor_at_squash''"
definition kRawEx :: level_key where "kRawEx = ''__git_editor_at_export_raw''"
definition kZipEx :: level_key where "kZipEx = ''__git_editor_at_export_zip''"
definition kMix :: level_key where "kMix = ''__git_editor_at_import_mix''"
definition kHistSrc :: level_key where "kHistSrc = ''__git_editor_at_hist_src''"
definition kHistDst :: level_key where "kHistDst = ''__git_editor_at_hist_dst''"
definition kTwoPhase :: level_key where "kTwoPhase = ''__git_editor_at_two_phase''"
definition kPerf :: level_key where "kPerf = ''__git_editor_at_perf''"

lemmas store_keys = kCheckout_def kRevert_def kSquash_def kRawEx_def kZipEx_def kMix_def kHistSrc_def kHistDst_def
  kTwoPhase_def kPerf_def

definition kSuiteTwoPhase :: string where "kSuiteTwoPhase = ''TwoPhase''"
definition kSuiteCheckout :: string where "kSuiteCheckout = ''Checkout''"
definition kSuiteRevert :: string where "kSuiteRevert = ''Revert''"
definition kSuiteSquash :: string where "kSuiteSquash = ''Squash''"
definition kSuiteHistory :: string where "kSuiteHistory = ''LoadLevelHistory''"
definition kSuiteManual :: string where "kSuiteManual = ''ManualChecklist''"

definition same_hash :: "level_state option \<Rightarrow> level_state option \<Rightarrow> bool" where
  "same_hash a b = (case (a, b) of (Some s, Some t) \<Rightarrow> hashLevelState s = hashLevelState t | _ \<Rightarrow> False)"

definition id_text :: "commit_id option \<Rightarrow> string" where
  "id_text i = int_to_string (case i of None \<Rightarrow> - 1 | Some j \<Rightarrow> j)"

text \<open>Every object of a level moved to one horizontal position.\<close>

definition all_at :: "string \<Rightarrow> string \<Rightarrow> string" where
  "all_at live x =
     (let st = parseLevelString live
      in serializeLevelString (st\<lparr>objects := fmmap (\<lambda>ob. ob\<lparr>obj_fields := fmupd kX x (obj_fields ob)\<rparr>) (objects st)\<rparr>))"

section \<open>Checkout\<close>

definition t_checkout :: "'j test_env \<Rightarrow> level_key \<Rightarrow> commit_id \<Rightarrow> (git_error + level_state \<times> commit_id option) test" where
  "t_checkout te lk i = t_call (\<lambda>n. checkout (te_service te) (te_now te n) lk i)"

definition runCheckoutTests :: "'j test_env \<Rightarrow> unit test" where
  "runCheckoutTests te =
     t_do [addAction kSuiteCheckout (''deleteLevel '' @ kCheckout), t_delete kCheckout,
       addAction kSuiteCheckout ''commit at_m1 x=0''] (
     t_bind (t_commit te kCheckout ''at_m1'' (levelAt 0)) (\<lambda>a.
     t_then (addAction kSuiteCheckout ''commit at_m2 x=10'') (
     t_bind (t_commit te kCheckout ''at_m2'' (levelAt 10)) (\<lambda>b.
     t_then (addAction kSuiteCheckout ''commit at_m3 x=20'') (
     t_bind (t_commit te kCheckout ''at_m3'' (levelAt 20)) (\<lambda>c.
     let chainFailed = failText te kSuiteCheckout ''setup_three_commits'' ''commit chain failed'' in
     t_right a (\<lambda>_. chainFailed) (\<lambda>c1.
     t_right b (\<lambda>_. chainFailed) (\<lambda>c2.
     t_right c (\<lambda>_. chainFailed) (\<lambda>c3.
     t_then (addAction kSuiteCheckout (''commits c1='' @ int_to_string c1 @ '' c2='' @ int_to_string c2 @ '' c3='' @ int_to_string c3)) (
     t_bind (t_head kCheckout) (\<lambda>head0.
     t_check (head0 = Some c3) (failText te kSuiteCheckout ''head_after_three'' ''HEAD not third commit'') (
     t_do [addAction kSuiteCheckout (''HEAD c3 '' @ int_to_string c3), addAction kSuiteCheckout (''reconstruct '' @ int_to_string c3)] (
     t_bind (t_reconstruct te c3) (\<lambda>orig.
     t_some orig (failText te kSuiteCheckout ''reconstruct_c3'' ''reconstruct failed'') (\<lambda>origState.
     t_do [addAction kSuiteCheckout (''orig hash '' @ hashLevelState origState),
       addAction kSuiteCheckout (''checkout to c1 '' @ int_to_string c1)] (
     t_bind (t_checkout te kCheckout c1) (\<lambda>co1.
     t_right co1 (failGit te kSuiteCheckout ''checkout_to_c1'') (\<lambda>_.
     t_bind (t_head kCheckout) (\<lambda>head1.
     let notMoved = failText te kSuiteCheckout ''head_after_checkout1'' ''HEAD did not move'' in
     t_some head1 notMoved (\<lambda>h1.
     t_check (h1 \<noteq> c3) notMoved (
     t_then (addAction kSuiteCheckout (''HEAD after checkout1 '' @ int_to_string h1)) (
     t_bind (t_reconstruct te h1) (\<lambda>st1.
     t_bind (t_reconstruct te c1) (\<lambda>c1State.
     t_check (same_hash st1 c1State) (failText te kSuiteCheckout ''state_after_checkout1'' ''state mismatch vs c1'') (
     t_do [addAction kSuiteCheckout ''state matches c1'', addAction kSuiteCheckout (''checkout back c3 '' @ int_to_string c3)] (
     t_bind (t_checkout te kCheckout c3) (\<lambda>co2.
     t_right co2 (failGit te kSuiteCheckout ''checkout_back_c3'') (\<lambda>_.
     t_bind (t_head kCheckout) (\<lambda>head2.
     t_some head2 (failText te kSuiteCheckout ''head_after_checkout2'' ''no HEAD'') (\<lambda>h2.
     t_then (addAction kSuiteCheckout (''HEAD after checkout2 '' @ int_to_string h2)) (
     t_bind (t_reconstruct te h2) (\<lambda>finalSt.
     let drift = failText te kSuiteCheckout ''double_checkout_state'' ''final state drift vs original HEAD'' in
     t_some finalSt drift (\<lambda>finalState.
     t_check (hashLevelState finalState = hashLevelState origState) drift (
     t_then (addAction kSuiteCheckout (''final hash '' @ hashLevelState finalState)) (
     t_bind (t_list te kCheckout) (\<lambda>rows.
     t_check (\<exists>r \<in> set rows. row_id r = c3) (failText te kSuiteCheckout ''chain_keeps_c3'' ''c3 missing from store list'') (
     t_do [addAction kSuiteCheckout ''list retains c3'',
       addPass te kSuiteCheckout ''double_checkout'' ''HEAD chain and reconstruction OK''] (t_return ()))))))))))))))))))))))))))))))))))))))"

section \<open>Revert\<close>

definition t_revert :: "'j test_env \<Rightarrow> level_key \<Rightarrow> commit_id \<Rightarrow> (git_error + revert_payload \<times> commit_id option) test" where
  "t_revert te lk i = t_call (\<lambda>n. revert (te_service te) (te_now te n) lk i)"

definition revert_chain_part :: "'j test_env \<Rightarrow> unit test" where
  "revert_chain_part te =
     t_do [addAction kSuiteRevert (''deleteLevel '' @ kRevert), t_delete kRevert, addAction kSuiteRevert ''commit r1 r2 r3 r4''] (
     t_bind (t_commits te kRevert [(''r1'', levelAt 0), (''r2'', levelAt 10), (''r3'', levelAtFixedX 20), (''r4'', levelAtFixedX 30)]) (\<lambda>ok.
     t_check ok (failText te kSuiteRevert ''setup_four'' ''commit failed'') (
     t_then (addAction kSuiteRevert ''chainOldestToNewest'') (
     t_bind (chainOldestToNewest te kRevert) (\<lambda>chain.
     t_check (length chain = 4) (failText te kSuiteRevert ''chain_len'' (''expected 4 commits got '' @ nat_to_string (length chain))) (
     let c2 = chain ! 1; c3 = chain ! 2; c4 = chain ! 3 in
     t_do [addAction kSuiteRevert (''commits c2='' @ int_to_string c2 @ '' c3='' @ int_to_string c3 @ '' c4='' @ int_to_string c4),
       addAction kSuiteRevert (''revert target c2 '' @ int_to_string c2)] (
     t_bind (t_revert te kRevert c2) (\<lambda>rev1.
     t_right rev1 (failGit te kSuiteRevert ''revert_middle'') (\<lambda>v1.
     let conflicts = rp_conflicts (fst v1) in
     t_check (conflicts = []) (failText te kSuiteRevert ''revert_no_conflict_expected''
         (''unexpected conflicts '' @ nat_to_string (length conflicts))) (
     t_then (addAction kSuiteRevert (''revert revertCommit ok conflicts '' @ nat_to_string (length conflicts))) (
     t_bind (t_list te kRevert) (\<lambda>rowsAfter.
     t_check ((\<exists>r \<in> set rowsAfter. row_id r = c3) \<and> (\<exists>r \<in> set rowsAfter. row_id r = c4))
       (failText te kSuiteRevert ''later_intact'' ''c3 or c4 missing after revert'') (
     t_then (addAction kSuiteRevert ''c3 c4 still in list'') (
     t_bind (t_head kRevert) (\<lambda>headAfterRev.
     t_some headAfterRev (failText te kSuiteRevert ''head_after_revert'' ''no HEAD'') (\<lambda>h.
     t_do [addAction kSuiteRevert (''HEAD after revert '' @ int_to_string h), addAction kSuiteRevert (''revert HEAD '' @ int_to_string h)] (
     t_bind (t_revert te kRevert h) (\<lambda>rev2.
     t_right rev2 (failGit te kSuiteRevert ''revert_revert'') (\<lambda>_.
     t_do [addAction kSuiteRevert ''double revert OK'',
       addPass te kSuiteRevert ''revert_chain'' ''middle revert and double-revert OK''] (t_return ()))))))))))))))))))))"

definition revert_conflict_part :: "'j test_env \<Rightarrow> unit test" where
  "revert_conflict_part te =
     t_do [addAction kSuiteRevert ''revert with conflicts branch'', t_delete kRevert] (
     t_bind (t_commits te kRevert [(''cf1'', levelAt 0), (''cf2'', levelAt 10)]) (\<lambda>ok12.
     t_check ok12 (failText te kSuiteRevert ''conflict_setup_12'' ''commit failed'') (
     t_bind (t_commits te kRevert [(''cf3'', all_at (levelAt 10) ''50''), (''cf4'', levelAtFixedX 30)]) (\<lambda>ok34.
     t_check ok34 (failText te kSuiteRevert ''conflict_setup_34'' ''commit failed'') (
     t_bind (chainOldestToNewest te kRevert) (\<lambda>cfChain.
     t_check (length cfChain = 4) (failText te kSuiteRevert ''conflict_chain_len'' (''got '' @ nat_to_string (length cfChain))) (
     let cf2 = cfChain ! 1 in
     t_then (addAction kSuiteRevert (''revert cf2 '' @ int_to_string cf2 @ '' expecting conflicts'')) (
     t_bind (t_revert te kRevert cf2) (\<lambda>revCf.
     t_right revCf (failGit te kSuiteRevert ''revert_with_conflicts'') (\<lambda>v.
     t_check (rp_conflicts (fst v) \<noteq> []) (failText te kSuiteRevert ''revert_with_conflicts''
         ''expected non-empty conflicts for overlapping field edits'') (
     addPass te kSuiteRevert ''revert_conflicts'' (nat_to_string (length (rp_conflicts (fst v))) @ '' conflicts''))))))))))))"

definition runRevertTests :: "'j test_env \<Rightarrow> unit test" where
  "runRevertTests te = t_then (revert_chain_part te) (revert_conflict_part te)"

section \<open>Squash\<close>

definition t_squash :: "'j test_env \<Rightarrow> level_key \<Rightarrow> commit_id list \<Rightarrow> string \<Rightarrow> (git_error + level_state \<times> commit_id option) test" where
  "t_squash te lk ids msg = t_call (\<lambda>n. git_squash (te_service te) (te_now te n) lk ids msg)"

definition squash_range_part :: "'j test_env \<Rightarrow> unit test" where
  "squash_range_part te =
     t_do [addAction kSuiteSquash (''deleteLevel '' @ kSquash), t_delete kSquash, addAction kSuiteSquash ''commit s1 s2 s3 s4''] (
     t_bind (t_commits te kSquash [(''s1'', levelAt 0), (''s2'', levelAt 10), (''s3'', levelAt 20), (''s4'', levelAt 30)]) (\<lambda>ok.
     t_check ok (failText te kSuiteSquash ''setup_four'' ''commit failed'') (
     t_bind (chainOldestToNewest te kSquash) (\<lambda>chain.
     t_check (length chain = 4) (failText te kSuiteSquash ''chain_len'' (''got '' @ nat_to_string (length chain))) (
     let c2 = chain ! 1; c3 = chain ! 2 in
     t_then (addAction kSuiteSquash (''chain '' @ nat_to_string (length chain) @ '' commits c2='' @ int_to_string c2 @ '' c3='' @ int_to_string c3)) (
     t_bind (t_head_state te kSquash) (\<lambda>reconHeadBefore.
     t_some reconHeadBefore (failText te kSuiteSquash ''recon_before'' ''reconstruct HEAD failed'') (\<lambda>before.
     t_do [addAction kSuiteSquash (''HEAD before squash hash '' @ hashLevelState before),
       addAction kSuiteSquash (''squash range c2 '' @ int_to_string c2 @ '' c3 '' @ int_to_string c3 @ '' msg TEST_SQUASH_RANGE'')] (
     t_bind (t_squash te kSquash [c2, c3] ''TEST_SQUASH_RANGE'') (\<lambda>sq.
     t_right sq (failGit te kSuiteSquash ''squash_range'') (\<lambda>_.
     t_bind (t_list te kSquash) (\<lambda>rows1.
     t_check (\<exists>r \<in> set rows1. row_message r = ''TEST_SQUASH_RANGE'')
       (failText te kSuiteSquash ''find_squash_row'' ''squash commit not found'') (
     t_then (addAction kSuiteSquash ''squash commit row TEST_SQUASH_RANGE found'') (
     t_bind (chainOldestToNewest te kSquash) (\<lambda>chainAfterRange.
     t_check (length chainAfterRange = 3) (failText te kSuiteSquash ''count_after_range_squash''
         (''expected 3 got '' @ nat_to_string (length chainAfterRange))) (
     t_then (addAction kSuiteSquash (''chain after range len '' @ nat_to_string (length chainAfterRange))) (
     t_bind (t_head_state te kSquash) (\<lambda>reconAfterRange.
     t_check (same_hash reconAfterRange (Some before)) (failText te kSuiteSquash ''state_after_range_squash''
         ''HEAD state drift after range squash'') (
     t_then (addAction kSuiteSquash ''HEAD state stable after range squash'') (
     t_bind (t_list te kSquash) (\<lambda>rows2.
     let squashRangeId = (case find (\<lambda>r. row_message r = ''TEST_SQUASH_RANGE'') rows2 of None \<Rightarrow> 0 | Some r \<Rightarrow> row_id r) in
     t_check (squashRangeId \<noteq> 0) (failText te kSuiteSquash ''squash_range_id'' ''squash commit id not found'') (
     t_then (addAction kSuiteSquash (''revert squash commit '' @ int_to_string squashRangeId)) (
     t_bind (t_revert te kSquash squashRangeId) (\<lambda>revSq.
     t_right revSq (failGit te kSuiteSquash ''revert_range_squash'') (\<lambda>_.
     addAction kSuiteSquash ''revert range squash OK'')))))))))))))))))))))))))"

definition squash_all_part :: "'j test_env \<Rightarrow> unit test" where
  "squash_all_part te =
     t_do [addAction kSuiteSquash (''deleteLevel reset '' @ kSquash), t_delete kSquash,
       addAction kSuiteSquash ''commit t1 t2 t3 for squash all''] (
     t_bind (t_commits te kSquash [(''t1'', levelAt 0), (''t2'', levelAt 11), (''t3'', levelAt 22)]) (\<lambda>ok.
     t_check ok (failText te kSuiteSquash ''setup_three_full'' ''commit failed'') (
     t_bind (chainOldestToNewest te kSquash) (\<lambda>chainB.
     t_check (length chainB = 3) (failText te kSuiteSquash ''chain_b_len'' (''got '' @ nat_to_string (length chainB))) (
     t_then (addAction kSuiteSquash (''chainB len '' @ nat_to_string (length chainB))) (
     t_bind (t_head_state te kSquash) (\<lambda>reconB.
     t_some reconB (failText te kSuiteSquash ''recon_b'' ''reconstruct failed'') (\<lambda>stateB.
     t_do [addAction kSuiteSquash (''hash before full squash '' @ hashLevelState stateB),
       addAction kSuiteSquash ''squash all chainB msg TEST_SQUASH_ALL''] (
     t_bind (t_squash te kSquash chainB ''TEST_SQUASH_ALL'') (\<lambda>sqFull.
     t_right sqFull (failGit te kSuiteSquash ''squash_all'') (\<lambda>_.
     t_bind (chainOldestToNewest te kSquash) (\<lambda>chain3.
     t_check (length chain3 = 1) (failText te kSuiteSquash ''count_after_full_squash'' (''expected 1 got '' @ nat_to_string (length chain3))) (
     t_bind (t_head kSquash) (\<lambda>headOne.
     t_bind (case headOne of None \<Rightarrow> t_return None | Some i \<Rightarrow> t_reconstruct te i) (\<lambda>reconOne.
     t_check (same_hash reconOne (Some stateB)) (failText te kSuiteSquash ''full_squash_state''
         ''squashed-all state != HEAD hash before squash-all'') (
     t_do [addAction kSuiteSquash (''full squash single head '' @ id_text headOne @ '' hash match''),
       addPass te kSuiteSquash ''squash_chain'' ''range squash stable, revert range squash ok, full squash matches HEAD hash'']
       (t_return ())))))))))))))))))"

definition runSquashTests :: "'j test_env \<Rightarrow> unit test" where
  "runSquashTests te = t_then (squash_range_part te) (squash_all_part te)"

section \<open>Taking over a history\<close>

definition t_importLevel :: "'j test_env \<Rightarrow> level_key \<Rightarrow> level_key \<Rightarrow> (git_error + level_state) test" where
  "t_importLevel te dest src = t_call (\<lambda>n. importLevelFrom (te_service te) dest src)"

definition t_summaries :: "'j test_env \<Rightarrow> level_key \<Rightarrow> commit_summary list test" where
  "t_summaries te lk = t_bind (t_store (listSummaryRows lk)) (\<lambda>rows. t_return (buildCommitSummaries (te_service te) rows))"

text \<open>The first index at which the messages differ.\<close>

fun first_other :: "nat \<Rightarrow> commit_summary list \<Rightarrow> commit_summary list \<Rightarrow> nat option" where
  "first_other i (a # as) (b # bs) = (if cs_message a \<noteq> cs_message b then Some i else first_other (Suc i) as bs)"
| "first_other i _ _ = None"

definition runHistoryCopyTest :: "'j test_env \<Rightarrow> unit test" where
  "runHistoryCopyTest te =
     t_do [addAction kSuiteHistory (''deleteLevel '' @ kHistSrc @ '' '' @ kHistDst), t_delete kHistSrc, t_delete kHistDst,
       addAction kSuiteHistory ''commit kHistSrc h1 h2 h3'',
       requireCommit te kSuiteHistory ''setup_src'' kHistSrc ''h1'' (levelAt 0) [],
       requireCommit te kSuiteHistory ''setup_src'' kHistSrc ''h2'' (levelAt 5) [],
       requireCommit te kSuiteHistory ''setup_src'' kHistSrc ''h3'' (levelAt 9) [],
       addAction kSuiteHistory ''commit kHistDst d0'',
       requireCommit te kSuiteHistory ''setup_dst'' kHistDst ''d0'' (levelAt 99) [],
       addAction kSuiteHistory ''importLevelFrom dst <- src''] (
     t_bind (t_importLevel te kHistDst kHistSrc) (\<lambda>imp.
     t_right imp (failGit te kSuiteHistory ''import_level_from'') (\<lambda>_.
     t_bind (t_summaries te kHistSrc) (\<lambda>srcS.
     t_bind (t_summaries te kHistDst) (\<lambda>dstS.
     let sizes = ''src '' @ nat_to_string (length srcS) @ '' dst '' @ nat_to_string (length dstS) in
     t_then (addAction kSuiteHistory (''listSummaries '' @ sizes)) (
     t_check (length srcS = length dstS) (failText te kSuiteHistory ''summary_count'' sizes) (
     t_then (addAction kSuiteHistory ''compare message order'') (
       case first_other 0 srcS dstS of
         Some i \<Rightarrow> t_then (failText te kSuiteHistory ''message_order'' (''index '' @ nat_to_string i)) t_stop
       | None \<Rightarrow> addPass te kSuiteHistory ''replace_history'' ''messages and count match''))))))))"

section \<open>Performance\<close>

definition buildHomogeneousLevel :: "nat \<Rightarrow> string" where
  "buildHomogeneousLevel objectCount =
     ''1,1,2,0,3,0'' @ concat (map (\<lambda>i. '';1,1,2,'' @ nat_to_string (i mod 1000) @ '',3,'' @ nat_to_string (i div 1000)) [0..<objectCount])"

definition kObjectCount :: nat where "kObjectCount = 150000"
definition kSecondCommitBudgetMs :: rat where "kSecondCommitBudgetMs = 120000"

text \<open>
  The first five objects, in the order of the hash table, whose position is a number move by
  one.  The positions of this level are whole numbers, which \<open>strtod\<close> reads to their end.
\<close>

fun nudge :: "object_uuid list \<Rightarrow> nat \<Rightarrow> object_table \<Rightarrow> object_table" where
  "nudge [] moved_n objs = objs"
| "nudge (u # us) moved_n objs =
     (if moved_n \<ge> 5 then objs
      else
        (let ob = the (fmlookup objs u) in
         case Option.bind (fmlookup (obj_fields ob) kX) strtod_full of
           None \<Rightarrow> nudge us moved_n objs
         | Some x \<Rightarrow>
             nudge us (Suc moved_n)
               (fmupd u (ob\<lparr>obj_fields := fmupd kX (int_to_string (round_half_even (x + 1))) (obj_fields ob)\<rparr>) objs)))"

definition runCommitPerfTests :: "'j test_env \<Rightarrow> unit test" where
  "runCommitPerfTests te =
     (let seedLevel = buildHomogeneousLevel kObjectCount in
      t_do [addAction ''Perf'' (''deleteLevel '' @ kPerf @ '' seed '' @ nat_to_string kObjectCount @ '' objects''), t_delete kPerf,
        addAction ''Perf'' ''initial commit (seed HEAD)''] (
      t_bind (t_commit te kPerf ''perf seed'' seedLevel) (\<lambda>seed.
      t_right seed (failGit te ''Perf'' ''seed_commit'') (\<lambda>_.
      t_then (addAction ''Perf'' (''seed commit '' @ te_seedText te @ '' ms'')) (
      let parsed = parseLevelString seedLevel;
          modified = serializeLevelString (parsed\<lparr>objects := nudge (e_objects (te_service te) (objects parsed)) 0 (objects parsed)\<rparr>) in
      t_then (addAction ''Perf'' ''second commit (5 x-field edits)'') (
      t_bind (t_commit te kPerf ''perf hot'' modified) (\<lambda>hot.
      t_right hot (failGit te ''Perf'' ''hot_commit'') (\<lambda>_.
      t_bind (t_head_state te kPerf) (\<lambda>recon.
      let n = (case recon of None \<Rightarrow> 0 | Some st \<Rightarrow> length (sorted_keys (objects st))) in
      t_check (recon \<noteq> None \<and> n = kObjectCount) (failText te ''Perf'' ''hot_reconstruct'' (''objects '' @ nat_to_string n)) (
      let hot = int_to_string (round_half_even (te_hotMs te)) @ ''ms'' in
      t_check (te_hotMs te \<le> kSecondCommitBudgetMs) (failText te ''Perf'' ''hot_commit_budget''
          (''hot commit '' @ hot @ '' > '' @ int_to_string (round_half_even kSecondCommitBudgetMs) @ ''ms budget'')) (
      addPass te ''Perf'' ''commit_150k_hot_path''
        (''seed='' @ int_to_string (round_half_even (te_seedMs te)) @ ''ms hot='' @ hot @ '' objects='' @ nat_to_string kObjectCount))))))))))))"

section \<open>What only a person can check\<close>

definition manual_items :: "(string \<times> string) list" where
  "manual_items =
     [(''checkout_editor_verify'', ''needs live LevelEditorLayer apply and visual verify''),
      (''revert_conflict_popup'', ''needs UI conflict summary layer''),
      (''revert_20plus_lag'', ''needs manual perf observation''),
      (''import_plan_popup'', ''needs UI plan popup''),
      (''import_state_visual'', ''needs editor state compare''),
      (''collab_visual'', ''needs editor verify''),
      (''edge_scroll_tap_lag'', ''needs manual UI interaction''),
      (''geode_log_first_launch'', ''needs external log inspection''),
      (''node_ids_devtools'', ''needs geode.node-ids querySelector'')]"

definition appendManualSkips :: "'j test_env \<Rightarrow> unit test" where
  "appendManualSkips te =
     t_do (concat (map (\<lambda>(name, reason).
       [addAction kSuiteManual (''SKIP '' @ name @ '': '' @ reason), addSkip te kSuiteManual name (Plain reason)]) manual_items))
       (t_return ())"

section \<open>Two phases\<close>

definition t_prepareCheckout :: "'j test_env \<Rightarrow> level_key \<Rightarrow> commit_id \<Rightarrow> (level_state, pending_head) prepared test" where
  "t_prepareCheckout te lk i = t_call (\<lambda>n. prepareCheckout (te_service te) lk i)"

definition t_finalizeCheckout :: "'j test_env \<Rightarrow> pending_head \<Rightarrow> level_state \<Rightarrow> (git_error + commit_id) test" where
  "t_finalizeCheckout te p st = t_call (\<lambda>n svc. Some (finalizeCheckout (te_service te) (te_now te n) p st svc))"

definition t_prepareImport :: "'j test_env \<Rightarrow> level_key \<Rightarrow> string list \<Rightarrow> prepared_import test" where
  "t_prepareImport te dest paths = t_files te (\<lambda>g n. prepareImportManyFromGdge (te_service te) g dest paths)"

definition t_finalizeImport :: "'j test_env \<Rightarrow> pending_head list \<Rightarrow> (gdge_error + commit_id list) test" where
  "t_finalizeImport te ps = t_call (\<lambda>n svc. Some (finalizeImportManyFromGdge (te_service te) (\<lambda>i. te_now te (n + i)) ps svc))"

definition two_phase_checkout :: "'j test_env \<Rightarrow> unit test" where
  "two_phase_checkout te =
     t_do [addAction kSuiteTwoPhase (''deleteLevel '' @ kTwoPhase), t_delete kTwoPhase, addAction kSuiteTwoPhase ''commit tp1 tp2 tp3''] (
     t_bind (t_commit te kTwoPhase ''tp1'' (levelAt 0)) (\<lambda>a.
     t_bind (t_commit te kTwoPhase ''tp2'' (levelAt 10)) (\<lambda>b.
     t_bind (t_commit te kTwoPhase ''tp3'' (levelAt 20)) (\<lambda>c.
     let setupFailed = failText te kSuiteTwoPhase ''setup_three'' ''commit failed'' in
     t_right a (\<lambda>_. setupFailed) (\<lambda>c1.
     t_right b (\<lambda>_. setupFailed) (\<lambda>_.
     t_right c (\<lambda>_. setupFailed) (\<lambda>c3.
     t_bind (t_head kTwoPhase) (\<lambda>headBefore.
     t_bind (t_list te kTwoPhase) (\<lambda>listBefore.
     let rowsBefore = length listBefore in
     t_check (headBefore = Some c3) (failText te kSuiteTwoPhase ''head_setup'' ''HEAD not on third commit'') (
     t_then (addAction kSuiteTwoPhase (''prepareCheckout c1 '' @ int_to_string c1 @ '' head '' @ id_text headBefore)) (
     t_bind (t_prepareCheckout te kTwoPhase c1) (\<lambda>prep.
     t_right (outcome prep) (failGit te kSuiteTwoPhase ''prepare_checkout'') (\<lambda>st.
     t_some (pending prep) (failText te kSuiteTwoPhase ''prepare_pending'' ''expected pendingHead'') (\<lambda>ph.
     t_bind (t_head kTwoPhase) (\<lambda>headMid.
     t_bind (t_list te kTwoPhase) (\<lambda>listMid.
     t_check (headMid = headBefore \<and> length listMid = rowsBefore) (failText te kSuiteTwoPhase ''prepare_no_db_write''
         (''head '' @ id_text headBefore @ ''->'' @ id_text headMid @ '', rows '' @ nat_to_string rowsBefore @ ''->'' @ nat_to_string (length listMid))) (
     t_then (addAction kSuiteTwoPhase ''prepare left HEAD and row count unchanged'') (
     t_bind (t_finalizeCheckout te ph st) (\<lambda>fin.
     t_right fin (failGit te kSuiteTwoPhase ''finalize_checkout'') (\<lambda>_.
     t_bind (t_head kTwoPhase) (\<lambda>headAfter.
     let notMoved = failText te kSuiteTwoPhase ''finalize_moves_head'' ''HEAD did not advance'' in
     t_some headAfter notMoved (\<lambda>h.
     t_check (Some h \<noteq> headBefore) notMoved (
     t_bind (t_list te kTwoPhase) (\<lambda>listAfter.
     t_check (length listAfter = rowsBefore + 1) (failText te kSuiteTwoPhase ''finalize_row_count'' ''expected one new commit row'') (
     t_bind (t_reconstruct te h) (\<lambda>applied.
     t_bind (t_reconstruct te c1) (\<lambda>c1State.
     t_check (same_hash applied c1State) (failText te kSuiteTwoPhase ''finalize_state'' ''reconstructed state != target c1'') (
     t_do [addPass te kSuiteTwoPhase ''checkout_two_phase'' ''prepare/finalize split OK'',
       addAction kSuiteTwoPhase ''checkout noop when HEAD equals target''] (
     t_bind (t_prepareCheckout te kTwoPhase h) (\<lambda>prepNoop.
     t_right (outcome prepNoop) (failGit te kSuiteTwoPhase ''prepare_noop'') (\<lambda>_.
     t_check (pending prepNoop = None) (failText te kSuiteTwoPhase ''prepare_noop_pending'' ''expected no pendingHead when HEAD==target'') (
     addPass te kSuiteTwoPhase ''checkout_noop'' ''no pending when already at target''))))))))))))))))))))))))))))))))"

definition two_phase_import :: "'j test_env \<Rightarrow> string \<Rightarrow> unit test" where
  "two_phase_import te testDir =
     (let gdgePath = path_join testDir ''at_two_phase.gdge'' in
      t_do [addAction kSuiteTwoPhase (''export for import test '' @ gdgePath), t_delete kRawEx,
        requireCommit te kSuiteTwoPhase ''export_setup'' kRawEx ''tp_export'' (levelAt 5) [],
        requireExport te kSuiteTwoPhase ''export_gdge'' kRawEx gdgePath [],
        addAction kSuiteTwoPhase (''deleteLevel empty dest '' @ kMix), t_delete kMix] (
      t_bind (t_head kMix) (\<lambda>headEmpty.
      t_check (headEmpty = None) (failText te kSuiteTwoPhase ''mix_empty'' ''expected no HEAD on kMix'') (
      t_then (addAction kSuiteTwoPhase ''prepareImportManyFromGdge on empty dest'') (
      t_bind (t_prepareImport te kMix [gdgePath]) (\<lambda>prepImp.
      t_right (fst prepImp) (\<lambda>err. addFail te kSuiteTwoPhase ''prepare_import'' (OfError (FlowMsg err))) (\<lambda>payload.
      t_check (snd prepImp \<noteq> []) (failText te kSuiteTwoPhase ''prepare_import_pending'' ''expected pendingMergeImport'') (
      t_bind (t_head kMix) (\<lambda>headMid.
      let written = failText te kSuiteTwoPhase ''prepare_import_no_write'' ''dest DB mutated before finalize'' in
      t_check (headMid = None) written (
      t_bind (t_list te kMix) (\<lambda>listMid.
      t_check (listMid = []) written (
      t_bind (t_finalizeImport te (snd prepImp)) (\<lambda>finImp.
      t_right finImp (\<lambda>err. addFail te kSuiteTwoPhase ''finalize_import'' (OfError (FlowGdge err))) (\<lambda>_.
      t_bind (t_head kMix) (\<lambda>headMix.
      t_some headMix (failText te kSuiteTwoPhase ''finalize_import_head'' ''no HEAD after finalize'') (\<lambda>h.
      t_bind (t_reconstruct te h) (\<lambda>mixRecon.
      t_some mixRecon (failText te kSuiteTwoPhase ''finalize_import_recon'' ''reconstruct failed'') (\<lambda>mixState.
      t_check (hashLevelState mixState = hashLevelState (ip_state payload))
        (failText te kSuiteTwoPhase ''finalize_import_state'' ''DB state != prepared payload state'') (
      addPass te kSuiteTwoPhase ''import_two_phase'' ''prepare/finalize import on empty dest OK'')))))))))))))))))))"

definition runTwoPhaseTests :: "'j test_env \<Rightarrow> string \<Rightarrow> unit test" where
  "runTwoPhaseTests te testDir = t_then (two_phase_checkout te) (two_phase_import te testDir)"

end
