(* ===== verification/Auto_Collab.thy ===== *)
theory Auto_Collab
  imports Auto_Suites
begin

text \<open>
  The suites of \<open>src/test\<close> that exchange history files: \<open>GdgeImportExportTests.cpp\<close>,
  \<open>CollabTests.cpp\<close>, \<open>AdvancedCollabTests.cpp\<close> and \<open>EdgeTests.cpp\<close>.
\<close>

section \<open>Names\<close>

definition kCollabBase :: level_key where "kCollabBase = ''__git_editor_at_collab_base''"
definition kCollabLay :: level_key where "kCollabLay = ''__git_editor_at_collab_layout''"
definition kDecA :: level_key where "kDecA = ''__git_editor_at_dec_a''"
definition kDecB :: level_key where "kDecB = ''__git_editor_at_dec_b''"
definition kOther :: level_key where "kOther = ''__git_editor_at_other_root''"
definition kAdvCollabBase :: level_key where "kAdvCollabBase = ''__git_editor_at_adv_collab_base''"
definition kAdvCollabIntegrator :: level_key where "kAdvCollabIntegrator = ''__git_editor_at_adv_collab_integrator''"
definition kAdvCollabAlice :: level_key where "kAdvCollabAlice = ''__git_editor_at_adv_collab_alice''"
definition kAdvCollabBob :: level_key where "kAdvCollabBob = ''__git_editor_at_adv_collab_bob''"
definition kAdvCollabScratch :: level_key where "kAdvCollabScratch = ''__git_editor_at_adv_collab_scratch''"
definition kAdvCollabCara :: level_key where "kAdvCollabCara = ''__git_editor_at_adv_collab_cara''"
definition kAdvCollabLegacy :: level_key where "kAdvCollabLegacy = ''__git_editor_at_adv_collab_legacy''"

lemmas file_keys = kCollabBase_def kCollabLay_def kDecA_def kDecB_def kOther_def kAdvCollabBase_def
  kAdvCollabIntegrator_def kAdvCollabAlice_def kAdvCollabBob_def kAdvCollabScratch_def kAdvCollabCara_def kAdvCollabLegacy_def

definition kSuiteGdge :: string where "kSuiteGdge = ''ImportExport''"
definition kSuiteCollab :: string where "kSuiteCollab = ''Collab''"
definition kSuiteAdvancedCollab :: string where "kSuiteAdvancedCollab = ''AdvancedCollab''"
definition kSuiteEdge :: string where "kSuiteEdge = ''Edge''"

definition bool_text :: "bool \<Rightarrow> string" where
  "bool_text b = (if b then ''true'' else ''false'')"

definition failGdge :: "'j test_env \<Rightarrow> string \<Rightarrow> string \<Rightarrow> gdge_error \<Rightarrow> unit test" where
  "failGdge te suite name err = addFail te suite name (OfError (FlowGdge err))"

definition counts_text :: "string \<Rightarrow> nat \<Rightarrow> string \<Rightarrow> nat \<Rightarrow> string" where
  "counts_text a m b n = a @ nat_to_string m @ b @ nat_to_string n"

section \<open>Export and import in both forms\<close>

text \<open>\<open>*git.reconstruct(..)\<close> of a commit that cannot be reconstructed is the end of the program.\<close>

definition t_deref :: "'x option \<Rightarrow> 'x test" where
  "t_deref r s = (case r of None \<Rightarrow> None | Some x \<Rightarrow> Some (Some x, s))"

definition gdge_mixed_import :: "'j test_env \<Rightarrow> string \<Rightarrow> string \<Rightarrow> unit test" where
  "gdge_mixed_import te rawPath zipPath =
     t_bind (requireImportMany te kSuiteGdge ''import_mixed'' kMix [rawPath, zipPath] ''importManyFromGdge kMix rawPath+zipPath'') (\<lambda>many.
     t_then (addAction kSuiteGdge (''mergedCount '' @ nat_to_string (ip_merged many) @ '' smart '' @ nat_to_string (ip_smart many) @
       '' sequential '' @ nat_to_string (ip_sequential many) @ '' skipped '' @ nat_to_string (ip_skipped many))) (
     t_check (ip_merged many \<ge> 2) (failText te kSuiteGdge ''import_mixed_counts'' (''mergedCount '' @ nat_to_string (ip_merged many))) (
     t_bind (t_head kMix) (\<lambda>headMix.
     t_some headMix (failText te kSuiteGdge ''import_head'' ''no HEAD on kMix after import'') (\<lambda>h.
     t_bind (chainOldestToNewest te kMix) (\<lambda>chainMix.
     t_check (length chainMix \<ge> 2) (failText te kSuiteGdge ''import_chain_len''
         (''expected >= 2 commits got '' @ nat_to_string (length chainMix))) (
     t_bind (t_reconstruct te h) (\<lambda>reconMix.
     t_some reconMix (failText te kSuiteGdge ''import_reconstruct'' ''reconstruct HEAD failed'') (\<lambda>mixState.
     let payloadHash = hashLevelState (ip_state many); dbHash = hashLevelState mixState in
     t_then (addAction kSuiteGdge (''import state hash payload='' @ payloadHash @ '' db='' @ dbHash)) (
     t_check (payloadHash = dbHash) (failText te kSuiteGdge ''import_state_hash'' ''payload state != reconstructed HEAD'') (
     t_bind (t_bind (t_reconstruct te h) t_deref) (\<lambda>again.
     t_check (hashLevelState again = dbHash) (failText te kSuiteGdge ''import_state_stable'' ''hash changed on second reconstruct'') (
     addPass te kSuiteGdge ''export_import_mixed'' (''smart='' @ nat_to_string (ip_smart many) @ '' sequential='' @
       nat_to_string (ip_sequential many) @ '' skipped='' @ nat_to_string (ip_skipped many) @ '' commits='' @
       nat_to_string (length chainMix) @ '' hash='' @ dbHash))))))))))))))"

definition runGdgeExportImportTests :: "'j test_env \<Rightarrow> string \<Rightarrow> unit test" where
  "runGdgeExportImportTests te testDir =
     with_compress_guard te (\<lambda>armed prev.
     t_then (addAction kSuiteGdge ''CompressExportGuard ctor'') (
     if \<not> armed then
       t_do [addAction kSuiteGdge ''SKIP compress_toggle setting unavailable'',
         addSkip te kSuiteGdge ''compress_toggle'' (Plain ''ModSettingsManager or bool setting unavailable'')] (t_return ())
     else
     let rawPath = path_join testDir ''at_raw.gdge''; zipPath = path_join testDir ''at_zip.gdge'' in
     t_do [addAction kSuiteGdge ''compress guard armed'',
       addAction kSuiteGdge (''deleteLevel '' @ kRawEx @ '' '' @ kZipEx @ '' '' @ kMix),
       t_delete kRawEx, t_delete kZipEx, t_delete kMix,
       addAction kSuiteGdge ''commit kRawEx kZipEx levelAt'',
       requireCommit te kSuiteGdge ''setup_export_levels'' kRawEx ''one'' (levelAt 1) [],
       requireCommit te kSuiteGdge ''setup_export_levels'' kZipEx ''one'' (levelAt 2) [],
       addAction kSuiteGdge ''set compress false for raw export''] (
     t_bind (setCompress te False) (\<lambda>okRaw.
     t_check okRaw (failText te kSuiteGdge ''export_raw'' ''compress setting toggle failed'') (
     t_do [addAction kSuiteGdge (''exportLevelToGdge raw '' @ rawPath),
       requireExport te kSuiteGdge ''export_raw'' kRawEx rawPath []] (
     t_bind (readFirstBytes rawPath 16) (\<lambda>rawSig.
     t_then (addAction kSuiteGdge (''raw first bytes len '' @ nat_to_string (length rawSig) @ '' sqlite='' @ bool_text (startsWithSqlite rawSig))) (
     t_check (startsWithSqlite rawSig) (failText te kSuiteGdge ''raw_magic'' ''expected SQLite header'') (
     t_then (addAction kSuiteGdge ''set compress true for zip export'') (
     t_bind (setCompress te True) (\<lambda>okZip.
     t_check okZip (failText te kSuiteGdge ''export_zip'' ''compress setting toggle failed'') (
     t_do [addAction kSuiteGdge (''exportLevelToGdge zip '' @ zipPath),
       requireExport te kSuiteGdge ''export_zip'' kZipEx zipPath []] (
     t_bind (readFirstBytes zipPath 4) (\<lambda>zipSig.
     t_then (addAction kSuiteGdge (''zip pk='' @ bool_text (startsWithPk zipSig))) (
     t_check (startsWithPk zipSig) (failText te kSuiteGdge ''zip_magic'' ''expected PK header'') (
     t_then (addAction kSuiteGdge (''restore compress '' @ bool_text prev)) (
     t_bind (setCompress te prev) (\<lambda>_.
     gdge_mixed_import te rawPath zipPath))))))))))))))))))"

section \<open>Two decorators on one layout\<close>

definition collab_setup :: "'j test_env \<Rightarrow> string \<Rightarrow> string \<Rightarrow> string \<Rightarrow> string \<Rightarrow> unit test" where
  "collab_setup te basePath decAPath decBPath otherPath =
     t_do (addAction kSuiteCollab ''deleteLevel collab keys'' # map t_delete [kCollabBase, kCollabLay, kDecA, kDecB, kOther] @
       [requireCommit te kSuiteCollab ''base_commit'' kCollabBase ''base'' (levelAt 0) ''commit kCollabBase base'',
        requireExport te kSuiteCollab ''export_base'' kCollabBase basePath (''export base '' @ basePath),
        t_bind (requireImportMany te kSuiteCollab ''layout_import_base'' kCollabLay [basePath] ''importMany kCollabLay <- base'') (\<lambda>_. t_return ()),
        requireCommit te kSuiteCollab ''layout_commit'' kCollabLay ''lay_edit'' (levelAt 1) ''commit kCollabLay lay_edit'',
        forkExport te kSuiteCollab kDecA basePath decAPath 100 ''a'',
        forkExport te kSuiteCollab kDecB basePath decBPath 200 ''b'',
        addAction kSuiteCollab ''reset kOther'', t_delete kOther,
        requireCommit te kSuiteCollab ''other_commit'' kOther ''other_root'' (levelAt 9999) ''commit kOther other_root'',
        requireExport te kSuiteCollab ''export_other'' kOther otherPath (''export other '' @ otherPath)]) (t_return ())"

definition collab_plans :: "'j test_env \<Rightarrow> string \<Rightarrow> string \<Rightarrow> string \<Rightarrow> unit test" where
  "collab_plans te decAPath decBPath otherPath =
     t_then (addAction kSuiteCollab ''planImport decA decB'') (
     t_bind (t_plan te kCollabLay [decAPath, decBPath]) (\<lambda>plan.
     let smart = length (plan_smart plan) in
     t_check (smart = 2) (failText te kSuiteCollab ''smart_pair'' (''smart size '' @ nat_to_string smart)) (
     t_do [addAction kSuiteCollab (''plan A+B smart='' @ nat_to_string smart), addAction kSuiteCollab ''planImport decA other''] (
     t_bind (t_plan te kCollabLay [decAPath, otherPath]) (\<lambda>planMix.
     let s = length (plan_smart planMix); q = length (plan_sequential planMix) in
     t_check (s = 1 \<and> q = 1) (failText te kSuiteCollab ''smart_vs_seq'' (counts_text ''smart '' s '' seq '' q)) (
     t_do [addAction kSuiteCollab (counts_text ''plan A+Other smart '' s '' seq '' q),
       addAction kSuiteCollab ''importMany merge two decorators''] (
     t_bind (t_importMany te kCollabLay [decAPath, decBPath]) (\<lambda>mergeTwo.
     t_right mergeTwo (failGdge te kSuiteCollab ''merge_two_decorators'') (\<lambda>v.
     t_check (ip_smart (fst v) \<ge> 2) (failText te kSuiteCollab ''merge_smart_count'' (''smartCount '' @ nat_to_string (ip_smart (fst v)))) (
     addAction kSuiteCollab (''merge_two smartCount '' @ nat_to_string (ip_smart (fst v)))))))))))))"

definition collab_conflicts :: "'j test_env \<Rightarrow> string \<Rightarrow> string \<Rightarrow> string \<Rightarrow> unit test" where
  "collab_conflicts te basePath decAPath decBPath =
     t_do [addAction kSuiteCollab ''reset kCollabLay for conflict branch'', t_delete kCollabLay,
       t_bind (requireImportMany te kSuiteCollab ''layout_reset'' kCollabLay [basePath] ''importMany kCollabLay <- base'') (\<lambda>_. t_return ()),
       requireCommit te kSuiteCollab ''lay_x_commit'' kCollabLay ''lay_x'' (levelAt 2) ''commit lay_x'',
       addAction kSuiteCollab ''build conflict payloads x111 x222'',
       addAction kSuiteCollab ''deleteLevel kDecA kDecB for conflict resets'', t_delete kDecA, t_delete kDecB,
       t_bind (requireImportMany te kSuiteCollab ''dec_a_reset'' kDecA [basePath] ''importMany kDecA <- base conflict path'') (\<lambda>_. t_return ()),
       requireCommit te kSuiteCollab ''a_conflict_commit'' kDecA ''a_conflict'' (all_at (levelAt 3) ''111'') ''commit kDecA a_conflict'',
       requireExport te kSuiteCollab ''export_a_conflict'' kDecA decAPath (''export a_conflict '' @ decAPath),
       t_bind (requireImportMany te kSuiteCollab ''dec_b_reset'' kDecB [basePath] ''importMany kDecB <- base conflict path'') (\<lambda>_. t_return ()),
       requireCommit te kSuiteCollab ''b_conflict_commit'' kDecB ''b_conflict'' (all_at (levelAt 3) ''222'') ''commit kDecB b_conflict'',
       requireExport te kSuiteCollab ''export_b_conflict'' kDecB decBPath (''export b_conflict '' @ decBPath),
       addAction kSuiteCollab ''importMany merge overlapping conflicts''] (
     t_bind (t_importMany te kCollabLay [decAPath, decBPath]) (\<lambda>mergeConflict.
     t_right mergeConflict (failGdge te kSuiteCollab ''merge_conflict_import'') (\<lambda>v.
     let n = nat_to_string (ip_conflicts (fst v)) in
     t_check (ip_conflicts (fst v) > 0) (failText te kSuiteCollab ''merge_conflict_count'' (''conflictCount '' @ n)) (
     t_do [addAction kSuiteCollab (''mergeConflict conflictCount '' @ n),
       addPass te kSuiteCollab ''plan_and_merge'' (''overlap conflicts '' @ n)] (t_return ())))))"

definition runCollabPlanTest :: "'j test_env \<Rightarrow> string \<Rightarrow> unit test" where
  "runCollabPlanTest te testDir =
     (let basePath = path_join testDir ''at_collab_base.gdge''; decAPath = path_join testDir ''at_collab_a.gdge'';
          decBPath = path_join testDir ''at_collab_b.gdge''; otherPath = path_join testDir ''at_collab_other.gdge'' in
      t_do [collab_setup te basePath decAPath decBPath otherPath, collab_plans te decAPath decBPath otherPath,
        collab_conflicts te basePath decAPath decBPath] (t_return ()))"

section \<open>A larger team\<close>

definition deleteAdvancedLevels :: "unit test" where
  "deleteAdvancedLevels =
     t_do (map t_delete [kAdvCollabBase, kAdvCollabIntegrator, kAdvCollabAlice, kAdvCollabBob, kAdvCollabScratch,
       kAdvCollabCara, kAdvCollabLegacy]) (t_return ())"

definition ensureFixtureDir :: "'j test_env \<Rightarrow> string \<Rightarrow> unit test" where
  "ensureFixtureDir te p =
     (case te_mkdir te p of
        Some err \<Rightarrow> t_then (failText te kSuiteAdvancedCollab ''mkdir_fixture'' err) t_stop
      | None \<Rightarrow> t_return ())"

definition adv_setup :: "'j test_env \<Rightarrow> string \<Rightarrow> unit test" where
  "adv_setup te fx =
     (let basePath = path_join fx ''adv_collab_base.gdge''; legacyPath = path_join fx ''adv_collab_legacy.gdge'' in
      t_do [addAction kSuiteAdvancedCollab ''deleteLevel advanced keys'', deleteAdvancedLevels, ensureFixtureDir te fx,
        requireCommit te kSuiteAdvancedCollab ''base_commit'' kAdvCollabBase ''adv_base'' (levelAt 0) [],
        requireExport te kSuiteAdvancedCollab ''export_base'' kAdvCollabBase basePath (''export base '' @ basePath),
        t_bind (requireImportMany te kSuiteAdvancedCollab ''integrator_import'' kAdvCollabIntegrator [basePath] ''importMany integrator<-base'') (\<lambda>_. t_return ()),
        requireCommit te kSuiteAdvancedCollab ''integrator_commit'' kAdvCollabIntegrator ''integrator_layout'' (levelAt 1) ''commit integrator layout'',
        forkExport te kSuiteAdvancedCollab kAdvCollabAlice basePath (path_join fx ''adv_collab_alice.gdge'') 301 ''alice'',
        forkExport te kSuiteAdvancedCollab kAdvCollabBob basePath (path_join fx ''adv_collab_bob.gdge'') 302 ''bob'',
        forkExport te kSuiteAdvancedCollab kAdvCollabScratch basePath (path_join fx ''adv_collab_scratch.gdge'') 303 ''scratch'',
        t_delete kAdvCollabLegacy,
        requireCommit te kSuiteAdvancedCollab ''legacy_commit'' kAdvCollabLegacy ''legacy_root'' (levelAt 9000) ''commit legacy divergent root'',
        requireExport te kSuiteAdvancedCollab ''export_legacy'' kAdvCollabLegacy legacyPath (''export legacy '' @ legacyPath)] (t_return ()))"

definition adv_plans :: "'j test_env \<Rightarrow> string \<Rightarrow> string \<Rightarrow> string \<Rightarrow> string \<Rightarrow> unit test" where
  "adv_plans te alicePath bobPath scratchPath legacyPath =
     t_then (addAction kSuiteAdvancedCollab ''planImport alice+bob+scratch'') (
     t_bind (t_plan te kAdvCollabIntegrator [alicePath, bobPath, scratchPath]) (\<lambda>planTriple.
     let s3 = length (plan_smart planTriple); q3 = length (plan_sequential planTriple) in
     t_check (s3 = 3 \<and> plan_sequential planTriple = []) (failText te kSuiteAdvancedCollab ''plan_triple_smart'' (counts_text ''smart '' s3 '' seq '' q3)) (
     t_then (addAction kSuiteAdvancedCollab ''planImport alice+legacy'') (
     t_bind (t_plan te kAdvCollabIntegrator [alicePath, legacyPath]) (\<lambda>planMix.
     let s = length (plan_smart planMix); q = length (plan_sequential planMix) in
     t_check (s = 1 \<and> q = 1) (failText te kSuiteAdvancedCollab ''plan_smart_vs_seq'' (counts_text ''smart '' s '' seq '' q)) (
     addPass te kSuiteAdvancedCollab ''advanced_plan_classification''
       (counts_text ''triple smart '' s3 '' mix smart '' s @ '' seq '' @ nat_to_string q)))))))"

definition adv_merges :: "'j test_env \<Rightarrow> string list \<Rightarrow> string \<Rightarrow> unit test" where
  "adv_merges te batchPaths legacyPath =
     t_then (addAction kSuiteAdvancedCollab ''importMany bogus+triple smart'') (
     t_bind (t_importMany te kAdvCollabIntegrator batchPaths) (\<lambda>batch.
     t_right batch (failGdge te kSuiteAdvancedCollab ''triple_import'') (\<lambda>v.
     let b = fst v in
     t_check (ip_skipped b \<ge> 1) (failText te kSuiteAdvancedCollab ''invalid_skip_count'' (''skipped '' @ nat_to_string (ip_skipped b))) (
     t_check (ip_smart b = 3) (failText te kSuiteAdvancedCollab ''triple_merge_shape'' (''smart '' @ nat_to_string (ip_smart b))) (
     t_do [addPass te kSuiteAdvancedCollab ''advanced_invalid_skip'' (''skipped '' @ nat_to_string (ip_skipped b)),
       addPass te kSuiteAdvancedCollab ''advanced_batch_merge''
         (counts_text ''merged '' (ip_merged b) '' smart '' (ip_smart b) @ '' conflicts '' @ nat_to_string (ip_conflicts b)),
       addAction kSuiteAdvancedCollab ''importMany legacy sequential''] (
     t_bind (t_importMany te kAdvCollabIntegrator [legacyPath]) (\<lambda>seqn.
     t_right seqn (failGdge te kSuiteAdvancedCollab ''legacy_import'') (\<lambda>w.
     let s = fst w in
     t_check (ip_sequential s = 1 \<and> ip_smart s = 0) (failText te kSuiteAdvancedCollab ''sequential_shape''
         (counts_text ''smart '' (ip_smart s) '' seq '' (ip_sequential s))) (
     addPass te kSuiteAdvancedCollab ''advanced_sequential_foreign'' (counts_text ''seq '' (ip_sequential s) '' merged '' (ip_merged s)))))))))))"

definition adv_conflicts :: "'j test_env \<Rightarrow> string \<Rightarrow> string \<Rightarrow> string \<Rightarrow> unit test" where
  "adv_conflicts te basePath conflictBobExport conflictCaraExport =
     t_do [addAction kSuiteAdvancedCollab ''reset integrator for conflict wave'', t_delete kAdvCollabIntegrator,
       t_bind (requireImportMany te kSuiteAdvancedCollab ''integrator_reset_import'' kAdvCollabIntegrator [basePath] []) (\<lambda>_. t_return ()),
       requireCommit te kSuiteAdvancedCollab ''integrator_pre_cf_commit'' kAdvCollabIntegrator ''integrator_pre_conflict'' (levelAt 10) [],
       t_delete kAdvCollabBob,
       t_bind (requireImportMany te kSuiteAdvancedCollab ''cf_bob_import'' kAdvCollabBob [basePath] []) (\<lambda>_. t_return ()),
       requireCommit te kSuiteAdvancedCollab ''bob_cf_commit'' kAdvCollabBob ''bob_cf'' (all_at (levelAt 20) ''111'') [],
       requireExport te kSuiteAdvancedCollab ''export_cf_bob'' kAdvCollabBob conflictBobExport [],
       t_delete kAdvCollabCara,
       t_bind (requireImportMany te kSuiteAdvancedCollab ''cf_cara_import'' kAdvCollabCara [basePath] []) (\<lambda>_. t_return ()),
       requireCommit te kSuiteAdvancedCollab ''cara_cf_commit'' kAdvCollabCara ''cara_cf'' (all_at (levelAt 20) ''222'') [],
       requireExport te kSuiteAdvancedCollab ''export_cf_cara'' kAdvCollabCara conflictCaraExport [],
       addAction kSuiteAdvancedCollab ''importMany overlapping conflicts''] (
     t_bind (t_importMany te kAdvCollabIntegrator [conflictBobExport, conflictCaraExport]) (\<lambda>mergeCf.
     t_right mergeCf (failGdge te kSuiteAdvancedCollab ''merge_cf_import'') (\<lambda>v.
     let n = ''conflictCount '' @ nat_to_string (ip_conflicts (fst v)) in
     t_check (ip_conflicts (fst v) > 0) (failText te kSuiteAdvancedCollab ''merge_cf_count'' n) (
     t_then (addPass te kSuiteAdvancedCollab ''advanced_conflict_merge'' n) (
     t_bind (chainOldestToNewest te kAdvCollabIntegrator) (\<lambda>chain.
     let c = ''commits '' @ nat_to_string (length chain) in
     t_check (length chain \<ge> 2) (failText te kSuiteAdvancedCollab ''final_chain'' c) (
     addPass te kSuiteAdvancedCollab ''advanced_final_history'' c)))))))"

definition runAdvancedCollabSimulatorTests :: "'j test_env \<Rightarrow> string \<Rightarrow> unit test" where
  "runAdvancedCollabSimulatorTests te testDir =
     (let fx = path_join testDir ''advanced-collab''; f = (\<lambda>n. path_join fx (''adv_collab_'' @ n @ ''.gdge'')) in
      t_do [adv_setup te fx, adv_plans te (f ''alice'') (f ''bob'') (f ''scratch'') (f ''legacy''),
        adv_merges te [f ''missing'', f ''alice'', f ''bob'', f ''scratch''] (f ''legacy''),
        adv_conflicts te (f ''base'') (f ''conflict_b'') (f ''conflict_c'')] (t_return ()))"

end
