(* ===== verification/Auto_Run.thy ===== *)
theory Auto_Run
  imports Auto_Collab "HOL-Library.Sublist"
begin

text \<open>
  \<open>src/test/EdgeTests.cpp\<close>, the runner of all suites (\<open>src/test/AutomatedTestRunner.cpp\<close>) and
  the button of the settings that starts it (\<open>src/settings/RunAutomatedTestSetting.cpp\<close>).
\<close>

section \<open>Edge cases\<close>

definition kLegacyBlobFootprintBytes :: nat where
  "kLegacyBlobFootprintBytes = 16 * 1024 * 1024"

definition blobFootprintLimitMessage :: "nat \<Rightarrow> string" where
  "blobFootprintLimitMessage rawSize =
     ''delta payload size '' @ nat_to_string rawSize @ '' exceeds blob footprint cap '' @ int_to_string kMaxBlobFootprintBytes"

definition t_get :: "'j test_env \<Rightarrow> commit_id \<Rightarrow> commit_row option test" where
  "t_get te i = t_store (get_row (e_zlib (te_service te)) i)"

definition t_insert :: "'j test_env \<Rightarrow> level_key \<Rightarrow> string \<Rightarrow> string \<Rightarrow> (store_error + commit_id) test" where
  "t_insert te lk msg blob =
     (\<lambda>s. t_store (insertAndSetHead (e_zlib (te_service te)) (te_now te (t_calls s)) lk None None msg blob) s)"

definition edge_db :: "'j test_env \<Rightarrow> unit test" where
  "edge_db te =
     (if te_dbPath te \<noteq> [] then
        t_then (addAction kSuiteEdge (''dbPath '' @ te_dbPath te)) (
        if \<not> te_dbExists te then failText te kSuiteEdge ''db_exists'' (''missing '' @ te_dbPath te)
        else t_do [addAction kSuiteEdge ''db file exists'', addPass te kSuiteEdge ''db_under_save'' (te_dbPath te)] (t_return ()))
      else
        t_do [addAction kSuiteEdge ''dbPath empty branch'', failText te kSuiteEdge ''db_path_empty'' ''CommitStore db path empty''] (t_return ()))"

text \<open>A path with letters outside ASCII (in UTF-8); failing to write it is no failure of the test.\<close>

definition unicodeName :: string where
  "unicodeName = ''at_'' @ [CHR 0xD1, CHR 0x82, CHR 0xD0, CHR 0xB5, CHR 0xD1, CHR 0x81, CHR 0xD1, CHR 0x82] @ ''.gdge''"

definition edge_unicode :: "'j test_env \<Rightarrow> string \<Rightarrow> unit test" where
  "edge_unicode te testDir =
     (let unicodeFile = path_join testDir unicodeName in
      t_do [addAction kSuiteEdge (''unicode roundtrip prepare delete '' @ kZipEx), t_delete kZipEx,
        addAction kSuiteEdge ''commit unicode_setup kZipEx'',
        requireCommit te kSuiteEdge ''unicode_setup'' kZipEx ''unicode_path'' (levelAt 7) [],
        addAction kSuiteEdge (''unicode export '' @ unicodeFile)] (
      t_bind (t_export te kZipEx unicodeFile) (\<lambda>ex.
        case ex of
          Inl err \<Rightarrow> addSkip te kSuiteEdge ''unicode_export'' (OfError (FlowGdge err))
        | Inr _ \<Rightarrow>
            t_then (addAction kSuiteEdge ''unicode importMany kMix'') (
            t_bind (t_importMany te kMix [unicodeFile]) (\<lambda>imp.
              case imp of
                Inl err \<Rightarrow> failGdge te kSuiteEdge ''unicode_import'' err
              | Inr _ \<Rightarrow> addPass te kSuiteEdge ''unicode_roundtrip'' unicodeFile)))))"

definition edge_levels :: "'j test_env \<Rightarrow> unit test" where
  "edge_levels te =
     t_do [addAction kSuiteEdge (''first commit reconstruct test delete '' @ kHistDst), t_delete kHistDst,
       addAction kSuiteEdge ''commit root_only kHistDst''] (
     t_bind (t_commit te kHistDst ''root_only'' (levelAt 0)) (\<lambda>firstCommit.
     t_right firstCommit (failGit te kSuiteEdge ''first_commit'') (\<lambda>i.
     t_then (addAction kSuiteEdge (''commit id '' @ int_to_string i)) (
     t_bind (t_reconstruct te i) (\<lambda>reconstructed.
     t_some reconstructed (failText te kSuiteEdge ''reconstruct_first'' ''failed'') (\<lambda>_.
     t_do [addPass te kSuiteEdge ''first_commit_recon'' ''root reconstruct OK'',
       addAction kSuiteEdge (''deleteLevel fresh '' @ kHistDst), t_delete kHistDst,
       addPass te kSuiteEdge ''delete_level'' ''fresh key after deleteLevel'',
       addAction kSuiteEdge ''listLevels absent after deleteLevel''] (
     t_bind (t_store listLevels) (\<lambda>levels.
     t_check (\<forall>lv \<in> set levels. ls_key lv \<noteq> kHistDst)
       (failText te kSuiteEdge ''list_levels_after_delete'' ''deleted key still in listLevels'') (
     addPass te kSuiteEdge ''list_levels_after_delete'' ''kHistDst absent from listLevels'')))))))))"

text \<open>A delta beyond an old limit, put straight into the store: its text is not a delta at all.\<close>

definition largeDelta :: string where
  "largeDelta = replicate (kLegacyBlobFootprintBytes + 1024) (CHR ''x'')"

definition edge_large :: "'j test_env \<Rightarrow> unit test" where
  "edge_large te =
     t_do [addAction kSuiteEdge ''large delta storage roundtrip'', t_delete kHistDst] (
     t_bind (t_insert te kHistDst ''large_delta'' largeDelta) (\<lambda>largeInsert.
     t_right largeInsert (\<lambda>err. failGit te kSuiteEdge ''large_delta_insert'' (ErrStore err)) (\<lambda>i.
     t_bind (t_get te i) (\<lambda>largeRow.
     t_some largeRow (failText te kSuiteEdge ''large_delta_get'' ''inserted row missing'') (\<lambda>row.
     t_check (row_delta row = largeDelta) (failText te kSuiteEdge ''large_delta_roundtrip''
         (''expected '' @ nat_to_string (length largeDelta) @ '' bytes got '' @ nat_to_string (length (row_delta row)))) (
     t_do [addPass te kSuiteEdge ''large_delta_roundtrip'' (''stored '' @ nat_to_string (length largeDelta) @ '' raw bytes''),
       addAction kSuiteEdge ''blob cap error message''] (
     let tooLarge = nat kMaxBlobFootprintBytes + 1; capMessage = blobFootprintLimitMessage tooLarge in
     t_check (isBlobFootprintTooLarge tooLarge \<and> sublist (nat_to_string tooLarge) capMessage \<and>
         sublist (int_to_string kMaxBlobFootprintBytes) capMessage) (failText te kSuiteEdge ''blob_cap_message'' capMessage) (
     addPass te kSuiteEdge ''blob_cap_message'' capMessage))))))))"

definition edge_message :: "'j test_env \<Rightarrow> unit test" where
  "edge_message te =
     t_do [addAction kSuiteEdge ''updateMessage roundtrip'', t_delete kHistSrc] (
     t_bind (t_commit te kHistSrc ''original_msg'' (levelAt 1)) (\<lambda>msgCommit.
     t_right msgCommit (failGit te kSuiteEdge ''update_message_setup'') (\<lambda>i.
     t_bind (t_store (updateMessage i ''renamed_msg'')) (\<lambda>ok.
     t_check ok (failText te kSuiteEdge ''update_message'' ''updateMessage returned false'') (
     t_bind (t_summaries te kHistSrc) (\<lambda>found.
     t_check (\<exists>s \<in> set found. cs_id s = i \<and> cs_message s = ''renamed_msg'')
       (failText te kSuiteEdge ''update_message_verify'' ''listSummaries missing renamed message'') (
     addPass te kSuiteEdge ''update_message'' ''message updated in listSummaries'')))))))"

definition edge_plan :: "'j test_env \<Rightarrow> string \<Rightarrow> unit test" where
  "edge_plan te planPath =
     t_do [addAction kSuiteEdge ''planImport noLocalCommits on empty dest'', t_delete kMix, t_delete kRawEx,
       requireCommit te kSuiteEdge ''plan_setup_commit'' kRawEx ''plan_probe'' (levelAt 3) [],
       requireExport te kSuiteEdge ''plan_setup_export'' kRawEx planPath []] (
     t_bind (t_head kMix) (\<lambda>h.
     t_check (h = None) (failText te kSuiteEdge ''plan_empty_head'' ''kMix should have no HEAD'') (
     t_bind (t_plan te kMix [planPath]) (\<lambda>plan.
     t_check (noLocalCommits plan) (failText te kSuiteEdge ''plan_no_local'' ''expected noLocalCommits true'') (
     t_check (plan_smart plan \<noteq> [] \<or> plan_sequential plan \<noteq> [])
       (failText te kSuiteEdge ''plan_buckets'' ''expected file in smart or sequential bucket'') (
     addPass te kSuiteEdge ''plan_no_local_commits'' ''noLocalCommits set for empty dest''))))))"

definition invalid_row :: "'j test_env \<Rightarrow> (string \<times> string) list \<Rightarrow> unit test" where
  "invalid_row te invalid =
     (if length invalid \<noteq> 2 then failText te kSuiteEdge ''invalid_reason_count'' (''expected 2 invalid got '' @ nat_to_string (length invalid))
      else
        (let missing = snd (invalid ! 0); garbage = snd (invalid ! 1) in
         if missing = [] \<or> garbage = [] then
           failText te kSuiteEdge ''invalid_reason_empty'' ''expected non-empty reason on both invalid entries''
         else if missing = garbage then
           failText te kSuiteEdge ''invalid_reason_distinct'' (''expected distinct reasons got '' @ [CHR 0x27] @ missing @ [CHR 0x27])
         else addPass te kSuiteEdge ''invalid_reason_populated''
             (''missing='' @ [CHR 0x27] @ missing @ [CHR 0x27] @ '' garbage='' @ [CHR 0x27] @ garbage @ [CHR 0x27])))"

definition mixed_row :: "'j test_env \<Rightarrow> string \<Rightarrow> import_plan \<Rightarrow> unit test" where
  "mixed_row te garbagePath plan =
     (let s = length (plan_smart plan); q = length (plan_sequential plan); invalid = plan_invalid plan in
      if s + q \<noteq> 1 then failText te kSuiteEdge ''mixed_bag_valid'' (counts_text ''expected 1 valid got smart='' s '' sequential='' q)
      else if length invalid \<noteq> 1 then
        failText te kSuiteEdge ''mixed_bag_invalid'' (''expected 1 invalid got '' @ nat_to_string (length invalid))
      else if fst (invalid ! 0) \<noteq> garbagePath then
        failText te kSuiteEdge ''mixed_bag_path'' (''invalid bucket holds wrong path: '' @ fst (invalid ! 0))
      else if snd (invalid ! 0) = [] then failText te kSuiteEdge ''mixed_bag_reason'' ''garbage entry reason empty''
      else addPass te kSuiteEdge ''mixed_bag_classify''
          (counts_text ''smart='' s '' sequential='' q @ '' invalid_reason='' @ [CHR 0x27] @ snd (invalid ! 0) @ [CHR 0x27]))"

definition edge_invalid :: "'j test_env \<Rightarrow> string \<Rightarrow> string \<Rightarrow> unit test" where
  "edge_invalid te testDir planPath =
     (let missingPath = path_join testDir ''at_does_not_exist.gdge''; garbagePath = path_join testDir ''at_garbage.gdge'' in
      t_do [addAction kSuiteEdge ''plan invalid carries reason'',
        t_disk_with (\<lambda>d. ((), remove_file missingPath d)),
        t_disk_with (\<lambda>d. ((), snd (writeBinary garbagePath ''not a gdge file'' d)))] (
      t_bind (t_plan te kRawEx [missingPath, garbagePath]) (\<lambda>invalidPlan.
      t_do [invalid_row te (plan_invalid invalidPlan), addAction kSuiteEdge ''planImport mixed valid + garbage''] (
      t_bind (t_plan te kRawEx [planPath, garbagePath]) (\<lambda>mixedPlan.
      mixed_row te garbagePath mixedPlan)))))"

text \<open>The keys of a start position survive parsing, printing and parsing again.\<close>

definition startposLevel :: string where
  "startposLevel =
     ''kS38,1_-1_2_104_3_104_4_-1_5_1_6_1000_7_1_15_1_18_0_8_1|;'' @
     ''1,31,2,225,3,15,kA13,0,kA15,0,kA16,0,kA10,0,kA11,0,kA22,1;''"

definition edge_startpos :: "'j test_env \<Rightarrow> unit test" where
  "edge_startpos te =
     (let stParsed = parseLevelString startposLevel; objs = objects stParsed;
          lost = failText te kSuiteEdge ''startpos_roundtrip'' in
      t_then (addAction kSuiteEdge ''startpos kA roundtrip'') (
      case find (\<lambda>u. fmlookup (obj_fields (the (fmlookup objs u))) kType = Some ''31'') (e_objects (te_service te) objs) of
        None \<Rightarrow> lost ''startpos object missing after parse''
      | Some u \<Rightarrow>
          if \<not> list_all (\<lambda>k. fmlookup (obj_fields (the (fmlookup objs u))) k \<noteq> None) [''kA13'', ''kA15'', ''kA16'', ''kA10'', ''kA11'', ''kA22'']
          then lost ''kA* keys lost during parse''
          else
            (let stReparsed = parseLevelString (serializeLevelString stParsed);
                 same = (length (sorted_keys objs) = length (sorted_keys (objects stReparsed)) \<and>
                   list_all (\<lambda>v. map_option obj_fields (fmlookup (objects stReparsed) v) = map_option obj_fields (fmlookup objs v)) (sorted_keys objs))
             in if \<not> same then lost ''fields drift across parse->serialize->parse''
                else addPass te kSuiteEdge ''startpos_roundtrip'' ''kA* keys preserved'')))"

definition runEdgeTests :: "'j test_env \<Rightarrow> string \<Rightarrow> unit test" where
  "runEdgeTests te testDir =
     (let planPath = path_join testDir ''at_plan_empty.gdge'' in
      t_do [edge_db te, edge_unicode te testDir, edge_levels te, edge_large te, edge_message te, edge_plan te planPath,
        edge_invalid te testDir planPath, edge_startpos te] (t_return ()))"

section \<open>The runner\<close>

text \<open>\<open>FinallyWipeTestLevels\<close> wipes once more at the end of the suites.\<close>

definition run_suites :: "'j test_env \<Rightarrow> string \<Rightarrow> unit test" where
  "run_suites te testDir =
     t_do (concat (map (\<lambda>(name, body). [addAction ''Runner'' name, t_suite body])
       [(''suite TwoPhase'', runTwoPhaseTests te testDir), (''suite Checkout'', runCheckoutTests te),
        (''suite Revert'', runRevertTests te), (''suite Squash'', runSquashTests te),
        (''suite ImportExport'', runGdgeExportImportTests te testDir), (''suite LoadLevelHistory'', runHistoryCopyTest te),
        (''suite Collab'', runCollabPlanTest te testDir), (''suite AdvancedCollab'', runAdvancedCollabSimulatorTests te testDir),
        (''suite Edge'', runEdgeTests te testDir), (''suite Perf'', runCommitPerfTests te),
        (''suite ManualChecklist skips'', appendManualSkips te)]) @
       [addAction ''Runner'' ''final wipeTestLevels(scope exit)'', wipeTestLevels]) (t_return ())"

definition finish_report :: "'j test_env \<Rightarrow> unit test" where
  "finish_report te = t_report_with (formatReport (te_error te) (te_unix te) (te_saveDir te) (te_modId te))"

definition runAutomatedTests :: "'j test_env \<Rightarrow> unit test" where
  "runAutomatedTests te =
     t_then (addAction ''Runner'' ''runAutomatedTests begin'') (
     if te_dbPath te \<noteq> [] \<and> \<not> te_dbExists te then
       t_do [addAction ''Init'' ''commit_store_db missing early return'',
         failText te ''Init'' ''commit_store_db'' ''DB path does not exist''] (finish_report te)
     else
       t_do [addAction ''Init'' (if te_dbPath te = [] then ''CommitStore dbPath empty skipped existence check'' else ''CommitStore dbPath exists''),
         addAction ''Runner'' ''wipeTestLevels(initial)'', wipeTestLevels] (
       let testDir = path_join (te_saveDir te) ''auto-test'' in
       t_then (addAction ''Runner'' ''createDirectoryAll auto-test'') (
         case te_mkdir te testDir of
           Some err \<Rightarrow>
             t_do [addAction ''Init'' (''mkdir_auto_test failed '' @ err), failText te ''Init'' ''mkdir_auto_test'' err] (finish_report te)
         | None \<Rightarrow> t_do [addAction ''Init'' ''auto-test directory ok'', run_suites te testDir] (finish_report te))))"

section \<open>The button\<close>

datatype setting_note = AlreadyRunning | NoMod | TestResult bool int int int string

record setting_state =
  testRunning :: bool
  setting_jobs :: nat
  setting_notes :: "setting_note list"

definition pressRun :: "bool \<Rightarrow> string \<Rightarrow> setting_state \<Rightarrow> setting_state" where
  "pressRun modThere buttonKey s =
     (if buttonKey \<noteq> ''run'' then s
      else if testRunning s then s\<lparr>setting_notes := setting_notes s @ [AlreadyRunning]\<rparr>
      else
        (let s1 = s\<lparr>testRunning := True\<rparr> in
         if \<not> modThere then s1\<lparr>testRunning := False, setting_notes := setting_notes s1 @ [NoMod]\<rparr>
         else s1\<lparr>setting_jobs := setting_jobs s1 + 1\<rparr>))"

text \<open>The report goes to a file; when that fails, the failure is counted and writing tried again.\<close>

definition writeReport :: "string \<Rightarrow> test_summary \<Rightarrow> disk \<Rightarrow> test_summary \<times> disk" where
  "writeReport outPath summary d =
     (case writeBinary outPath (reportText summary) d of
        (True, d1) \<Rightarrow> (summary, d1)
      | (False, d1) \<Rightarrow>
          (let summary1 = summary\<lparr>failCount := failCount summary + 1,
                 reportText := reportText summary @ [CHR 0x0A] @ ''FAIL | ReportWrite | could not write test-result.txt'' @ [CHR 0x0A]\<rparr>
           in (summary1, snd (writeBinary outPath (reportText summary1) d1))))"

text \<open>The job of the worker: the run, the file, the note; the flag falls at its end.\<close>

definition workerRun :: "'j test_env \<Rightarrow> setting_state \<times> service \<times> disk \<times> bool \<Rightarrow>
    (setting_state \<times> service \<times> disk \<times> bool) option" where
  "workerRun te x =
     (case x of (s, svc, d, compressed) \<Rightarrow>
        case runAutomatedTests te \<lparr>t_svc = svc, t_disk = d, t_report = empty_summary, t_calls = 0, t_compress = compressed\<rparr> of
          None \<Rightarrow> None
        | Some (_, t) \<Rightarrow>
            (let outPath = path_join (te_saveDir te) ''test-result.txt'' in
             case writeReport outPath (t_report t) (t_disk t) of (summary, d1) \<Rightarrow>
               Some (s\<lparr>testRunning := False, setting_jobs := setting_jobs s - 1,
                   setting_notes := setting_notes s @ [TestResult (failCount summary > 0) (passCount summary) (failCount summary)
                     (skipCount summary) outPath]\<rparr>, t_svc t, d1, t_compress t)))"

end
