(* ===== verification/Auto_Safe.thy ===== *)
theory Auto_Safe
  imports Auto_Run
begin

text \<open>
  Rules for what an action of the automated tests leaves alone and keeps: the levels that are not
  test levels, the counts of the report and the setting, in any store and wherever SQLite or a
  file fails.
\<close>

section \<open>Safe actions\<close>

definition counted :: "test_summary \<Rightarrow> bool" where
  "counted out \<longleftrightarrow>
     passCount out = int (length (filter (\<lambda>r. tr_status r = ''PASS'') (test_rows out))) \<and>
     failCount out = int (length (filter (\<lambda>r. tr_status r = ''FAIL'') (test_rows out))) \<and>
     skipCount out = int (length (filter (\<lambda>r. tr_status r = ''SKIP'') (test_rows out))) \<and>
     (\<forall>r \<in> set (test_rows out). tr_status r \<in> {''PASS'', ''FAIL'', ''SKIP''})"

text \<open>Only the test levels are touched, the counts stay right, and the setting stays (if asked to).\<close>

definition test_safe :: "bool \<Rightarrow> 'a test \<Rightarrow> bool" where
  "test_safe keep m \<longleftrightarrow> (\<forall>s x s'. m s = Some (x, s') \<longrightarrow>
     framed (set allTestKeys) (db_conn (t_svc s)) (db_conn (t_svc s')) \<and>
     (counted (t_report s) \<longrightarrow> counted (t_report s')) \<and> (keep \<longrightarrow> t_compress s' = t_compress s))"

lemma safeI:
  assumes "\<And>s x s'. m s = Some (x, s') \<Longrightarrow> framed (set allTestKeys) (db_conn (t_svc s)) (db_conn (t_svc s')) \<and>
     (counted (t_report s) \<longrightarrow> counted (t_report s')) \<and> t_compress s' = t_compress s"
  shows "test_safe b m"
  using assms unfolding test_safe_def by blast

lemma safe_return: "test_safe b (t_return x)"
  by (simp add: test_safe_def t_return_def)

lemma safe_stop: "test_safe b t_stop"
  by (simp add: test_safe_def t_stop_def)

lemma safe_bind_post:
  assumes m: "test_safe b m" and k: "\<And>s x s'. m s = Some (Some x, s') \<Longrightarrow> test_safe b (k x)"
  shows "test_safe b (t_bind m k)"
  unfolding test_safe_def
proof (intro allI impI)
  fix s x s' assume run: "t_bind m k s = Some (x, s')"
  then obtain r s1 where r: "m s = Some (r, s1)" by (cases "m s") (auto simp: t_bind_def)
  show "framed (set allTestKeys) (db_conn (t_svc s)) (db_conn (t_svc s')) \<and>
     (counted (t_report s) \<longrightarrow> counted (t_report s')) \<and> (b \<longrightarrow> t_compress s' = t_compress s)"
  proof (cases r)
    case None
    with run r have "s' = s1" by (simp add: t_bind_def)
    with m r show ?thesis by (simp add: test_safe_def)
  next
    case (Some y)
    with run r have "k y s1 = Some (x, s')" by (simp add: t_bind_def)
    with k [of s y s1] m r Some show ?thesis using framed_trans by (fastforce simp: test_safe_def)
  qed
qed

lemma safe_bind: "test_safe b m \<Longrightarrow> (\<And>x. test_safe b (k x)) \<Longrightarrow> test_safe b (t_bind m k)"
  by (rule safe_bind_post)

lemma safe_then: "test_safe b m \<Longrightarrow> test_safe b k \<Longrightarrow> test_safe b (t_then m k)"
  unfolding t_then_def by (rule safe_bind)

lemma t_do_simps: "t_do [] k = k" "t_do (m # ms) k = t_then m (t_do ms k)"
  by (simp_all add: t_do_def)

lemma safe_do_Nil: "test_safe b k \<Longrightarrow> test_safe b (t_do [] k)"
  by (simp add: t_do_simps)

lemma safe_do_Cons: "test_safe b m \<Longrightarrow> test_safe b (t_do ms k) \<Longrightarrow> test_safe b (t_do (m # ms) k)"
  by (simp add: t_do_simps safe_then)

lemma safe_do: "(\<And>m. m \<in> set ms \<Longrightarrow> test_safe b m) \<Longrightarrow> test_safe b k \<Longrightarrow> test_safe b (t_do ms k)"
  by (induction ms) (simp_all add: t_do_simps safe_then)

lemma safe_check: "test_safe b f \<Longrightarrow> test_safe b k \<Longrightarrow> test_safe b (t_check c f k)"
  by (simp add: t_check_def safe_then safe_stop)

lemma safe_some: "test_safe b f \<Longrightarrow> (\<And>x. r = Some x \<Longrightarrow> test_safe b (k x)) \<Longrightarrow> test_safe b (t_some r f k)"
  by (simp add: t_some_def safe_then safe_stop split: option.split)

lemma safe_right: "(\<And>err. test_safe b (f err)) \<Longrightarrow> (\<And>x. r = Inr x \<Longrightarrow> test_safe b (k x)) \<Longrightarrow> test_safe b (t_right r f k)"
  by (simp add: t_right_def safe_then safe_stop split: sum.split)

lemma safe_let: "test_safe b (k v) \<Longrightarrow> test_safe b (Let v k)"
  by (simp add: Let_def)

lemma safe_if: "test_safe b x \<Longrightarrow> test_safe b y \<Longrightarrow> test_safe b (if c then x else y)"
  by simp

lemma safe_option: "test_safe b x \<Longrightarrow> (\<And>v. test_safe b (f v)) \<Longrightarrow> test_safe b (case r of None \<Rightarrow> x | Some v \<Rightarrow> f v)"
  by (simp split: option.split)

lemma safe_sum: "(\<And>v. test_safe b (f v)) \<Longrightarrow> (\<And>v. test_safe b (g v)) \<Longrightarrow> test_safe b (case r of Inl v \<Rightarrow> f v | Inr v \<Rightarrow> g v)"
  by (simp split: sum.split)

lemma safe_suite: "test_safe b m \<Longrightarrow> test_safe b (t_suite m)"
  by (fastforce simp: test_safe_def t_suite_def split: option.splits)

section \<open>The report\<close>

lemma counted_rows:
  "counted out \<Longrightarrow> counted (row_pass suite name detail ms out)"
  "counted out \<Longrightarrow> counted (row_fail suite name detail ms out)"
  "counted out \<Longrightarrow> counted (row_skip suite name detail ms out)"
  "counted out \<Longrightarrow> counted (log_action suite text out)"
  "counted out \<Longrightarrow> counted (formatReport err unixTs saveDir modId out)"
  by (simp_all add: counted_def row_pass_def row_fail_def row_skip_def log_action_def formatReport_def push_row_def Let_def)

lemma safe_report: "(\<And>out. counted out \<Longrightarrow> counted (f out)) \<Longrightarrow> test_safe b (t_report_with f)"
  by (auto simp: test_safe_def t_report_with_def)

lemma safe_rows:
  "test_safe b (addAction suite text)" "test_safe b (addPass te suite name text)" "test_safe b (addFail te suite name detail)"
  "test_safe b (addSkip te suite name detail)" "test_safe b (failText te suite name text)" "test_safe b (failGit te suite name err)"
  "test_safe b (failGdge te suite name gerr)" "test_safe b (addActionIf suite text)" "test_safe b (finish_report te)"
  unfolding addAction_def addPass_def addFail_def addSkip_def failText_def failGit_def failGdge_def addActionIf_def finish_report_def
  by (auto intro: safe_report counted_rows safe_return simp: addAction_def)

section \<open>Calls\<close>

lemma safe_store:
  assumes "\<And>c. framed (set allTestKeys) c (snd (f c))"
  shows "test_safe b (t_store f)"
  using assms by (intro safeI) (auto simp: t_store_def split_beta)

lemma safe_call:
  assumes "\<And>n svc. leaves (\<lambda>r. framed (set allTestKeys) (db_conn svc) (db_conn (snd r))) (f n svc)"
  shows "test_safe b (t_call f)"
proof (rule safeI)
  fix s x s' assume "t_call f s = Some (x, s')"
  then obtain r svc where r: "f (t_calls s) (t_svc s) = Some (r, svc)" and s': "s' = s\<lparr>t_svc := svc, t_calls := Suc (t_calls s)\<rparr>"
    by (auto simp: t_call_def split: option.splits prod.splits)
  from leavesD [OF assms r] s' show "framed (set allTestKeys) (db_conn (t_svc s)) (db_conn (t_svc s')) \<and>
     (counted (t_report s) \<longrightarrow> counted (t_report s')) \<and> t_compress s' = t_compress s" by simp
qed

lemma safe_files:
  assumes "\<And>g n svc d. leaves (\<lambda>r. framed (set allTestKeys) (db_conn svc) (db_conn (fst (snd r)))) (f g n svc d)"
  shows "test_safe b (t_files te f)"
proof (rule safeI)
  fix s x s' assume "t_files te f s = Some (x, s')"
  then obtain r svc d where r: "f (packages te s) (t_calls s) (t_svc s) (t_disk s) = Some (r, svc, d)"
    and s': "s' = s\<lparr>t_svc := svc, t_disk := d, t_calls := Suc (t_calls s)\<rparr>"
    by (auto simp: t_files_def split: option.splits prod.splits)
  from leavesD [OF assms r] s' show "framed (set allTestKeys) (db_conn (t_svc s)) (db_conn (t_svc s')) \<and>
     (counted (t_report s) \<longrightarrow> counted (t_report s')) \<and> t_compress s' = t_compress s" by simp
qed

lemma safe_disk: "test_safe b (t_disk_with f)"
  by (intro safeI) (auto simp: t_disk_with_def split: prod.splits)

lemma leaves_same: "leaves (\<lambda>r. same_svc svc (h r)) x \<Longrightarrow> leaves (\<lambda>r. framed K (db_conn svc) (db_conn (h r))) x"
  by (auto simp: leaves_def framed_same)

lemma leaves_frame: "lk \<in> K \<Longrightarrow> leaves (\<lambda>r. framed {lk} (db_conn svc) (db_conn (h r))) x \<Longrightarrow>
    leaves (\<lambda>r. framed K (db_conn svc) (db_conn (h r))) x"
  using framed_mono [of "{lk}" _ _ K] by (auto simp: leaves_def)

lemma safe_reads: "test_safe b (t_head lk)" "test_safe b (t_list te lk)" "test_safe b (t_get te i)"
    "test_safe b (t_store (listSummaryRows lk))" "test_safe b (t_store listLevels)"
  unfolding t_head_def t_list_def t_get_def
  by (auto intro!: safe_store framed_same same_db_getHead same_db_list_rows same_db_get_row same_db_summaries same_db_levels)

lemma safe_reconstruct: "test_safe b (t_reconstruct te i)"
  unfolding t_reconstruct_def using reconstruct_same by (intro safe_call leaves_same) (auto simp: leaves_def)

lemma key_mono: "lk \<in> set allTestKeys \<Longrightarrow> framed {lk} c c' \<Longrightarrow> framed (set allTestKeys) c c'"
  by (erule framed_mono) simp

lemma safe_delete:
  assumes "lk \<in> set allTestKeys"
  shows "test_safe b (t_delete lk)"
proof -
  have "framed (set allTestKeys) c (snd (deleteLevel lk c))" for c
    by (rule key_mono [OF assms delete_framed [of lk c "fst (deleteLevel lk c)"]]) simp
  then show ?thesis unfolding t_delete_def by (intro safe_bind safe_store safe_return)
qed

lemma safe_insert:
  assumes "lk \<in> set allTestKeys"
  shows "test_safe b (t_insert te lk msg blob)"
proof -
  have f: "framed (set allTestKeys) c (snd (insertAndSetHead z now lk None None msg blob c))" for z now c
    by (rule key_mono [OF assms insert_framed [of z now lk None None msg blob c "fst (insertAndSetHead z now lk None None msg blob c)"]]) simp
  have "test_safe b (t_store (insertAndSetHead z now lk None None msg blob))" for z now by (rule safe_store [OF f])
  then show ?thesis unfolding test_safe_def t_insert_def by blast
qed

lemma safe_framed:
  assumes "lk \<in> set allTestKeys" and "\<And>n svc. leaves (svc_framed {lk} svc) (f n svc)"
  shows "test_safe b (t_call f)"
proof (rule safe_call)
  fix n svc
  from assms(2) [of svc n] show "leaves (\<lambda>r. framed (set allTestKeys) (db_conn svc) (db_conn (snd r))) (f n svc)"
    using key_mono [OF assms(1)] by (simp add: leaves_def svc_framed_def)
qed

lemma safe_service:
  assumes "lk \<in> set allTestKeys"
  shows "test_safe b (t_commit te lk msg live)" "test_safe b (t_checkout te lk i)" "test_safe b (t_revert te lk i)"
    "test_safe b (t_squash te lk ids msg)"
  unfolding t_commit_def t_checkout_def t_revert_def t_squash_def
  by (rule safe_framed [OF assms], rule commit_framed checkout_framed revert_framed git_squash_framed)+

lemma safe_importLevel: "env_ok (te_service te) \<Longrightarrow> dest \<in> set allTestKeys \<Longrightarrow> test_safe b (t_importLevel te dest src)"
  unfolding t_importLevel_def by (rule safe_framed, assumption, rule importLevel_framed)

lemma safe_importMany: "dest \<in> set allTestKeys \<Longrightarrow> test_safe b (t_importMany te dest paths)"
  unfolding t_importMany_def by (rule safe_files, rule leaves_frame, assumption, rule importMany_framed)

lemma safe_export: "test_safe b (t_export te lk out)"
  unfolding t_export_def by (rule safe_files, rule leaves_same, rule export_leaves)

lemma safe_plan: "test_safe b (t_plan te dest paths)"
  unfolding t_plan_def by (rule safe_files, rule leaves_same, rule planImport_leaves)

lemma safe_files_disk: "test_safe b (readFirstBytes p n)"
  unfolding readFirstBytes_def by (intro safe_bind safe_disk safe_return)

section \<open>Two phases\<close>

lemma safe_prepareCheckout: "test_safe b (t_prepareCheckout te lk i)"
proof -
  have "leaves (\<lambda>r. framed (set allTestKeys) (db_conn svc) (db_conn (snd r))) (prepareCheckout (te_service te) lk i svc)" for svc
    using prepareCheckout_for [of lk svc "te_service te" i] by (auto simp: leaves_def for_head_def framed_same)
  then show ?thesis unfolding t_prepareCheckout_def by (intro safe_call)
qed

lemma prepareCheckout_level:
  "t_prepareCheckout te lk i s = Some (Some prep, s') \<Longrightarrow> pending prep = Some ph \<Longrightarrow> ph_level ph = lk"
  using prepareCheckout_for [of lk "t_svc s" "te_service te" i]
  by (auto simp: t_prepareCheckout_def t_call_def leaves_def for_head_def split: option.splits prod.splits)

lemma safe_bind_prepare:
  assumes "\<And>prep. (\<And>ph. pending prep = Some ph \<Longrightarrow> ph_level ph = lk) \<Longrightarrow> test_safe b (k prep)"
  shows "test_safe b (t_bind (t_prepareCheckout te lk i) k)"
  using assms prepareCheckout_level by (intro safe_bind_post safe_prepareCheckout) blast

lemma safe_finalizeCheckout: "ph_level ph \<in> set allTestKeys \<Longrightarrow> test_safe b (t_finalizeCheckout te ph st)"
  unfolding t_finalizeCheckout_def
  by (rule safe_call) (metis key_mono finalizeCheckout_framed leaves_simps(2) prod.collapse)

lemma safe_prepareImport: "test_safe b (t_prepareImport te dest paths)"
proof -
  have "leaves (\<lambda>r. framed (set allTestKeys) (db_conn svc) (db_conn (fst (snd r))))
      (prepareImportManyFromGdge (te_service te) g dest paths svc d)" for g svc d
    using prepareMerge_for [of dest svc "te_service te" g paths d] by (auto simp: leaves_def for_import_def framed_same)
  then show ?thesis unfolding t_prepareImport_def by (intro safe_files)
qed

lemma prepareImport_level: "t_prepareImport te dest paths s = Some (Some prep, s') \<Longrightarrow> all_for dest (snd prep)"
  using prepareMerge_for [of dest "t_svc s" "te_service te" "packages te s" paths "t_disk s"]
  by (auto simp: t_prepareImport_def t_files_def leaves_def for_import_def split: option.splits prod.splits)

lemma safe_bind_import:
  "(\<And>prep. all_for dest (snd prep) \<Longrightarrow> test_safe b (k prep)) \<Longrightarrow> test_safe b (t_bind (t_prepareImport te dest paths) k)"
  using prepareImport_level by (intro safe_bind_post safe_prepareImport) blast

lemma safe_finalizeImport: "all_for dest ps \<Longrightarrow> dest \<in> set allTestKeys \<Longrightarrow> test_safe b (t_finalizeImport te ps)"
  unfolding t_finalizeImport_def
  by (rule safe_call) (metis key_mono finalizeMerge_framed leaves_simps(2) prod.collapse)

text \<open>A new message for the commit just made: it is one of the level.\<close>

definition made_at :: "level_key \<Rightarrow> service \<Rightarrow> (git_error + commit_id) \<times> service \<Rightarrow> bool" where
  "made_at lk svc r \<longleftrightarrow> (\<forall>i. fst r = Inr i \<longrightarrow> saved (db_conn svc) = None \<longrightarrow>
     (\<exists>row. fmlookup (commits (cdb (db_conn (snd r)))) i = Some row \<and> r_level row = lk))"

lemma record_made:
  assumes "same_svc svc svc1"
  shows "made_at lk svc (record_commit e now lk msg par h inc svc1)"
proof -
  obtain res c where q: "insertAndSetHead (e_zlib e) now lk par None msg
      (dump e (diff_states e (case h of None \<Rightarrow> empty_state | Some h \<Rightarrow> h) inc)) (db_conn svc1) = (res, c)" by fastforce
  show ?thesis
  proof (cases res)
    case (Inl err)
    with q show ?thesis by (simp add: record_commit_def made_at_def Let_def)
  next
    case (Inr i)
    have "\<exists>row. fmlookup (commits (cdb c)) i = Some row \<and> r_level row = lk" if "saved (db_conn svc) = None"
    proof -
      have "saved (db_conn svc1) = None" using that assms by (simp add: same_db_def)
      from insertAndSetHead_Inr [OF q [unfolded Inr] this] show ?thesis
        by (auto simp: committed_def inserted_def new_row_def)
    qed
    with q Inr show ?thesis by (simp add: record_commit_def made_at_def Let_def)
  qed
qed

lemma commit_made: "leaves (made_at lk svc) (git_commit e now lk msg live ds svc)"
proof -
  have rec: "leaves (made_at lk svc) (case x of None \<Rightarrow> None | Some (inc, ds') \<Rightarrow> Some (record_commit e now lk msg par h inc svc1))"
    if "same_svc svc svc1" for x par h svc1
    by (simp add: record_made [OF that] split: option.split)
  show ?thesis unfolding git_commit_def Let_def
    apply (rule getHead_leaves)
    apply (rule leaves_case)
     apply (rule rec, simp)
    apply (rule after_reconstruct_leaves)
    apply (rule leaves_case)
     apply (simp add: made_at_def)
    apply (rule rec, simp, meson same_db_trans)
    done
qed

lemma safe_bind_message:
  assumes key: "lk \<in> set allTestKeys" and f: "\<And>err. test_safe b (f err)" and k: "\<And>i ok. test_safe b (k i ok)"
  shows "test_safe b (t_bind (t_commit te lk msg live) (\<lambda>r. t_right r f (\<lambda>i. t_bind (t_store (updateMessage i m)) (k i))))"
  unfolding test_safe_def
proof (intro allI impI)
  let ?K = "set allTestKeys"
  fix s x s'
  assume run: "t_bind (t_commit te lk msg live) (\<lambda>r. t_right r f (\<lambda>i. t_bind (t_store (updateMessage i m)) (k i))) s = Some (x, s')"
  then obtain r s1 where c: "t_commit te lk msg live s = Some (Some r, s1)"
    by (auto simp: t_bind_def t_commit_def t_call_def split: option.splits prod.splits)
  have safe1: "framed ?K (db_conn (t_svc s)) (db_conn (t_svc s1)) \<and>
     (counted (t_report s) \<longrightarrow> counted (t_report s1)) \<and> (b \<longrightarrow> t_compress s1 = t_compress s)"
    using safe_service(1) [OF key, of b te msg live] c by (simp add: test_safe_def)
  show "framed ?K (db_conn (t_svc s)) (db_conn (t_svc s')) \<and>
     (counted (t_report s) \<longrightarrow> counted (t_report s')) \<and> (b \<longrightarrow> t_compress s' = t_compress s)"
  proof (cases r)
    case (Inl err)
    with run c have "t_then (f err) t_stop s1 = Some (x, s')" by (simp add: t_bind_def t_right_def)
    with safe_then [OF f safe_stop] safe1 show ?thesis using framed_trans by (fastforce simp: test_safe_def)
  next
    case (Inr i)
    obtain ok c2 where u: "updateMessage i m (db_conn (t_svc s1)) = (ok, c2)" by fastforce
    let ?s2 = "s1\<lparr>t_svc := (t_svc s1)\<lparr>db_conn := c2\<rparr>\<rparr>"
    from run c Inr u have "k i ok ?s2 = Some (x, s')" by (simp add: t_bind_def t_right_def t_store_def)
    with k have safe2: "framed ?K c2 (db_conn (t_svc s')) \<and>
        (counted (t_report s1) \<longrightarrow> counted (t_report s')) \<and> (b \<longrightarrow> t_compress s' = t_compress s1)"
      by (fastforce simp: test_safe_def)
    have "framed ?K (db_conn (t_svc s)) (db_conn (t_svc s'))"
    proof (rule framedI)
      assume s: "saved (db_conn (t_svc s)) = None"
      from c obtain n where "git_commit (te_service te) (te_now te n) lk msg live (te_draws te n) (t_svc s) = Some (r, t_svc s1)"
        by (auto simp: t_commit_def t_call_def split: option.splits prod.splits)
      from leavesD [OF commit_made this] Inr s obtain row where
        "fmlookup (commits (cdb (db_conn (t_svc s1)))) i = Some row" "r_level row = lk" by (auto simp: made_at_def)
      with message_framed [OF u, of ?K] key have "framed ?K (db_conn (t_svc s1)) c2" by auto
      with safe1 safe2 show ?thesis using framed_trans by blast
    qed
    with safe1 safe2 show ?thesis by simp
  qed
qed

end
