(* ===== verification/Auto_Props.thy ===== *)
theory Auto_Props
  imports Auto_Safe Import_Props
begin

text \<open>
  What the automated tests leave alone, and what their report says, in any store and wherever
  SQLite or a file fails.
\<close>

section \<open>Helpers and suites\<close>

lemma test_keys:
  "kCheckout \<in> set allTestKeys" "kRevert \<in> set allTestKeys" "kSquash \<in> set allTestKeys" "kRawEx \<in> set allTestKeys"
  "kZipEx \<in> set allTestKeys" "kMix \<in> set allTestKeys" "kHistSrc \<in> set allTestKeys" "kHistDst \<in> set allTestKeys"
  "kTwoPhase \<in> set allTestKeys" "kPerf \<in> set allTestKeys" "kCollabBase \<in> set allTestKeys" "kCollabLay \<in> set allTestKeys"
  "kDecA \<in> set allTestKeys" "kDecB \<in> set allTestKeys" "kOther \<in> set allTestKeys" "kAdvCollabBase \<in> set allTestKeys"
  "kAdvCollabIntegrator \<in> set allTestKeys" "kAdvCollabAlice \<in> set allTestKeys" "kAdvCollabBob \<in> set allTestKeys"
  "kAdvCollabScratch \<in> set allTestKeys" "kAdvCollabCara \<in> set allTestKeys" "kAdvCollabLegacy \<in> set allTestKeys"
  by (simp_all add: store_keys file_keys allTestKeys_def)

lemma safe_wipe: "test_safe b wipeTestLevels"
  unfolding wipeTestLevels_def by (rule safe_do) (auto intro: safe_delete safe_return)

lemma safe_chain: "test_safe b (chainOldestToNewest te lk)"
proof -
  have walk: "test_safe b (\<lambda>s. case r of None \<Rightarrow> None | Some ids \<Rightarrow> Some (Some (rev ids), s))" for r
    by (simp add: test_safe_def split: option.split)
  show ?thesis unfolding chainOldestToNewest_def
    by (intro safe_bind safe_reads safe_option safe_if safe_return walk)
qed

lemma safe_commits: "lk \<in> set allTestKeys \<Longrightarrow> test_safe b (t_commits te lk xs)"
  by (induction xs rule: t_commits.induct [where ?a0.0 = te and ?a1.0 = lk]) (auto intro!: safe_return safe_bind safe_service safe_sum)

lemma safe_require:
  assumes "lk \<in> set allTestKeys"
  shows "test_safe b (requireCommit te suite name lk msg live text)" "test_safe b (requireExport te suite name lk out text)"
    "test_safe b (requireImportMany te suite name lk paths text)"
  unfolding requireCommit_def requireExport_def requireImportMany_def
  by (intro safe_then safe_bind safe_right safe_return safe_rows safe_service safe_export safe_importMany assms)+

lemma safe_fork: "lk \<in> set allTestKeys \<Longrightarrow> test_safe b (forkExport te suite lk basePath out x label)"
  unfolding forkExport_def by (intro safe_then safe_bind safe_require)

lemma safe_head_state: "test_safe b (t_head_state te lk)"
  unfolding t_head_state_def by (intro safe_bind safe_reads safe_option safe_return safe_reconstruct)

lemma safe_summaries: "test_safe b (t_summaries te lk)"
  unfolding t_summaries_def by (intro safe_bind safe_reads safe_return)

lemma safe_deref: "test_safe b (t_deref r)"
  by (auto simp: test_safe_def t_deref_def split: option.splits)

lemma safe_fixture: "test_safe b (ensureFixtureDir te p)"
  unfolding ensureFixtureDir_def by (intro safe_option safe_then safe_rows safe_stop safe_return)

lemma safe_delete_adv: "test_safe b deleteAdvancedLevels"
  unfolding deleteAdvancedLevels_def by (rule safe_do) (auto intro: safe_delete test_keys safe_return)

text \<open>The rules by which a suite is taken apart, statement by statement.\<close>

lemmas safe_flow = safe_do_Nil safe_do_Cons safe_then safe_bind safe_let safe_check safe_some safe_right safe_if
  safe_option safe_sum safe_return safe_stop
lemmas safe_calls = safe_rows safe_delete safe_reads safe_reconstruct safe_service safe_importMany safe_export safe_plan
  safe_files_disk safe_chain safe_commits safe_require safe_fork safe_head_state safe_summaries safe_deref safe_fixture
  safe_delete_adv safe_disk test_keys

lemma safe_checkout_tests: "test_safe b (runCheckoutTests te)"
  unfolding runCheckoutTests_def by (intro safe_flow safe_calls)

lemma safe_revert_tests: "test_safe b (runRevertTests te)"
  unfolding runRevertTests_def revert_chain_part_def revert_conflict_part_def by (intro safe_flow safe_calls)

lemma safe_squash_tests: "test_safe b (runSquashTests te)"
  unfolding runSquashTests_def squash_range_part_def squash_all_part_def by (intro safe_flow safe_calls)

lemma safe_history_test: "env_ok (te_service te) \<Longrightarrow> test_safe b (runHistoryCopyTest te)"
  unfolding runHistoryCopyTest_def by (intro safe_flow safe_calls safe_importLevel; assumption)

lemma safe_perf_tests: "test_safe b (runCommitPerfTests te)"
  unfolding runCommitPerfTests_def by (intro safe_flow safe_calls)

lemma safe_manual: "test_safe b (appendManualSkips te)"
  unfolding appendManualSkips_def by (rule safe_do) (auto intro: safe_rows safe_return)

lemma safe_two_phase_tests: "test_safe b (runTwoPhaseTests te testDir)"
proof -
  have head: "test_safe b (t_finalizeCheckout te ph st)" if "\<And>ph. pending prep = Some ph \<Longrightarrow> ph_level ph = kTwoPhase" "pending prep = Some ph" for prep ph st
    using safe_finalizeCheckout [of ph b te st] that test_keys(9) by simp
  have "test_safe b (two_phase_checkout te)"
    unfolding two_phase_checkout_def
    by (intro safe_bind_prepare safe_flow safe_calls; rule head; assumption)
  moreover have "test_safe b (two_phase_import te testDir)"
    unfolding two_phase_import_def
    by (intro safe_bind_import safe_flow safe_calls; rule safe_finalizeImport [OF _ test_keys(6)]; assumption)
  ultimately show ?thesis unfolding runTwoPhaseTests_def by (rule safe_then)
qed

text \<open>The setting for compressed exports: changed inside the guard, put back by it.\<close>

lemma safe_setCompress: "test_safe False (setCompress te v)"
  by (auto simp: test_safe_def setCompress_def)

lemma safe_guard:
  assumes "\<And>prev. test_safe b (body False prev)" and "\<And>prev. test_safe False (body True prev)"
  shows "test_safe b (with_compress_guard te body)"
  unfolding test_safe_def
proof (intro allI impI)
  fix s x s' assume run: "with_compress_guard te body s = Some (x, s')"
  show "framed (set allTestKeys) (db_conn (t_svc s)) (db_conn (t_svc s')) \<and>
     (counted (t_report s) \<longrightarrow> counted (t_report s')) \<and> (b \<longrightarrow> t_compress s' = t_compress s)"
  proof (cases "te_settings te")
    case True
    with run obtain s2 where "body True (t_compress s) (s\<lparr>t_compress := True\<rparr>) = Some (x, s2)" "s' = s2\<lparr>t_compress := t_compress s\<rparr>"
      by (auto simp: with_compress_guard_def Let_def split: option.splits)
    with assms(2) [of "t_compress s"] show ?thesis by (fastforce simp: test_safe_def)
  next
    case False
    with run have "body False True s = Some (x, s')" by (auto simp: with_compress_guard_def Let_def split: option.splits)
    with assms(1) [of True] show ?thesis by (simp add: test_safe_def)
  qed
qed

lemma safe_gdge_tests: "test_safe b (runGdgeExportImportTests te testDir)"
  unfolding runGdgeExportImportTests_def gdge_mixed_import_def
  by (rule safe_guard) (simp_all only: not_False_eq_True not_True_eq_False if_True if_False, (intro safe_flow safe_calls safe_setCompress)+)

lemma safe_collab_tests: "test_safe b (runCollabPlanTest te testDir)"
  unfolding runCollabPlanTest_def collab_setup_def collab_plans_def collab_conflicts_def list.map append.simps
  by (intro safe_flow safe_calls)

lemma safe_advanced_tests: "test_safe b (runAdvancedCollabSimulatorTests te testDir)"
  unfolding runAdvancedCollabSimulatorTests_def adv_setup_def adv_plans_def adv_merges_def adv_conflicts_def
  by (intro safe_flow safe_calls)

lemma safe_edge_message: "test_safe b (edge_message te)"
  unfolding edge_message_def by (intro safe_bind_message safe_flow safe_calls)

lemma safe_edge_tests: "test_safe b (runEdgeTests te testDir)"
  unfolding runEdgeTests_def edge_db_def edge_unicode_def edge_levels_def edge_large_def edge_plan_def edge_invalid_def
    invalid_row_def mixed_row_def edge_startpos_def
  by (intro safe_edge_message safe_flow safe_calls safe_insert)

lemma safe_suites:
  assumes e: "env_ok (te_service te)"
  shows "test_safe b (run_suites te testDir)"
proof -
  have run: "test_safe b (addAction ''Runner'' name)" "test_safe b m \<Longrightarrow> test_safe b (t_suite m)" for name m
    by (rule safe_rows, rule safe_suite)
  show ?thesis unfolding run_suites_def list.map concat.simps prod.case append.simps
    by (intro safe_do_Nil safe_do_Cons safe_return safe_wipe run safe_two_phase_tests safe_checkout_tests safe_revert_tests
      safe_squash_tests safe_gdge_tests safe_history_test [OF e] safe_collab_tests safe_advanced_tests safe_edge_tests
      safe_perf_tests safe_manual)
qed

lemma safe_run: "env_ok (te_service te) \<Longrightarrow> test_safe b (runAutomatedTests te)"
  unfolding runAutomatedTests_def by (intro safe_flow safe_rows safe_wipe safe_suites)

section \<open>A run on a store with a level of the user\<close>

definition sample_test_env :: "jv test_env" where
  "sample_test_env =
     \<lparr>te_service = sample_env, te_package = sample_genv True, te_settings = True,
      te_draws = (\<lambda>n. [100 + of_nat n, 200 + of_nat n, 300 + of_nat n]), te_now = int, te_ms = nat_to_string, te_error = (\<lambda>_. ''error''),
      te_unix = 1700, te_saveDir = ''/save'', te_modId = ''mod'', te_dbPath = ''/save/git.db'', te_dbExists = True,
      te_mkdir = (\<lambda>_. Some ''denied''), te_seedText = ''1'', te_seedMs = 1, te_hotMs = 2\<rparr>"

definition sample_setting :: "setting_state \<times> service \<times> disk \<times> bool" where
  "sample_setting = (\<lparr>testRunning = True, setting_jobs = 1, setting_notes = []\<rparr>, sample_svc, sample_disk [], False)"

definition sample_run :: "(setting_state \<times> service \<times> disk \<times> bool) option" where
  "sample_run = workerRun sample_test_env sample_setting"

lemma sample_run_ok:
  "\<exists>s svc d z. sample_run = Some (s, svc, d, z) \<and> setting_notes s = [TestResult True 0 1 0 ''/save/test-result.txt''] \<and>
     fmlookup (refs (cdb (db_conn svc))) ''L'' = Some 2"
proof -
  have "case sample_run of None \<Rightarrow> False | Some (s, svc, d, z) \<Rightarrow>
      setting_notes s = [TestResult True 0 1 0 ''/save/test-result.txt''] \<and> fmlookup (refs (cdb (db_conn svc))) ''L'' = Some 2"
    by code_simp
  then show ?thesis by (auto split: option.splits prod.splits)
qed


lemma workerRun_cases:
  assumes "workerRun te (s, svc, d, z) = Some (s', svc', d', z')"
  shows "\<exists>x t summary. runAutomatedTests te \<lparr>t_svc = svc, t_disk = d, t_report = empty_summary, t_calls = 0, t_compress = z\<rparr> = Some (x, t) \<and>
    writeReport (path_join (te_saveDir te) ''test-result.txt'') (t_report t) (t_disk t) = (summary, d') \<and>
    s' = s\<lparr>testRunning := False, setting_jobs := setting_jobs s - 1, setting_notes := setting_notes s @
      [TestResult (failCount summary > 0) (passCount summary) (failCount summary) (skipCount summary)
        (path_join (te_saveDir te) ''test-result.txt'')]\<rparr> \<and> svc' = t_svc t \<and> z' = t_compress t"
proof (cases "runAutomatedTests te \<lparr>t_svc = svc, t_disk = d, t_report = empty_summary, t_calls = 0, t_compress = z\<rparr>")
  case None
  with assms show ?thesis by (simp add: workerRun_def)
next
  case (Some xt)
  obtain x t where xt: "xt = (x, t)" by fastforce
  obtain summary d1 where "writeReport (path_join (te_saveDir te) ''test-result.txt'') (t_report t) (t_disk t) = (summary, d1)" by fastforce
  with assms Some xt show ?thesis by (simp add: workerRun_def Let_def)
qed

section \<open>Properties\<close>



text \<open>The rows of a report with a status.\<close>

definition number_of :: "string \<Rightarrow> test_summary \<Rightarrow> int" where
  "number_of status out = int (length (filter (\<lambda>r. tr_status r = status) (test_rows out)))"

lemma three_statuses:
  "\<forall>r \<in> set xs. tr_status r \<in> {a, b, c} \<Longrightarrow> a \<noteq> b \<Longrightarrow> a \<noteq> c \<Longrightarrow> b \<noteq> c \<Longrightarrow>
   length xs = length (filter (\<lambda>r. tr_status r = a) xs) + length (filter (\<lambda>r. tr_status r = b) xs) +
     length (filter (\<lambda>r. tr_status r = c) xs)"
  by (induction xs) auto

lemma counted_numbers:
  assumes "counted out"
  shows "passCount out = number_of ''PASS'' out \<and> failCount out = number_of ''FAIL'' out \<and> skipCount out = number_of ''SKIP'' out \<and>
    int (length (test_rows out)) = number_of ''PASS'' out + number_of ''FAIL'' out + number_of ''SKIP'' out"
proof -
  have "length (test_rows out) = length (filter (\<lambda>r. tr_status r = ''PASS'') (test_rows out)) +
      length (filter (\<lambda>r. tr_status r = ''FAIL'') (test_rows out)) + length (filter (\<lambda>r. tr_status r = ''SKIP'') (test_rows out))"
    by (rule three_statuses) (use assms in \<open>simp_all add: counted_def\<close>)
  then have "int (length (test_rows out)) = number_of ''PASS'' out + number_of ''FAIL'' out + number_of ''SKIP'' out"
    unfolding number_of_def by linarith
  with assms show ?thesis by (simp add: counted_def number_of_def)
qed

lemma counted_empty: "counted empty_summary"
  by (simp add: counted_def empty_summary_def)

lemma writeReport_counts:
  assumes "writeReport path out d = (out', d')"
  shows "passCount out' = passCount out \<and> skipCount out' = skipCount out \<and>
    failCount out' = failCount out + (if fst (writeBinary path (reportText out) d) then 0 else 1)"
proof (cases "writeBinary path (reportText out) d")
  case (Pair ok d1)
  with assms show ?thesis by (cases ok) (auto simp: writeReport_def Let_def)
qed

text \<open>
  The report of a run is honest: whatever fails, the numbers of passed, failed and
  skipped checks in the note are those of the rows of its report, every row is one of these
  three, and the number of failures is larger by one exactly when the report could not be
  written at the first try.
\<close>

theorem test_report_counts:
  assumes "env_ok (te_service te)" and "workerRun te (s, svc, d, z) = Some (s', svc', d', z')"
  shows "\<exists>x t failed. runAutomatedTests te \<lparr>t_svc = svc, t_disk = d, t_report = empty_summary, t_calls = 0, t_compress = z\<rparr> = Some (x, t) \<and>
    failed = number_of ''FAIL'' (t_report t) +
      (if fst (writeBinary (path_join (te_saveDir te) ''test-result.txt'') (reportText (t_report t)) (t_disk t)) then 0 else 1) \<and>
    setting_notes s' = setting_notes s @ [TestResult (failed > 0) (number_of ''PASS'' (t_report t)) failed (number_of ''SKIP'' (t_report t))
      (path_join (te_saveDir te) ''test-result.txt'')] \<and>
    int (length (test_rows (t_report t))) = number_of ''PASS'' (t_report t) + number_of ''FAIL'' (t_report t) + number_of ''SKIP'' (t_report t)"
proof -
  let ?s = "\<lparr>t_svc = svc, t_disk = d, t_report = empty_summary, t_calls = 0, t_compress = z\<rparr>"
  let ?out = "path_join (te_saveDir te) ''test-result.txt''"
  from workerRun_cases [OF assms(2)] obtain x t summary where run: "runAutomatedTests te ?s = Some (x, t)"
    and w: "writeReport ?out (t_report t) (t_disk t) = (summary, d')"
    and s': "s' = s\<lparr>testRunning := False, setting_jobs := setting_jobs s - 1, setting_notes := setting_notes s @
      [TestResult (failCount summary > 0) (passCount summary) (failCount summary) (skipCount summary) ?out]\<rparr>" by blast
  have "counted (t_report ?s) \<longrightarrow> counted (t_report t)" using safe_run [OF assms(1), of False] run unfolding test_safe_def by blast
  then have c: "counted (t_report t)" using counted_empty by simp
  note n = counted_numbers [OF c] writeReport_counts [OF w]
  have "setting_notes s' = setting_notes s @ [TestResult (failCount summary > 0) (passCount summary) (failCount summary) (skipCount summary) ?out]"
    by (simp add: s')
  then show ?thesis using run n by auto
qed

theorem test_report_counts_witness:
  "\<exists>x t. runAutomatedTests sample_test_env \<lparr>t_svc = sample_svc, t_disk = sample_disk [], t_report = empty_summary, t_calls = 0, t_compress = False\<rparr> =
      Some (x, t) \<and> number_of ''PASS'' (t_report t) = 0 \<and> number_of ''SKIP'' (t_report t) = 0"
proof -
  obtain s svc d z where r: "sample_run = Some (s, svc, d, z)"
    and n: "setting_notes s = [TestResult True 0 1 0 ''/save/test-result.txt'']" using sample_run_ok by blast
  have e: "env_ok (te_service sample_test_env)" by (simp add: sample_test_env_def sample_env_ok)
  from test_report_counts [OF e r [unfolded sample_run_def sample_setting_def]] n show ?thesis by auto
qed

text \<open>The button and the worker, in any order.\<close>

inductive setting_reach :: "'j test_env \<Rightarrow> setting_state \<times> service \<times> disk \<times> bool \<Rightarrow> bool" for te where
  start: "setting_reach te (\<lparr>testRunning = False, setting_jobs = 0, setting_notes = []\<rparr>, svc, d, z)"
| press: "setting_reach te (s, store) \<Longrightarrow> setting_reach te (pressRun modThere buttonKey s, store)"
| worker: "setting_reach te x \<Longrightarrow> setting_jobs (fst x) > 0 \<Longrightarrow> workerRun te x = Some x' \<Longrightarrow> setting_reach te x'"

lemma workerRun_state:
  "workerRun te (s, svc, d, z) = Some (s', svc', d', z') \<Longrightarrow> testRunning s' = False \<and> setting_jobs s' = setting_jobs s - 1"
  using workerRun_cases [of te s svc d z s' svc' d' z'] by auto

text \<open>
  C40. At most one run of the tests is under way, however often and whenever the button is
  pressed: a run is with the worker exactly while the flag is set, never two; the flag falls
  with the run, and a press during a run changes nothing but shows a note.
\<close>

theorem one_test_run_at_a_time:
  assumes "setting_reach te (s, svc, d, z)"
  shows "setting_jobs s \<le> 1 \<and> testRunning s = (setting_jobs s = 1) \<and>
    (testRunning s \<longrightarrow> pressRun modThere ''run'' s = s\<lparr>setting_notes := setting_notes s @ [AlreadyRunning]\<rparr>) \<and>
    (setting_jobs s = 1 \<longrightarrow> workerRun te (s, svc, d, z) = Some (s', svc', d', z') \<longrightarrow> \<not> testRunning s' \<and> setting_jobs s' = 0)"
proof -
  have "setting_jobs (fst x) \<le> 1 \<and> testRunning (fst x) = (setting_jobs (fst x) = 1)" if "setting_reach te x" for x
    using that
  proof induction
    case (press s store modThere buttonKey)
    then show ?case by (auto simp: pressRun_def Let_def)
  next
    case (worker x x')
    obtain s svc d z s' svc' d' z' where x: "x = (s, svc, d, z)" "x' = (s', svc', d', z')" by (cases x; cases x')
    with worker workerRun_state [of te s svc d z s' svc' d' z'] show ?case by auto
  qed simp
  from this [OF assms] show ?thesis by (auto simp: pressRun_def dest: workerRun_state)
qed

text \<open>Pressed twice, run once.\<close>

theorem one_test_run_at_a_time_witness:
  "let s = pressRun True ''run'' (pressRun True ''run'' \<lparr>testRunning = False, setting_jobs = 0, setting_notes = []\<rparr>)
   in setting_jobs s = 1 \<and> testRunning s"
proof -
  let ?s = "pressRun True ''run'' (pressRun True ''run'' \<lparr>testRunning = False, setting_jobs = 0, setting_notes = []\<rparr>)"
  have "setting_reach sample_test_env (?s, sample_svc, sample_disk [], False)" by (intro setting_reach.intros)
  moreover have "setting_jobs ?s = 1" by (simp add: pressRun_def)
  ultimately show ?thesis using one_test_run_at_a_time [of sample_test_env ?s] by (simp add: Let_def)
qed

end
