(* ===== verification/Spec2Isabelle.thy ===== *)
theory Spec2Isabelle
  imports Commit_Schema Change_Props Editor_Props Screen Life_Props Auto_Props
begin

text \<open>
  Verification library of Git Editor, a mod that keeps a version history of the levels of a
  game editor in an SQLite database (C++, \<open>src/\<close>).

  \<^bold>\<open>The program.\<close>  A level string is parsed into a level state, a header and a table of
  objects (\<open>src/model\<close>).  Committing gives the objects the identifiers of the previous version
  (\<open>src/identity\<close>), computes the delta between the two states (\<open>src/diff\<close>), prints it as JSON
  (\<open>src/diff/Delta.cpp\<close>), compresses it (\<open>src/util/io/BlobCodec.cpp\<close>) and stores a row with its
  parent, moving the HEAD of the level (\<open>src/store\<close>).  The service (\<open>src/service\<close>) rebuilds the
  state of a commit from its chain of deltas through a cache, and offers commit, checkout, revert,
  squash, taking over another level's history, and export and import of history files, a merge
  of three states.  Those that change the editor are in two halves: the first prepares a state
  and what to record, the editor shows the state (\<open>src/editor\<close>), the second records it.  The pause
  menu and the popups (\<open>src/hooks\<close>, \<open>src/ui\<close>) start these flows, a worker (\<open>src/util\<close>) runs one
  posted job at a time, and the main thread runs the callbacks that finished jobs queue.

  \<^bold>\<open>The theories, from the bottom.\<close>
  \<^item> \<^theory_text>\<open>Prelude\<close>: machine types, finite maps with the operations of the C++ containers, lemma
    collections.  \<^theory_text>\<open>Text_Format\<close>: \<open>util/format\<close> (splitting, numbers, \<open>shorten\<close>, state fingerprint).
  \<^item> \<^theory_text>\<open>Level_Model\<close>: \<open>LevelState.hpp\<close>, \<open>LevelParser.cpp\<close>; round trip of level strings.
  \<^item> \<^theory_text>\<open>Differ\<close>: \<open>Differ.cpp\<close>; applying the delta of two states to the first gives the second, the
    conflicts of a delta applied elsewhere, point by point.  \<^theory_text>\<open>Delta_Json\<close>: \<open>Delta.cpp\<close>; round trip.
  \<^item> \<^theory_text>\<open>Gd_Header\<close>, \<^theory_text>\<open>Merge\<close>: \<open>GdHeader.cpp\<close>, \<open>MergeService.cpp\<close>.  The laws of a three-way choice are
    the locale \<open>three_way\<close>, interpreted on values, colour channels, objects and whole contents.
  \<^item> \<^theory_text>\<open>Coordinates\<close>, \<^theory_text>\<open>Matcher\<close>: \<open>Matcher.cpp\<close> with its floating-point numbers as rationals rounded to
    binary64; the reparsed level is the one given, identifiers are kept, none is used twice.
  \<^item> \<^theory_text>\<open>Blob_Codec\<close>: \<open>BlobCodec.cpp\<close>.  \<^theory_text>\<open>Commit_Db\<close>: tables, SQL statements and transactions with
    deferred foreign keys; \<^theory_text>\<open>Commit_Store\<close>: \<open>CommitStore.cpp\<close>; \<^theory_text>\<open>Commit_Schema\<close>: \<open>CommitSchema.cpp\<close>, \<open>init\<close>.
    \<^theory_text>\<open>Store_Spec\<close>: every operation is atomic and keeps the references.  \<^theory_text>\<open>History_Copy\<close>:
    \<open>replaceLevelHistoryFrom\<close>; its topological sort is proved in the locale \<open>dependency_graph\<close>.
  \<^item> \<^theory_text>\<open>Git_Service\<close>: \<open>GitService.cpp\<close>.  \<^theory_text>\<open>Commit_Log\<close>: what a commit means, replaying its ancestors;
    the locales \<open>commit_log\<close> (what appending and folding commits do to the meaning of the others) and
    \<open>state_memo\<close> (the cache), interpreted on the database and the cache.  \<^theory_text>\<open>Service_Spec\<close>,
    \<^theory_text>\<open>Service_Ops\<close>, \<^theory_text>\<open>Service_Squash\<close>: each operation against that meaning; \<^theory_text>\<open>Service_Reach\<close>: sequences of
    calls and restarts (\<^theory_text>\<open>Service_Start\<close>: \<open>sharedCommitStore\<close>, \<open>sharedGitService\<close>, the destructor);
    \<^theory_text>\<open>Service_Props\<close>: the properties over every reachable service; \<^theory_text>\<open>Service_Late\<close>: the second half of
    an operation after other calls.  \<^theory_text>\<open>Service_Life\<close>: what a run of calls and restarts keeps, from the
    invariant \<open>live_svc\<close>.  \<^theory_text>\<open>Service_Frame\<close>: what a call leaves alone (\<open>framed\<close>: all levels but
    some), from any database, also a damaged one.  \<^theory_text>\<open>Life_Props\<close>: a committed level comes back, the
    history graph is well typed, levels are isolated.
  \<^item> \<^theory_text>\<open>File_Store\<close>: \<open>FileAtomic.cpp\<close>, \<open>DbZip.cpp\<close>.  \<^theory_text>\<open>Gdge_Package\<close>, \<^theory_text>\<open>Package_Spec\<close>, \<^theory_text>\<open>Package_Props\<close>:
    \<open>GdgePackage.cpp\<close>.  \<^theory_text>\<open>Package_Graph\<close>, \<^theory_text>\<open>Gdge_Import\<close>, \<^theory_text>\<open>Import_Ops\<close>, \<^theory_text>\<open>Import_Props\<close>:
    \<open>PackageReconstruction.cpp\<close>, \<open>GdgeExport.cpp\<close>, \<open>GdgeImportPlanner.cpp\<close>, \<open>GdgeImportMerge.cpp\<close>.
  \<^item> \<^theory_text>\<open>Change_Text\<close>, \<^theory_text>\<open>Change_Props\<close>: the counts (\<open>CommitSummaryBuilder.cpp\<close>), description and paged
    viewer of a commit (\<open>ui/presentation\<close>, \<open>DeltaInfoLayer.cpp\<close>).
  \<^item> \<^theory_text>\<open>Editor_Flow\<close>: \<open>src/editor\<close>, messages, the state of popups and queues.  \<^theory_text>\<open>Editor_Jobs\<close>:
    \<open>PreparedEditorFlow.hpp\<close>, the jobs and callbacks of \<open>HistoryFlows.cpp\<close>, \<open>LevelBrowserLayer.cpp\<close>,
    \<open>HistoryList.cpp\<close>, \<open>ScrollListPopup\<close> and \<open>ImportGdgeFlow.cpp\<close>.  \<^theory_text>\<open>Editor_Events\<close>: the handlers of
    buttons and dialogs, \<open>app_step\<close>, the steps of the whole program, and \<open>app_restart\<close>.  \<^theory_text>\<open>Screen\<close>: which
    labels and buttons the lists and the pause menu show, and the event of each button.
  \<^item> \<^theory_text>\<open>Editor_Guard\<close>, \<^theory_text>\<open>Editor_Control\<close>: the busy flag as a token.  \<^theory_text>\<open>Editor_Inv\<close>, \<^theory_text>\<open>Editor_Reach\<close>: the
    invariant \<open>app_ok\<close>; the locale \<open>draining\<close> (a measure that steps lower) gives termination.
    \<^theory_text>\<open>Editor_Props\<close>: the properties of the whole program.
  \<^item> \<^theory_text>\<open>Auto_Harness\<close>, \<^theory_text>\<open>Auto_Suites\<close>, \<^theory_text>\<open>Auto_Collab\<close>, \<^theory_text>\<open>Auto_Run\<close>: the automated tests the program ships and
    runs on the user's own store (\<open>src/test\<close>), and the button that starts them (\<open>src/settings\<close>): a
    suite is an action on a service, a disk and a report, which may end early.  \<^theory_text>\<open>Auto_Safe\<close>: one rule
    per statement for what it leaves alone; \<^theory_text>\<open>Auto_Props\<close>: a run leaves all other levels alone, its
    report counts its rows, and one run is under way at most.

  \<^bold>\<open>Conventions.\<close>  A map of the sources is an \<open>fmap\<close>; where the code depends on the order of a hash
  table, that order is a parameter that lists each key once.  Object identifiers are words, those
  of commits are row numbers of SQLite, as \<open>int\<close>; sizes are words or \<open>nat\<close>,
  signed integers are \<open>int\<close> with the range checks of the parser.  An error is the left side of a
  sum, and \<open>None\<close> as the outcome of an operation means that it does not return (a cyclic chain of
  parents, a random generator that only gives zero); the invariants show that it does return.  Calls of
  SQLite and of the file system fail by a schedule that is part of the state and arbitrary in the
  theorems.  Loops are recursion on data or on a measure; \<open>walk_chain\<close> and \<open>parent_walk\<close>, which may
  not end, are \<^theory_text>\<open>partial_function\<close>s, and no definition has fuel.

  \<^bold>\<open>Parameters and their laws.\<close>  zlib (\<open>zlib_ok\<close>: what was compressed is read back), the JSON library
  (\<open>json_ok\<close>), the orders of hash tables, SQLite's file format and the archive library
  (\<open>package_env_ok\<close>), the clock, random numbers, the result of an out-of-range conversion of a float,
  the game (emptying, filling and reading the editor; nothing is assumed of it), trimming of input,
  the identifier of the level, the measured times of the automated tests.  Each has a concrete instance in the witnesses.

  \<^bold>\<open>Threads.\<close>  A job runs as one step, as the worker's mutex makes it; posted jobs and queued callbacks run
  in any order, and user events come at any time, also where the screen would not offer the
  button.  The safety properties hold for all these runs.

  \<^bold>\<open>Not modelled.\<close>  The layout, fonts and nodes of popups and rows, log lines, closing animations and
  resuming the pause menu; \<open>formatTimestamp\<close> and the printing of a double (C library and fmt, which
  are parameters); SQLite itself (third-party source in \<open>src/sqlite\<close>), of which the statements used
  are modelled; level identifiers, which another mod assigns.
\<close>

end
